(* ===== verification/Mqtt_Prelude.thy ===== *)
theory Mqtt_Prelude
  imports Main "HOL-Library.Word" "HOL-Library.AList"
begin

unbundle bit_operations_syntax

text \<open>
  Shared vocabulary of the development: the machine types, Rust's \<open>Result\<close> as a sum,
  \<open>std::io::Error\<close>, hash maps as association lists with distinct keys, Rust strings as
  UTF-8 byte lists, and the lemmas on words, lists and maps that the components share.
\<close>

section \<open>Machine types, strings and errors\<close>

type_synonym u8 = "8 word"
type_synonym u16 = "16 word"
type_synonym u32 = "32 word"

text \<open>A Rust \<open>String\<close> is a byte vector whose contents are valid UTF-8.\<close>

type_synonym rstring = "u8 list"

definition ascii :: "string \<Rightarrow> rstring" where
  "ascii s = map of_char s"

datatype error_kind = InvalidData | Other

datatype io_error = IoError error_kind string

text \<open>The \<open>?\<close> operator: an error leaves the function, a value goes on.\<close>

definition ebind :: "'e + 'a \<Rightarrow> ('a \<Rightarrow> 'e + 'b) \<Rightarrow> 'e + 'b" where
  "ebind x f = (case x of Inl e \<Rightarrow> Inl e | Inr a \<Rightarrow> f a)"

lemma ebind_simps [simp]:
  "ebind (Inl e) f = Inl e"
  "ebind (Inr a) f = f a"
  by (simp_all add: ebind_def)

lemma ebind_eq_Inr_iff: "ebind x f = Inr b \<longleftrightarrow> (\<exists>a. x = Inr a \<and> f a = Inr b)"
  by (cases x) auto

lemma ebind_InrE:
  assumes "ebind x f = Inr b"
  obtains a where "x = Inr a" and "f a = Inr b"
  using assms by (auto simp: ebind_eq_Inr_iff)

lemma ebind_cong [fundef_cong]:
  "x = y \<Longrightarrow> (\<And>a. y = Inr a \<Longrightarrow> f a = g a) \<Longrightarrow> ebind x f = ebind y g"
  by (cases y) auto

section \<open>Lemma collections\<close>

named_theorems reader_simps \<open>one step of the byte reader on a reader in split form\<close>
named_theorems wf_intros \<open>introduction rules of the well-formedness invariants\<close>
named_theorems hm_simps \<open>lookups in hash maps\<close>

section \<open>Bits and bytes\<close>

lemma bit_int_ff [simp]: "bit (255 :: int) n \<longleftrightarrow> n < 8"
proof -
  have "(255 :: int) = mask 8" by (simp add: mask_eq_exp_minus_1)
  then show ?thesis by (simp only: bit_mask_iff) auto
qed

lemma bit_nat_ff [simp]: "bit (255 :: nat) n \<longleftrightarrow> n < 8"
proof -
  have "(255 :: nat) = mask 8" by (simp add: mask_eq_exp_minus_1)
  then show ?thesis by (simp only: bit_mask_iff) auto
qed

text \<open>A big-endian \<open>u16\<close> is its high byte and its low byte.\<close>

lemma u16_split [simp]:
  "push_bit 8 (ucast (ucast (drop_bit 8 x) :: u8)) OR ucast (ucast (x AND 0xff) :: u8) = (x :: u16)"
  by (rule bit_word_eqI) (auto simp: bit_simps)

lemma or_push_bit_nat: "a < 2 ^ k \<Longrightarrow> a OR push_bit k b = a + 2 ^ k * (b :: nat)"
proof -
  assume a: "a < 2 ^ k"
  have "a AND push_bit k b = 0"
  proof (rule bit_eqI)
    fix n
    have "k \<le> n \<Longrightarrow> \<not> bit a n"
      using a by (metis bit_take_bit_iff leD take_bit_nat_eq_self)
    then show "bit (a AND push_bit k b) n \<longleftrightarrow> bit 0 n"
      by (auto simp: bit_simps)
  qed
  then have "a OR push_bit k b = a + push_bit k b" by (rule disjunctive_add_eq_or [symmetric])
  then show ?thesis by (simp add: push_bit_eq_mult)
qed

lemma and_7f_nat: "(x :: nat) AND 0x7F = x mod 128"
proof -
  have "x AND mask 7 = take_bit 7 x" by (simp only: take_bit_eq_mask)
  then show ?thesis by (simp add: mask_eq_exp_minus_1 take_bit_eq_mod)
qed

lemma u8_less: "unat (x :: u8) < 256"
  using unsigned_less [of x] by simp

text \<open>The continuation bit of a length byte.\<close>

lemma bit_int_128: "bit (128 :: int) n \<longleftrightarrow> n = 7"
proof -
  have "(128 :: int) = 2 ^ 7" by simp
  then show ?thesis by (simp only: bit_exp_iff) auto
qed

lemma bit_7_u8: "bit (b :: u8) 7 \<longleftrightarrow> 128 \<le> unat b"
proof -
  have "bit (unat b) 7 \<longleftrightarrow> bit b 7" by (simp add: bit_unsigned_iff)
  then have "bit b 7 \<longleftrightarrow> odd (unat b div 128)" by (simp add: bit_iff_odd [of "unat b"])
  also have "\<dots> \<longleftrightarrow> 128 \<le> unat b"
  proof (cases "128 \<le> unat b")
    case True
    then have "unat b div 128 = 1" using u8_less [of b] by (intro div_nat_eqI) auto
    with True show ?thesis by simp
  qed simp
  finally show ?thesis .
qed

lemma cont_bit: "(b :: u8) AND 0x80 = 0x80 \<longleftrightarrow> 128 \<le> unat b"
proof -
  have "b AND 0x80 = 0x80 \<longleftrightarrow> bit b 7"
  proof
    assume "b AND 0x80 = 0x80"
    then have "bit (b AND 0x80) 7" by simp
    then show "bit b 7" by (simp only: bit_and_iff)
  next
    assume "bit b 7"
    then show "b AND 0x80 = 0x80"
      by (auto intro!: bit_word_eqI simp: bit_simps bit_int_128)
  qed
  then show ?thesis by (simp add: bit_7_u8)
qed

lemma u8_forall: "(\<And>i. i < 256 \<Longrightarrow> P (word_of_nat i)) \<Longrightarrow> P (b :: u8)"
proof -
  assume "\<And>i. i < 256 \<Longrightarrow> P (word_of_nat i)"
  from this [OF u8_less [of b]] show "P b" by simp
qed

section \<open>Operations with state and errors\<close>

text \<open>
  A method with \<open>&mut self\<close> that returns a \<open>Result\<close>: it maps the state before to its
  result and the state after, which an error does not roll back. A panic (an \<open>unwrap\<close> of
  \<open>None\<close>, an arithmetic overflow where it is checked) is a failure of its own.
\<close>

datatype 'e failure = Failed 'e | Panicked

type_synonym ('s, 'e, 'a) act = "'s \<Rightarrow> ('e failure + 'a) \<times> 's"

definition act_return :: "'a \<Rightarrow> ('s, 'e, 'a) act" where
  "act_return a = (\<lambda>s. (Inr a, s))"

definition act_fail :: "'e failure \<Rightarrow> ('s, 'e, 'a) act" where
  "act_fail e = (\<lambda>s. (Inl e, s))"

definition act_bind :: "('s, 'e, 'a) act \<Rightarrow> ('a \<Rightarrow> ('s, 'e, 'b) act) \<Rightarrow> ('s, 'e, 'b) act" where
  "act_bind m f = (\<lambda>s. case m s of (Inl e, s') \<Rightarrow> (Inl e, s') | (Inr a, s') \<Rightarrow> f a s')"

text \<open>\<open>match m { Ok(a) => f(a), Err(e) => g(e) }\<close>\<close>

definition act_match :: "('s, 'e, 'a) act \<Rightarrow> ('a \<Rightarrow> ('s, 'd, 'b) act) \<Rightarrow> ('e failure \<Rightarrow> ('s, 'd, 'b) act) \<Rightarrow> ('s, 'd, 'b) act" where
  "act_match m f g = (\<lambda>s. case m s of (Inl e, s') \<Rightarrow> g e s' | (Inr a, s') \<Rightarrow> f a s')"

definition act_get :: "('s \<Rightarrow> 'a) \<Rightarrow> ('s, 'e, 'a) act" where
  "act_get f = (\<lambda>s. (Inr (f s), s))"

definition act_modify :: "('s \<Rightarrow> 's) \<Rightarrow> ('s, 'e, unit) act" where
  "act_modify f = (\<lambda>s. (Inr (), f s))"

text \<open>\<open>let r = m;\<close>: the \<open>Result\<close> as a value (a panic is no value), and a \<open>Result\<close> that is returned.\<close>

definition act_try :: "('s, 'e, 'a) act \<Rightarrow> ('s, 'd, 'e + 'a) act" where
  "act_try m = (\<lambda>s. case m s of
       (Inl (Failed e), s') \<Rightarrow> (Inr (Inl e), s')
     | (Inl Panicked, s') \<Rightarrow> (Inl Panicked, s')
     | (Inr a, s') \<Rightarrow> (Inr (Inr a), s'))"

definition act_result :: "'e + 'a \<Rightarrow> ('s, 'e, 'a) act" where
  "act_result r = (case r of Inl e \<Rightarrow> act_fail (Failed e) | Inr a \<Rightarrow> act_return a)"

text \<open>\<open>opt.unwrap()\<close>\<close>

definition act_unwrap :: "'a option \<Rightarrow> ('s, 'e, 'a) act" where
  "act_unwrap opt = (case opt of None \<Rightarrow> act_fail Panicked | Some a \<Rightarrow> act_return a)"

text \<open>\<open>for x in xs\<close> with a body that may fail.\<close>

fun act_for :: "'a list \<Rightarrow> ('a \<Rightarrow> ('s, 'e, unit) act) \<Rightarrow> ('s, 'e, unit) act" where
  "act_for [] f = act_return ()"
| "act_for (x # xs) f = act_bind (f x) (\<lambda>_. act_for xs f)"

lemma act_simps [simp]:
  "act_return a s = (Inr a, s)"
  "act_fail e s = (Inl e, s)"
  "act_get g s = (Inr (g s), s)"
  "act_modify h s = (Inr (), h s)"
  "act_unwrap None s = (Inl Panicked, s)"
  "act_unwrap (Some a) s = (Inr a, s)"
  by (simp_all add: act_return_def act_fail_def act_get_def act_modify_def act_unwrap_def)

lemma act_bind_app:
  "act_bind m f s = (case m s of (Inl e, s') \<Rightarrow> (Inl e, s') | (Inr a, s') \<Rightarrow> f a s')"
  by (simp add: act_bind_def)

lemma act_bind_simps [simp]:
  "m s = (Inl e, s') \<Longrightarrow> act_bind m f s = (Inl e, s')"
  "m s = (Inr a, s') \<Longrightarrow> act_bind m f s = f a s'"
  by (simp_all add: act_bind_def)

lemma act_match_simps [simp]:
  "m s = (Inl e, s') \<Longrightarrow> act_match m f g s = g e s'"
  "m s = (Inr a, s') \<Longrightarrow> act_match m f g s = f a s'"
  by (simp_all add: act_match_def)

lemma act_try_simps [simp]:
  "m s = (Inl (Failed e), s') \<Longrightarrow> act_try m s = (Inr (Inl e), s')"
  "m s = (Inl Panicked, s') \<Longrightarrow> act_try m s = (Inl Panicked, s')"
  "m s = (Inr a, s') \<Longrightarrow> act_try m s = (Inr (Inr a), s')"
  by (simp_all add: act_try_def)

lemma act_try_return [simp]: "act_try (act_return a) s = (Inr (Inr a), s)"
  by (simp add: act_try_def)

lemma act_result_simps [simp]:
  "act_result (Inl e) = act_fail (Failed e)"
  "act_result (Inr a) = act_return a"
  by (simp_all add: act_result_def)

lemma act_bind_Inr:
  "act_bind m f s = (Inr b, s'') \<longleftrightarrow> (\<exists>a s'. m s = (Inr a, s') \<and> f a s' = (Inr b, s''))"
  by (auto simp: act_bind_def split: prod.splits sum.splits)

lemma act_bind_Inl:
  "act_bind m f s = (Inl e, s'') \<longleftrightarrow>
     m s = (Inl e, s'') \<or> (\<exists>a s'. m s = (Inr a, s') \<and> f a s' = (Inl e, s''))"
  by (auto simp: act_bind_def split: prod.splits sum.splits)

text \<open>
  A triple: from a state with \<open>P\<close> the operation ends with \<open>Q\<close> of its value and state, or
  with \<open>E\<close> of its error and state.
\<close>

definition act_hoare :: "('s \<Rightarrow> bool) \<Rightarrow> ('s, 'e, 'a) act \<Rightarrow> ('a \<Rightarrow> 's \<Rightarrow> bool) \<Rightarrow> ('e failure \<Rightarrow> 's \<Rightarrow> bool) \<Rightarrow> bool" where
  "act_hoare P m Q E \<longleftrightarrow>
     (\<forall>s. P s \<longrightarrow> (case m s of (Inl e, s') \<Rightarrow> E e s' | (Inr a, s') \<Rightarrow> Q a s'))"

named_theorems act_rules \<open>triples of the operations a component is built from\<close>

lemma act_hoare_bind:
  "act_hoare P m R E \<Longrightarrow> (\<And>a. act_hoare (R a) (f a) Q E) \<Longrightarrow> act_hoare P (act_bind m f) Q E"
  unfolding act_hoare_def act_bind_def by (fastforce split: prod.splits sum.splits)

lemma act_hoare_return: "(\<And>s. P s \<Longrightarrow> Q a s) \<Longrightarrow> act_hoare P (act_return a) Q E"
  by (simp add: act_hoare_def)

lemma act_hoare_modify: "(\<And>s. P s \<Longrightarrow> Q () (f s)) \<Longrightarrow> act_hoare P (act_modify f) Q E"
  by (simp add: act_hoare_def)

lemma act_hoare_get: "(\<And>s. P s \<Longrightarrow> Q (f s) s) \<Longrightarrow> act_hoare P (act_get f) Q E"
  by (simp add: act_hoare_def)

lemma act_hoare_if:
  "(b \<Longrightarrow> act_hoare P m Q E) \<Longrightarrow> (\<not> b \<Longrightarrow> act_hoare P m' Q E) \<Longrightarrow> act_hoare P (if b then m else m') Q E"
  by simp

lemma act_hoare_weaken:
  "act_hoare P' m Q' E' \<Longrightarrow> (\<And>s. P s \<Longrightarrow> P' s) \<Longrightarrow> (\<And>a s. Q' a s \<Longrightarrow> Q a s) \<Longrightarrow>
   (\<And>e s. E' e s \<Longrightarrow> E e s) \<Longrightarrow> act_hoare P m Q E"
  unfolding act_hoare_def by (fastforce split: prod.splits sum.splits)

lemma act_hoare_for:
  "(\<And>x. x \<in> set xs \<Longrightarrow> act_hoare P (f x) (\<lambda>_. P) E) \<Longrightarrow> act_hoare P (act_for xs f) (\<lambda>_. P) E"
  by (induction xs) (auto intro!: act_hoare_return act_hoare_bind)

lemma act_hoare_pure: "(A \<Longrightarrow> act_hoare P m Q E) \<Longrightarrow> act_hoare (\<lambda>s. A \<and> P s) m Q E"
  by (auto simp: act_hoare_def)

lemma act_hoare_ex:
  assumes "\<And>x. act_hoare (P x) m Q E"
  shows "act_hoare (\<lambda>s. \<exists>x. P x s) m Q E"
  unfolding act_hoare_def
proof (intro allI impI)
  fix s assume "\<exists>x. P x s"
  then obtain x where "P x s" ..
  with assms [of x] show "case m s of (Inl e, s') \<Rightarrow> E e s' | (Inr a, s') \<Rightarrow> Q a s'"
    by (simp add: act_hoare_def)
qed

lemma act_hoare_match:
  "act_hoare P m R E' \<Longrightarrow> (\<And>a. act_hoare (R a) (f a) Q E) \<Longrightarrow> (\<And>e. act_hoare (E' e) (g e) Q E) \<Longrightarrow>
   act_hoare P (act_match m f g) Q E"
  unfolding act_hoare_def act_match_def by (fastforce split: prod.splits sum.splits)

lemma act_hoare_fail: "(\<And>s. P s \<Longrightarrow> E e s) \<Longrightarrow> act_hoare P (act_fail e) Q E"
  by (simp add: act_hoare_def)

lemma act_hoare_try:
  assumes "act_hoare P m (\<lambda>a. Q (Inr a)) E'"
    and "\<And>e s. E' (Failed e) s \<Longrightarrow> Q (Inl e) s" and "\<And>s. E' Panicked s \<Longrightarrow> E Panicked s"
  shows "act_hoare P (act_try m) Q E"
  unfolding act_hoare_def
proof (intro allI impI)
  fix s assume P: "P s"
  obtain r s' where ms: "m s = (r, s')" by (cases "m s")
  show "case act_try m s of (Inl e, s') \<Rightarrow> E e s' | (Inr a, s') \<Rightarrow> Q a s'"
  proof (cases r)
    case (Inl f)
    with assms(1) P ms have "E' f s'" by (auto simp: act_hoare_def)
    with Inl ms assms(2,3) show ?thesis by (cases f) simp_all
  next
    case (Inr a)
    with assms(1) P ms show ?thesis by (auto simp: act_hoare_def)
  qed
qed

lemma act_hoare_unwrap: "act_hoare (\<lambda>s. opt \<noteq> None \<and> P s) (act_unwrap opt) (\<lambda>a s. opt = Some a \<and> P s) E"
  by (cases opt) (auto simp: act_hoare_def)

lemma act_hoareD:
  "act_hoare P m Q E \<Longrightarrow> P s \<Longrightarrow> m s = (Inr a, s') \<Longrightarrow> Q a s'"
  "act_hoare P m Q E \<Longrightarrow> P s \<Longrightarrow> m s = (Inl e, s') \<Longrightarrow> E e s'"
  unfolding act_hoare_def by (auto split: prod.splits sum.splits)

lemmas act_hoare_rules = act_hoare_bind act_hoare_return act_hoare_modify act_hoare_get act_hoare_if act_hoare_for

section \<open>Hash maps\<close>

text \<open>
  A \<open>HashMap\<close> is an association list with distinct keys. Its iteration order is
  unspecified; the model iterates in list order, and the properties are stated on lookups.
\<close>

type_synonym ('k, 'v) hmap = "('k \<times> 'v) list"

definition hm_insert :: "'k \<Rightarrow> 'v \<Rightarrow> ('k, 'v) hmap \<Rightarrow> ('k, 'v) hmap" where
  "hm_insert k v m = AList.update k v m"

definition hm_remove :: "'k \<Rightarrow> ('k, 'v) hmap \<Rightarrow> ('k, 'v) hmap" where
  "hm_remove k m = AList.delete k m"

definition hm_wf :: "('k, 'v) hmap \<Rightarrow> bool" where
  "hm_wf m \<longleftrightarrow> distinct (map fst m)"

lemma map_of_hm_insert [simp, hm_simps]: "map_of (hm_insert k v m) = (map_of m)(k \<mapsto> v)"
  by (simp add: hm_insert_def update_conv')

lemma map_of_hm_remove [simp, hm_simps]: "map_of (hm_remove k m) = (map_of m)(k := None)"
  by (simp add: hm_remove_def delete_conv')

lemma hm_wf_Nil [simp, wf_intros]: "hm_wf []"
  by (simp add: hm_wf_def)

lemma hm_wf_insert [simp, wf_intros]: "hm_wf m \<Longrightarrow> hm_wf (hm_insert k v m)"
  by (simp add: hm_wf_def hm_insert_def distinct_update)

lemma hm_wf_remove [simp, wf_intros]: "hm_wf m \<Longrightarrow> hm_wf (hm_remove k m)"
  by (simp add: hm_wf_def hm_remove_def distinct_delete)

text \<open>The interface the program uses of a hash map, and what follows from its laws.\<close>

locale hash_map =
  fixes hget :: "'m \<Rightarrow> 'k \<Rightarrow> 'v option"
    and hempty :: 'm
    and hput :: "'k \<Rightarrow> 'v \<Rightarrow> 'm \<Rightarrow> 'm"
    and hdel :: "'k \<Rightarrow> 'm \<Rightarrow> 'm"
    and hlen :: "'m \<Rightarrow> nat"
    and hinv :: "'m \<Rightarrow> bool"
  assumes get_empty: "hget hempty k = None"
    and get_put: "hget (hput k v m) = (hget m)(k \<mapsto> v)"
    and get_del: "hget (hdel k m) = (hget m)(k := None)"
    and inv_empty: "hinv hempty"
    and inv_put: "hinv m \<Longrightarrow> hinv (hput k v m)"
    and inv_del: "hinv m \<Longrightarrow> hinv (hdel k m)"
    and fin: "finite (dom (hget m))"
    and len: "hinv m \<Longrightarrow> hlen m = card (dom (hget m))"
begin

lemma len_put: "hinv m \<Longrightarrow> hlen (hput k v m) = (if hget m k = None then Suc (hlen m) else hlen m)"
  using fin [of m] by (auto simp: len inv_put get_put card_insert_if domIff)

lemma len_del: "hinv m \<Longrightarrow> hlen (hdel k m) = (if hget m k = None then hlen m else hlen m - 1)"
  using fin [of m] by (auto simp: len inv_del get_del card_Diff_singleton_if)

lemma len_pos: "hinv m \<Longrightarrow> hget m k = Some v \<Longrightarrow> 0 < hlen m"
  using fin [of m] by (auto simp: len card_gt_0_iff)

lemma len_0: "hinv m \<Longrightarrow> hlen m = 0 \<longleftrightarrow> (\<forall>k. hget m k = None)"
  using fin [of m] by (auto simp: len dom_def)

lemma del_put: "hget (hdel k (hput k v m)) = (hget m)(k := None)"
  by (simp add: get_put get_del)

end

interpretation hm: hash_map map_of "[]" hm_insert hm_remove length hm_wf
proof unfold_locales
  fix m :: "('a \<times> 'b) list"
  assume "hm_wf m"
  then show "length m = card (dom (map_of m))"
    by (metis distinct_card dom_map_of_conv_image_fst hm_wf_def length_map list.set_map)
qed (auto simp: finite_dom_map_of)

end
