(* ===== verification/Msg_Length.thy ===== *)
theory Msg_Length
  imports Mqtt_Prelude
begin

text \<open>
  \<open>src/messages/length.rs\<close>: the variable-length remaining-length field. \<open>usize\<close> is
  \<open>nat\<close>; the checked reader and the encoder stay far below \<open>2 ^ 64\<close>, the unchecked
  \<open>read_size\<close> writes its truncation to 64 bits out and returns \<open>None\<close> where the code
  panics (an index out of range, or a shift by 64 or more with overflow checks).
\<close>

definition MAX_LENGTH :: nat where
  "MAX_LENGTH = 268435455"

section \<open>Definitions\<close>

function read_size_loop :: "u8 list \<Rightarrow> nat \<Rightarrow> nat \<Rightarrow> nat \<Rightarrow> (nat \<times> nat) option" where
  "read_size_loop buf idx lensize len =
     (if \<not> idx < length buf then None
      else if (buf ! idx) AND 0x80 = 0x80 then
        (if \<not> idx + 1 < length buf \<or> 64 \<le> 7 * lensize then None
         else read_size_loop buf (idx + 1) (lensize + 1)
                (len OR take_bit 64 (push_bit (7 * lensize) (unat (buf ! (idx + 1)) AND 0x7F))))
      else Some (len, lensize))"
  by pat_completeness auto
termination
  by (relation "measure (\<lambda>(buf, idx, _). length buf - idx)") auto

declare read_size_loop.simps [simp del]

definition read_size :: "u8 list \<Rightarrow> (nat \<times> nat) option" where
  "read_size buf =
     (if buf = [] then None else read_size_loop buf 0 1 (unat (buf ! 0) AND 0x7F))"

function read_size_check_loop :: "u8 list \<Rightarrow> nat \<Rightarrow> nat \<Rightarrow> nat \<Rightarrow> unit + (nat \<times> nat) option" where
  "read_size_check_loop buf idx lensize len =
     (if idx < length buf \<and> (buf ! idx) AND 0x80 = 0x80 then
        let idx = idx + 1 in
        if length buf < idx + 1 then Inr None
        else
          let len = len OR push_bit (7 * lensize) (unat (buf ! idx) AND 0x7F);
              lensize = lensize + 1 in
          if 4 < lensize \<or> (lensize = 4 \<and> (buf ! idx) AND 0x80 = 0x80) then Inl ()
          else read_size_check_loop buf idx lensize len
      else Inr (Some (len, lensize)))"
  by pat_completeness auto
termination
  by (relation "measure (\<lambda>(buf, idx, _). length buf - idx)") auto

declare read_size_check_loop.simps [simp del]

definition read_size_check :: "u8 list \<Rightarrow> unit + (nat \<times> nat) option" where
  "read_size_check buf =
     (if length buf < 0 + 1 then Inr None
      else read_size_check_loop buf 0 1 (unat (buf ! 0) AND 0x7F))"

fun encode_length :: "nat \<Rightarrow> u8 list" where
  "encode_length n =
     (let encoded_byte = n mod 128;
          n = n div 128;
          encoded_byte = (if 0 < n then encoded_byte OR 128 else encoded_byte)
      in word_of_nat (encoded_byte AND 0xff) # (if n = 0 then [] else encode_length n))"

declare encode_length.simps [simp del]

section \<open>The field as the protocol describes it\<close>

text \<open>
  The reference: little-endian base 128, at most \<open>k\<close> bytes, the top bit of a byte set
  where another byte follows. \<open>Inl ()\<close> is a field that is too long, \<open>Inr None\<close> one that
  is cut off.
\<close>

fun varint_spec :: "nat \<Rightarrow> u8 list \<Rightarrow> unit + (nat \<times> nat) option" where
  "varint_spec 0 bs = Inl ()"
| "varint_spec (Suc k) [] = Inr None"
| "varint_spec (Suc k) (b # bs) =
     (if unat b < 128 then Inr (Some (unat b, 1))
      else case varint_spec k bs of
        Inl e \<Rightarrow> Inl e
      | Inr None \<Rightarrow> Inr None
      | Inr (Some (n, l)) \<Rightarrow> Inr (Some (unat b mod 128 + 128 * n, Suc l)))"

lemma read_size_check_loop_spec:
  "idx < length buf \<Longrightarrow> lensize = Suc idx \<Longrightarrow> lensize \<le> 4 \<Longrightarrow> len < 2 ^ (7 * lensize) \<Longrightarrow>
   (lensize = 4 \<longrightarrow> unat (buf ! idx) < 128) \<Longrightarrow>
   read_size_check_loop buf idx lensize len =
     (if unat (buf ! idx) < 128 then Inr (Some (len, lensize))
      else case varint_spec (4 - lensize) (drop (Suc idx) buf) of
        Inl e \<Rightarrow> Inl e
      | Inr None \<Rightarrow> Inr None
      | Inr (Some (n, l)) \<Rightarrow> Inr (Some (len + 2 ^ (7 * lensize) * n, lensize + l)))"
proof (induction "length buf - idx" arbitrary: idx lensize len rule: less_induct)
  case less
  show ?case
  proof (cases "unat (buf ! idx) < 128")
    case True
    then show ?thesis by (subst read_size_check_loop.simps) (simp add: cont_bit)
  next
    case False
    then have cont: "(buf ! idx) AND 0x80 = 0x80" by (simp add: cont_bit)
    have "lensize \<noteq> 4" using less.prems(5) False by blast
    then have k: "4 - lensize = Suc (3 - lensize)" using less.prems(3) by linarith
    show ?thesis
    proof (cases "Suc idx < length buf")
      case False
      then have "varint_spec (4 - lensize) (drop (Suc idx) buf) = Inr None" by (simp add: k)
      then show ?thesis using \<open>\<not> unat (buf ! idx) < 128\<close> cont less.prems False
        by (subst read_size_check_loop.simps) (simp add: Let_def)
    next
      case True
      let ?b = "buf ! Suc idx"
      have d: "drop (Suc idx) buf = ?b # drop (Suc (Suc idx)) buf"
        using True by (simp add: Cons_nth_drop_Suc)
      have or: "len OR push_bit (7 * lensize) (unat ?b AND 0x7F) = len + 2 ^ (7 * lensize) * (unat ?b mod 128)"
        using less.prems by (simp add: or_push_bit_nat and_7f_nat)
      have lt: "len + 2 ^ (7 * lensize) * (unat ?b mod 128) < 2 ^ (7 * Suc lensize)"
      proof -
        have "2 ^ (7 * lensize) * (unat ?b mod 128) \<le> 2 ^ (7 * lensize) * (127::nat)"
          by (intro mult_le_mono2) simp
        moreover have "2 ^ (7 * Suc lensize) = 2 ^ (7 * lensize) * (128 :: nat)" by (simp add: power_add)
        ultimately show ?thesis using less.prems(4) by linarith
      qed
      show ?thesis
      proof (cases "4 < Suc lensize \<or> Suc lensize = 4 \<and> 128 \<le> unat ?b")
        case True
        then show ?thesis using cont \<open>\<not> unat (buf ! idx) < 128\<close> less.prems \<open>Suc idx < length buf\<close> k d
          by (subst read_size_check_loop.simps) (auto simp: cont_bit Let_def)
      next
        case ok: False
        have "read_size_check_loop buf idx lensize len =
          read_size_check_loop buf (Suc idx) (Suc lensize) (len + 2 ^ (7 * lensize) * (unat ?b mod 128))"
          using cont less.prems(1) \<open>Suc idx < length buf\<close> ok
          by (subst read_size_check_loop.simps) (auto simp: cont_bit Let_def or simp del: push_bit_and)
        also have "\<dots> = (if unat ?b < 128 then Inr (Some (len + 2 ^ (7 * lensize) * (unat ?b mod 128), Suc lensize))
          else case varint_spec (4 - Suc lensize) (drop (Suc (Suc idx)) buf) of
            Inl e \<Rightarrow> Inl e | Inr None \<Rightarrow> Inr None
          | Inr (Some (n, l)) \<Rightarrow>
              Inr (Some (len + 2 ^ (7 * lensize) * (unat ?b mod 128) + 2 ^ (7 * Suc lensize) * n, Suc lensize + l)))"
          using less.prems(1-3) \<open>Suc idx < length buf\<close> ok lt by (intro less.hyps) auto
        finally show ?thesis
          using \<open>\<not> unat (buf ! idx) < 128\<close> k d
          by (auto simp: power_add algebra_simps split: sum.splits option.splits)
      qed
    qed
  qed
qed

lemmas varint_spec_4 = varint_spec.simps(3) [of 3, simplified]

lemma read_size_check_spec: "read_size_check buf = varint_spec 4 buf"
proof (cases buf)
  case Nil
  then show ?thesis by (simp add: read_size_check_def numeral_eq_Suc)
next
  case (Cons b bs)
  then show ?thesis
    by (auto simp: read_size_check_def read_size_check_loop_spec and_7f_nat varint_spec_4
        split: sum.splits option.splits)
qed


lemma varint_spec_bounds:
  "varint_spec k bs = Inr (Some (n, l)) \<Longrightarrow> n < 128 ^ k \<and> 1 \<le> l \<and> l \<le> k \<and> l \<le> length bs"
proof (induction k bs arbitrary: n l rule: varint_spec.induct)
  case (3 k b bs)
  show ?case
  proof (cases "unat b < 128")
    case True
    then show ?thesis using "3.prems" by (auto intro: less_le_trans [of _ 128])
  next
    case False
    then obtain n' l' where rec: "varint_spec k bs = Inr (Some (n', l'))"
      and n: "n = unat b mod 128 + 128 * n'" and l: "l = Suc l'"
      using "3.prems" by (auto split: sum.splits option.splits)
    have "n' < 128 ^ k" "1 \<le> l'" "l' \<le> k" "l' \<le> length bs"
      using "3.IH" [OF False rec] by auto
    moreover have "unat b mod 128 < 128" by simp
    ultimately show ?thesis unfolding n l by simp
  qed
qed auto

lemma varint_spec_append:
  "varint_spec k bs = Inr (Some v) \<Longrightarrow> varint_spec k (bs @ xs) = Inr (Some v)"
  by (induction k bs arbitrary: v rule: varint_spec.induct) (auto split: if_splits sum.splits option.splits)

lemma varint_spec_err_append:
  "varint_spec k bs = Inl e \<Longrightarrow> varint_spec k (bs @ xs) = Inl e"
  by (induction k bs rule: varint_spec.induct) (auto split: if_splits sum.splits option.splits)

lemma encode_length_small: "n < 128 \<Longrightarrow> encode_length n = [word_of_nat n]"
proof -
  assume n: "n < 128"
  then have "n AND 0xff = n"
    using take_bit_nat_eq_self [of n 8] by (simp add: take_bit_eq_mask mask_eq_exp_minus_1)
  with n show ?thesis by (subst encode_length.simps) simp
qed

lemma encode_length_large:
  "128 \<le> n \<Longrightarrow> encode_length n = word_of_nat (n mod 128 + 128) # encode_length (n div 128)"
proof -
  assume n: "128 \<le> n"
  have or: "(n mod 128) OR 128 = n mod 128 + 128"
    using or_push_bit_nat [of "n mod 128" 7 1] by (simp add: push_bit_eq_mult)
  have "(n mod 128 + 128) AND 0xff = n mod 128 + 128"
    using take_bit_nat_eq_self [of "n mod 128 + 128" 8]
    by (simp add: take_bit_eq_mask mask_eq_exp_minus_1)
  with n or show ?thesis by (subst encode_length.simps) (simp add: Let_def)
qed

lemma encode_length_cont_byte: "unat (word_of_nat (n mod 128 + 128) :: u8) = n mod 128 + 128"
proof -
  have "n mod 128 < 128" by simp
  then have "n mod 128 + 128 < 256" by linarith
  then show ?thesis by (simp add: unsigned_of_nat take_bit_nat_eq_self del: of_nat_add)
qed

lemma varint_spec_encode:
  "0 < k \<Longrightarrow> n < 128 ^ k \<Longrightarrow>
   varint_spec k (encode_length n @ rest) = Inr (Some (n, length (encode_length n)))"
proof (induction n arbitrary: k rule: encode_length.induct)
  case (1 n)
  obtain j where k: "k = Suc j" using "1.prems" by (cases k) auto
  show ?case
  proof (cases "n < 128")
    case True
    then show ?thesis by (simp add: encode_length_small k unsigned_of_nat take_bit_nat_eq_self)
  next
    case False
    have "0 < j" using False "1.prems" by (cases j) (auto simp: k)
    have "n div 128 < 128 ^ j" using "1.prems" by (simp add: k less_mult_imp_div_less)
    then have "varint_spec j (encode_length (n div 128) @ rest) =
        Inr (Some (n div 128, length (encode_length (n div 128))))"
      using False \<open>0 < j\<close> by (intro "1.IH") auto
    then show ?thesis using False
      by (simp add: encode_length_large k encode_length_cont_byte del: of_nat_add)
  qed
qed

lemma read_size_check_encode:
  "n \<le> MAX_LENGTH \<Longrightarrow> read_size_check (encode_length n @ rest) = Inr (Some (n, length (encode_length n)))"
  unfolding read_size_check_spec by (rule varint_spec_encode) (auto simp: MAX_LENGTH_def)

lemma read_size_check_bounds:
  "read_size_check buf = Inr (Some (n, l)) \<Longrightarrow> n \<le> MAX_LENGTH \<and> 1 \<le> l \<and> l \<le> 4 \<and> l \<le> length buf"
  using varint_spec_bounds [of 4 buf n l] by (simp add: read_size_check_spec MAX_LENGTH_def)

section \<open>Properties\<close>

text \<open>C36: the checked reader of the length field is the protocol's definition of it: at most four
  little-endian base 128 digits, the top bit of a byte set where another follows; more is an error, a field
  that is cut off asks for more bytes.\<close>

theorem read_size_check_is_varint: "read_size_check buf = varint_spec 4 buf"
  by (rule read_size_check_spec)

text \<open>The length the encoder writes is the length the decoder reads, whatever follows, for every length
  the protocol allows.\<close>

theorem length_round_trip:
  assumes "n \<le> MAX_LENGTH"
  shows "read_size_check (encode_length n @ rest) = Inr (Some (n, length (encode_length n)))"
  using assms by (rule read_size_check_encode)

lemma length_round_trip_witness:
  "read_size_check (encode_length 321 @ [9]) = Inr (Some (321, length (encode_length 321)))"
  by (rule length_round_trip) (simp add: MAX_LENGTH_def)

end
