(* ===== verification/Msg_Types.thy ===== *)
theory Msg_Types
  imports Msg_Length
begin

text \<open>
  The data of \<open>src/messages/mod.rs\<close>: the packet types, return codes and message structs,
  their constructors and setters, and \<open>to_bytes\<close> of the messages the server sends. Getters
  are the record selectors.
\<close>

section \<open>Packet types and return codes\<close>

datatype mqtt_message_type =
    Type_Connect | Type_ConnAck | Type_Publish | Type_PubAck | Type_PubRec | Type_PubRel | Type_PubComp
  | Type_Subscribe | Type_SubAck | Type_Unsubscribe | Type_UnsubAck | Type_PingReq | Type_PingResp
  | Type_Disconnect

fun message_type_code :: "mqtt_message_type \<Rightarrow> int" where
  "message_type_code Type_Connect = 1"
| "message_type_code Type_ConnAck = 2"
| "message_type_code Type_Publish = 3"
| "message_type_code Type_PubAck = 4"
| "message_type_code Type_PubRec = 5"
| "message_type_code Type_PubRel = 6"
| "message_type_code Type_PubComp = 7"
| "message_type_code Type_Subscribe = 8"
| "message_type_code Type_SubAck = 9"
| "message_type_code Type_Unsubscribe = 10"
| "message_type_code Type_UnsubAck = 11"
| "message_type_code Type_PingReq = 12"
| "message_type_code Type_PingResp = 13"
| "message_type_code Type_Disconnect = 14"

definition message_type_try_from :: "int \<Rightarrow> unit + mqtt_message_type" where
  "message_type_try_from v =
     (if v = message_type_code Type_Connect then Inr Type_Connect
      else if v = message_type_code Type_ConnAck then Inr Type_ConnAck
      else if v = message_type_code Type_Publish then Inr Type_Publish
      else if v = message_type_code Type_PubAck then Inr Type_PubAck
      else if v = message_type_code Type_PubRec then Inr Type_PubRec
      else if v = message_type_code Type_PubRel then Inr Type_PubRel
      else if v = message_type_code Type_PubComp then Inr Type_PubComp
      else if v = message_type_code Type_Subscribe then Inr Type_Subscribe
      else if v = message_type_code Type_SubAck then Inr Type_SubAck
      else if v = message_type_code Type_Unsubscribe then Inr Type_Unsubscribe
      else if v = message_type_code Type_UnsubAck then Inr Type_UnsubAck
      else if v = message_type_code Type_PingReq then Inr Type_PingReq
      else if v = message_type_code Type_PingResp then Inr Type_PingResp
      else if v = message_type_code Type_Disconnect then Inr Type_Disconnect
      else Inl ())"

text \<open>\<open>(t as u8) << 4\<close>, the first byte of a packet before its flags.\<close>

definition type_byte :: "mqtt_message_type \<Rightarrow> u8" where
  "type_byte t = push_bit 4 (word_of_int (message_type_code t))"

datatype return_code =
    Accepted | UnacceptableVersion | IdentifierRejected | ServerUnavailable
  | BadUsernameOrPassword | NotAuthorized

fun return_code_u8 :: "return_code \<Rightarrow> u8" where
  "return_code_u8 Accepted = 0"
| "return_code_u8 UnacceptableVersion = 1"
| "return_code_u8 IdentifierRejected = 2"
| "return_code_u8 ServerUnavailable = 3"
| "return_code_u8 BadUsernameOrPassword = 4"
| "return_code_u8 NotAuthorized = 5"

datatype mqtt_qos = QOS0 | QOS1 | QOS2

fun qos_u8 :: "mqtt_qos \<Rightarrow> u8" where
  "qos_u8 QOS0 = 0"
| "qos_u8 QOS1 = 1"
| "qos_u8 QOS2 = 2"

definition MQTT311_VERSION :: u8 where
  "MQTT311_VERSION = 4"

section \<open>Messages\<close>

record connack =
  cack_return_code :: return_code
  cack_session_present :: bool

definition connack_new :: connack where
  "connack_new = \<lparr>cack_return_code = Accepted, cack_session_present = False\<rparr>"

definition connack_to_bytes :: "connack \<Rightarrow> u8 list" where
  "connack_to_bytes self =
     (let encoded = [type_byte Type_ConnAck, 2];
          flags = 0;
          flags = (if cack_session_present self then flags OR 1 else flags)
      in encoded @ [flags] @ [return_code_u8 (cack_return_code self)])"

record publish =
  pub_identifier :: u16
  pub_topic :: rstring
  pub_message :: "u8 list"
  pub_retain :: bool
  pub_dup :: bool
  pub_qos :: u8

definition publish_new :: publish where
  "publish_new = \<lparr>pub_identifier = 0, pub_topic = [], pub_message = [], pub_retain = False,
     pub_dup = False, pub_qos = 0\<rparr>"

definition publish_to_bytes :: "publish \<Rightarrow> u8 list" where
  "publish_to_bytes self =
     (let flags = type_byte Type_Publish;
          flags = (if pub_retain self then flags OR 1 else flags);
          (flags, id_size) =
            (if 0 < pub_qos self then (flags OR push_bit 1 (pub_qos self), 2) else (flags, 0));
          topiclen = length (pub_topic self);
          len = topiclen + length (pub_message self) + id_size + 2
      in [flags]
         @ encode_length len
         @ [word_of_nat (drop_bit 8 topiclen)]
         @ [word_of_nat (topiclen AND 0xff)]
         @ pub_topic self
         @ (if 0 < pub_qos self
            then [ucast (drop_bit 8 (pub_identifier self)), ucast (pub_identifier self AND 0xff)]
            else [])
         @ pub_message self)"

record subscribe =
  sub_identifier :: u16
  sub_topics :: "(rstring \<times> u8) list"

definition subscribe_new :: subscribe where
  "subscribe_new = \<lparr>sub_identifier = 0, sub_topics = []\<rparr>"

record suback =
  sack_identifier :: u16
  sack_response :: "u8 list"

definition suback_new :: suback where
  "suback_new = \<lparr>sack_identifier = 0, sack_response = []\<rparr>"

definition suback_add_response :: "u8 \<Rightarrow> suback \<Rightarrow> suback" where
  "suback_add_response response self = self\<lparr>sack_response := sack_response self @ [response]\<rparr>"

definition suback_to_bytes :: "suback \<Rightarrow> u8 list" where
  "suback_to_bytes self =
     (let len = 2 + length (sack_response self)
      in [type_byte Type_SubAck]
         @ encode_length len
         @ [ucast (drop_bit 8 (sack_identifier self))]
         @ [ucast (sack_identifier self AND 0xff)]
         @ sack_response self)"

definition pingresp_to_bytes :: "u8 list" where
  "pingresp_to_bytes = [type_byte Type_PingResp, 0]"

record unsubscribe =
  unsub_identifier :: u16
  unsub_topics :: "rstring list"

definition unsubscribe_new :: unsubscribe where
  "unsubscribe_new = \<lparr>unsub_identifier = 0, unsub_topics = []\<rparr>"

record unsuback =
  uack_identifier :: u16

definition unsuback_new :: unsuback where
  "unsuback_new = \<lparr>uack_identifier = 0\<rparr>"

definition unsuback_to_bytes :: "unsuback \<Rightarrow> u8 list" where
  "unsuback_to_bytes self =
     [type_byte Type_UnsubAck, 2, ucast (drop_bit 8 (uack_identifier self)),
      ucast (uack_identifier self AND 0xff)]"

record connect =
  con_client :: rstring
  con_username :: rstring
  con_password :: rstring
  con_will :: bool
  con_willtopic :: rstring
  con_willmsg :: "u8 list"
  con_willqos :: u8
  con_willretain :: bool
  con_version :: u8
  con_keepalive :: u16
  con_clean_session :: bool

definition connect_new :: connect where
  "connect_new = \<lparr>con_client = [], con_username = [], con_password = [], con_will = False,
     con_willtopic = [], con_willmsg = [], con_willqos = 0, con_willretain = False, con_version = 0,
     con_keepalive = 0, con_clean_session = False\<rparr>"

record puback = pa_identifier :: u16
record pubrec = pr_identifier :: u16
record pubrel = pl_identifier :: u16
record pubcomp = pc_identifier :: u16

definition puback_new :: puback where "puback_new = \<lparr>pa_identifier = 0\<rparr>"
definition pubrec_new :: pubrec where "pubrec_new = \<lparr>pr_identifier = 0\<rparr>"
definition pubrel_new :: pubrel where "pubrel_new = \<lparr>pl_identifier = 0\<rparr>"
definition pubcomp_new :: pubcomp where "pubcomp_new = \<lparr>pc_identifier = 0\<rparr>"

definition puback_to_bytes :: "puback \<Rightarrow> u8 list" where
  "puback_to_bytes self =
     [type_byte Type_PubAck, 2, ucast (drop_bit 8 (pa_identifier self)), ucast (pa_identifier self AND 0xff)]"

definition pubrec_to_bytes :: "pubrec \<Rightarrow> u8 list" where
  "pubrec_to_bytes self =
     [type_byte Type_PubRec, 2, ucast (drop_bit 8 (pr_identifier self)), ucast (pr_identifier self AND 0xff)]"

definition pubrel_to_bytes :: "pubrel \<Rightarrow> u8 list" where
  "pubrel_to_bytes self =
     [type_byte Type_PubRel OR 0x2, 2, ucast (drop_bit 8 (pl_identifier self)), ucast (pl_identifier self AND 0xff)]"

definition pubcomp_to_bytes :: "pubcomp \<Rightarrow> u8 list" where
  "pubcomp_to_bytes self =
     [type_byte Type_PubComp, 2, ucast (drop_bit 8 (pc_identifier self)), ucast (pc_identifier self AND 0xff)]"

section \<open>Lemmas\<close>

lemma message_type_try_from_code [simp]: "message_type_try_from (message_type_code t) = Inr t"
  by (cases t) (simp_all add: message_type_try_from_def)

lemma message_type_try_from_eq_Inr: "message_type_try_from v = Inr t \<longleftrightarrow> v = message_type_code t"
proof
  assume "message_type_try_from v = Inr t"
  then show "v = message_type_code t"
    unfolding message_type_try_from_def by (simp split: if_splits)
qed simp

lemma type_byte_simps:
  "type_byte Type_ConnAck = 0x20" "type_byte Type_Publish = 0x30" "type_byte Type_PubAck = 0x40"
  "type_byte Type_PubRec = 0x50" "type_byte Type_PubRel = 0x60" "type_byte Type_PubComp = 0x70"
  "type_byte Type_SubAck = 0x90" "type_byte Type_UnsubAck = 0xB0" "type_byte Type_PingResp = 0xD0"
  by (simp_all add: type_byte_def)

text \<open>A length below \<open>2 ^ 16\<close> is the \<open>u16\<close> made of the two bytes the encoders push.\<close>

lemma u16_len_split [simp]:
  "push_bit 8 (ucast (word_of_nat (drop_bit 8 n) :: u8)) OR ucast (word_of_nat (n AND 0xff) :: u8) =
     (word_of_nat n :: u16)"
  by (rule bit_word_eqI) (auto simp: bit_simps)

end
