(* ===== verification/Broker_Persist.thy ===== *)
theory Broker_Persist
  imports Msg_Types
begin

text \<open>
  \<open>src/broker/persist.rs\<close> and \<open>src/broker/persisttest.rs\<close>: the broker's storage as the
  topic tree uses it. The trait object is a record of its methods over the provider's own
  state, and the tree's operations take it as a parameter.
\<close>

section \<open>Definitions\<close>

datatype broker_error = Broker_PersistError string

record session_id =
  sid_session :: rstring
  sid_internal_id :: int
  sid_generation :: int

record persisted_topic =
  pt_topic_id :: int
  pt_topic_name :: rstring
  pt_retained_message_id :: "int option"

text \<open>A method of the provider: its result and the provider's state after it.\<close>

type_synonym ('p, 'a) persist_call = "'p \<Rightarrow> (broker_error + 'a) \<times> 'p"

record 'p topic_persist =
  tp_create_persistent_connection :: "('p, u8) persist_call"
  tp_init_persistent_store :: "('p, u8) persist_call"
  tp_load_persistent_topics :: "('p, persisted_topic list) persist_call"
  tp_load_persistent_message :: "int \<Rightarrow> ('p, publish) persist_call"
  tp_load_persistent_subscriptions :: "int \<Rightarrow> ('p, (session_id \<times> u8) list) persist_call"
  tp_persist_topic :: "rstring \<Rightarrow> ('p, int) persist_call"
  tp_persist_delete_topic :: "int \<Rightarrow> ('p, int) persist_call"
  tp_persist_subscribe :: "int \<Rightarrow> int \<Rightarrow> u8 \<Rightarrow> ('p, bool) persist_call"
  tp_persist_update_subscribe :: "int \<Rightarrow> int \<Rightarrow> u8 \<Rightarrow> ('p, bool) persist_call"
  tp_persist_retain :: "int \<Rightarrow> publish \<Rightarrow> ('p, int) persist_call"
  tp_persist_delete_retain :: "int \<Rightarrow> ('p, unit) persist_call"
  tp_persist_unsubscribe :: "int \<Rightarrow> int \<Rightarrow> ('p, bool) persist_call"

text \<open>The provider that keeps nothing.\<close>

definition persist_topic_test :: "unit topic_persist" where
  "persist_topic_test =
     \<lparr>tp_create_persistent_connection = (\<lambda>p. (Inr 0, p)),
      tp_init_persistent_store = (\<lambda>p. (Inr 0, p)),
      tp_load_persistent_topics = (\<lambda>p. (Inr [], p)),
      tp_load_persistent_message = (\<lambda>_ p. (Inl (Broker_PersistError ''Persist test error''), p)),
      tp_load_persistent_subscriptions = (\<lambda>_ p. (Inr [], p)),
      tp_persist_topic = (\<lambda>_ p. (Inr 0, p)),
      tp_persist_delete_topic = (\<lambda>topic_id p. (Inr topic_id, p)),
      tp_persist_subscribe = (\<lambda>_ _ _ p. (Inr True, p)),
      tp_persist_update_subscribe = (\<lambda>_ _ _ p. (Inr True, p)),
      tp_persist_retain = (\<lambda>_ _ p. (Inr 0, p)),
      tp_persist_delete_retain = (\<lambda>_ p. (Inr (), p)),
      tp_persist_unsubscribe = (\<lambda>_ _ p. (Inr True, p))\<rparr>"

end
