(* ===== verification/Rust_Utf8.thy ===== *)
theory Rust_Utf8
  imports Mqtt_Prelude
begin

text \<open>
  What the program uses of Rust's strings: \<open>String::from_utf8\<close>, which accepts exactly the
  well-formed UTF-8 byte sequences of the Unicode standard (its table 3-7), and
  \<open>split\<close> at a byte below 0x80.
\<close>

section \<open>Well-formed UTF-8\<close>

definition u8_in :: "u8 \<Rightarrow> u8 \<Rightarrow> u8 \<Rightarrow> bool" where
  "u8_in lo hi b \<longleftrightarrow> lo \<le> b \<and> b \<le> hi"

definition utf8_cont :: "u8 \<Rightarrow> bool" where
  "utf8_cont b \<longleftrightarrow> u8_in 0x80 0xBF b"

text \<open>The length of the well-formed sequence at the head of a byte list, if there is one.\<close>

fun utf8_head :: "u8 list \<Rightarrow> nat option" where
  "utf8_head [] = None"
| "utf8_head (a # bs) =
     (if a < 0x80 then Some 1
      else case bs of
        [] \<Rightarrow> None
      | b # cs \<Rightarrow>
        if u8_in 0xC2 0xDF a then (if utf8_cont b then Some 2 else None)
        else case cs of
          [] \<Rightarrow> None
        | c # ds \<Rightarrow>
          if a = 0xE0 then (if u8_in 0xA0 0xBF b \<and> utf8_cont c then Some 3 else None)
          else if u8_in 0xE1 0xEC a \<or> u8_in 0xEE 0xEF a then
            (if utf8_cont b \<and> utf8_cont c then Some 3 else None)
          else if a = 0xED then (if u8_in 0x80 0x9F b \<and> utf8_cont c then Some 3 else None)
          else case ds of
            [] \<Rightarrow> None
          | d # _ \<Rightarrow>
            if a = 0xF0 then (if u8_in 0x90 0xBF b \<and> utf8_cont c \<and> utf8_cont d then Some 4 else None)
            else if u8_in 0xF1 0xF3 a then
              (if utf8_cont b \<and> utf8_cont c \<and> utf8_cont d then Some 4 else None)
            else if a = 0xF4 then (if u8_in 0x80 0x8F b \<and> utf8_cont c \<and> utf8_cont d then Some 4 else None)
            else None)"

lemma utf8_head_pos: "utf8_head bs = Some n \<Longrightarrow> 0 < n \<and> n \<le> length bs"
  by (cases bs) (auto split: if_splits list.splits)

function utf8_valid :: "u8 list \<Rightarrow> bool" where
  "utf8_valid bs \<longleftrightarrow>
     bs = [] \<or> (case utf8_head bs of None \<Rightarrow> False | Some n \<Rightarrow> utf8_valid (drop n bs))"
  by pat_completeness auto
termination
  by (relation "measure length") (auto dest: utf8_head_pos)

declare utf8_valid.simps [simp del]

definition from_utf8 :: "u8 list \<Rightarrow> rstring option" where
  "from_utf8 bs = (if utf8_valid bs then Some bs else None)"

lemma utf8_valid_Nil [simp]: "utf8_valid []"
  by (subst utf8_valid.simps) simp

lemma utf8_valid_ascii_Cons [simp]: "a < 0x80 \<Longrightarrow> utf8_valid (a # bs) = utf8_valid bs"
  by (subst utf8_valid.simps) simp

lemma utf8_valid_ascii: "\<forall>b \<in> set bs. b < 0x80 \<Longrightarrow> utf8_valid bs"
  by (induction bs) auto

section \<open>Splitting a string\<close>

text \<open>\<open>s.split('/')\<close>: the pieces between the separators, at least one.\<close>

fun split_at :: "u8 \<Rightarrow> rstring \<Rightarrow> rstring list" where
  "split_at sep [] = [[]]"
| "split_at sep (c # cs) =
     (if c = sep then [] # split_at sep cs
      else case split_at sep cs of
        [] \<Rightarrow> [[c]]
      | p # ps \<Rightarrow> (c # p) # ps)"

fun join_with :: "u8 \<Rightarrow> rstring list \<Rightarrow> rstring" where
  "join_with sep [] = []"
| "join_with sep [p] = p"
| "join_with sep (p # q # ps) = p @ sep # join_with sep (q # ps)"

lemma split_at_not_Nil [simp]: "split_at sep s \<noteq> []"
  by (induction s) (auto split: list.splits)

lemma join_split [simp]: "join_with sep (split_at sep s) = s"
proof (induction s)
  case (Cons c cs)
  show ?case
  proof (cases "split_at sep cs")
    case Nil
    then show ?thesis by simp
  next
    case (Cons p ps)
    then show ?thesis using Cons.IH by (cases ps) auto
  qed
qed simp

lemma split_at_pieces: "p \<in> set (split_at sep s) \<Longrightarrow> sep \<notin> set p"
  by (induction s arbitrary: p) (auto split: if_splits list.splits)

lemma split_at_inj: "split_at sep s = split_at sep t \<Longrightarrow> s = t"
  by (metis join_split)

lemma split_at_free: "sep \<notin> set p \<Longrightarrow> split_at sep p = [p]"
  by (induction p) auto

lemma split_at_append: "sep \<notin> set p \<Longrightarrow> split_at sep (p @ sep # s) = p # split_at sep s"
  by (induction p) auto

lemma split_join:
  "ps \<noteq> [] \<Longrightarrow> \<forall>p \<in> set ps. sep \<notin> set p \<Longrightarrow> split_at sep (join_with sep ps) = ps"
  by (induction sep ps rule: join_with.induct) (auto simp: split_at_free split_at_append)

end
