(* ===== verification/Msg_Reader.thy ===== *)
theory Msg_Reader
  imports Msg_Length Rust_Utf8
begin

text \<open>
  \<open>src/messages/reader.rs\<close>: the cursor over a packet. A method returns an error or its
  value and the moved cursor. The cursor a failing method leaves behind is dropped by every
  caller (each of them uses \<open>?\<close>), so it is not part of the result.
\<close>

section \<open>Definitions\<close>

record reader =
  rd_buf :: "u8 list"
  rd_pos :: nat

definition reader_new :: "u8 list \<Rightarrow> reader" where
  "reader_new buf = \<lparr>rd_buf = buf, rd_pos = 0\<rparr>"

definition remaining :: "reader \<Rightarrow> nat" where
  "remaining r = length (rd_buf r) - rd_pos r"

definition is_empty :: "reader \<Rightarrow> bool" where
  "is_empty r \<longleftrightarrow> remaining r = 0"

definition need :: "nat \<Rightarrow> reader \<Rightarrow> io_error + unit" where
  "need n r =
     (if remaining r < n then Inl (IoError InvalidData ''unexpected end of packet'') else Inr ())"

definition read_u8 :: "reader \<Rightarrow> io_error + (u8 \<times> reader)" where
  "read_u8 r =
     ebind (need 1 r) (\<lambda>_.
       let b = rd_buf r ! rd_pos r in Inr (b, r\<lparr>rd_pos := rd_pos r + 1\<rparr>))"

definition read_u16 :: "reader \<Rightarrow> io_error + (u16 \<times> reader)" where
  "read_u16 r =
     ebind (need 2 r) (\<lambda>_.
       let hi = ucast (rd_buf r ! rd_pos r) :: u16;
           lo = ucast (rd_buf r ! (rd_pos r + 1)) :: u16
       in Inr (push_bit 8 hi OR lo, r\<lparr>rd_pos := rd_pos r + 2\<rparr>))"

definition read_bytes :: "nat \<Rightarrow> reader \<Rightarrow> io_error + (u8 list \<times> reader)" where
  "read_bytes n r =
     ebind (need n r) (\<lambda>_.
       let s = take n (drop (rd_pos r) (rd_buf r)) in Inr (s, r\<lparr>rd_pos := rd_pos r + n\<rparr>))"

definition read_mqtt_string :: "nat \<Rightarrow> reader \<Rightarrow> io_error + (rstring \<times> reader)" where
  "read_mqtt_string len r =
     ebind (read_bytes len r) (\<lambda>(bytes, r).
       case from_utf8 bytes of
         None \<Rightarrow> Inl (IoError InvalidData ''invalid UTF-8 in string field'')
       | Some s \<Rightarrow> Inr (s, r))"

definition read_mqtt_string_prefixed :: "reader \<Rightarrow> io_error + (rstring \<times> reader)" where
  "read_mqtt_string_prefixed r =
     ebind (read_u16 r) (\<lambda>(len, r). read_mqtt_string (unat len) r)"

function read_varint_loop :: "reader \<Rightarrow> nat \<Rightarrow> nat \<Rightarrow> io_error + (nat \<times> reader)" where
  "read_varint_loop r lensize len =
     (if (rd_buf r ! rd_pos r) AND 0x80 = 0x80 then
        let r = r\<lparr>rd_pos := rd_pos r + 1\<rparr> in
        ebind (need 1 r) (\<lambda>_.
          let len = len OR push_bit (7 * lensize) (unat (rd_buf r ! rd_pos r) AND 0x7F);
              lensize = lensize + 1 in
          if 4 < lensize then Inl (IoError InvalidData ''variable-length integer too long'')
          else read_varint_loop r lensize len)
      else Inr (len, r))"
  by pat_completeness auto
termination
  by (relation "measure (\<lambda>(r, lensize, _). 5 - lensize)") auto

declare read_varint_loop.simps [simp del]

definition read_varint :: "reader \<Rightarrow> io_error + ((nat \<times> nat) \<times> reader)" where
  "read_varint r =
     (let start = rd_pos r in
      ebind (need 1 r) (\<lambda>_.
      ebind (read_varint_loop r 1 (unat (rd_buf r ! rd_pos r) AND 0x7F)) (\<lambda>(len, r).
        let r = r\<lparr>rd_pos := rd_pos r + 1\<rparr> in
        Inr ((len, rd_pos r - start), r))))"

definition skip :: "nat \<Rightarrow> reader \<Rightarrow> io_error + reader" where
  "skip n r = ebind (need n r) (\<lambda>_. Inr (r\<lparr>rd_pos := rd_pos r + n\<rparr>))"

definition expect_end :: "string \<Rightarrow> reader \<Rightarrow> io_error + unit" where
  "expect_end context r =
     (if remaining r = 0 then Inr () else Inl (IoError InvalidData context))"

section \<open>Readers in split form\<close>

text \<open>
  \<open>rd_at pre suf\<close> is the cursor on \<open>pre @ suf\<close> that has consumed \<open>pre\<close>. Every cursor
  a parser reaches has this form, and each method is a case analysis of \<open>suf\<close>.
\<close>

definition rd_at :: "u8 list \<Rightarrow> u8 list \<Rightarrow> reader" where
  "rd_at pre suf = \<lparr>rd_buf = pre @ suf, rd_pos = length pre\<rparr>"

lemma reader_new_rd_at [reader_simps]: "reader_new buf = rd_at [] buf"
  by (simp add: reader_new_def rd_at_def)

lemma rd_at_sel [simp]:
  "rd_buf (rd_at pre suf) = pre @ suf" "rd_pos (rd_at pre suf) = length pre"
  by (simp_all add: rd_at_def)

lemma remaining_rd_at [simp]: "remaining (rd_at pre suf) = length suf"
  by (simp add: remaining_def)

lemma rd_at_advance:
  "n \<le> length suf \<Longrightarrow> (rd_at pre suf)\<lparr>rd_pos := length pre + n\<rparr> = rd_at (pre @ take n suf) (drop n suf)"
  by (simp add: rd_at_def)

lemma rd_at_eq_iff: "rd_at p s = rd_at p' s' \<longleftrightarrow> p = p' \<and> s = s'"
  by (auto simp: rd_at_def)

lemma is_empty_rd_at [simp]: "is_empty (rd_at pre suf) \<longleftrightarrow> suf = []"
  by (simp add: is_empty_def)

lemma need_rd_at [simp]:
  "need n (rd_at pre suf) =
     (if length suf < n then Inl (IoError InvalidData ''unexpected end of packet'') else Inr ())"
  by (simp add: need_def)

lemma read_u8_rd_at [reader_simps]:
  "read_u8 (rd_at pre []) = Inl (IoError InvalidData ''unexpected end of packet'')"
  "read_u8 (rd_at pre (b # suf)) = Inr (b, rd_at (pre @ [b]) suf)"
  using rd_at_advance [of 1 "b # suf" pre] by (simp_all add: read_u8_def nth_append)

lemma read_u16_rd_at [reader_simps]:
  "read_u16 (rd_at pre (hi # lo # suf)) =
     Inr (push_bit 8 (ucast hi) OR ucast lo, rd_at (pre @ [hi, lo]) suf)"
  using rd_at_advance [of 2 "hi # lo # suf" pre] by (simp add: read_u16_def nth_append)

lemma read_u16_rd_at_short [reader_simps]:
  "length suf < 2 \<Longrightarrow> read_u16 (rd_at pre suf) = Inl (IoError InvalidData ''unexpected end of packet'')"
  by (simp add: read_u16_def)

lemma read_bytes_rd_at [reader_simps]:
  "read_bytes n (rd_at pre suf) =
     (if length suf < n then Inl (IoError InvalidData ''unexpected end of packet'')
      else Inr (take n suf, rd_at (pre @ take n suf) (drop n suf)))"
  using rd_at_advance [of n suf pre] by (simp add: read_bytes_def Let_def)

lemma skip_rd_at [reader_simps]:
  "skip n (rd_at pre suf) =
     (if length suf < n then Inl (IoError InvalidData ''unexpected end of packet'')
      else Inr (rd_at (pre @ take n suf) (drop n suf)))"
  using rd_at_advance [of n suf pre] by (simp add: skip_def)

lemma expect_end_rd_at [reader_simps]:
  "expect_end c (rd_at pre suf) = (if suf = [] then Inr () else Inl (IoError InvalidData c))"
  by (simp add: expect_end_def)

section \<open>What every method consumes\<close>

lemma need_eq_Inr [simp]: "need n r = Inr u \<longleftrightarrow> n \<le> remaining r"
  by (auto simp: need_def)

lemma read_u8_consumes: "read_u8 r = Inr (x, r') \<Longrightarrow> remaining r = remaining r' + 1"
  by (auto simp: read_u8_def ebind_eq_Inr_iff Let_def remaining_def)

lemma read_u16_consumes: "read_u16 r = Inr (x, r') \<Longrightarrow> remaining r = remaining r' + 2"
  by (auto simp: read_u16_def ebind_eq_Inr_iff Let_def remaining_def)

lemma read_bytes_consumes:
  "read_bytes n r = Inr (x, r') \<Longrightarrow> remaining r = remaining r' + n \<and> length x = n"
  by (auto simp: read_bytes_def ebind_eq_Inr_iff Let_def remaining_def)

lemmas reader_consumes = read_u8_consumes read_u16_consumes read_bytes_consumes

lemma rd_at_advance1 [simp]: "(rd_at p (c # s))\<lparr>rd_pos := Suc (length p)\<rparr> = rd_at (p @ [c]) s"
  using rd_at_advance [of 1 "c # s" p] by simp

section \<open>The length field read from a cursor\<close>

lemma read_varint_loop_rd_at:
  "lensize \<le> 4 \<Longrightarrow> len < 2 ^ (7 * lensize) \<Longrightarrow>
   (if unat b < 128 then read_varint_loop (rd_at pre (b # suf)) lensize len = Inr (len, rd_at pre (b # suf))
    else case varint_spec (4 - lensize) suf of
      Inr (Some (n, l)) \<Rightarrow>
        read_varint_loop (rd_at pre (b # suf)) lensize len =
          Inr (len + 2 ^ (7 * lensize) * n, rd_at (pre @ b # take (l - 1) suf) (drop (l - 1) suf))
    | _ \<Rightarrow> (\<exists>e. read_varint_loop (rd_at pre (b # suf)) lensize len = Inl e))"
proof (induction suf arbitrary: pre b lensize len)
  case Nil
  show ?case
    by (cases "4 - lensize"; subst (1 2 3) read_varint_loop.simps)
      (auto simp: cont_bit Let_def rd_at_def need_def remaining_def split: sum.splits option.splits)
next
  case (Cons c suf)
  show ?case
  proof (cases "unat b < 128")
    case True
    then show ?thesis by (subst read_varint_loop.simps) (simp add: cont_bit)
  next
    case False
    have or: "len OR push_bit (7 * lensize) (unat c AND 0x7F) = len + 2 ^ (7 * lensize) * (unat c mod 128)"
      using Cons.prems by (simp add: or_push_bit_nat and_7f_nat)
    have unf: "read_varint_loop (rd_at pre (b # c # suf)) lensize len =
      (if 4 < Suc lensize then Inl (IoError InvalidData ''variable-length integer too long'')
       else read_varint_loop (rd_at (pre @ [b]) (c # suf)) (Suc lensize)
              (len + 2 ^ (7 * lensize) * (unat c mod 128)))"
      using False
      by (subst read_varint_loop.simps)
        (simp add: cont_bit Let_def or nth_append del: push_bit_and)
    show ?thesis
    proof (cases "lensize = 4")
      case True
      then show ?thesis using False unf by simp
    next
      case lt: False
      have lt': "len + 2 ^ (7 * lensize) * (unat c mod 128) < 2 ^ (7 * Suc lensize)"
      proof -
        have "2 ^ (7 * lensize) * (unat c mod 128) \<le> 2 ^ (7 * lensize) * (127::nat)"
          by (intro mult_le_mono2) simp
        moreover have "2 ^ (7 * Suc lensize) = 2 ^ (7 * lensize) * (128 :: nat)" by (simp add: power_add)
        ultimately show ?thesis using Cons.prems(2) by linarith
      qed
      have k: "4 - lensize = Suc (4 - Suc lensize)" using lt Cons.prems(1) by linarith
      have le: "Suc lensize \<le> 4" using lt Cons.prems(1) by linarith
      note IH = Cons.IH [OF le lt', of c "pre @ [b]"]
      show ?thesis
      proof (cases "unat c < 128")
        case True
        then show ?thesis using IH False le unfolding k by (simp add: unf)
      next
        case cc: False
        then show ?thesis using IH False le unfolding k
          by (auto simp: unf algebra_simps power_add take_Cons' drop_Cons'
              dest!: varint_spec_bounds split: sum.splits option.splits)
      qed
    qed
  qed
qed

lemma take_drop_last:
  assumes "0 < l" and "l \<le> length bs"
  obtains c where "drop (l - 1) bs = c # drop l bs" and "take l bs = take (l - 1) bs @ [c]"
  using assms
  by (cases l) (auto simp: Cons_nth_drop_Suc [symmetric] take_Suc_conv_app_nth)

lemma read_varint_rd_at:
  "case varint_spec 4 suf of
     Inr (Some (n, l)) \<Rightarrow> read_varint (rd_at pre suf) = Inr ((n, l), rd_at (pre @ take l suf) (drop l suf))
   | _ \<Rightarrow> (\<exists>e. read_varint (rd_at pre suf) = Inl e)"
proof (cases suf)
  case Nil
  then show ?thesis by (simp add: read_varint_def numeral_eq_Suc)
next
  case (Cons b bs)
  have un: "unat b AND 0x7F < 2 ^ (7 * 1)" by (simp add: and_7f_nat)
  note L = read_varint_loop_rd_at [of 1 "unat b AND 0x7F" b pre bs, OF _ un, simplified]
  show ?thesis
  proof (cases "unat b < 128")
    case True
    then show ?thesis using L Cons by (simp add: read_varint_def varint_spec_4 and_7f_nat)
  next
    case False
    consider (bad) "\<And>v. varint_spec 3 bs \<noteq> Inr (Some v)"
      | (good) n l where "varint_spec 3 bs = Inr (Some (n, l))" by auto
    then show ?thesis
    proof cases
      case bad
      then have "\<exists>e. read_varint_loop (rd_at pre (b # bs)) 1 (unat b AND 0x7F) = Inl e"
        using L False by (auto split: sum.splits option.splits)
      then have "\<exists>e. read_varint (rd_at pre suf) = Inl e"
        using Cons by (auto simp: read_varint_def)
      then show ?thesis using bad False Cons by (auto simp: varint_spec_4 split: sum.splits option.splits)
    next
      case good
      have b: "0 < l" "l \<le> length bs" using varint_spec_bounds [OF good] by auto
      obtain c where c: "drop (l - 1) bs = c # drop l bs" "take l bs = take (l - 1) bs @ [c]"
        using take_drop_last [OF b] .
      have "read_varint_loop (rd_at pre (b # bs)) 1 (unat b AND 0x7F) =
        Inr (unat b mod 128 + 128 * n, rd_at (pre @ b # take (l - 1) bs) (c # drop l bs))"
        using L False good c by (simp add: and_7f_nat)
      moreover have "(rd_at (pre @ b # take (l - 1) bs) (c # drop l bs))
          \<lparr>rd_pos := Suc (length (pre @ b # take (l - 1) bs))\<rparr> =
          rd_at (pre @ b # take l bs) (drop l bs)"
        by (subst rd_at_advance1) (simp add: c)
      moreover have "length pre + Suc (length (take l bs)) - length pre = Suc l" using b by simp
      ultimately show ?thesis using good False Cons b
        by (simp add: read_varint_def varint_spec_4 min_def Let_def)
    qed
  qed
qed

lemma read_varint_at [reader_simps]:
  "read_size_check suf = Inr (Some (n, l)) \<Longrightarrow>
   read_varint (rd_at pre suf) = Inr ((n, l), rd_at (pre @ take l suf) (drop l suf))"
  using read_varint_rd_at [where suf = suf and pre = pre] by (simp add: read_size_check_spec)

lemma read_varint_iff:
  "read_varint (rd_at pre suf) = Inr ((n, l), r') \<longleftrightarrow>
     read_size_check suf = Inr (Some (n, l)) \<and> r' = rd_at (pre @ take l suf) (drop l suf)"
  using read_varint_rd_at [where suf = suf and pre = pre]
  by (auto simp: read_size_check_spec split: sum.splits option.splits prod.splits)

section \<open>When each method succeeds\<close>

text \<open>The two bytes of a big-endian \<open>u16\<close>.\<close>

definition u16_be :: "u16 \<Rightarrow> u8 list" where
  "u16_be x = [ucast (drop_bit 8 x), ucast (x AND 0xff)]"

lemma length_u16_be [simp]: "length (u16_be x) = 2"
  by (simp add: u16_be_def)

lemma u16_be_not_Nil [simp]: "u16_be x \<noteq> []"
  by (simp add: u16_be_def)

lemma u16_be_join [simp]: "u16_be (push_bit 8 (ucast hi) OR ucast lo) = [hi, lo]"
proof -
  have "ucast (drop_bit 8 (push_bit 8 (ucast hi) OR ucast lo :: u16)) = hi"
    by (rule bit_word_eqI) (auto simp: bit_simps dest: bit_imp_le_length)
  moreover have "ucast ((push_bit 8 (ucast hi) OR ucast lo :: u16) AND 0xff) = lo"
    by (rule bit_word_eqI) (auto simp: bit_simps)
  ultimately show ?thesis by (simp add: u16_be_def)
qed

lemma u16_be_inj [simp]: "u16_be x = u16_be y \<longleftrightarrow> x = y"
proof
  assume "u16_be x = u16_be y"
  then have "push_bit 8 (ucast (ucast (drop_bit 8 x) :: u8)) OR ucast (ucast (x AND 0xff) :: u8) =
    (push_bit 8 (ucast (ucast (drop_bit 8 y) :: u8)) OR ucast (ucast (y AND 0xff) :: u8) :: u16)"
    by (simp add: u16_be_def del: u16_split)
  then show "x = y" by (simp only: u16_split)
qed simp

named_theorems reader_iffs \<open>success of a reader method on a reader in split form\<close>

lemma read_u8_iff [reader_iffs]:
  "read_u8 (rd_at pre suf) = Inr (b, r') \<longleftrightarrow> (\<exists>bs. suf = b # bs \<and> r' = rd_at (pre @ [b]) bs)"
  by (cases suf) (auto simp: read_u8_rd_at)

lemma read_u16_iff [reader_iffs]:
  "read_u16 (rd_at pre suf) = Inr (x, r') \<longleftrightarrow> (\<exists>bs. suf = u16_be x @ bs \<and> r' = rd_at (pre @ u16_be x) bs)"
proof (cases suf rule: remdups_adj.cases)
  case (3 hi lo bs)
  show ?thesis
  proof
    assume "read_u16 (rd_at pre suf) = Inr (x, r')"
    then have "x = push_bit 8 (ucast hi) OR ucast lo" "r' = rd_at (pre @ [hi, lo]) bs"
      using 3 by (auto simp: read_u16_rd_at)
    then show "\<exists>bs. suf = u16_be x @ bs \<and> r' = rd_at (pre @ u16_be x) bs" using 3 by simp
  next
    assume "\<exists>bs. suf = u16_be x @ bs \<and> r' = rd_at (pre @ u16_be x) bs"
    then show "read_u16 (rd_at pre suf) = Inr (x, r')" by (auto simp: u16_be_def read_u16_rd_at)
  qed
qed (auto simp: read_u16_rd_at_short u16_be_def)

lemma read_bytes_iff [reader_iffs]:
  "read_bytes n (rd_at pre suf) = Inr (x, r') \<longleftrightarrow>
     (\<exists>bs. suf = x @ bs \<and> n = length x \<and> r' = rd_at (pre @ x) bs)"
proof
  assume "read_bytes n (rd_at pre suf) = Inr (x, r')"
  then show "\<exists>bs. suf = x @ bs \<and> n = length x \<and> r' = rd_at (pre @ x) bs"
    by (intro exI [of _ "drop n suf"]) (auto simp: read_bytes_rd_at split: if_splits)
qed (auto simp: read_bytes_rd_at)

lemma skip_iff [reader_iffs]:
  "skip n (rd_at pre suf) = Inr r' \<longleftrightarrow> (\<exists>x bs. suf = x @ bs \<and> n = length x \<and> r' = rd_at (pre @ x) bs)"
proof
  assume "skip n (rd_at pre suf) = Inr r'"
  then show "\<exists>x bs. suf = x @ bs \<and> n = length x \<and> r' = rd_at (pre @ x) bs"
    by (intro exI [of _ "take n suf"] exI [of _ "drop n suf"]) (auto simp: skip_rd_at split: if_splits)
qed (auto simp: skip_rd_at)

lemma expect_end_iff [reader_iffs]: "expect_end c (rd_at pre suf) = Inr u \<longleftrightarrow> suf = []"
  by (simp add: expect_end_rd_at)

lemma read_varint_split_iff [reader_iffs]:
  "read_varint (rd_at pre suf) = Inr ((n, l), r') \<longleftrightarrow>
     (\<exists>x bs. suf = x @ bs \<and> read_size_check (x @ bs) = Inr (Some (n, length x)) \<and> l = length x \<and>
        r' = rd_at (pre @ x) bs)"
proof
  assume "read_varint (rd_at pre suf) = Inr ((n, l), r')"
  then have "read_size_check suf = Inr (Some (n, l))" "r' = rd_at (pre @ take l suf) (drop l suf)"
    by (auto simp: read_varint_iff)
  moreover from this have "l \<le> length suf" by (auto dest: read_size_check_bounds)
  ultimately show "\<exists>x bs. suf = x @ bs \<and> read_size_check (x @ bs) = Inr (Some (n, length x)) \<and>
      l = length x \<and> r' = rd_at (pre @ x) bs"
    by (intro exI [of _ "take l suf"] exI [of _ "drop l suf"]) simp
qed (auto simp: read_varint_iff)

lemma unat_u16_of_nat: "n \<le> 65535 \<Longrightarrow> unat (word_of_nat n :: u16) = n"
  by (simp add: unsigned_of_nat take_bit_nat_eq_self)

lemma u16_len_iff: "unat (x :: u16) = n \<longleftrightarrow> n \<le> 65535 \<and> x = word_of_nat n"
proof -
  have "unat x < 2 ^ 16" using unsigned_less [of x] by simp
  then have "unat x \<le> 65535" by simp
  then show ?thesis by (auto simp: unat_u16_of_nat)
qed

lemma read_mqtt_string_prefixed_iff [reader_iffs]:
  "read_mqtt_string_prefixed (rd_at pre suf) = Inr (s, r') \<longleftrightarrow>
     (\<exists>bs. suf = u16_be (word_of_nat (length s)) @ s @ bs \<and> length s \<le> 65535 \<and> utf8_valid s \<and>
        r' = rd_at (pre @ u16_be (word_of_nat (length s)) @ s) bs)"
proof
  assume "read_mqtt_string_prefixed (rd_at pre suf) = Inr (s, r')"
  then show "\<exists>bs. suf = u16_be (word_of_nat (length s)) @ s @ bs \<and> length s \<le> 65535 \<and> utf8_valid s \<and>
        r' = rd_at (pre @ u16_be (word_of_nat (length s)) @ s) bs"
    by (auto simp: read_mqtt_string_prefixed_def read_mqtt_string_def ebind_eq_Inr_iff reader_iffs u16_len_iff
      from_utf8_def split: if_splits)
next
  assume "\<exists>bs. suf = u16_be (word_of_nat (length s)) @ s @ bs \<and> length s \<le> 65535 \<and> utf8_valid s \<and>
        r' = rd_at (pre @ u16_be (word_of_nat (length s)) @ s) bs"
  then obtain bs where "suf = u16_be (word_of_nat (length s)) @ s @ bs" "length s \<le> 65535" "utf8_valid s"
    "r' = rd_at (pre @ u16_be (word_of_nat (length s)) @ s) bs" by blast
  then have "read_u16 (rd_at pre suf) =
      Inr (word_of_nat (length s), rd_at (pre @ u16_be (word_of_nat (length s))) (s @ bs))"
    by (simp add: reader_iffs)
  then show "read_mqtt_string_prefixed (rd_at pre suf) = Inr (s, r')"
    using \<open>length s \<le> 65535\<close> \<open>utf8_valid s\<close> \<open>r' = _\<close>
    by (simp add: read_mqtt_string_prefixed_def read_mqtt_string_def unat_u16_of_nat read_bytes_rd_at from_utf8_def)
qed

section \<open>Steps over the encoder's bytes\<close>

named_theorems reader_steps \<open>a reader method in front of the bytes it reads\<close>

lemma read_u8_step [reader_steps]: "read_u8 (rd_at pre (b # bs)) = Inr (b, rd_at (pre @ [b]) bs)"
  by (simp add: reader_iffs)

lemma read_u16_step [reader_steps]:
  "read_u16 (rd_at pre (u16_be x @ bs)) = Inr (x, rd_at (pre @ u16_be x) bs)"
  "read_u16 (rd_at pre (u16_be x)) = Inr (x, rd_at (pre @ u16_be x) [])"
  by (simp_all add: reader_iffs)

lemma read_bytes_step [reader_steps]:
  "n = length x \<Longrightarrow> read_bytes n (rd_at pre (x @ bs)) = Inr (x, rd_at (pre @ x) bs)"
  "n = length x \<Longrightarrow> read_bytes n (rd_at pre x) = Inr (x, rd_at (pre @ x) [])"
  by (simp_all add: reader_iffs)

lemma read_varint_step [reader_steps]:
  "read_size_check (x @ bs) = Inr (Some (n, length x)) \<Longrightarrow>
   read_varint (rd_at pre (x @ bs)) = Inr ((n, length x), rd_at (pre @ x) bs)"
  by (auto simp: reader_iffs)

lemma skip_step [reader_steps]: "n = length x \<Longrightarrow> skip n (rd_at pre (x @ bs)) = Inr (rd_at (pre @ x) bs)"
  by (auto simp: reader_iffs)

lemma expect_end_step [reader_steps]: "expect_end c (rd_at pre []) = Inr ()"
  by (simp add: reader_iffs)

lemma read_mqtt_string_prefixed_step [reader_steps]:
  "length s \<le> 65535 \<Longrightarrow> utf8_valid s \<Longrightarrow>
   read_mqtt_string_prefixed (rd_at pre (u16_be (word_of_nat (length s)) @ s @ bs)) =
     Inr (s, rd_at (pre @ u16_be (word_of_nat (length s)) @ s) bs)"
  "length s \<le> 65535 \<Longrightarrow> utf8_valid s \<Longrightarrow>
   read_mqtt_string_prefixed (rd_at pre (u16_be (word_of_nat (length s)) @ s)) =
     Inr (s, rd_at (pre @ u16_be (word_of_nat (length s)) @ s) [])"
  by (auto simp: reader_iffs)

section \<open>Properties\<close>

text \<open>The packet reader's own length field parser and the frame decoder's agree: on the bytes from the
  cursor on they accept the same fields, with the same value and the same size, and the reader's cursor ends
  behind the field.\<close>

theorem read_varint_agrees:
  "read_varint (rd_at pre suf) = Inr ((n, l), r') \<longleftrightarrow>
     read_size_check suf = Inr (Some (n, l)) \<and> r' = rd_at (pre @ take l suf) (drop l suf)"
  by (rule read_varint_iff)

end
