(* ===== verification/Msg_Validation.thy ===== *)
theory Msg_Validation
  imports Rust_Utf8
begin

text \<open>
  \<open>src/messages/validation.rs\<close>: the character iterator and the checks of client ids,
  topic names and topic filters. The iterator yields 0, and does not move, on a byte that
  starts no sequence; each check leaves its loop on a 0, which is why the loops end.
\<close>

section \<open>Definitions\<close>

record utf8_iterator =
  it_index :: nat
  it_length :: nat
  it_string :: "u8 list"

definition utf8_iterator_new :: "u8 list \<Rightarrow> utf8_iterator" where
  "utf8_iterator_new string = \<lparr>it_index = 0, it_length = length string, it_string = string\<rparr>"

definition utf8_iterator_next :: "utf8_iterator \<Rightarrow> u32 option \<times> utf8_iterator" where
  "utf8_iterator_next it =
     (if it_index it < it_length it then
        let value = 0 :: u32;
            idx = it_index it;
            at = (\<lambda>k. ucast (it_string it ! (idx + k)) :: u32);
            next = at 0
        in
        if next AND 0x80 = 0 then (Some next, it\<lparr>it_index := idx + 1\<rparr>)
        else if next AND 0xe0 = 0xc0 then
          (if idx + 1 < it_length it then
             let b2 = at 1;
                 value = (if b2 AND 0xc0 = 0x80 then push_bit 6 (value AND 0x1f) OR (b2 AND 0x3f) else value)
             in (Some value, it\<lparr>it_index := idx + 2\<rparr>)
           else (Some value, it))
        else if next AND 0xf0 = 0xe0 then
          (if idx + 2 < it_length it then
             let b2 = at 1; b3 = at 2;
                 value = (if b2 AND 0xc0 = 0x80 \<and> b3 AND 0xc0 = 0x80
                   then push_bit 12 (value AND 0x0f) OR push_bit 6 (b2 AND 0x3f) OR (b3 AND 0x3f)
                   else value)
             in (Some value, it\<lparr>it_index := idx + 3\<rparr>)
           else (Some value, it))
        else if next AND 0xf8 = 0xf0 \<and> idx + 3 < it_length it then
          let b2 = at 1; b3 = at 2; b4 = at 3;
              value = (if b2 AND 0xc0 = 0x80 \<and> b3 AND 0xc0 = 0x80 \<and> b4 AND 0xc0 = 0x80
                then push_bit 18 (value AND 0x07) OR push_bit 12 (b2 AND 0x3f)
                       OR push_bit 6 (b3 AND 0x3f) OR (b4 AND 0x3f)
                else value)
          in (Some value, it\<lparr>it_index := idx + 4\<rparr>)
        else (Some value, it)
      else (None, it))"

definition qos_valid :: "u8 \<Rightarrow> bool" where
  "qos_valid qos \<longleftrightarrow> qos \<le> 2"

lemma utf8_iterator_next_moves:
  assumes "utf8_iterator_next it = (Some c, it')" and "c \<noteq> 0"
  shows "it_index it < it_index it' \<and> it_index it < it_length it \<and>
    it_length it' = it_length it \<and> it_string it' = it_string it"
  using assms by (auto simp: utf8_iterator_next_def Let_def split: if_splits)

function client_id_loop :: "utf8_iterator \<Rightarrow> bool" where
  "client_id_loop it =
     (case utf8_iterator_next it of
        (None, _) \<Rightarrow> True
      | (Some c, it') \<Rightarrow> if c = 0 then False else client_id_loop it')"
  by pat_completeness auto
termination
  by (relation "measure (\<lambda>it. it_length it - it_index it)")
    (auto dest!: utf8_iterator_next_moves [OF sym])

function publish_topic_loop :: "utf8_iterator \<Rightarrow> bool" where
  "publish_topic_loop it =
     (case utf8_iterator_next it of
        (None, _) \<Rightarrow> True
      | (Some c, it') \<Rightarrow>
          if c = 0 then False
          else if c = 0x2b then False
          else if c = 0x23 then False
          else publish_topic_loop it')"
  by pat_completeness auto
termination
  by (relation "measure (\<lambda>it. it_length it - it_index it)")
    (auto dest!: utf8_iterator_next_moves [OF sym])

function topic_filter_loop :: "utf8_iterator \<Rightarrow> u32 \<Rightarrow> bool" where
  "topic_filter_loop it previous =
     (case utf8_iterator_next it of
        (None, _) \<Rightarrow> True
      | (Some c, it') \<Rightarrow>
          if c = 0 then False
          else if previous = 0x23 then False
          else if c = 0x23 \<and> previous \<noteq> 0 \<and> previous \<noteq> 0x2f then False
          else if previous = 0x2b \<and> c \<noteq> 0x2f then False
          else if c = 0x2b \<and> previous \<noteq> 0 \<and> previous \<noteq> 0x2f then False
          else topic_filter_loop it' c)"
  by pat_completeness auto
termination
  by (relation "measure (\<lambda>(it, _). it_length it - it_index it)")
    (auto dest!: utf8_iterator_next_moves [OF sym])

declare client_id_loop.simps [simp del] publish_topic_loop.simps [simp del] topic_filter_loop.simps [simp del]

definition client_id_valid :: "u8 list \<Rightarrow> bool" where
  "client_id_valid string =
     (if 65535 < length string then False else client_id_loop (utf8_iterator_new string))"

definition publish_topic_valid :: "u8 list \<Rightarrow> bool" where
  "publish_topic_valid topic =
     (if \<not> (1 \<le> length topic \<and> length topic \<le> 65535) then False
      else publish_topic_loop (utf8_iterator_new topic))"

definition topic_filter_valid :: "u8 list \<Rightarrow> bool" where
  "topic_filter_valid topic =
     (if \<not> (1 \<le> length topic \<and> length topic \<le> 65535) then False
      else topic_filter_loop (utf8_iterator_new topic) 0)"

section \<open>Iterators in split form\<close>

definition it_at :: "u8 list \<Rightarrow> u8 list \<Rightarrow> utf8_iterator" where
  "it_at pre suf = \<lparr>it_index = length pre, it_length = length (pre @ suf), it_string = pre @ suf\<rparr>"

lemma utf8_iterator_new_at: "utf8_iterator_new s = it_at [] s"
  by (simp add: utf8_iterator_new_def it_at_def)

lemma and_0x80_u32: "(ucast (b :: u8) :: u32) AND 0x80 = 0 \<longleftrightarrow> b < 0x80"
proof -
  have "(ucast b :: u32) AND 2 ^ 7 = 0 \<longleftrightarrow> \<not> bit (ucast b :: u32) 7"
    by (rule and_exp_eq_0_iff_not_bit)
  moreover have "bit (ucast b :: u32) 7 \<longleftrightarrow> bit b 7" by (simp add: bit_ucast_iff)
  ultimately have "(ucast b :: u32) AND 0x80 = 0 \<longleftrightarrow> \<not> 128 \<le> unat b" by (simp add: bit_7_u8)
  then show ?thesis by (simp only: word_less_nat_alt not_le) simp
qed

lemma ucast_u32_inj: "(ucast (b :: u8) :: u32) = ucast c \<longleftrightarrow> b = c"
proof
  assume eq: "(ucast b :: u32) = ucast c"
  show "b = c"
  proof (rule bit_word_eqI)
    fix n assume "n < LENGTH(8)"
    then show "bit b n \<longleftrightarrow> bit c n"
      using arg_cong [OF eq, of "\<lambda>w. bit w n"] by (simp add: bit_ucast_iff)
  qed
qed simp

lemma ucast_u32_eq_numeral:
  "(ucast (b :: u8) :: u32) = 0 \<longleftrightarrow> b = 0"
  "(ucast b :: u32) = 0x2b \<longleftrightarrow> b = 0x2b"
  "(ucast b :: u32) = 0x23 \<longleftrightarrow> b = 0x23"
  "(ucast b :: u32) = 0x2f \<longleftrightarrow> b = 0x2f"
  using ucast_u32_inj [where b = b and c = 0] ucast_u32_inj [where b = b and c = "0x2b"]
    ucast_u32_inj [where b = b and c = "0x23"] ucast_u32_inj [where b = b and c = "0x2f"]
  by simp_all

lemma next_Nil: "utf8_iterator_next (it_at pre []) = (None, it_at pre [])"
  by (simp add: utf8_iterator_next_def it_at_def)

lemma next_ascii:
  "b < 0x80 \<Longrightarrow> utf8_iterator_next (it_at pre (b # suf)) = (Some (ucast b), it_at (pre @ [b]) suf)"
  by (simp add: utf8_iterator_next_def it_at_def and_0x80_u32 Let_def)


lemma next_Some: "suf \<noteq> [] \<Longrightarrow> \<exists>c it'. utf8_iterator_next (it_at pre suf) = (Some c, it')"
proof -
  assume "suf \<noteq> []"
  moreover have "fst (utf8_iterator_next it) = None \<Longrightarrow> it_length it \<le> it_index it" for it
    by (auto simp: utf8_iterator_next_def Let_def split: if_splits)
  from this [of "it_at pre suf"] have "fst (utf8_iterator_next (it_at pre suf)) = None \<Longrightarrow> suf = []"
    by (simp add: it_at_def)
  ultimately show ?thesis by (metis eq_fst_iff option.exhaust)
qed

lemma and_mask_cont: "(ucast (b :: u8) :: u32) AND 0xc0 = 0x80 \<Longrightarrow> \<not> b < 0x80"
proof
  assume c: "(ucast b :: u32) AND 0xc0 = 0x80" and "b < 0x80"
  then have "(ucast b :: u32) AND 0x80 = 0" by (simp add: and_0x80_u32)
  moreover have "(ucast b :: u32) AND 0x80 = (ucast b AND 0xc0) AND 0x80"
    by (simp add: and.assoc)
  ultimately show False using c by simp
qed

lemma next_nonzero:
  assumes "utf8_iterator_next (it_at pre suf) = (Some c, it')" and "c \<noteq> 0"
  obtains b bs where "suf = b # bs" and "b < 0x80" and "c = ucast b" and "it' = it_at (pre @ [b]) bs"
  | bs cs where "suf = bs @ cs" and "bs \<noteq> []" and "\<forall>b \<in> set bs. \<not> b < 0x80" and "it' = it_at (pre @ bs) cs"
proof (cases suf)
  case Nil
  then show thesis using assms by (simp add: next_Nil)
next
  case (Cons b bs)
  show thesis
  proof (cases "b < 0x80")
    case True
    then show thesis using assms Cons by (intro that(1)) (auto simp: next_ascii)
  next
    case hi: False
    then have hi0: "(ucast b :: u32) AND 0x80 \<noteq> 0" by (simp add: and_0x80_u32)
    obtain k where k: "0 < k" "k \<le> length suf" "\<forall>i < k. \<not> suf ! i < 0x80"
      "it' = (it_at pre suf)\<lparr>it_index := length pre + k\<rparr>"
    proof -
      let ?k = "it_index it' - length pre"
      have "it_string (it_at pre suf) ! Suc (length pre) = suf ! Suc 0"
        "it_string (it_at pre suf) ! Suc (Suc (length pre)) = suf ! Suc (Suc 0)"
        "it_string (it_at pre suf) ! Suc (Suc (Suc (length pre))) = suf ! Suc (Suc (Suc 0))"
        by (simp_all add: it_at_def nth_append numeral_eq_Suc)
      moreover have "it_string (it_at pre suf) ! length pre = b" by (simp add: it_at_def Cons)
      moreover have "it_index (it_at pre suf) = length pre" "it_length (it_at pre suf) = length pre + length suf"
        by (simp_all add: it_at_def)
      ultimately have "0 < ?k \<and> ?k \<le> length suf \<and> (\<forall>i < ?k. 0 < i \<longrightarrow> \<not> suf ! i < 0x80) \<and>
        it' = (it_at pre suf)\<lparr>it_index := length pre + ?k\<rparr>"
        using assms hi0
        by (auto simp: utf8_iterator_next_def Let_def less_Suc_eq numeral_eq_Suc dest: and_mask_cont split: if_splits)
      moreover have "\<not> suf ! 0 < 0x80" using hi Cons by simp
      ultimately show thesis using that by (metis gr0I)
    qed
    show thesis
    proof (rule that(2))
      show "suf = take k suf @ drop k suf" by simp
      show "take k suf \<noteq> []" using k by auto
      show "\<forall>b \<in> set (take k suf). \<not> b < 0x80" using k by (auto simp: in_set_conv_nth)
      show "it' = it_at (pre @ take k suf) (drop k suf)" using k by (simp add: it_at_def)
    qed
  qed
qed


section \<open>What the checks mean\<close>

text \<open>
  A scan that rejects a set of characters, 0 among them: the client id and publish topic
  loops are two instances. A byte below 0x80 of the string is always one of the characters
  the scan sees.
\<close>

definition scan :: "u32 set \<Rightarrow> (utf8_iterator \<Rightarrow> bool) \<Rightarrow> bool" where
  "scan bad L \<longleftrightarrow> 0 \<in> bad \<and>
     (\<forall>it. L it = (case utf8_iterator_next it of
        (None, _) \<Rightarrow> True | (Some c, it') \<Rightarrow> c \<notin> bad \<and> L it'))"

lemma scan_step:
  assumes "scan bad L"
  shows "L it = (case utf8_iterator_next it of
        (None, _) \<Rightarrow> True | (Some c, it') \<Rightarrow> c \<notin> bad \<and> L it')"
  using assms unfolding scan_def by (elim conjE) (erule spec)

lemma scan_sound:
  assumes "scan bad L" and "L (it_at pre suf)" and "b \<in> set suf" and "b < 0x80"
  shows "ucast b \<notin> bad"
  using assms(2-3)
proof (induction "length suf" arbitrary: pre suf rule: less_induct)
  case less
  have "suf \<noteq> []" using less.prems by auto
  then obtain c it' where nx: "utf8_iterator_next (it_at pre suf) = (Some c, it')"
    using next_Some [of suf pre] by blast
  have c: "c \<notin> bad" and L': "L it'"
    using less.prems(1) nx by (auto simp: scan_step [OF assms(1), of "it_at pre suf"])
  have "c \<noteq> 0" using c assms(1) by (auto simp: scan_def)
  with nx show ?case
  proof (cases rule: next_nonzero)
    case (1 a as)
    then show ?thesis using less.hyps [of as] L' less.prems(2) c by auto
  next
    case (2 bs cs)
    then show ?thesis using less.hyps [of cs] L' less.prems(2) assms(4) by auto
  qed
qed

lemma scan_ascii:
  assumes "scan bad L" and "\<forall>b \<in> set suf. b < 0x80"
  shows "L (it_at pre suf) \<longleftrightarrow> (\<forall>b \<in> set suf. ucast b \<notin> bad)"
  using assms(2)
proof (induction suf arbitrary: pre)
  case Nil
  show ?case by (subst scan_step [OF assms(1)]) (simp add: next_Nil)
next
  case (Cons b bs)
  then show ?case by (subst scan_step [OF assms(1)]) (simp add: next_ascii)
qed

lemma scan_client_id: "scan {0} client_id_loop"
  unfolding scan_def
  by (intro conjI allI, simp, subst client_id_loop.simps) (auto split: prod.splits option.splits)

lemma scan_publish_topic: "scan {0, 0x2b, 0x23} publish_topic_loop"
  unfolding scan_def
  by (intro conjI allI, simp, subst publish_topic_loop.simps) (auto split: prod.splits option.splits)

lemma client_id_valid_no_nul: "client_id_valid s \<Longrightarrow> 0 \<notin> set s"
  using scan_sound [OF scan_client_id, of "[]" s 0]
  by (auto simp: client_id_valid_def utf8_iterator_new_at split: if_splits)

lemma publish_topic_valid_bytes:
  "publish_topic_valid s \<Longrightarrow> b \<in> {0, 0x2b, 0x23} \<Longrightarrow> b \<notin> set s"
  using scan_sound [OF scan_publish_topic, of "[]" s b]
  by (auto simp: publish_topic_valid_def utf8_iterator_new_at split: if_splits)

lemma publish_topic_valid_ascii_iff:
  "\<forall>b \<in> set s. b < 0x80 \<Longrightarrow>
   publish_topic_valid s \<longleftrightarrow> 1 \<le> length s \<and> length s \<le> 65535 \<and> set s \<inter> {0, 0x2b, 0x23} = {}"
  using scan_ascii [OF scan_publish_topic, of s "[]"]
  by (auto simp: publish_topic_valid_def utf8_iterator_new_at ucast_u32_eq_numeral)


section \<open>Topic filters\<close>

text \<open>
  The reference for an ASCII filter: between slashes, each level is free of wildcards, or is
  exactly a plus sign, or is exactly a hash sign and the last level.
\<close>

definition plain_level :: "rstring \<Rightarrow> bool" where
  "plain_level l \<longleftrightarrow> 0x2b \<notin> set l \<and> 0x23 \<notin> set l"

fun levels_ok :: "rstring list \<Rightarrow> bool" where
  "levels_ok [] = True"
| "levels_ok (l # ls) =
     ((plain_level l \<or> l = [0x2b] \<or> (l = [0x23] \<and> ls = [])) \<and> levels_ok ls)"

fun filter_walk :: "u8 \<Rightarrow> u8 list \<Rightarrow> bool" where
  "filter_walk previous [] = True"
| "filter_walk previous (c # cs) =
     (if c = 0 then False
      else if previous = 0x23 then False
      else if c = 0x23 \<and> previous \<noteq> 0 \<and> previous \<noteq> 0x2f then False
      else if previous = 0x2b \<and> c \<noteq> 0x2f then False
      else if c = 0x2b \<and> previous \<noteq> 0 \<and> previous \<noteq> 0x2f then False
      else filter_walk c cs)"

lemma topic_filter_loop_walk:
  "\<forall>b \<in> set suf. b < 0x80 \<Longrightarrow> topic_filter_loop (it_at pre suf) (ucast p) = filter_walk p suf"
proof (induction suf arbitrary: pre p)
  case Nil
  show ?case by (subst topic_filter_loop.simps) (simp add: next_Nil)
next
  case (Cons b bs)
  then show ?case
    by (subst topic_filter_loop.simps) (simp add: next_ascii ucast_u32_eq_numeral)
qed

lemma filter_walk_hash: "filter_walk 0x23 s \<longleftrightarrow> s = []"
  by (cases s) auto

lemma filter_walk_plus: "filter_walk 0x2b s \<longleftrightarrow> (case s of [] \<Rightarrow> True | c # cs \<Rightarrow> c = 0x2f \<and> filter_walk 0x2f cs)"
  by (cases s) auto

lemma plain_level_simps [simp]:
  "plain_level []" "plain_level (c # cs) \<longleftrightarrow> c \<noteq> 0x2b \<and> c \<noteq> 0x23 \<and> plain_level cs"
  by (auto simp: plain_level_def)

lemma filter_walk_levels:
  "(filter_walk 0 s \<longleftrightarrow> 0 \<notin> set s \<and> levels_ok (split_at 0x2f s)) \<and>
   (filter_walk 0x2f s \<longleftrightarrow> 0 \<notin> set s \<and> levels_ok (split_at 0x2f s)) \<and>
   (c \<notin> {0, 0x2f, 0x23, 0x2b} \<longrightarrow>
     (filter_walk c s \<longleftrightarrow> 0 \<notin> set s \<and> plain_level (hd (split_at 0x2f s)) \<and> levels_ok (tl (split_at 0x2f s))))"
proof (induction s arbitrary: c)
  case (Cons a s)
  obtain p ps where sp: "split_at 0x2f s = p # ps" by (cases "split_at 0x2f s") auto
  have s0: "s = [] \<longleftrightarrow> p = [] \<and> ps = []"
    using sp join_split [of "0x2f" s] by (auto simp: split_at_inj)
  consider "a = 0" | "a = 0x2f" | "a = 0x23" | "a = 0x2b" | "a \<notin> {0, 0x2f, 0x23, 0x2b}" by auto
  then show ?case
  proof cases
    case 3
    then show ?thesis using sp s0 by (auto simp: filter_walk_hash)
  next
    case 4
    have "filter_walk 0x2b s \<longleftrightarrow> p = [] \<and> 0 \<notin> set s \<and> levels_ok ps"
      using sp Cons.IH [of 1] by (cases s) (auto split: list.splits if_splits simp: filter_walk_plus)
    then show ?thesis using 4 sp by auto
  next
    case 5
    then show ?thesis using sp Cons.IH [of a] by auto
  qed (use Cons.IH sp in auto)
qed simp

lemma topic_filter_valid_ascii_iff:
  "\<forall>b \<in> set s. b < 0x80 \<Longrightarrow>
   topic_filter_valid s \<longleftrightarrow>
     1 \<le> length s \<and> length s \<le> 65535 \<and> 0 \<notin> set s \<and> levels_ok (split_at 0x2f s)"
  using topic_filter_loop_walk [of s "[]" 0] filter_walk_levels [of s]
  by (auto simp: topic_filter_valid_def utf8_iterator_new_at)


section \<open>Characters outside ASCII\<close>


lemma client_id_rejects_a_grave:
  "utf8_valid [0xC3, 0x80]" "\<not> client_id_valid [0xC3, 0x80]"
  by (simp_all add: utf8_valid.simps u8_in_def utf8_cont_def client_id_valid_def utf8_iterator_new_def
      client_id_loop.simps utf8_iterator_next_def)


section \<open>Properties\<close>

text \<open>A topic name that passes the check holds no NUL byte and neither wildcard, whatever the bytes
  above 0x7f in it are.\<close>

theorem publish_topic_no_wildcards:
  assumes "publish_topic_valid topic"
  shows "0 \<notin> set topic \<and> 0x2b \<notin> set topic \<and> 0x23 \<notin> set topic \<and> length topic \<le> 65535 \<and> topic \<noteq> []"
  using publish_topic_valid_bytes [OF assms] assms by (auto simp: publish_topic_valid_def split: if_splits)

lemma publish_topic_no_wildcards_witness: "(0 :: u8) \<notin> set [0xC3, 0xA9, 0x2f]"
proof -
  have "publish_topic_valid [0xC3, 0xA9, 0x2f]"
    by (simp add: publish_topic_valid_def utf8_iterator_new_def publish_topic_loop.simps utf8_iterator_next_def)
  from publish_topic_no_wildcards [OF this] show ?thesis by simp
qed

text \<open>C37: an ASCII topic filter passes the check exactly when it has 1 to 65535 bytes, no NUL, and between
  its slashes each level is free of wildcards, or is exactly a plus sign, or is exactly a hash sign at the
  end.\<close>

theorem ascii_filter_valid_iff:
  assumes "\<forall>b \<in> set topic. b < 0x80"
  shows "topic_filter_valid topic \<longleftrightarrow>
    1 \<le> length topic \<and> length topic \<le> 65535 \<and> 0 \<notin> set topic \<and> levels_ok (split_at 0x2f topic)"
  using assms by (rule topic_filter_valid_ascii_iff)

lemma ascii_filter_valid_iff_witness:
  "topic_filter_valid [0x2b, 0x2f, 0x61, 0x2f, 0x23] \<and> \<not> topic_filter_valid [0x61, 0x2b]"
  by (simp add: ascii_filter_valid_iff)


end
