(* ===== verification/Msg_Parse.thy ===== *)
theory Msg_Parse
  imports Msg_Types Msg_Reader Msg_Validation
begin

text \<open>
  \<open>from_bytes\<close> of the messages of \<open>src/messages/mod.rs\<close>: each takes the freshly made
  message and a whole frame, and returns an error or the filled message. (The message a
  failing parse leaves half filled is dropped by the decoder.) Then the round trips with
  \<open>to_bytes\<close>, and what a successful parse says of its frame.
\<close>

section \<open>Definitions\<close>

abbreviation other_error :: "string \<Rightarrow> io_error" where
  "other_error msg \<equiv> IoError Other msg"

text \<open>\<open>String::from_utf8(bytes).map_err(..)\<close>\<close>

definition string_from_utf8 :: "string \<Rightarrow> u8 list \<Rightarrow> io_error + rstring" where
  "string_from_utf8 err bytes =
     (case from_utf8 bytes of None \<Rightarrow> Inl (IoError InvalidData err) | Some s \<Rightarrow> Inr s)"

definition publish_from_bytes :: "publish \<Rightarrow> u8 list \<Rightarrow> io_error + publish" where
  "publish_from_bytes self buf =
     (let r = reader_new buf in
      ebind (read_u8 r) (\<lambda>(fixed, r).
      let self = self\<lparr>pub_dup := (fixed AND 0x8 = 0x8), pub_qos := drop_bit 1 (fixed AND 0x6)\<rparr> in
      if \<not> qos_valid (pub_qos self) then Inl (other_error ''Publish message invalid qos'')
      else if pub_dup self \<and> pub_qos self = 0 then
        Inl (other_error ''Publish message invalid dup set and qos 0'')
      else
      let self = self\<lparr>pub_retain := (fixed AND 1 = 1)\<rparr> in
      ebind (read_varint r) (\<lambda>((len, lensize), r).
      ebind (read_u16 r) (\<lambda>(topiclen, r).
      let topiclen = unat topiclen in
      ebind (read_bytes topiclen r) (\<lambda>(tb, r).
      if \<not> publish_topic_valid tb then Inl (other_error ''Publish message invalid topic'')
      else
      ebind (string_from_utf8 ''Publish invalid topic UTF-8'' tb) (\<lambda>topic.
      let self = self\<lparr>pub_topic := topic\<rparr> in
      ebind
        (if 0 < pub_qos self then
           ebind (read_u16 r) (\<lambda>(id, r).
           if id = 0 then Inl (other_error ''Publish zero identifier'')
           else Inr (2, self\<lparr>pub_identifier := id\<rparr>, r))
         else Inr (0, self, r)) (\<lambda>(id_size, self, r).
      ebind
        (if len < topiclen + id_size + 2 then Inl (IoError InvalidData ''Publish length underflow'')
         else Inr (len - (topiclen + id_size + 2))) (\<lambda>msglen.
      ebind (read_bytes msglen r) (\<lambda>(message, r).
      let self = self\<lparr>pub_message := message\<rparr> in
      ebind (expect_end ''Publish message length incorrect'' r) (\<lambda>_. Inr self))))))))))"

function subscribe_topics_loop :: "reader \<Rightarrow> subscribe \<Rightarrow> io_error + subscribe" where
  "subscribe_topics_loop r self =
     (if \<not> is_empty r then
        ebind (read_u16 r) (\<lambda>(topic_length, r1).
        ebind (read_bytes (unat topic_length) r1) (\<lambda>(topic_bytes, r2).
        if \<not> topic_filter_valid topic_bytes then Inl (other_error ''Subscribe invalid topic'')
        else
        ebind (string_from_utf8 ''Subscribe invalid topic UTF-8'' topic_bytes) (\<lambda>topic.
        ebind (read_u8 r2) (\<lambda>(qos, r3).
        if \<not> qos_valid qos then Inl (other_error ''Subscribe invalid qos'')
        else subscribe_topics_loop r3 (self\<lparr>sub_topics := sub_topics self @ [(topic, qos)]\<rparr>)))))
      else Inr self)"
  by pat_completeness auto
termination
  by (relation "measure (\<lambda>(r, _). remaining r)") (auto dest!: reader_consumes)

declare subscribe_topics_loop.simps [simp del]

definition subscribe_from_bytes :: "subscribe \<Rightarrow> u8 list \<Rightarrow> io_error + subscribe" where
  "subscribe_from_bytes self buf =
     (let r = reader_new buf in
      ebind (read_u8 r) (\<lambda>(fixed, r).
      if fixed AND 0xf \<noteq> 0x2 then Inl (other_error ''Subscribe invalid flags'')
      else
      ebind (read_varint r) (\<lambda>((len, lensize), r).
      ebind (read_u16 r) (\<lambda>(id, r).
      if id = 0 then Inl (other_error ''Subscribe zero identifier'')
      else
      let self = self\<lparr>sub_identifier := id\<rparr> in
      ebind (subscribe_topics_loop r self) (\<lambda>self.
      if sub_topics self = [] then Inl (other_error ''Subscribe no topics'')
      else Inr self)))))"

definition pingreq_from_bytes :: "u8 list \<Rightarrow> io_error + unit" where
  "pingreq_from_bytes buf =
     (let r = reader_new buf in
      ebind (read_u8 r) (\<lambda>(fixed, r).
      if fixed AND 0xf \<noteq> 0x0 then Inl (other_error ''Pingreq invalid flags'')
      else
      ebind (read_varint r) (\<lambda>((len, lensize), r).
      expect_end ''Pingreq message length incorrect'' r)))"

function unsubscribe_topics_loop :: "reader \<Rightarrow> unsubscribe \<Rightarrow> io_error + unsubscribe" where
  "unsubscribe_topics_loop r self =
     (if \<not> is_empty r then
        ebind (read_u16 r) (\<lambda>(topic_length, r1).
        ebind (read_bytes (unat topic_length) r1) (\<lambda>(topic_bytes, r2).
        if \<not> topic_filter_valid topic_bytes then Inl (other_error ''Unsubscribe invalid topic'')
        else
        ebind (string_from_utf8 ''Unsubscribe invalid topic UTF-8'' topic_bytes) (\<lambda>topic.
        unsubscribe_topics_loop r2 (self\<lparr>unsub_topics := unsub_topics self @ [topic]\<rparr>))))
      else Inr self)"
  by pat_completeness auto
termination
  by (relation "measure (\<lambda>(r, _). remaining r)") (auto dest!: reader_consumes)

declare unsubscribe_topics_loop.simps [simp del]

definition unsubscribe_from_bytes :: "unsubscribe \<Rightarrow> u8 list \<Rightarrow> io_error + unsubscribe" where
  "unsubscribe_from_bytes self buf =
     (let r = reader_new buf in
      ebind (read_u8 r) (\<lambda>(fixed, r).
      if fixed AND 0xf \<noteq> 0x2 then Inl (other_error ''Unsubscribe invalid flags'')
      else
      ebind (read_varint r) (\<lambda>((len, lensize), r).
      ebind (read_u16 r) (\<lambda>(id, r).
      let self = self\<lparr>unsub_identifier := id\<rparr> in
      ebind (unsubscribe_topics_loop r self) (\<lambda>self.
      if unsub_topics self = [] then Inl (other_error ''Unsubscribe no topics'')
      else Inr self)))))"

text \<open>The will and the credentials of a CONNECT packet, in the order \<open>from_bytes\<close> reads them.\<close>

definition connect_read_will :: "u8 \<Rightarrow> connect \<Rightarrow> reader \<Rightarrow> io_error + (connect \<times> reader)" where
  "connect_read_will flags self r =
     (let willretain = (flags AND 0x20 = 0x20);
          willqos = drop_bit 3 (flags AND 0x18) in
      if flags AND 0x04 = 0x04 then
        let self = self\<lparr>con_will := True\<rparr> in
        if \<not> qos_valid willqos then Inl (other_error ''Connect message invalid qos'')
        else
        let self = self\<lparr>con_willqos := willqos, con_willretain := willretain\<rparr> in
        ebind (read_u16 r) (\<lambda>(willtopic_len, r).
        ebind (read_bytes (unat willtopic_len) r) (\<lambda>(willtopicbytes, r).
        if \<not> publish_topic_valid willtopicbytes then
          Inl (other_error ''Connect message invalid will topic'')
        else
        ebind (string_from_utf8 ''Connect will topic invalid UTF-8'' willtopicbytes) (\<lambda>willtopic.
        let self = self\<lparr>con_willtopic := willtopic\<rparr> in
        ebind (read_u16 r) (\<lambda>(willmsg_len, r).
        ebind (read_bytes (unat willmsg_len) r) (\<lambda>(willmsg, r).
        Inr (self\<lparr>con_willmsg := willmsg\<rparr>, r))))))
      else if willqos \<noteq> 0 \<or> willretain then
        Inl (other_error ''Connect message invalid will flags'')
      else Inr (self, r))"

definition connect_read_credentials :: "u8 \<Rightarrow> connect \<Rightarrow> reader \<Rightarrow> io_error + (connect \<times> reader)" where
  "connect_read_credentials flags self r =
     ebind
       (if flags AND 0x80 = 0x80 then
          ebind (read_mqtt_string_prefixed r) (\<lambda>(username, r). Inr (self\<lparr>con_username := username\<rparr>, r))
        else Inr (self, r)) (\<lambda>(self, r).
     if flags AND 0x40 = 0x40 then
       ebind (read_mqtt_string_prefixed r) (\<lambda>(password, r). Inr (self\<lparr>con_password := password\<rparr>, r))
     else Inr (self, r))"

definition connect_from_bytes :: "connect \<Rightarrow> u8 list \<Rightarrow> io_error + connect" where
  "connect_from_bytes self buf =
     (let r = reader_new buf in
      ebind (read_u8 r) (\<lambda>(fixed, r).
      if fixed AND 0x0F \<noteq> 0 then Inl (other_error ''Connect invalid header flags'')
      else
      ebind (read_varint r) (\<lambda>((len, lensize), r).
      ebind (skip 6 r) (\<lambda>r.
      ebind (read_u8 r) (\<lambda>(version, r).
      let self = self\<lparr>con_version := version\<rparr> in
      ebind (read_u8 r) (\<lambda>(flags, r).
      if flags AND 0x01 = 0x01 then Inl (other_error ''Connect message invalid flags'')
      else
      let self = self\<lparr>con_clean_session := (flags AND 0x02 = 0x02)\<rparr> in
      ebind (read_u16 r) (\<lambda>(keepalive, r).
      let self = self\<lparr>con_keepalive := keepalive\<rparr> in
      ebind (read_u16 r) (\<lambda>(client_len, r).
      ebind (read_bytes (unat client_len) r) (\<lambda>(client_id_bytes, r).
      if \<not> client_id_valid client_id_bytes then Inl (other_error ''Connect message invalid client id'')
      else
      ebind (string_from_utf8 ''Connect client id invalid UTF-8'' client_id_bytes) (\<lambda>client.
      let self = self\<lparr>con_client := client\<rparr> in
      ebind (connect_read_will flags self r) (\<lambda>(self, r).
      ebind (connect_read_credentials flags self r) (\<lambda>(self, r).
      ebind (expect_end ''Connect message length incorrect'' r) (\<lambda>_. Inr self)))))))))))))"

definition puback_from_bytes :: "puback \<Rightarrow> u8 list \<Rightarrow> io_error + puback" where
  "puback_from_bytes self buf =
     (let r = reader_new buf in
      ebind (read_u8 r) (\<lambda>(fixed, r).
      if fixed AND 0xf \<noteq> 0x0 then Inl (other_error ''Puback invalid flags'')
      else
      ebind (read_varint r) (\<lambda>((len, lensize), r).
      if len \<noteq> 2 then Inl (other_error ''Puback invalid length'')
      else
      ebind (read_u16 r) (\<lambda>(id, r).
      let self = self\<lparr>pa_identifier := id\<rparr> in
      ebind (expect_end ''Puback message length incorrect'' r) (\<lambda>_. Inr self)))))"

definition pubrec_from_bytes :: "pubrec \<Rightarrow> u8 list \<Rightarrow> io_error + pubrec" where
  "pubrec_from_bytes self buf =
     (let r = reader_new buf in
      ebind (read_u8 r) (\<lambda>(fixed, r).
      if fixed AND 0xf \<noteq> 0x0 then Inl (other_error ''Pubrec invalid flags'')
      else
      ebind (read_varint r) (\<lambda>((len, lensize), r).
      if len \<noteq> 2 then Inl (other_error ''Pubrec invalid length'')
      else
      ebind (read_u16 r) (\<lambda>(id, r).
      let self = self\<lparr>pr_identifier := id\<rparr> in
      ebind (expect_end ''Pubrec message length incorrect'' r) (\<lambda>_. Inr self)))))"

definition pubrel_from_bytes :: "pubrel \<Rightarrow> u8 list \<Rightarrow> io_error + pubrel" where
  "pubrel_from_bytes self buf =
     (let r = reader_new buf in
      ebind (read_u8 r) (\<lambda>(fixed, r).
      if fixed AND 0xf \<noteq> 0x2 then Inl (other_error ''Pubrel invalid flags'')
      else
      ebind (read_varint r) (\<lambda>((len, lensize), r).
      if len \<noteq> 2 then Inl (other_error ''Pubrel invalid length'')
      else
      ebind (read_u16 r) (\<lambda>(id, r).
      let self = self\<lparr>pl_identifier := id\<rparr> in
      ebind (expect_end ''Pubrel message length incorrect'' r) (\<lambda>_. Inr self)))))"

definition pubcomp_from_bytes :: "pubcomp \<Rightarrow> u8 list \<Rightarrow> io_error + pubcomp" where
  "pubcomp_from_bytes self buf =
     (let r = reader_new buf in
      ebind (read_u8 r) (\<lambda>(fixed, r).
      if fixed AND 0xf \<noteq> 0x0 then Inl (other_error ''Pubcomp invalid flags'')
      else
      ebind (read_varint r) (\<lambda>((len, lensize), r).
      if len \<noteq> 2 then Inl (other_error ''Pubcomp invalid length'')
      else
      ebind (read_u16 r) (\<lambda>(id, r).
      let self = self\<lparr>pc_identifier := id\<rparr> in
      ebind (expect_end ''Pubcomp message length incorrect'' r) (\<lambda>_. Inr self)))))"

section \<open>Acknowledgements\<close>

text \<open>What the four acknowledgement parsers have in common: one header byte, a length field
  that says 2, an identifier, and nothing more.\<close>

definition ack_frame :: "u8 \<Rightarrow> u8 list \<Rightarrow> u16 \<Rightarrow> bool" where
  "ack_frame flags buf ident \<longleftrightarrow>
     (\<exists>f pre. buf = f # pre @ u16_be ident \<and> f AND 0xf = flags \<and>
        read_size_check (pre @ u16_be ident) = Inr (Some (2, length pre)))"

lemma string_from_utf8_iff [reader_iffs]: "string_from_utf8 e b = Inr s \<longleftrightarrow> utf8_valid b \<and> s = b"
  by (auto simp: string_from_utf8_def from_utf8_def)

lemma ack_parse:
  "ebind (read_u8 (reader_new buf)) (\<lambda>(fixed, r).
     if fixed AND 0xf \<noteq> flags then Inl e1
     else ebind (read_varint r) (\<lambda>((len, lensize), r).
       if len \<noteq> 2 then Inl e2
       else ebind (read_u16 r) (\<lambda>(ident, r).
         ebind (expect_end e3 r) (\<lambda>_. Inr (mk ident))))) = Inr m \<longleftrightarrow>
   (\<exists>ident. m = mk ident \<and> ack_frame flags buf ident)" (is "?L = Inr m \<longleftrightarrow> ?R")
proof
  assume "?L = Inr m"
  then show ?R
    by (auto simp: ack_frame_def ebind_eq_Inr_iff reader_new_rd_at reader_iffs split: if_splits)
next
  assume ?R
  then show "?L = Inr m"
    by (auto simp: ack_frame_def reader_new_rd_at reader_steps)
qed

text \<open>The contract of an acknowledgement type, and what follows for all of them.\<close>

locale ack_message =
  fixes ident :: "'m \<Rightarrow> u16"
    and mk :: "u16 \<Rightarrow> 'm"
    and to_bytes :: "'m \<Rightarrow> u8 list"
    and from_bytes :: "'m \<Rightarrow> u8 list \<Rightarrow> io_error + 'm"
    and first :: u8
    and flags :: u8
  assumes ident_mk [simp]: "ident (mk i) = i"
    and mk_ident [simp]: "mk (ident m) = m"
    and to_bytes: "to_bytes m = [first, 2] @ u16_be (ident m)"
    and from_bytes: "from_bytes self buf = Inr m \<longleftrightarrow> (\<exists>i. m = mk i \<and> ack_frame flags buf i)"
    and first: "first AND 0xf = flags"
begin

lemma from_bytes_iff: "from_bytes self buf = Inr m \<longleftrightarrow> ack_frame flags buf (ident m)"
  unfolding from_bytes by (metis ident_mk mk_ident)

lemma round_trip: "from_bytes self (to_bytes m) = Inr m"
proof -
  have "encode_length 2 = [2]" by (simp add: encode_length_small)
  then have "read_size_check ([2] @ u16_be (ident m)) = Inr (Some (2, length [2 :: u8]))"
    using read_size_check_encode [of 2 "u16_be (ident m)"] by (simp add: MAX_LENGTH_def)
  then show ?thesis
    unfolding from_bytes_iff ack_frame_def to_bytes
    by (intro exI [of _ first] exI [of _ "[2]"]) (simp add: first)
qed

lemma to_bytes_inj: "to_bytes m = to_bytes m' \<Longrightarrow> m = m'"
  by (metis round_trip sum.inject(2))

lemma self_irrelevant: "from_bytes self buf = Inr m \<Longrightarrow> from_bytes self' buf = Inr m"
  by (simp add: from_bytes_iff)

lemma short_frame:
  assumes "from_bytes self buf = Inr m" and "length buf = 4"
  shows "tl buf = tl (to_bytes m)"
proof -
  obtain f pre where b: "buf = f # pre @ u16_be (ident m)"
    and sz: "read_size_check (pre @ u16_be (ident m)) = Inr (Some (2, length pre))"
    using assms(1) by (auto simp: from_bytes_iff ack_frame_def)
  then obtain p where "pre = [p]" using assms(2) by (cases pre) auto
  moreover have "unat p = 2"
    using sz \<open>pre = [p]\<close>
    by (auto simp: read_size_check_spec varint_spec_4 dest!: varint_spec_bounds split: if_splits sum.splits option.splits)
  then have "p = 2" by (simp add: word_unat_eq_iff)
  ultimately show ?thesis using b by (simp add: to_bytes)
qed

end

lemma puback_parse: "puback_from_bytes self buf = Inr m \<longleftrightarrow> (\<exists>i. m = \<lparr>pa_identifier = i\<rparr> \<and> ack_frame 0 buf i)"
  unfolding puback_from_bytes_def Let_def ack_parse by (cases self) simp

interpretation puback: ack_message pa_identifier "\<lambda>i. \<lparr>pa_identifier = i\<rparr>" puback_to_bytes puback_from_bytes "0x40" 0
  by unfold_locales (simp_all add: puback_parse puback_to_bytes_def type_byte_simps u16_be_def)

lemma pubrec_parse: "pubrec_from_bytes self buf = Inr m \<longleftrightarrow> (\<exists>i. m = \<lparr>pr_identifier = i\<rparr> \<and> ack_frame 0 buf i)"
  unfolding pubrec_from_bytes_def Let_def ack_parse by (cases self) simp

interpretation pubrec: ack_message pr_identifier "\<lambda>i. \<lparr>pr_identifier = i\<rparr>" pubrec_to_bytes pubrec_from_bytes "0x50" 0
  by unfold_locales (simp_all add: pubrec_parse pubrec_to_bytes_def type_byte_simps u16_be_def)

lemma pubrel_parse: "pubrel_from_bytes self buf = Inr m \<longleftrightarrow> (\<exists>i. m = \<lparr>pl_identifier = i\<rparr> \<and> ack_frame 2 buf i)"
  unfolding pubrel_from_bytes_def Let_def ack_parse by (cases self) simp

interpretation pubrel: ack_message pl_identifier "\<lambda>i. \<lparr>pl_identifier = i\<rparr>" pubrel_to_bytes pubrel_from_bytes "0x62" 2
  by unfold_locales (simp_all add: pubrel_parse pubrel_to_bytes_def type_byte_simps u16_be_def)

lemma pubcomp_parse: "pubcomp_from_bytes self buf = Inr m \<longleftrightarrow> (\<exists>i. m = \<lparr>pc_identifier = i\<rparr> \<and> ack_frame 0 buf i)"
  unfolding pubcomp_from_bytes_def Let_def ack_parse by (cases self) simp

interpretation pubcomp: ack_message pc_identifier "\<lambda>i. \<lparr>pc_identifier = i\<rparr>" pubcomp_to_bytes pubcomp_from_bytes "0x70" 0
  by unfold_locales (simp_all add: pubcomp_parse pubcomp_to_bytes_def type_byte_simps u16_be_def)

end
