(* ===== verification/Msg_Roundtrip.thy ===== *)
theory Msg_Roundtrip
  imports Msg_Parse
begin

text \<open>
  What a successful \<open>from_bytes\<close> says of its frame, message by message: the frame is a header
  byte with the right flags, a length field and the body the message determines, and the
  message is well formed; and every such frame parses to that message. For PUBLISH the body
  is the one \<open>to_bytes\<close> writes.
\<close>

lemma string_from_utf8_step [reader_steps]: "utf8_valid s \<Longrightarrow> string_from_utf8 e s = Inr s"
  by (simp add: reader_iffs)

section \<open>PUBLISH\<close>

text \<open>The variable part of the packet, and what the encoder's first byte says.\<close>

definition publish_body :: "publish \<Rightarrow> u8 list" where
  "publish_body m =
     u16_be (word_of_nat (length (pub_topic m))) @ pub_topic m @
     (if 0 < pub_qos m then u16_be (pub_identifier m) else []) @ pub_message m"

definition publish_flags :: "publish \<Rightarrow> u8" where
  "publish_flags m = 0x30 OR (if pub_retain m then 1 else 0) OR push_bit 1 (pub_qos m)"

text \<open>The messages a client may send.\<close>

definition publish_ok :: "publish \<Rightarrow> bool" where
  "publish_ok m \<longleftrightarrow> qos_valid (pub_qos m) \<and> publish_topic_valid (pub_topic m) \<and> utf8_valid (pub_topic m) \<and>
     (0 < pub_qos m \<longrightarrow> pub_identifier m \<noteq> 0) \<and> (pub_dup m \<longrightarrow> 0 < pub_qos m)"

lemma publish_topic_valid_length: "publish_topic_valid t \<Longrightarrow> 1 \<le> length t \<and> length t \<le> 65535"
  by (auto simp: publish_topic_valid_def split: if_splits)

lemma topic_filter_valid_length: "topic_filter_valid t \<Longrightarrow> 1 \<le> length t \<and> length t \<le> 65535"
  by (auto simp: topic_filter_valid_def split: if_splits)

lemma u16_be_len: "u16_be (word_of_nat n) = [word_of_nat (drop_bit 8 n), word_of_nat (n AND 0xff)]"
  using u16_be_join [of "word_of_nat (drop_bit 8 n)" "word_of_nat (n AND 0xff)"] by simp

lemma publish_to_bytes_eq:
  "publish_to_bytes m = publish_flags m # encode_length (length (publish_body m)) @ publish_body m"
proof (cases "0 < pub_qos m")
  case True
  have "(48 OR 1 :: u8) OR x = 49 OR x" for x by simp
  with True show ?thesis
    by (simp add: publish_to_bytes_def publish_body_def publish_flags_def u16_be_len type_byte_simps Let_def
        u16_be_def [of "pub_identifier m"] flip: or.assoc)
next
  case False
  then have "pub_qos m = 0" by (simp add: word_gt_0)
  then show ?thesis
    by (simp add: publish_to_bytes_def publish_body_def publish_flags_def u16_be_len type_byte_simps Let_def)
qed

text \<open>A frame that carries \<open>m\<close>: its header byte, a length field, the body.\<close>

definition publish_frame :: "u8 list \<Rightarrow> publish \<Rightarrow> bool" where
  "publish_frame buf m \<longleftrightarrow>
     (\<exists>f pre. buf = f # pre @ publish_body m \<and>
        read_size_check (pre @ publish_body m) = Inr (Some (length (publish_body m), length pre)) \<and>
        pub_dup m = (f AND 0x8 = 0x8) \<and> pub_qos m = drop_bit 1 (f AND 0x6) \<and> pub_retain m = (f AND 1 = 1))"

lemma publish_from_bytes_frame:
  assumes "publish_frame buf m" and "publish_ok m" and "pub_qos m = 0 \<Longrightarrow> pub_identifier m = pub_identifier self"
  shows "publish_from_bytes self buf = Inr m"
proof -
  obtain f pre where b: "buf = f # pre @ publish_body m"
    and sz: "read_size_check (pre @ publish_body m) = Inr (Some (length (publish_body m), length pre))"
    and fl: "pub_dup m = (f AND 0x8 = 0x8)" "pub_qos m = drop_bit 1 (f AND 0x6)" "pub_retain m = (f AND 1 = 1)"
    using assms(1) by (auto simp: publish_frame_def)
  note len = publish_topic_valid_length [of "pub_topic m"]
  have ok: "qos_valid (pub_qos m)" "publish_topic_valid (pub_topic m)" "utf8_valid (pub_topic m)"
    "0 < pub_qos m \<longrightarrow> pub_identifier m \<noteq> 0" "pub_dup m \<longrightarrow> pub_qos m \<noteq> 0"
    using assms(2) by (auto simp: publish_ok_def)
  note s = reader_steps sz unat_u16_of_nat len ok
  have "publish_from_bytes self (f # pre @ publish_body m) = Inr m"
    unfolding publish_from_bytes_def Let_def reader_new_rd_at read_u8_step ebind_simps prod.case fl [symmetric]
    using ok len assms(3) sz
    by (cases m; cases self; cases "0 < pub_qos m") (simp_all add: s publish_body_def word_gt_0)
  then show ?thesis by (simp add: b)
qed

lemma publish_from_bytes_sound:
  assumes "publish_from_bytes self buf = Inr m"
  shows "publish_frame buf m \<and> publish_ok m \<and> (pub_qos m = 0 \<longrightarrow> pub_identifier m = pub_identifier self)"
proof -
  from assms obtain f bs where buf: "buf = f # bs"
    by (auto simp: publish_from_bytes_def ebind_eq_Inr_iff reader_new_rd_at reader_iffs)
  define d q rt where "d = (f AND 0x8 = 0x8)" and "q = drop_bit 1 (f AND 0x6)" and "rt = (f AND 1 = 1)"
  have "pub_dup m = d \<and> pub_qos m = q \<and> pub_retain m = rt \<and> publish_ok m \<and>
    (q = 0 \<longrightarrow> pub_identifier m = pub_identifier self) \<and>
    (\<exists>pre. bs = pre @ publish_body m \<and>
        read_size_check (pre @ publish_body m) = Inr (Some (length (publish_body m), length pre)))"
    using assms
    unfolding publish_from_bytes_def Let_def reader_new_rd_at buf read_u8_step ebind_simps prod.case
      d_def [symmetric] q_def [symmetric] rt_def [symmetric]
    by (auto simp: ebind_eq_Inr_iff reader_iffs u16_len_iff publish_ok_def publish_body_def word_gt_0
          unat_u16_of_nat
        split: if_splits)
  then show ?thesis
    unfolding publish_frame_def buf d_def q_def rt_def by auto
qed

lemma qos_valid_cases: "qos_valid q \<longleftrightarrow> q = 0 \<or> q = 1 \<or> q = 2"
proof -
  have "q \<le> 2 \<longleftrightarrow> unat q \<le> 2" by (simp add: word_le_nat_alt)
  also have "\<dots> \<longleftrightarrow> unat q = 0 \<or> unat q = 1 \<or> unat q = 2" by linarith
  finally show ?thesis by (simp add: qos_valid_def word_unat_eq_iff)
qed

lemma publish_flags_bits:
  assumes "qos_valid (pub_qos m)"
  shows "publish_flags m AND 0x8 = 0" "drop_bit 1 (publish_flags m AND 0x6) = pub_qos m"
    "publish_flags m AND 1 = 1 \<longleftrightarrow> pub_retain m" "drop_bit 4 (publish_flags m) = 3"
  using assms by (auto simp: qos_valid_cases publish_flags_def)

text \<open>What the encoder drops: the DUP flag, and the identifier of a QoS 0 message.\<close>

definition publish_wire :: "publish \<Rightarrow> publish" where
  "publish_wire m = m\<lparr>pub_dup := False, pub_identifier := (if 0 < pub_qos m then pub_identifier m else 0)\<rparr>"

lemma publish_round_trip_base:
  assumes "publish_ok m" and "length (publish_body m) \<le> MAX_LENGTH"
  shows "publish_from_bytes publish_new (publish_to_bytes m) = Inr (publish_wire m)"
proof (rule publish_from_bytes_frame)
  have body: "publish_body (publish_wire m) = publish_body m"
    by (simp add: publish_body_def publish_wire_def)
  have q: "qos_valid (pub_qos m)" using assms(1) by (simp add: publish_ok_def)
  show "publish_frame (publish_to_bytes m) (publish_wire m)"
    unfolding publish_frame_def publish_to_bytes_eq body
    using read_size_check_encode [OF assms(2), of "publish_body m"] publish_flags_bits [OF q]
    by (intro exI [of _ "publish_flags m"] exI [of _ "encode_length (length (publish_body m))"])
      (simp add: publish_wire_def)
qed (use assms in \<open>auto simp: publish_ok_def publish_wire_def publish_new_def\<close>)

section \<open>SUBSCRIBE and UNSUBSCRIBE\<close>

text \<open>A string with its length in front.\<close>

definition lp :: "rstring \<Rightarrow> u8 list" where
  "lp s = u16_be (word_of_nat (length s)) @ s"

definition filter_ok :: "rstring \<Rightarrow> bool" where
  "filter_ok t \<longleftrightarrow> topic_filter_valid t \<and> utf8_valid t"

lemma lp_not_Nil [simp]: "lp s \<noteq> []"
  by (simp add: lp_def)

definition sub_entry :: "rstring \<times> u8 \<Rightarrow> u8 list" where
  "sub_entry tq = lp (fst tq) @ [snd tq]"

definition sub_entry_ok :: "rstring \<times> u8 \<Rightarrow> bool" where
  "sub_entry_ok tq \<longleftrightarrow> filter_ok (fst tq) \<and> qos_valid (snd tq)"

lemma subscribe_topics_loop_reads:
  "\<forall>tq \<in> set ts. sub_entry_ok tq \<Longrightarrow>
   subscribe_topics_loop (rd_at pre (concat (map sub_entry ts))) self =
     Inr (self\<lparr>sub_topics := sub_topics self @ ts\<rparr>)"
proof (induction ts arbitrary: pre self)
  case Nil
  show ?case by (subst subscribe_topics_loop.simps) simp
next
  case (Cons tq ts)
  have ok: "topic_filter_valid (fst tq)" "utf8_valid (fst tq)" "qos_valid (snd tq)"
    using Cons.prems by (auto simp: sub_entry_ok_def filter_ok_def)
  note len = topic_filter_valid_length [OF ok(1)]
  show ?case using ok len Cons.prems
    by (subst subscribe_topics_loop.simps)
      (simp add: sub_entry_def lp_def reader_steps unat_u16_of_nat Cons.IH)
qed

lemma subscribe_topics_loop_sound:
  "subscribe_topics_loop (rd_at pre suf) self = Inr m \<Longrightarrow>
   \<exists>ts. suf = concat (map sub_entry ts) \<and> (\<forall>tq \<in> set ts. sub_entry_ok tq) \<and>
     m = self\<lparr>sub_topics := sub_topics self @ ts\<rparr>"
proof (induction "length suf" arbitrary: pre suf self rule: less_induct)
  case less
  show ?case
  proof (cases "suf = []")
    case True
    then show ?thesis using less.prems by (subst (asm) subscribe_topics_loop.simps) (auto intro: exI [of _ "[]"])
  next
    case False
    obtain t q bs pre' where suf: "suf = sub_entry (t, q) @ bs" and ok: "sub_entry_ok (t, q)"
      and rec: "subscribe_topics_loop (rd_at pre' bs) (self\<lparr>sub_topics := sub_topics self @ [(t, q)]\<rparr>) = Inr m"
      using less.prems False
      by (subst (asm) subscribe_topics_loop.simps)
        (auto simp: ebind_eq_Inr_iff reader_iffs u16_len_iff sub_entry_def sub_entry_ok_def filter_ok_def lp_def
          split: if_splits)
    have "length bs < length suf" by (simp add: suf sub_entry_def)
    from less.hyps [OF this rec] obtain ts where "bs = concat (map sub_entry ts)"
      "\<forall>tq \<in> set ts. sub_entry_ok tq" "m = self\<lparr>sub_topics := sub_topics self @ (t, q) # ts\<rparr>" by auto
    then show ?thesis using suf ok by (intro exI [of _ "(t, q) # ts"]) simp
  qed
qed

definition subscribe_body :: "subscribe \<Rightarrow> u8 list" where
  "subscribe_body m = u16_be (sub_identifier m) @ concat (map sub_entry (sub_topics m))"

definition subscribe_ok :: "subscribe \<Rightarrow> bool" where
  "subscribe_ok m \<longleftrightarrow> sub_identifier m \<noteq> 0 \<and> sub_topics m \<noteq> [] \<and> (\<forall>tq \<in> set (sub_topics m). sub_entry_ok tq)"

text \<open>A frame with header flags \<open>fl\<close> around a body.\<close>

definition frame_of :: "u8 \<Rightarrow> u8 list \<Rightarrow> u8 list \<Rightarrow> bool" where
  "frame_of fl body buf \<longleftrightarrow>
     (\<exists>f pre n. buf = f # pre @ body \<and> f AND 0xf = fl \<and> read_size_check (pre @ body) = Inr (Some (n, length pre)))"

lemma subscribe_from_bytes_base:
  "subscribe_from_bytes subscribe_new buf = Inr m \<longleftrightarrow> subscribe_ok m \<and> frame_of 2 (subscribe_body m) buf"
proof
  assume "subscribe_from_bytes subscribe_new buf = Inr m"
  then show "subscribe_ok m \<and> frame_of 2 (subscribe_body m) buf"
    by (auto simp: subscribe_from_bytes_def subscribe_new_def Let_def ebind_eq_Inr_iff reader_new_rd_at reader_iffs
        subscribe_ok_def frame_of_def subscribe_body_def dest!: subscribe_topics_loop_sound split: if_splits)
next
  assume ok: "subscribe_ok m \<and> frame_of 2 (subscribe_body m) buf"
  then show "subscribe_from_bytes subscribe_new buf = Inr m"
    by (cases m) (auto simp: subscribe_from_bytes_def subscribe_new_def reader_new_rd_at reader_steps
        subscribe_ok_def frame_of_def subscribe_body_def subscribe_topics_loop_reads)
qed

lemma unsubscribe_topics_loop_reads:
  "\<forall>t \<in> set ts. filter_ok t \<Longrightarrow>
   unsubscribe_topics_loop (rd_at pre (concat (map lp ts))) self =
     Inr (self\<lparr>unsub_topics := unsub_topics self @ ts\<rparr>)"
proof (induction ts arbitrary: pre self)
  case Nil
  show ?case by (subst unsubscribe_topics_loop.simps) simp
next
  case (Cons t ts)
  have ok: "topic_filter_valid t" "utf8_valid t"
    using Cons.prems by (auto simp: filter_ok_def)
  note len = topic_filter_valid_length [OF ok(1)]
  have "lp t @ rest = u16_be (word_of_nat (length t)) @ t @ rest" for rest by (simp add: lp_def)
  then show ?case using ok len Cons.prems
    by (subst unsubscribe_topics_loop.simps) (simp add: lp_def reader_steps unat_u16_of_nat Cons.IH)
qed

lemma unsubscribe_topics_loop_sound:
  "unsubscribe_topics_loop (rd_at pre suf) self = Inr m \<Longrightarrow>
   \<exists>ts. suf = concat (map lp ts) \<and> (\<forall>t \<in> set ts. filter_ok t) \<and>
     m = self\<lparr>unsub_topics := unsub_topics self @ ts\<rparr>"
proof (induction "length suf" arbitrary: pre suf self rule: less_induct)
  case less
  show ?case
  proof (cases "suf = []")
    case True
    then show ?thesis using less.prems by (subst (asm) unsubscribe_topics_loop.simps) (auto intro: exI [of _ "[]"])
  next
    case False
    obtain t bs pre' where suf: "suf = lp t @ bs" and ok: "filter_ok t"
      and rec: "unsubscribe_topics_loop (rd_at pre' bs) (self\<lparr>unsub_topics := unsub_topics self @ [t]\<rparr>) = Inr m"
      using less.prems False
      by (subst (asm) unsubscribe_topics_loop.simps)
        (auto simp: ebind_eq_Inr_iff reader_iffs u16_len_iff filter_ok_def lp_def split: if_splits)
    have "length bs < length suf" by (simp add: suf lp_def)
    from less.hyps [OF this rec] obtain ts where "bs = concat (map lp ts)"
      "\<forall>t \<in> set ts. filter_ok t" "m = self\<lparr>unsub_topics := unsub_topics self @ t # ts\<rparr>" by auto
    then show ?thesis using suf ok by (intro exI [of _ "t # ts"]) simp
  qed
qed

definition unsubscribe_body :: "unsubscribe \<Rightarrow> u8 list" where
  "unsubscribe_body m = u16_be (unsub_identifier m) @ concat (map lp (unsub_topics m))"

definition unsubscribe_ok :: "unsubscribe \<Rightarrow> bool" where
  "unsubscribe_ok m \<longleftrightarrow> unsub_topics m \<noteq> [] \<and> (\<forall>t \<in> set (unsub_topics m). filter_ok t)"

lemma unsubscribe_from_bytes_base:
  "unsubscribe_from_bytes unsubscribe_new buf = Inr m \<longleftrightarrow>
     unsubscribe_ok m \<and> frame_of 2 (unsubscribe_body m) buf"
proof
  assume "unsubscribe_from_bytes unsubscribe_new buf = Inr m"
  then show "unsubscribe_ok m \<and> frame_of 2 (unsubscribe_body m) buf"
    by (auto simp: unsubscribe_from_bytes_def unsubscribe_new_def Let_def ebind_eq_Inr_iff reader_new_rd_at
        reader_iffs unsubscribe_ok_def frame_of_def unsubscribe_body_def
        dest!: unsubscribe_topics_loop_sound split: if_splits)
next
  assume ok: "unsubscribe_ok m \<and> frame_of 2 (unsubscribe_body m) buf"
  then show "unsubscribe_from_bytes unsubscribe_new buf = Inr m"
    by (cases m) (auto simp: unsubscribe_from_bytes_def unsubscribe_new_def reader_new_rd_at reader_steps
        unsubscribe_ok_def frame_of_def unsubscribe_body_def unsubscribe_topics_loop_reads)
qed

section \<open>PINGREQ and CONNECT\<close>

lemma pingreq_from_bytes_base: "pingreq_from_bytes buf = Inr u \<longleftrightarrow> frame_of 0 [] buf"
proof
  assume "pingreq_from_bytes buf = Inr u"
  then show "frame_of 0 [] buf"
    by (auto simp: pingreq_from_bytes_def Let_def ebind_eq_Inr_iff reader_new_rd_at reader_iffs frame_of_def
        split: if_splits)
next
  assume "frame_of 0 [] buf"
  then show "pingreq_from_bytes buf = Inr u"
    using read_varint_step [of _ "[]"]
    by (auto simp: pingreq_from_bytes_def reader_new_rd_at reader_steps frame_of_def)
qed

text \<open>
  The body of a CONNECT packet with protocol name bytes \<open>name\<close> (which the parser skips)
  and connect flags \<open>fl\<close>.
\<close>

definition will_body :: "u8 \<Rightarrow> connect \<Rightarrow> u8 list" where
  "will_body fl m = (if fl AND 0x04 = 0x04 then lp (con_willtopic m) @ lp (con_willmsg m) else [])"

definition credentials_body :: "u8 \<Rightarrow> connect \<Rightarrow> u8 list" where
  "credentials_body fl m =
     (if fl AND 0x80 = 0x80 then lp (con_username m) else []) @
     (if fl AND 0x40 = 0x40 then lp (con_password m) else [])"

definition connect_body :: "u8 list \<Rightarrow> u8 \<Rightarrow> connect \<Rightarrow> u8 list" where
  "connect_body name fl m =
     name @ [con_version m, fl] @ u16_be (con_keepalive m) @ lp (con_client m) @ will_body fl m @
     credentials_body fl m"

text \<open>What the will part and the credentials part fix of the message.\<close>

definition will_ok :: "u8 \<Rightarrow> connect \<Rightarrow> connect \<Rightarrow> bool" where
  "will_ok fl self m \<longleftrightarrow>
     (if fl AND 0x04 = 0x04 then
        con_will m \<and> qos_valid (con_willqos m) \<and> con_willqos m = drop_bit 3 (fl AND 0x18) \<and>
        con_willretain m = (fl AND 0x20 = 0x20) \<and> publish_topic_valid (con_willtopic m) \<and>
        utf8_valid (con_willtopic m) \<and> length (con_willmsg m) \<le> 65535
      else
        drop_bit 3 (fl AND 0x18) = 0 \<and> fl AND 0x20 \<noteq> 0x20 \<and> con_will m = con_will self \<and>
        con_willqos m = con_willqos self \<and> con_willretain m = con_willretain self \<and>
        con_willtopic m = con_willtopic self \<and> con_willmsg m = con_willmsg self)"

definition credentials_ok :: "u8 \<Rightarrow> connect \<Rightarrow> connect \<Rightarrow> bool" where
  "credentials_ok fl self m \<longleftrightarrow>
     (if fl AND 0x80 = 0x80 then length (con_username m) \<le> 65535 \<and> utf8_valid (con_username m)
      else con_username m = con_username self) \<and>
     (if fl AND 0x40 = 0x40 then length (con_password m) \<le> 65535 \<and> utf8_valid (con_password m)
      else con_password m = con_password self)"

lemma lp_append: "lp s @ bs = u16_be (word_of_nat (length s)) @ s @ bs"
  by (simp add: lp_def)

lemma connect_read_will_sound:
  assumes "connect_read_will fl self (rd_at pre suf) = Inr (m, r)"
  shows "will_ok fl self m \<and> (\<exists>bs. suf = will_body fl m @ bs \<and> r = rd_at (pre @ will_body fl m) bs) \<and>
    con_client m = con_client self \<and> con_username m = con_username self \<and> con_password m = con_password self \<and>
    con_version m = con_version self \<and> con_keepalive m = con_keepalive self \<and>
    con_clean_session m = con_clean_session self"
proof -
  define wq wr where "wq = drop_bit 3 (fl AND 0x18)" and "wr = (fl AND 0x20 = 0x20)"
  show ?thesis
    using assms
    unfolding connect_read_will_def Let_def will_ok_def will_body_def wq_def [symmetric] wr_def [symmetric]
    by (cases "fl AND 0x04 = 0x04")
      (auto simp: ebind_eq_Inr_iff reader_iffs u16_len_iff lp_def unat_u16_of_nat split: if_splits)
qed

lemma connect_read_credentials_sound:
  assumes "connect_read_credentials fl self (rd_at pre suf) = Inr (m, r)"
  shows "credentials_ok fl self m \<and>
    (\<exists>bs. suf = credentials_body fl m @ bs \<and> r = rd_at (pre @ credentials_body fl m) bs) \<and>
    con_client m = con_client self \<and> con_will m = con_will self \<and> con_willqos m = con_willqos self \<and>
    con_willretain m = con_willretain self \<and> con_willtopic m = con_willtopic self \<and>
    con_willmsg m = con_willmsg self \<and> con_version m = con_version self \<and>
    con_keepalive m = con_keepalive self \<and> con_clean_session m = con_clean_session self"
  using assms unfolding connect_read_credentials_def credentials_ok_def credentials_body_def
  by (cases "fl AND 0x80 = 0x80"; cases "fl AND 0x40 = 0x40")
    (auto simp: ebind_eq_Inr_iff reader_iffs lp_def)

lemma connect_read_will_step [reader_steps]:
  assumes "will_ok fl self m"
    and "m' = self\<lparr>con_will := con_will m, con_willqos := con_willqos m, con_willretain := con_willretain m,
      con_willtopic := con_willtopic m, con_willmsg := con_willmsg m\<rparr>"
  shows "connect_read_will fl self (rd_at pre (will_body fl m @ bs)) = Inr (m', rd_at (pre @ will_body fl m) bs)"
proof (cases "fl AND 0x04 = 0x04")
  case True
  have len: "length (con_willtopic m) \<le> 65535" "length (con_willmsg m) \<le> 65535"
    using assms True publish_topic_valid_length [of "con_willtopic m"] by (auto simp: will_ok_def)
  have w: "drop_bit 3 (fl AND 0x18) = con_willqos m" "(fl AND 0x20 = 0x20) = con_willretain m"
    using assms True by (auto simp: will_ok_def)
  have q: "qos_valid (con_willqos m)" "publish_topic_valid (con_willtopic m)" "utf8_valid (con_willtopic m)"
    "con_will m"
    using assms True by (auto simp: will_ok_def)
  show ?thesis
    unfolding connect_read_will_def Let_def w
    using assms(2) True len q
    by (simp add: will_body_def lp_def reader_steps unat_u16_of_nat)
next
  case False
  define wq where "wq = drop_bit 3 (fl AND 0x18)"
  have "wq = 0" "fl AND 0x20 \<noteq> 0x20" "m' = self" using assms False by (auto simp: will_ok_def wq_def)
  then show ?thesis
    using False unfolding connect_read_will_def Let_def wq_def [symmetric] by (simp add: will_body_def)
qed

lemma connect_read_credentials_step [reader_steps]:
  assumes "credentials_ok fl self m"
    and "m' = self\<lparr>con_username := con_username m, con_password := con_password m\<rparr>"
  shows "connect_read_credentials fl self (rd_at pre (credentials_body fl m)) =
    Inr (m', rd_at (pre @ credentials_body fl m) [])"
  using assms unfolding connect_read_credentials_def credentials_ok_def credentials_body_def
  by (cases "fl AND 0x80 = 0x80"; cases "fl AND 0x40 = 0x40") (simp_all add: lp_def reader_steps)

definition connect_ok :: "u8 \<Rightarrow> connect \<Rightarrow> bool" where
  "connect_ok fl m \<longleftrightarrow>
     fl AND 0x01 \<noteq> 0x01 \<and> con_clean_session m = (fl AND 0x02 = 0x02) \<and>
     client_id_valid (con_client m) \<and> utf8_valid (con_client m) \<and>
     will_ok fl connect_new m \<and> credentials_ok fl connect_new m"

lemma client_id_valid_length: "client_id_valid s \<Longrightarrow> length s \<le> 65535"
  by (auto simp: client_id_valid_def split: if_splits)

lemma connect_from_bytes_base:
  "connect_from_bytes connect_new buf = Inr m \<longleftrightarrow>
     (\<exists>name fl. length name = 6 \<and> connect_ok fl m \<and> frame_of 0 (connect_body name fl m) buf)"
proof
  assume *: "connect_from_bytes connect_new buf = Inr m"
  then obtain f pre n name v fl ka cl bs r1 m1 r2 r3 m2 where f: "f AND 0xf = 0"
    and buf: "buf = f # pre @ name @ v # fl # u16_be ka @ lp cl @ bs"
    and name: "length name = 6"
    and sz: "read_size_check (pre @ name @ v # fl # u16_be ka @ lp cl @ bs) = Inr (Some (n, length pre))"
    and fl: "fl AND 0x01 \<noteq> 0x01" and cl: "client_id_valid cl" "utf8_valid cl"
    and w: "connect_read_will fl (connect_new\<lparr>con_version := v, con_clean_session := (fl AND 0x02 = 0x02),
        con_keepalive := ka, con_client := cl\<rparr>) (rd_at r1 bs) = Inr (m1, r2)"
    and c: "connect_read_credentials fl m1 r2 = Inr (m, r3)"
    and e: "expect_end ''Connect message length incorrect'' r3 = Inr ()"
    unfolding connect_from_bytes_def Let_def
    by (auto simp: ebind_eq_Inr_iff reader_new_rd_at reader_iffs u16_len_iff lp_append split: if_splits)
  obtain bs2 where bs: "bs = will_body fl m1 @ bs2" and r2: "r2 = rd_at (r1 @ will_body fl m1) bs2"
    using connect_read_will_sound [OF w] by blast
  note W = connect_read_will_sound [OF w] and C = connect_read_credentials_sound [OF c [unfolded r2]]
  have "bs2 = credentials_body fl m"
    using C e by (auto simp: reader_iffs)
  moreover have "will_body fl m = will_body fl m1" using C by (simp add: will_body_def)
  moreover have "will_ok fl connect_new m" using W C by (auto simp: will_ok_def connect_new_def)
  moreover have "credentials_ok fl connect_new m" using W C by (auto simp: credentials_ok_def connect_new_def)
  moreover have "con_version m = v" "con_keepalive m = ka" "con_client m = cl" "con_clean_session m = (fl AND 0x02 = 0x02)"
    using W C by auto
  ultimately have "connect_ok fl m" "frame_of 0 (connect_body name fl m) buf"
    using f fl cl sz buf bs by (auto simp: connect_ok_def frame_of_def connect_body_def)
  then show "\<exists>name fl. length name = 6 \<and> connect_ok fl m \<and> frame_of 0 (connect_body name fl m) buf"
    using name by blast
next
  assume "\<exists>name fl. length name = 6 \<and> connect_ok fl m \<and> frame_of 0 (connect_body name fl m) buf"
  then obtain name fl f pre n where name: "length name = 6" and ok: "connect_ok fl m"
    and buf: "buf = f # pre @ connect_body name fl m" and f: "f AND 0xf = 0"
    and sz: "read_size_check (pre @ connect_body name fl m) = Inr (Some (n, length pre))"
    by (auto simp: frame_of_def)
  let ?m1 = "connect_new\<lparr>con_version := con_version m, con_clean_session := (fl AND 0x02 = 0x02),
        con_keepalive := con_keepalive m, con_client := con_client m\<rparr>"
  let ?m2 = "?m1\<lparr>con_will := con_will m, con_willqos := con_willqos m, con_willretain := con_willretain m,
      con_willtopic := con_willtopic m, con_willmsg := con_willmsg m\<rparr>"
  have "will_ok fl ?m1 m = will_ok fl connect_new m" by (simp add: will_ok_def cong: if_cong)
  then have "will_ok fl ?m1 m" using ok by (simp add: connect_ok_def)
  then have w: "connect_read_will fl ?m1 (rd_at p (will_body fl m @ bs)) = Inr (?m2, rd_at (p @ will_body fl m) bs)" for p bs
    by (rule connect_read_will_step) simp
  have "credentials_ok fl ?m2 m" using ok by (simp add: connect_ok_def credentials_ok_def connect_new_def)
  then have c: "connect_read_credentials fl ?m2 (rd_at p (credentials_body fl m)) =
      Inr (m, rd_at (p @ credentials_body fl m) [])" for p
    using ok by (intro connect_read_credentials_step) (auto simp: connect_ok_def connect_new_def)
  have rv: "read_varint (rd_at p (pre @ connect_body name fl m)) =
      Inr ((n, length pre), rd_at (p @ pre) (connect_body name fl m))" for p
    using sz by (simp add: reader_steps)
  have len: "length (con_client m) \<le> 65535" using ok by (auto simp: connect_ok_def client_id_valid_length)
  show "connect_from_bytes connect_new buf = Inr m"
    unfolding connect_from_bytes_def Let_def buf reader_new_rd_at read_u8_step ebind_simps prod.case rv
    using f ok len name w c
    by (simp add: connect_body_def reader_steps lp_append unat_u16_of_nat connect_ok_def)
qed

section \<open>Properties\<close>

text \<open>C34: a PUBLISH packet parses to a message exactly when it is a header byte with the message's flags,
  a length field that counts the rest, and the body the encoder writes for that message, and the message is
  one a client may send.\<close>

theorem publish_parse_iff:
  "publish_from_bytes publish_new buf = Inr m \<longleftrightarrow>
     publish_frame buf m \<and> publish_ok m \<and> (0 < pub_qos m \<or> pub_identifier m = 0)"
  using publish_from_bytes_sound [of publish_new buf m] publish_from_bytes_frame [of buf m publish_new]
  by (auto simp: publish_new_def word_gt_0)

text \<open>A SUBSCRIBE packet parses to a message exactly when its flags are 2, its body is the identifier
  and the filters of the message each with its length and its QoS, the identifier is not 0 and there is at
  least one filter, all of them valid.\<close>

theorem subscribe_parse_iff:
  "subscribe_from_bytes subscribe_new buf = Inr m \<longleftrightarrow> subscribe_ok m \<and> frame_of 2 (subscribe_body m) buf"
  by (rule subscribe_from_bytes_base)

text \<open>C35: a CONNECT packet parses to a message exactly when its body is six bytes of any content (the
  protocol name is skipped, not compared), the version, flags that fit the message, the keep-alive time, the
  client id, and then the will topic and payload, the user name and the password that the flags announce.\<close>

theorem connect_parse_iff:
  "connect_from_bytes connect_new buf = Inr m \<longleftrightarrow>
     (\<exists>name fl. length name = 6 \<and> connect_ok fl m \<and> frame_of 0 (connect_body name fl m) buf)"
  by (rule connect_from_bytes_base)

end
