(* ===== verification/Msg_Codec.thy ===== *)
theory Msg_Codec
  imports Msg_Roundtrip
begin

text \<open>
  \<open>src/messages/codec.rs\<close>: the message union, the encoder, and the decoder that cuts
  frames out of the connection's buffer. \<open>BytesMut\<close> is its bytes, and the sizes the codec
  asked it to reserve, oldest first: the buffer's growth policy is the library's own.
\<close>

section \<open>Definitions\<close>

datatype mqtt_message =
    Connect connect
  | ConnAck connack
  | Publish publish
  | PubAck puback
  | PubRec pubrec
  | PubRel pubrel
  | PubComp pubcomp
  | Subscribe subscribe
  | SubAck suback
  | Unsubscribe unsubscribe
  | UnsubAck unsuback
  | PingReq
  | PingResp
  | Disconnect

record mqtt_codec =
  max_packet_size :: nat

definition codec_new :: "nat \<Rightarrow> mqtt_codec" where
  "codec_new limit = \<lparr>max_packet_size = limit\<rparr>"

definition set_max_packet_size :: "nat \<Rightarrow> mqtt_codec \<Rightarrow> mqtt_codec" where
  "set_max_packet_size limit self = self\<lparr>max_packet_size := limit\<rparr>"

record bytes_mut =
  bm_data :: "u8 list"
  bm_reserved :: "nat list"

definition bm_reserve :: "nat \<Rightarrow> bytes_mut \<Rightarrow> bytes_mut" where
  "bm_reserve n buf = buf\<lparr>bm_reserved := bm_reserved buf @ [n]\<rparr>"

definition encode :: "mqtt_message \<Rightarrow> bytes_mut \<Rightarrow> bytes_mut" where
  "encode message buf =
     (let bytes =
        (case message of
           Publish m \<Rightarrow> Some (publish_to_bytes m)
         | ConnAck m \<Rightarrow> Some (connack_to_bytes m)
         | SubAck m \<Rightarrow> Some (suback_to_bytes m)
         | UnsubAck m \<Rightarrow> Some (unsuback_to_bytes m)
         | PingResp \<Rightarrow> Some pingresp_to_bytes
         | PubAck m \<Rightarrow> Some (puback_to_bytes m)
         | PubRec m \<Rightarrow> Some (pubrec_to_bytes m)
         | PubRel m \<Rightarrow> Some (pubrel_to_bytes m)
         | PubComp m \<Rightarrow> Some (pubcomp_to_bytes m)
         | _ \<Rightarrow> None)
      in case bytes of
           Some b \<Rightarrow> let buf = bm_reserve (length b) buf in buf\<lparr>bm_data := bm_data buf @ b\<rparr>
         | None \<Rightarrow> buf)"

definition decode_msg :: "('a \<Rightarrow> mqtt_message) \<Rightarrow> io_error + 'a \<Rightarrow> io_error + mqtt_message option" where
  "decode_msg variant parsed = ebind parsed (\<lambda>m. Inr (Some (variant m)))"

text \<open>The parser a packet type selects.\<close>

definition decode_by_type :: "u8 \<Rightarrow> u8 list \<Rightarrow> io_error + mqtt_message option" where
  "decode_by_type msgtype msg =
     (case message_type_try_from (uint msgtype) of
        Inr Type_Connect \<Rightarrow> decode_msg Connect (connect_from_bytes connect_new msg)
      | Inr Type_Subscribe \<Rightarrow> decode_msg Subscribe (subscribe_from_bytes subscribe_new msg)
      | Inr Type_Unsubscribe \<Rightarrow> decode_msg Unsubscribe (unsubscribe_from_bytes unsubscribe_new msg)
      | Inr Type_Publish \<Rightarrow> decode_msg Publish (publish_from_bytes publish_new msg)
      | Inr Type_PingReq \<Rightarrow> decode_msg (\<lambda>_. PingReq) (pingreq_from_bytes msg)
      | Inr Type_PubAck \<Rightarrow> decode_msg PubAck (puback_from_bytes puback_new msg)
      | Inr Type_PubRec \<Rightarrow> decode_msg PubRec (pubrec_from_bytes pubrec_new msg)
      | Inr Type_PubRel \<Rightarrow> decode_msg PubRel (pubrel_from_bytes pubrel_new msg)
      | Inr Type_PubComp \<Rightarrow> decode_msg PubComp (pubcomp_from_bytes pubcomp_new msg)
      | Inr Type_Disconnect \<Rightarrow> Inr (Some Disconnect)
      | _ \<Rightarrow> Inl (IoError InvalidData ''Unknown msg received''))"

definition decode :: "mqtt_codec \<Rightarrow> bytes_mut \<Rightarrow> (io_error + mqtt_message option) \<times> bytes_mut" where
  "decode self buf =
     (if bm_data buf = [] then (Inr None, buf)
      else
        let msgtype = drop_bit 4 (bm_data buf ! 0) in
        case read_size_check (drop 1 (bm_data buf)) of
          Inl _ \<Rightarrow> (Inl (IoError InvalidData ''Invalid message length''), buf)
        | Inr None \<Rightarrow> (Inr None, buf)
        | Inr (Some (len, lensize)) \<Rightarrow>
            if max_packet_size self < len then
              (Inl (IoError InvalidData ''Decoder: packet exceeds maximum allowed size''), buf)
            else if MAX_LENGTH < len then
              (Inl (IoError InvalidData ''Decoder: packet exceeds MQTT protocol max length''), buf)
            else
              let frame_len = 1 + lensize + len in
              if length (bm_data buf) < frame_len then
                (Inr None, bm_reserve (frame_len - length (bm_data buf)) buf)
              else
                let msg = take frame_len (bm_data buf);
                    buf = buf\<lparr>bm_data := drop frame_len (bm_data buf)\<rparr> in
                (decode_by_type msgtype msg, buf))"

definition decode_eof :: "mqtt_codec \<Rightarrow> bytes_mut \<Rightarrow> (io_error + mqtt_message option) \<times> bytes_mut" where
  "decode_eof self buf = decode self buf"

section \<open>One frame\<close>

definition decode_frame :: "u8 list \<Rightarrow> io_error + mqtt_message option" where
  "decode_frame msg = decode_by_type (drop_bit 4 (hd msg)) msg"

lemma decode_msg_not_None [simp]: "decode_msg v p \<noteq> Inr None"
  by (cases p) (simp_all add: decode_msg_def)

lemma decode_frame_not_None: "decode_frame msg \<noteq> Inr None"
proof (cases "message_type_try_from (uint (drop_bit 4 (hd msg)))")
  case (Inr t)
  then show ?thesis by (cases t) (simp_all add: decode_frame_def decode_by_type_def)
qed (simp add: decode_frame_def decode_by_type_def)

text \<open>How far a buffer is: nothing to cut yet, an error, or a first frame of a given length.\<close>

datatype frame_state = Incomplete nat | Too_Long string | Frame nat

definition frame_state :: "mqtt_codec \<Rightarrow> u8 list \<Rightarrow> frame_state" where
  "frame_state self data =
     (case data of
        [] \<Rightarrow> Incomplete 0
      | b # bs \<Rightarrow>
        (case read_size_check bs of
           Inl _ \<Rightarrow> Too_Long ''Invalid message length''
         | Inr None \<Rightarrow> Incomplete 0
         | Inr (Some (len, lensize)) \<Rightarrow>
             if max_packet_size self < len then Too_Long ''Decoder: packet exceeds maximum allowed size''
             else if length data < 1 + lensize + len then Incomplete (1 + lensize + len - length data)
             else Frame (1 + lensize + len)))"

lemma frame_state_cases:
  obtains "data = []" "frame_state self data = Incomplete 0"
  | b bs where "data = b # bs" "read_size_check bs = Inl ()" "frame_state self data = Too_Long ''Invalid message length''"
  | b bs where "data = b # bs" "read_size_check bs = Inr None" "frame_state self data = Incomplete 0"
  | b bs len l where "data = b # bs" "read_size_check bs = Inr (Some (len, l))" "max_packet_size self < len"
      "frame_state self data = Too_Long ''Decoder: packet exceeds maximum allowed size''"
  | b bs len l where "data = b # bs" "read_size_check bs = Inr (Some (len, l))" "len \<le> max_packet_size self"
      "len \<le> MAX_LENGTH" "1 \<le> l" "l \<le> 4" "length data < 1 + l + len"
      "frame_state self data = Incomplete (1 + l + len - length data)"
  | b bs len l where "data = b # bs" "read_size_check bs = Inr (Some (len, l))" "len \<le> max_packet_size self"
      "len \<le> MAX_LENGTH" "1 \<le> l" "l \<le> 4" "1 + l + len \<le> length data"
      "frame_state self data = Frame (1 + l + len)"
proof (cases data)
  case Nil
  then show thesis using that(1) by (simp add: frame_state_def)
next
  case (Cons b bs)
  consider "read_size_check bs = Inl ()" | "read_size_check bs = Inr None"
    | len l where "read_size_check bs = Inr (Some (len, l))"
    by (metis (full_types) old.sum.exhaust old.unit.exhaust option.exhaust surj_pair)
  then show thesis
  proof cases
    case 1
    then show thesis using that(2) [OF Cons] by (simp add: frame_state_def Cons)
  next
    case 2
    then show thesis using that(3) [OF Cons] by (simp add: frame_state_def Cons)
  next
    case (3 len l)
    note b = read_size_check_bounds [OF 3]
    show thesis
    proof (cases "max_packet_size self < len")
      case True
      then show thesis using that(4) [OF Cons 3] 3 by (simp add: frame_state_def Cons)
    next
      case False
      then show thesis
        using that(5) [OF Cons 3] that(6) [OF Cons 3] 3 b
        by (cases "length data < 1 + l + len") (simp_all add: frame_state_def Cons)
    qed
  qed
qed

lemma decode_frame_state:
  "decode self buf =
     (case frame_state self (bm_data buf) of
        Incomplete n \<Rightarrow> (Inr None, if n = 0 then buf else bm_reserve n buf)
      | Too_Long e \<Rightarrow> (Inl (IoError InvalidData e), buf)
      | Frame n \<Rightarrow> (decode_frame (take n (bm_data buf)), buf\<lparr>bm_data := drop n (bm_data buf)\<rparr>))"
  by (cases rule: frame_state_cases [of "bm_data buf" self])
    (simp_all add: decode_def decode_frame_def Let_def)

lemma frame_state_Frame:
  assumes "frame_state self data = Frame n"
  shows "2 \<le> n \<and> n \<le> length data \<and> n \<le> 5 + max_packet_size self"
  using assms by (cases rule: frame_state_cases [of data self]) simp_all

lemma frame_state_Incomplete: "frame_state self data = Incomplete n \<Longrightarrow> n \<le> 4 + max_packet_size self"
  by (cases rule: frame_state_cases [of data self]) simp_all



lemma decode_Some:
  "decode self buf = (Inr (Some m), buf') \<longleftrightarrow>
     (\<exists>n. frame_state self (bm_data buf) = Frame n \<and> decode_frame (take n (bm_data buf)) = Inr (Some m) \<and>
        buf' = buf\<lparr>bm_data := drop n (bm_data buf)\<rparr>)"
  by (auto simp: decode_frame_state split: frame_state.splits if_splits)

section \<open>What the decoder returns\<close>

text \<open>
  The messages a client may send; the decoder returns no other. Note that UNSUBSCRIBE may
  carry the identifier 0.
\<close>

fun message_ok :: "mqtt_message \<Rightarrow> bool" where
  "message_ok (Connect m) = (\<exists>fl. connect_ok fl m)"
| "message_ok (Publish m) = (publish_ok m \<and> (pub_qos m = 0 \<longrightarrow> pub_identifier m = 0))"
| "message_ok (Subscribe m) = subscribe_ok m"
| "message_ok (Unsubscribe m) = unsubscribe_ok m"
| "message_ok (ConnAck m) = False"
| "message_ok (SubAck m) = False"
| "message_ok (UnsubAck m) = False"
| "message_ok PingResp = False"
| "message_ok m = True"

lemma decode_msg_eq [simp]: "decode_msg v p = Inr (Some m) \<longleftrightarrow> (\<exists>x. p = Inr x \<and> m = v x)"
  by (cases p) (auto simp: decode_msg_def)

lemma decode_frame_ok: "decode_frame msg = Inr (Some m) \<Longrightarrow> message_ok m"
proof (cases "message_type_try_from (uint (drop_bit 4 (hd msg)))")
  case (Inr t)
  assume "decode_frame msg = Inr (Some m)"
  with Inr show ?thesis
    by (cases t) (auto simp: decode_frame_def decode_by_type_def connect_from_bytes_base
        subscribe_from_bytes_base unsubscribe_from_bytes_base publish_new_def dest!: publish_from_bytes_sound)
qed (simp add: decode_frame_def decode_by_type_def)

lemma decode_message_ok: "decode self buf = (Inr (Some m), buf') \<Longrightarrow> message_ok m"
  by (auto simp: decode_Some dest: decode_frame_ok)

section \<open>Round trip through the buffer\<close>

text \<open>
  The messages that travel in both directions, and what the encoder keeps of them.
\<close>

fun round_trips :: "mqtt_codec \<Rightarrow> mqtt_message \<Rightarrow> bool" where
  "round_trips self (Publish m) =
     (publish_ok m \<and> length (publish_body m) \<le> MAX_LENGTH \<and> length (publish_body m) \<le> max_packet_size self)"
| "round_trips self (PubAck m) = (2 \<le> max_packet_size self)"
| "round_trips self (PubRec m) = (2 \<le> max_packet_size self)"
| "round_trips self (PubRel m) = (2 \<le> max_packet_size self)"
| "round_trips self (PubComp m) = (2 \<le> max_packet_size self)"
| "round_trips self _ = False"

fun message_wire :: "mqtt_message \<Rightarrow> mqtt_message" where
  "message_wire (Publish m) = Publish (publish_wire m)"
| "message_wire m = m"

definition encoded :: "mqtt_message \<Rightarrow> u8 list" where
  "encoded m = bm_data (encode m \<lparr>bm_data = [], bm_reserved = []\<rparr>)"

lemma encode_data: "bm_data (encode m buf) = bm_data buf @ encoded m"
  by (cases m) (simp_all add: encode_def encoded_def bm_reserve_def)

lemma frame_state_encoded:
  "length body \<le> MAX_LENGTH \<Longrightarrow> length body \<le> max_packet_size self \<Longrightarrow>
   data = b # encode_length (length body) @ body \<Longrightarrow> frame_state self (data @ rest) = Frame (length data)"
  using read_size_check_encode [of "length body" "body @ rest"] by (simp add: frame_state_def)

lemma encode_length_2: "[2] = encode_length (length (u16_be i))"
  by (simp add: encode_length_small)

lemma ack_frame_state:
  "2 \<le> max_packet_size self \<Longrightarrow> frame_state self (b # 2 # u16_be i @ rest) = Frame 4"
  using frame_state_encoded [of "u16_be i" self "b # 2 # u16_be i" b rest] encode_length_2 [of i]
  by (simp add: MAX_LENGTH_def)

lemma encoded_frame:
  assumes "round_trips self m"
  shows "frame_state self (encoded m @ rest) = Frame (length (encoded m)) \<and>
    decode_frame (encoded m) = Inr (Some (message_wire m))"
proof (cases m)
  case (Publish p)
  have e: "encoded m = publish_to_bytes p" by (simp add: encoded_def encode_def bm_reserve_def Publish)
  have q: "qos_valid (pub_qos p)" using assms by (simp add: Publish publish_ok_def)
  have "hd (publish_to_bytes p) = publish_flags p" by (simp add: publish_to_bytes_eq)
  then have "decode_frame (publish_to_bytes p) = decode_msg Publish (publish_from_bytes publish_new (publish_to_bytes p))"
    using message_type_try_from_code [of Type_Publish]
    by (simp add: decode_frame_def decode_by_type_def publish_flags_bits [OF q])
  then show ?thesis
    using assms publish_round_trip_base [of p] frame_state_encoded [of "publish_body p" self _ "publish_flags p" rest] e
    by (simp add: Publish publish_to_bytes_eq decode_msg_def)
next
  case (PubAck a)
  have e: "encoded m = puback_to_bytes a" by (simp add: encoded_def encode_def bm_reserve_def PubAck)
  show ?thesis
    using assms puback.round_trip [of puback_new a] ack_frame_state [of self _ "pa_identifier a" rest]
      message_type_try_from_code [of Type_PubAck] e
    by (simp add: PubAck puback.to_bytes decode_frame_def decode_by_type_def decode_msg_def)
next
  case (PubRec a)
  have e: "encoded m = pubrec_to_bytes a" by (simp add: encoded_def encode_def bm_reserve_def PubRec)
  show ?thesis
    using assms pubrec.round_trip [of pubrec_new a] ack_frame_state [of self _ "pr_identifier a" rest]
      message_type_try_from_code [of Type_PubRec] e
    by (simp add: PubRec pubrec.to_bytes decode_frame_def decode_by_type_def decode_msg_def)
next
  case (PubRel a)
  have e: "encoded m = pubrel_to_bytes a" by (simp add: encoded_def encode_def bm_reserve_def PubRel)
  show ?thesis
    using assms pubrel.round_trip [of pubrel_new a] ack_frame_state [of self _ "pl_identifier a" rest]
      message_type_try_from_code [of Type_PubRel] e
    by (simp add: PubRel pubrel.to_bytes decode_frame_def decode_by_type_def decode_msg_def)
next
  case (PubComp a)
  have e: "encoded m = pubcomp_to_bytes a" by (simp add: encoded_def encode_def bm_reserve_def PubComp)
  show ?thesis
    using assms pubcomp.round_trip [of pubcomp_new a] ack_frame_state [of self _ "pc_identifier a" rest]
      message_type_try_from_code [of Type_PubComp] e
    by (simp add: PubComp pubcomp.to_bytes decode_frame_def decode_by_type_def decode_msg_def)
qed (use assms in simp_all)

section \<open>Streams\<close>

text \<open>
  All the messages a buffer holds: decode until the decoder asks for more, or fails. The
  driver is the reference for what the connection's framing does with the decoder.
\<close>

function decode_all :: "mqtt_codec \<Rightarrow> u8 list \<Rightarrow> mqtt_message list \<times> io_error option \<times> u8 list" where
  "decode_all self data =
     (case decode self \<lparr>bm_data = data, bm_reserved = []\<rparr> of
        (Inr (Some m), buf) \<Rightarrow> (case decode_all self (bm_data buf) of (ms, e, rest) \<Rightarrow> (m # ms, e, rest))
      | (Inr None, buf) \<Rightarrow> ([], None, bm_data buf)
      | (Inl e, buf) \<Rightarrow> ([], Some e, bm_data buf))"
  by pat_completeness auto
termination
proof (relation "measure (length \<circ> snd)")
  fix self :: mqtt_codec and data buf r v m
  assume "(r, buf) = decode self \<lparr>bm_data = data, bm_reserved = []\<rparr>" "r = Inr v" "v = Some m"
  then have "decode self \<lparr>bm_data = data, bm_reserved = []\<rparr> = (Inr (Some m), buf)" by simp
  then show "((self, bm_data buf), self, data) \<in> measure (length \<circ> snd)"
    by (auto simp: decode_Some dest!: frame_state_Frame)
qed simp

declare decode_all.simps [simp del]


lemma decode_all_encoded:
  "round_trips self m \<Longrightarrow>
   decode_all self (encoded m @ data) = (case decode_all self data of (ms, e, rest) \<Rightarrow> (message_wire m # ms, e, rest))"
  using encoded_frame [of self m data] by (subst decode_all.simps) (simp add: decode_frame_state)

lemma encode_fold_data: "bm_data (fold encode ms buf) = bm_data buf @ concat (map encoded ms)"
  by (induction ms arbitrary: buf) (simp_all add: encode_data)

lemma decode_all_concat:
  "\<forall>m \<in> set ms. round_trips self m \<Longrightarrow>
   decode_all self (concat (map encoded ms) @ data) =
     (case decode_all self data of (ms', e, rest) \<Rightarrow> (map message_wire ms @ ms', e, rest))"
  by (induction ms) (auto simp: decode_all_encoded split: prod.splits)

lemma decode_all_Nil: "decode_all self [] = ([], None, [])"
  by (subst decode_all.simps) (simp add: decode_def)


lemma decode_all_cases:
  "decode_all self data =
     (case frame_state self data of
        Incomplete n \<Rightarrow> ([], None, data)
      | Too_Long e \<Rightarrow> ([], Some (IoError InvalidData e), data)
      | Frame n \<Rightarrow> (case decode_frame (take n data) of
          Inr (Some m) \<Rightarrow> (case decode_all self (drop n data) of (ms, e, rest) \<Rightarrow> (m # ms, e, rest))
        | Inr None \<Rightarrow> ([], None, drop n data)
        | Inl e \<Rightarrow> ([], Some e, drop n data)))"
  by (subst decode_all.simps) (simp add: decode_frame_state bm_reserve_def split: frame_state.split sum.split option.split)

section \<open>Properties\<close>

text \<open>C1: a stream of PUBLISH, PUBACK, PUBREC, PUBREL and PUBCOMP packets that the encoder writes one
  after the other is decoded to the same messages in the same order, with nothing left over. Only the DUP
  flag, and the identifier of a QoS 0 publish, are not carried.\<close>

theorem stream_round_trip:
  assumes "\<forall>m \<in> set ms. round_trips self m"
  shows "decode_all self (bm_data (fold encode ms \<lparr>bm_data = [], bm_reserved = []\<rparr>)) =
    (map message_wire ms, None, [])"
  using decode_all_concat [OF assms, of "[]"] by (simp add: encode_fold_data decode_all_Nil)

lemma stream_round_trip_witness:
  "decode_all (codec_new 100) (bm_data (fold encode
       [PubRel \<lparr>pl_identifier = 7\<rparr>,
        Publish \<lparr>pub_identifier = 3, pub_topic = [0x61], pub_message = [1, 2], pub_retain = True,
          pub_dup = True, pub_qos = 1\<rparr>] \<lparr>bm_data = [], bm_reserved = []\<rparr>)) =
   ([PubRel \<lparr>pl_identifier = 7\<rparr>,
     Publish \<lparr>pub_identifier = 3, pub_topic = [0x61], pub_message = [1, 2], pub_retain = True,
       pub_dup = False, pub_qos = 1\<rparr>], None, [])"
proof -
  have "publish_topic_valid [0x61]" by (simp add: publish_topic_valid_ascii_iff)
  then show ?thesis
    by (subst stream_round_trip)
      (auto simp: codec_new_def publish_ok_def qos_valid_def publish_body_def MAX_LENGTH_def publish_wire_def)
qed



text \<open>C22: every message the decoder hands out is well formed: a PUBLISH has a valid QoS and topic, an
  identifier other than 0 when its QoS is above 0 and DUP only then; SUBSCRIBE and UNSUBSCRIBE have at least
  one valid filter, SUBSCRIBE an identifier other than 0; CONNECT has a valid client id and will; and the
  packets only a server sends are never returned.\<close>

theorem decode_valid:
  assumes "decode self buf = (Inr (Some m), buf')"
  shows "message_ok m"
  using assms by (rule decode_message_ok)

lemma decode_valid_witness:
  "message_ok (Publish \<lparr>pub_identifier = 3, pub_topic = [0x61], pub_message = [1, 2], pub_retain = True,
     pub_dup = False, pub_qos = 1\<rparr>)" (is "message_ok ?m")
proof (rule decode_valid)
  have "publish_topic_valid [0x61]" by (simp add: publish_topic_valid_ascii_iff)
  then have "round_trips (codec_new 100) ?m"
    by (simp add: codec_new_def publish_ok_def qos_valid_def publish_body_def MAX_LENGTH_def)
  from encoded_frame [OF this, of "[]"]
  show "decode (codec_new 100) \<lparr>bm_data = encoded ?m, bm_reserved = []\<rparr> =
    (Inr (Some ?m), \<lparr>bm_data = [], bm_reserved = []\<rparr>)"
    by (simp add: decode_frame_state publish_wire_def)
qed

text \<open>C32: whatever a client sends, one call of the decoder asks for at most four bytes more than the
  packet limit, leaves the buffered bytes alone when it returns no message, and takes a prefix of at most
  five bytes more than the limit off the buffer when it returns one.\<close>

theorem decode_bounded:
  "case decode self buf of
     (Inr None, buf') \<Rightarrow> bm_data buf' = bm_data buf \<and>
       (bm_reserved buf' = bm_reserved buf \<or>
        (\<exists>n. n \<le> 4 + max_packet_size self \<and> bm_reserved buf' = bm_reserved buf @ [n]))
   | (Inr (Some m), buf') \<Rightarrow> bm_reserved buf' = bm_reserved buf \<and>
       (\<exists>n. 2 \<le> n \<and> n \<le> 5 + max_packet_size self \<and> n \<le> length (bm_data buf) \<and>
          bm_data buf' = drop n (bm_data buf))
   | (Inl e, buf') \<Rightarrow> bm_reserved buf' = bm_reserved buf"
proof (cases "frame_state self (bm_data buf)")
  case (Incomplete n)
  then show ?thesis using frame_state_Incomplete [OF Incomplete] by (simp add: decode_frame_state bm_reserve_def)
next
  case (Frame n)
  then show ?thesis
    using frame_state_Frame [OF Frame] decode_frame_not_None [of "take n (bm_data buf)"]
    by (cases "decode_frame (take n (bm_data buf))") (auto simp: decode_frame_state)
qed (simp add: decode_frame_state)

text \<open>C33: Decoding ends: whatever the bytes, the decoder is called again at most once for every two of them, and it
  stops at an error or where it asks for more bytes.\<close>

theorem decoding_ends:
  "case decode_all self data of (ms, e, rest) \<Rightarrow>
     2 * length ms + length rest \<le> length data \<and>
     (case e of None \<Rightarrow> fst (decode self \<lparr>bm_data = rest, bm_reserved = []\<rparr>) = Inr None | Some _ \<Rightarrow> True)"
proof (induction self data rule: decode_all.induct)
  case (1 self data)
  show ?case
  proof (cases "frame_state self data")
    case (Frame n)
    then have n: "2 \<le> n" "n \<le> length data" using frame_state_Frame [OF Frame] by auto
    show ?thesis
    proof (cases "decode_frame (take n data)")
      case (Inr r)
      then obtain m where m: "decode_frame (take n data) = Inr (Some m)" using decode_frame_not_None [of "take n data"] by (cases r) auto
      have "case decode_all self (drop n data) of (ms, e, rest) \<Rightarrow> 2 * length ms + length rest \<le> length (drop n data) \<and>
          (case e of None \<Rightarrow> fst (decode self \<lparr>bm_data = rest, bm_reserved = []\<rparr>) = Inr None | Some _ \<Rightarrow> True)"
        using "1.IH" [of _ _ _ m, OF _ refl refl] Frame m by (simp add: decode_frame_state)
      then show ?thesis using Frame m n by (subst decode_all_cases) (auto split: prod.split)
    qed (use Frame n in \<open>subst decode_all_cases, simp\<close>)
  qed (subst decode_all_cases, simp add: decode_frame_state)+
qed

end
