(* ===== verification/Router_Msgs.thy ===== *)
theory Router_Msgs
  imports Broker_Persist Msg_Codec
begin

text \<open>
  The messages between the sessions and the router, from \<open>src/broker/router.rs\<close>. A one-shot
  channel is its number: who sends the response and who waits for it name the same one.
\<close>

type_synonym oneshot = nat

record router_subscribe_response =
  rr_session :: session_id
  rr_ret :: u8
  rr_retained_messages :: "publish list"

record router_publish_message =
  rp_session :: session_id
  rp_message :: publish

record router_publish_subscribe =
  rs_session :: session_id
  rs_topic :: rstring
  rs_qos :: u8
  rs_response_tx :: oneshot

record router_publish_unsubscribe =
  ru_session :: session_id
  ru_topics :: "rstring list"

datatype router_message =
    Router_Publish router_publish_message
  | Router_Subscribe router_publish_subscribe
  | Router_Unsubscribe router_publish_unsubscribe

end
