(* ===== verification/Sess_Persist.thy ===== *)
theory Sess_Persist
  imports Router_Msgs
begin

text \<open>
  \<open>src/sessions/persist.rs\<close> and \<open>src/sessions/persisttest.rs\<close>: the storage of a session as
  its worker uses it, a record of the provider's methods over the provider's own state.
\<close>

section \<open>Definitions\<close>

datatype session_error = Session_Client | Session_Router | Session_Persist string

type_synonym ('p, 'a) session_call = "'p \<Rightarrow> (session_error + 'a) \<times> 'p"

record 'p session_persist =
  sp_create_persistent_connection :: "('p, u8) session_call"
  sp_persist_session :: "rstring \<Rightarrow> ('p, int \<times> int \<times> bool \<times> u16) session_call"
  sp_persist_update_session_generation :: "int \<Rightarrow> int \<Rightarrow> ('p, int) session_call"
  sp_load_persistent_subscriptions :: "int \<Rightarrow> ('p, rstring list) session_call"
  sp_persist_qos_incoming_store :: "int \<Rightarrow> u16 \<Rightarrow> ('p, int) session_call"
  sp_persist_qos_incoming_delete :: "int \<Rightarrow> u16 \<Rightarrow> ('p, u16) session_call"
  sp_persist_qos_incoming_clear :: "int \<Rightarrow> ('p, int) session_call"
  sp_persist_qos_incoming_load :: "int \<Rightarrow> ('p, u16 set) session_call"
  sp_persist_qos_outgoing_store :: "int \<Rightarrow> u16 \<Rightarrow> mqtt_message \<Rightarrow> ('p, u16) session_call"
  sp_persist_qos_outgoing_delete :: "int \<Rightarrow> u16 \<Rightarrow> ('p, u16) session_call"
  sp_persist_qos_outgoing_update_dup :: "int \<Rightarrow> u16 \<Rightarrow> bool \<Rightarrow> ('p, u16) session_call"
  sp_persist_qos_outgoing_clear :: "int \<Rightarrow> ('p, u16) session_call"
  sp_persist_update_session_mid :: "int \<Rightarrow> u16 \<Rightarrow> ('p, u16) session_call"
  sp_persistent_qosout_load :: "int \<Rightarrow> ('p, mqtt_message list) session_call"

text \<open>The provider that keeps nothing.\<close>

definition persist_session_test :: "unit session_persist" where
  "persist_session_test =
     \<lparr>sp_create_persistent_connection = (\<lambda>p. (Inr 0, p)),
      sp_persist_session =
        (\<lambda>id p. let generation = 1; internal_id = 1; clean_session = True; next_mid = 1
           in (Inr (internal_id, generation, clean_session, next_mid), p)),
      sp_persist_update_session_generation = (\<lambda>internal_id _ p. (Inr internal_id, p)),
      sp_load_persistent_subscriptions = (\<lambda>_ p. (Inr [], p)),
      sp_persist_qos_incoming_store = (\<lambda>_ _ p. (Inr 0, p)),
      sp_persist_qos_incoming_delete = (\<lambda>_ _ p. (Inr 0, p)),
      sp_persist_qos_incoming_clear = (\<lambda>_ p. (Inr 0, p)),
      sp_persist_qos_incoming_load = (\<lambda>_ p. (Inr {}, p)),
      sp_persist_qos_outgoing_store = (\<lambda>_ _ _ p. (Inr 0, p)),
      sp_persist_qos_outgoing_delete = (\<lambda>_ _ p. (Inr 0, p)),
      sp_persist_qos_outgoing_update_dup = (\<lambda>_ _ _ p. (Inr 0, p)),
      sp_persist_qos_outgoing_clear = (\<lambda>_ p. (Inr 0, p)),
      sp_persist_update_session_mid = (\<lambda>_ _ p. (Inr 0, p)),
      sp_persistent_qosout_load = (\<lambda>_ p. (Inr [], p))\<rparr>"

end
