(* ===== verification/Sql_Db.thy ===== *)
theory Sql_Db
  imports Sess_Persist Broker_Persist
begin

text \<open>
  The tables of \<open>src/broker/persistsql.rs\<close> and \<open>create_db\<close>'s statements, and what the two SQL
  providers use of the database client: pool, \<open>interact\<close>, statements and transactions. A
  statement of SQL is a function on the tables; an environment says when the pool, the client
  or a statement fails, what the clock shows and whether foreign keys are enforced.
\<close>

section \<open>Tables\<close>

datatype sql_table =
    Tab_sessions | Tab_messages | Tab_topics | Tab_subscriptions | Tab_qosin | Tab_qosout | Tab_version

record session_row =
  ds_id :: int
  ds_name :: rstring
  ds_generation :: int
  ds_next_mid :: int

record message_row =
  dm_id :: int
  dm_qos :: int
  dm_topic :: rstring
  dm_payload :: "u8 list"

record topic_row =
  dt_id :: int
  dt_topic :: rstring
  dt_retained_message_id :: "int option"

record subscription_row =
  du_session_id :: int
  du_topic_id :: int
  du_qos :: int

record qosin_row =
  di_id :: int
  di_session_id :: int
  di_received :: int
  di_mid :: int

record qosout_row =
  do_id :: int
  do_session_id :: int
  do_message_id :: "int option"
  do_received :: int
  do_type :: int
  do_mid :: int
  do_dup :: bool

text \<open>The tables that exist and their rows, in the order of their row ids.\<close>

record database =
  db_tables :: "sql_table list"
  db_sessions :: "session_row list"
  db_messages :: "message_row list"
  db_topics :: "topic_row list"
  db_subscriptions :: "subscription_row list"
  db_qosin :: "qosin_row list"
  db_qosout :: "qosout_row list"
  db_version :: "int list"

definition database_new :: database where
  "database_new = \<lparr>db_tables = [], db_sessions = [], db_messages = [], db_topics = [], db_subscriptions = [],
     db_qosin = [], db_qosout = [], db_version = []\<rparr>"

text \<open>An \<open>INTEGER PRIMARY KEY\<close> that is not given is one more than the largest of the table.\<close>

definition next_row_id :: "int list \<Rightarrow> int" where
  "next_row_id ids = fold max ids 0 + 1"

text \<open>The \<open>FOREIGN KEY\<close> clauses.\<close>

definition foreign_keys_ok :: "database \<Rightarrow> bool" where
  "foreign_keys_ok db \<longleftrightarrow>
     (\<forall>t \<in> set (db_topics db). case dt_retained_message_id t of None \<Rightarrow> True | Some i \<Rightarrow> i \<in> set (map dm_id (db_messages db))) \<and>
     (\<forall>u \<in> set (db_subscriptions db). du_session_id u \<in> set (map ds_id (db_sessions db)) \<and> du_topic_id u \<in> set (map dt_id (db_topics db))) \<and>
     (\<forall>q \<in> set (db_qosin db). di_session_id q \<in> set (map ds_id (db_sessions db))) \<and>
     (\<forall>q \<in> set (db_qosout db). do_session_id q \<in> set (map ds_id (db_sessions db)) \<and>
       (case do_message_id q of None \<Rightarrow> True | Some i \<Rightarrow> i \<in> set (map dm_id (db_messages db))))"

section \<open>Reading values\<close>

text \<open>\<open>row.get::<_, T>\<close> of an integer column fails when the value does not fit \<open>T\<close>.\<close>

definition get_i16 :: "int \<Rightarrow> int option" where
  "get_i16 v = (if - 32768 \<le> v \<and> v < 32768 then Some v else None)"

definition get_i32 :: "int \<Rightarrow> int option" where
  "get_i32 v = (if - 2147483648 \<le> v \<and> v < 2147483648 then Some v else None)"

definition get_u16 :: "int \<Rightarrow> u16 option" where
  "get_u16 v = (if 0 \<le> v \<and> v < 65536 then Some (word_of_int v) else None)"

definition get_u32 :: "int \<Rightarrow> int option" where
  "get_u32 v = (if 0 \<le> v \<and> v < 4294967296 then Some v else None)"

definition get_i32_opt :: "int option \<Rightarrow> int option option" where
  "get_i32_opt v = (case v of None \<Rightarrow> Some None | Some i \<Rightarrow> map_option Some (get_i32 i))"

section \<open>The client of the database\<close>

record 'w sql_env =
  qe_pool :: "'w \<Rightarrow> bool \<times> 'w"
  qe_interact :: "'w \<Rightarrow> bool \<times> 'w"
  qe_statement :: "'w \<Rightarrow> bool \<times> 'w"
  qe_clock :: "'w \<Rightarrow> int \<times> 'w"
  qe_foreign_keys :: bool
  qe_tie :: "int \<Rightarrow> int"

record 'w sql_store =
  sq_db :: database
  sq_world :: 'w

type_synonym ('w, 'e, 'a) sql_act = "('w sql_store, 'e, 'a) act"

definition sql_ask :: "('w \<Rightarrow> 'a \<times> 'w) \<Rightarrow> ('w, 'e, 'a) sql_act" where
  "sql_ask f s = (case f (sq_world s) of (a, w) \<Rightarrow> (Inr a, s\<lparr>sq_world := w\<rparr>))"

text \<open>
  \<open>pool.get()\<close> and \<open>client.interact(body)\<close>: a panic of the body ends in the error of
  \<open>interact\<close>.
\<close>

definition sql_interact :: "'w sql_env \<Rightarrow> 'e \<Rightarrow> 'e \<Rightarrow> ('w, 'e, 'a) sql_act \<Rightarrow> 'w sql_store \<Rightarrow> ('e + 'a) \<times> 'w sql_store" where
  "sql_interact env no_client no_query body s =
     (case act_bind (sql_ask (qe_pool env)) (\<lambda>ok.
           if ok then
             act_bind (sql_ask (qe_interact env)) (\<lambda>ok. if ok then body else act_fail (Failed no_query))
           else act_fail (Failed no_client)) s of
        (Inr a, s) \<Rightarrow> (Inr a, s)
      | (Inl (Failed e), s) \<Rightarrow> (Inl e, s)
      | (Inl Panicked, s) \<Rightarrow> (Inl no_query, s))"

text \<open>
  Preparing a statement needs its tables. A statement is its function on the database, or
  fails: by the environment, without its tables, or when it breaks a foreign key.
\<close>

definition sql_prepare :: "'w sql_env \<Rightarrow> sql_table list \<Rightarrow> ('w, 'e, bool) sql_act" where
  "sql_prepare env tables =
     act_bind (sql_ask (qe_statement env)) (\<lambda>ok.
     act_get (\<lambda>s. ok \<and> set tables \<subseteq> set (db_tables (sq_db s))))"

definition sql_step :: "'w sql_env \<Rightarrow> (database \<Rightarrow> 'a \<times> database) \<Rightarrow> ('w, 'e, 'a option) sql_act" where
  "sql_step env f =
     act_bind (sql_ask (qe_statement env)) (\<lambda>ok s.
     case f (sq_db s) of (a, db) \<Rightarrow>
       if ok \<and> (qe_foreign_keys env \<and> foreign_keys_ok (sq_db s) \<longrightarrow> foreign_keys_ok db) then (Inr (Some a), s\<lparr>sq_db := db\<rparr>) else (Inr None, s))"

definition sql_execute :: "'w sql_env \<Rightarrow> sql_table list \<Rightarrow> (database \<Rightarrow> 'a \<times> database) \<Rightarrow> ('w, 'e, 'a option) sql_act" where
  "sql_execute env tables f =
     act_bind (sql_prepare env tables) (\<lambda>ok. if ok then sql_step env f else act_return None)"

text \<open>A \<open>SELECT\<close> changes nothing; \<open>query_row\<close> takes the first row.\<close>

definition sql_select :: "(database \<Rightarrow> 'a) \<Rightarrow> database \<Rightarrow> 'a \<times> database" where
  "sql_select q db = (q db, db)"

text \<open>\<open>r.map_err(|_| e)?\<close> on what may be missing.\<close>

definition or_error :: "'e \<Rightarrow> ('w, 'e, 'a option) sql_act \<Rightarrow> ('w, 'e, 'a) sql_act" where
  "or_error e m = act_bind m (\<lambda>r. case r of Some a \<Rightarrow> act_return a | None \<Rightarrow> act_fail (Failed e))"

text \<open>
  \<open>db.transaction()\<close>, a body and \<open>commit\<close>: a transaction that is dropped before its commit
  is rolled back.
\<close>

definition sql_transaction :: "'w sql_env \<Rightarrow> 'e \<Rightarrow> 'e \<Rightarrow> ('w, 'e, 'a) sql_act \<Rightarrow> ('w, 'e, 'a) sql_act" where
  "sql_transaction env no_start no_commit body =
     act_bind (sql_ask (qe_statement env)) (\<lambda>ok.
     if \<not> ok then act_fail (Failed no_start)
     else (\<lambda>s. case act_bind body (\<lambda>a. act_bind (sql_ask (qe_statement env)) (\<lambda>ok.
                     if ok then act_return a else act_fail (Failed no_commit))) s of
                 (Inr a, s') \<Rightarrow> (Inr a, s')
               | (Inl e, s') \<Rightarrow> (Inl e, s'\<lparr>sq_db := sq_db s\<rparr>)))"

text \<open>The current time, for the columns that default to it.\<close>

definition sql_now :: "'w sql_env \<Rightarrow> ('w, 'e, int) sql_act" where
  "sql_now env = sql_ask (qe_clock env)"

end
