(* ===== verification/Broker_Sql.thy ===== *)
theory Broker_Sql
  imports Sql_Db
begin

text \<open>
  \<open>src/broker/persistsql.rs\<close>: the storage of the topic tree, method by method. A text that
  carries an error of the client is cut to its constant part.
\<close>

section \<open>The schema\<close>

definition broker_no_client :: broker_error where
  "broker_no_client = Broker_PersistError ''Failed to get db client''"

definition broker_no_query :: broker_error where
  "broker_no_query = Broker_PersistError ''Failed to get sqlite client''"

text \<open>The batch of \<open>create_db\<close> is no transaction: what ran before a failure stays.\<close>

definition create_table :: "'w sql_env \<Rightarrow> broker_error \<Rightarrow> sql_table \<Rightarrow> ('w, broker_error, unit) sql_act" where
  "create_table env e table =
     or_error e (act_bind (sql_ask (qe_statement env)) (\<lambda>ok.
       act_bind (act_get (\<lambda>s. table \<in> set (db_tables (sq_db s)))) (\<lambda>exists.
       if ok \<and> \<not> exists then sql_step env (\<lambda>db. ((), db\<lparr>db_tables := db_tables db @ [table]\<rparr>))
       else act_return None)))"

definition create_db :: "'w sql_env \<Rightarrow> 'w sql_store \<Rightarrow> (broker_error + u8) \<times> 'w sql_store" where
  "create_db env =
     (let failed = Broker_PersistError ''Error creating database'' in
      sql_interact env (Broker_PersistError ''No database client'') broker_no_query
        (act_bind (act_for [Tab_sessions, Tab_messages, Tab_topics, Tab_subscriptions, Tab_qosin, Tab_qosout, Tab_version]
           (create_table env failed)) (\<lambda>_.
         act_bind (or_error failed (sql_execute env [Tab_version] (\<lambda>db. ((), db\<lparr>db_version := db_version db @ [1]\<rparr>)))) (\<lambda>_.
         act_return 0))))"

definition get_database_version :: "'w sql_env \<Rightarrow> 'w sql_store \<Rightarrow> int option \<times> 'w sql_store" where
  "get_database_version env s =
     (case sql_interact env () ()
        (act_bind (sql_execute env [Tab_version] (sql_select db_version)) (\<lambda>rows.
         act_return (case rows of Some (v # _) \<Rightarrow> get_u32 v | _ \<Rightarrow> None))) s of
        (Inr version, s) \<Rightarrow> (version, s)
      | (Inl _, s) \<Rightarrow> (None, s))"

definition sql_init_persistent_store :: "'w sql_env \<Rightarrow> 'w sql_store \<Rightarrow> (broker_error + u8) \<times> 'w sql_store" where
  "sql_init_persistent_store env s =
     (case get_database_version env s of
        (None, s) \<Rightarrow> (case create_db env s of (Inr _, s) \<Rightarrow> (Inr 0, s) | (Inl e, s) \<Rightarrow> (Inl e, s))
      | (Some v, s) \<Rightarrow> if v = 1 then (Inr 0, s) else (Inl (Broker_PersistError ''Unknown database version''), s))"

section \<open>Loading\<close>

definition sql_load_persistent_topics :: "'w sql_env \<Rightarrow> 'w sql_store \<Rightarrow> (broker_error + persisted_topic list) \<times> 'w sql_store" where
  "sql_load_persistent_topics env =
     sql_interact env broker_no_client broker_no_query
       (act_bind (or_error (Broker_PersistError ''Failed to load persistent topics'') (sql_execute env [Tab_topics] (sql_select db_topics))) (\<lambda>rows.
        act_unwrap (those (map (\<lambda>r.
          Option.bind (get_i32 (dt_id r)) (\<lambda>topic_internal_id.
          Option.bind (get_i32_opt (dt_retained_message_id r)) (\<lambda>topic_retained_message_id.
          Some \<lparr>pt_topic_id = topic_internal_id, pt_topic_name = dt_topic r,
                pt_retained_message_id = topic_retained_message_id\<rparr>))) rows))))"

text \<open>A row of the messages table as a message.\<close>

definition stored_message :: "message_row \<Rightarrow> publish option" where
  "stored_message r =
     map_option (\<lambda>qos. publish_new\<lparr>pub_topic := dm_topic r, pub_qos := word_of_int qos, pub_message := dm_payload r\<rparr>)
       (get_i16 (dm_qos r))"

definition message_rows :: "int \<Rightarrow> database \<Rightarrow> message_row list" where
  "message_rows i db = filter (\<lambda>r. dm_id r = i) (db_messages db)"

definition sql_load_persistent_message :: "'w sql_env \<Rightarrow> int \<Rightarrow> 'w sql_store \<Rightarrow> (broker_error + publish) \<times> 'w sql_store" where
  "sql_load_persistent_message env message_id =
     sql_interact env broker_no_client broker_no_query
       (act_bind (sql_execute env [Tab_messages] (sql_select (message_rows message_id))) (\<lambda>rows.
        case rows of
          Some (row # _) \<Rightarrow> act_unwrap (stored_message row)
        | _ \<Rightarrow> act_fail (Failed (Broker_PersistError ''Could not load persistent messages''))))"

text \<open>The join of subscriptions and sessions.\<close>

definition subscription_rows :: "int \<Rightarrow> database \<Rightarrow> (session_row \<times> subscription_row) list" where
  "subscription_rows topic_id db =
     concat (map (\<lambda>u. map (\<lambda>s. (s, u)) (filter (\<lambda>s. ds_id s = du_session_id u) (db_sessions db)))
       (filter (\<lambda>u. du_topic_id u = topic_id) (db_subscriptions db)))"

definition sql_load_persistent_subscriptions :: "'w sql_env \<Rightarrow> int \<Rightarrow> 'w sql_store \<Rightarrow> (broker_error + (session_id \<times> u8) list) \<times> 'w sql_store" where
  "sql_load_persistent_subscriptions env topic_id =
     sql_interact env broker_no_client broker_no_query
       (act_bind (or_error (Broker_PersistError ''Could not load persistent subscriptions'')
          (sql_execute env [Tab_subscriptions, Tab_sessions] (sql_select (subscription_rows topic_id)))) (\<lambda>rows.
        act_unwrap (those (map (\<lambda>(s, u).
          Option.bind (get_i32 (ds_id s)) (\<lambda>session_internal_id.
          Option.bind (get_i16 (du_qos u)) (\<lambda>qos.
          Some (\<lparr>sid_session = ds_name s, sid_internal_id = session_internal_id, sid_generation = ds_generation s\<rparr>,
                word_of_int qos)))) rows))))"

section \<open>Storing\<close>

definition insert_topic_row :: "rstring \<Rightarrow> database \<Rightarrow> int \<times> database" where
  "insert_topic_row topic db =
     (let i = next_row_id (map dt_id (db_topics db))
      in (i, db\<lparr>db_topics := db_topics db @ [\<lparr>dt_id = i, dt_topic = topic, dt_retained_message_id = None\<rparr>]\<rparr>))"

definition insert_message_row :: "u8 \<Rightarrow> rstring \<Rightarrow> u8 list \<Rightarrow> database \<Rightarrow> int \<times> database" where
  "insert_message_row qos topic payload db =
     (let i = next_row_id (map dm_id (db_messages db))
      in (i, db\<lparr>db_messages := db_messages db @ [\<lparr>dm_id = i, dm_qos = uint qos, dm_topic = topic, dm_payload = payload\<rparr>]\<rparr>))"

definition delete_message_row :: "int \<Rightarrow> database \<Rightarrow> unit \<times> database" where
  "delete_message_row i db = ((), db\<lparr>db_messages := filter (\<lambda>r. dm_id r \<noteq> i) (db_messages db)\<rparr>)"

definition set_retained_row :: "int \<Rightarrow> int option \<Rightarrow> database \<Rightarrow> unit \<times> database" where
  "set_retained_row topic_id retid db =
     ((), db\<lparr>db_topics := map (\<lambda>r. if dt_id r = topic_id then r\<lparr>dt_retained_message_id := retid\<rparr> else r) (db_topics db)\<rparr>)"

text \<open>\<open>INSERT ... RETURNING id\<close>: a returned id that does not fit is an error after the insertion.\<close>

definition sql_persist_topic :: "'w sql_env \<Rightarrow> rstring \<Rightarrow> 'w sql_store \<Rightarrow> (broker_error + int) \<times> 'w sql_store" where
  "sql_persist_topic env topic =
     (let failed = Broker_PersistError ''Persist topic failed'' in
      sql_interact env broker_no_client broker_no_query
        (act_bind (or_error failed (sql_execute env [Tab_topics] (insert_topic_row topic))) (\<lambda>i.
         or_error failed (act_return (get_i32 i)))))"

definition sql_persist_delete_topic :: "'w sql_env \<Rightarrow> int \<Rightarrow> 'w sql_store \<Rightarrow> (broker_error + int) \<times> 'w sql_store" where
  "sql_persist_delete_topic env topic_id =
     sql_interact env broker_no_client broker_no_query
       (act_bind (or_error (Broker_PersistError ''Persist delete topic failed'') (sql_execute env [Tab_topics]
          (\<lambda>db. ((), db\<lparr>db_topics := filter (\<lambda>r. dt_id r \<noteq> topic_id) (db_topics db)\<rparr>)))) (\<lambda>_.
        act_return topic_id))"

definition sql_persist_subscribe :: "'w sql_env \<Rightarrow> int \<Rightarrow> int \<Rightarrow> u8 \<Rightarrow> 'w sql_store \<Rightarrow> (broker_error + bool) \<times> 'w sql_store" where
  "sql_persist_subscribe env session_id topic_id qos =
     sql_interact env broker_no_client broker_no_query
       (act_bind (or_error (Broker_PersistError ''Persist subscribe failed'') (sql_execute env [Tab_subscriptions]
          (\<lambda>db. ((), db\<lparr>db_subscriptions := db_subscriptions db @
             [\<lparr>du_session_id = session_id, du_topic_id = topic_id, du_qos = uint qos\<rparr>]\<rparr>)))) (\<lambda>_.
        act_return True))"

definition sql_persist_update_subscribe :: "'w sql_env \<Rightarrow> int \<Rightarrow> int \<Rightarrow> u8 \<Rightarrow> 'w sql_store \<Rightarrow> (broker_error + bool) \<times> 'w sql_store" where
  "sql_persist_update_subscribe env session_id topic_id qos =
     sql_interact env broker_no_client broker_no_query
       (act_bind (or_error (Broker_PersistError ''Update subscribe failed'') (sql_execute env [Tab_subscriptions]
          (\<lambda>db. ((), db\<lparr>db_subscriptions := map (\<lambda>u. if du_session_id u = session_id \<and> du_topic_id u = topic_id
             then u\<lparr>du_qos := uint qos\<rparr> else u) (db_subscriptions db)\<rparr>)))) (\<lambda>_.
        act_return True))"

definition sql_persist_unsubscribe :: "'w sql_env \<Rightarrow> int \<Rightarrow> int \<Rightarrow> 'w sql_store \<Rightarrow> (broker_error + bool) \<times> 'w sql_store" where
  "sql_persist_unsubscribe env session_id topic_id =
     sql_interact env broker_no_client broker_no_query
       (act_bind (or_error (Broker_PersistError ''Unsubscribe failed'') (sql_execute env [Tab_subscriptions]
          (\<lambda>db. ((), db\<lparr>db_subscriptions := filter (\<lambda>u. \<not> (du_session_id u = session_id \<and> du_topic_id u = topic_id))
             (db_subscriptions db)\<rparr>)))) (\<lambda>_.
        act_return True))"

text \<open>The two statements of \<open>persist_retain\<close> are no transaction.\<close>

definition sql_persist_retain :: "'w sql_env \<Rightarrow> int \<Rightarrow> publish \<Rightarrow> 'w sql_store \<Rightarrow> (broker_error + int) \<times> 'w sql_store" where
  "sql_persist_retain env topic_id msg =
     (let failed = Broker_PersistError ''Message retain failed'' in
      sql_interact env broker_no_client broker_no_query
        (act_bind (or_error failed (sql_execute env [Tab_messages]
           (insert_message_row (pub_qos msg) (pub_topic msg) (pub_message msg)))) (\<lambda>i.
         act_bind (or_error failed (act_return (get_i32 i))) (\<lambda>retid.
         act_bind (or_error failed (sql_execute env [Tab_topics] (set_retained_row topic_id (Some retid)))) (\<lambda>_.
         act_return retid)))))"

definition sql_persist_delete_retain :: "'w sql_env \<Rightarrow> int \<Rightarrow> 'w sql_store \<Rightarrow> (broker_error + unit) \<times> 'w sql_store" where
  "sql_persist_delete_retain env topic_id =
     sql_interact env broker_no_client broker_no_query
       (sql_transaction env (Broker_PersistError ''Delete retained message unable to start transaction'')
          (Broker_PersistError ''Delete retained message commit failed'')
          (act_bind (sql_execute env [Tab_topics]
             (sql_select (\<lambda>db. map dt_retained_message_id (filter (\<lambda>r. dt_id r = topic_id) (db_topics db))))) (\<lambda>rows.
           act_bind (or_error (Broker_PersistError ''Delete retained message getting message id failed'')
             (act_return (case rows of Some (v # _) \<Rightarrow> get_i32_opt v | _ \<Rightarrow> None))) (\<lambda>message_id.
           act_bind (or_error (Broker_PersistError ''Delete retained message from topic failed'')
             (sql_execute env [Tab_topics] (set_retained_row topic_id None))) (\<lambda>_.
           case message_id of
             Some mid \<Rightarrow> or_error (Broker_PersistError ''Delete retained message failed'')
               (sql_execute env [Tab_messages] (delete_message_row mid))
           | None \<Rightarrow> act_return ())))))"

definition persist_topic_sql :: "'w sql_env \<Rightarrow> 'w sql_store topic_persist" where
  "persist_topic_sql env =
     \<lparr>tp_create_persistent_connection = (\<lambda>p. (Inr 0, p)),
      tp_init_persistent_store = sql_init_persistent_store env,
      tp_load_persistent_topics = sql_load_persistent_topics env,
      tp_load_persistent_message = sql_load_persistent_message env,
      tp_load_persistent_subscriptions = sql_load_persistent_subscriptions env,
      tp_persist_topic = sql_persist_topic env,
      tp_persist_delete_topic = sql_persist_delete_topic env,
      tp_persist_subscribe = sql_persist_subscribe env,
      tp_persist_update_subscribe = sql_persist_update_subscribe env,
      tp_persist_retain = sql_persist_retain env,
      tp_persist_delete_retain = sql_persist_delete_retain env,
      tp_persist_unsubscribe = sql_persist_unsubscribe env\<rparr>"

end
