(* ===== verification/Sess_Sql.thy ===== *)
theory Sess_Sql
  imports Broker_Sql
begin

text \<open>
  \<open>src/sessions/persistsql.rs\<close>: the storage of a session, method by method. A text that carries
  an error of the client is cut to its constant part.
\<close>

definition session_no_client :: session_error where
  "session_no_client = Session_Persist ''Failed to get db client''"

definition session_no_query :: session_error where
  "session_no_query = Session_Persist ''Failed to run query''"

definition session_prepare_failed :: session_error where
  "session_prepare_failed = Session_Persist ''prepare''"

definition session_value_error :: session_error where
  "session_value_error = Session_Persist ''Error getting value''"

definition session_interact :: "'w sql_env \<Rightarrow> ('w, session_error, 'a) sql_act \<Rightarrow> 'w sql_store \<Rightarrow> (session_error + 'a) \<times> 'w sql_store" where
  "session_interact env = sql_interact env session_no_client session_no_query"

text \<open>\<open>prepare\<close> and then a step of the statement, with an error for each.\<close>

definition session_statement :: "'w sql_env \<Rightarrow> sql_table list \<Rightarrow> session_error \<Rightarrow> (database \<Rightarrow> 'a \<times> database) \<Rightarrow> ('w, session_error, 'a) sql_act" where
  "session_statement env tables failed f =
     act_bind (sql_prepare env tables) (\<lambda>ok.
     if ok then or_error failed (sql_step env f) else act_fail (Failed session_prepare_failed))"

section \<open>The session\<close>

definition insert_session_row :: "rstring \<Rightarrow> int \<Rightarrow> database \<Rightarrow> int \<times> database" where
  "insert_session_row name generation db =
     (let i = next_row_id (map ds_id (db_sessions db))
      in (i, db\<lparr>db_sessions := db_sessions db @
            [\<lparr>ds_id = i, ds_name = name, ds_generation = generation, ds_next_mid = 1\<rparr>]\<rparr>))"

definition sql_persist_session :: "'w sql_env \<Rightarrow> rstring \<Rightarrow> 'w sql_store \<Rightarrow> (session_error + int \<times> int \<times> bool \<times> u16) \<times> 'w sql_store" where
  "sql_persist_session env name =
     session_interact env
       (act_bind (session_statement env [Tab_sessions] (Session_Persist ''Error checking session'')
          (sql_select (\<lambda>db. filter (\<lambda>r. ds_name r = name) (db_sessions db)))) (\<lambda>rows.
        case rows of
          row # _ \<Rightarrow>
            act_bind (or_error session_value_error (act_return (get_i32 (ds_id row)))) (\<lambda>internal_id.
            act_bind (or_error session_value_error (act_return (get_i32 (ds_next_mid row)))) (\<lambda>next_mid.
            act_return (internal_id, ds_generation row, False, word_of_int next_mid)))
        | [] \<Rightarrow>
            act_bind (session_statement env [Tab_sessions] (Session_Persist ''Error persisting session'') (insert_session_row name 0)) (\<lambda>i.
            act_bind (or_error (Session_Persist ''Error persisting session'') (act_return (get_i32 i))) (\<lambda>internal_id.
            act_return (internal_id, 0, True, 1)))))"

text \<open>The join of subscriptions and topics.\<close>

definition session_topic_rows :: "int \<Rightarrow> database \<Rightarrow> rstring list" where
  "session_topic_rows session_id db =
     concat (map (\<lambda>u. map dt_topic (filter (\<lambda>t. dt_id t = du_topic_id u) (db_topics db)))
       (filter (\<lambda>u. du_session_id u = session_id) (db_subscriptions db)))"

definition sql_session_subscriptions :: "'w sql_env \<Rightarrow> int \<Rightarrow> 'w sql_store \<Rightarrow> (session_error + rstring list) \<times> 'w sql_store" where
  "sql_session_subscriptions env session_id =
     session_interact env
       (session_statement env [Tab_subscriptions, Tab_topics] (Session_Persist ''Loading persistent message failed'')
          (sql_select (session_topic_rows session_id)))"

text \<open>\<open>UPDATE ... RETURNING\<close> of rows by their id; without a row there is nothing to return.\<close>

definition update_session_row :: "int \<Rightarrow> (session_row \<Rightarrow> session_row) \<Rightarrow> database \<Rightarrow> session_row list \<times> database" where
  "update_session_row i f db =
     (map f (filter (\<lambda>r. ds_id r = i) (db_sessions db)),
      db\<lparr>db_sessions := map (\<lambda>r. if ds_id r = i then f r else r) (db_sessions db)\<rparr>)"

definition sql_update_session_generation :: "'w sql_env \<Rightarrow> int \<Rightarrow> int \<Rightarrow> 'w sql_store \<Rightarrow> (session_error + int) \<times> 'w sql_store" where
  "sql_update_session_generation env internal_id generation =
     (let failed = Session_Persist ''Error persisting session update'' in
      session_interact env
        (act_bind (session_statement env [Tab_sessions] failed
           (update_session_row internal_id (\<lambda>r. r\<lparr>ds_generation := generation, ds_next_mid := 1\<rparr>))) (\<lambda>rows.
         or_error failed (act_return (case rows of row # _ \<Rightarrow> get_i32 (ds_id row) | [] \<Rightarrow> None)))))"

definition sql_update_session_mid :: "'w sql_env \<Rightarrow> int \<Rightarrow> u16 \<Rightarrow> 'w sql_store \<Rightarrow> (session_error + u16) \<times> 'w sql_store" where
  "sql_update_session_mid env internal_id mid =
     (let failed = Session_Persist ''Updating session mid failed'' in
      session_interact env
        (act_bind (session_statement env [Tab_sessions] failed
           (update_session_row internal_id (\<lambda>r. r\<lparr>ds_next_mid := uint mid\<rparr>))) (\<lambda>rows.
         or_error failed (act_return (case rows of row # _ \<Rightarrow> get_u16 (ds_next_mid row) | [] \<Rightarrow> None)))))"

section \<open>Received identifiers\<close>

definition sql_qos_incoming_store :: "'w sql_env \<Rightarrow> int \<Rightarrow> u16 \<Rightarrow> 'w sql_store \<Rightarrow> (session_error + int) \<times> 'w sql_store" where
  "sql_qos_incoming_store env session_id mid =
     (let failed = Session_Persist ''Error storing qosin mid'' in
      session_interact env
        (act_bind (sql_now env) (\<lambda>now.
         act_bind (session_statement env [Tab_qosin] failed
           (\<lambda>db. let i = next_row_id (map di_id (db_qosin db))
              in (i, db\<lparr>db_qosin := db_qosin db @
                   [\<lparr>di_id = i, di_session_id = session_id, di_received = now, di_mid = uint mid\<rparr>]\<rparr>))) (\<lambda>i.
         or_error failed (act_return (get_i32 i))))))"

definition sql_qos_incoming_delete :: "'w sql_env \<Rightarrow> int \<Rightarrow> u16 \<Rightarrow> 'w sql_store \<Rightarrow> (session_error + u16) \<times> 'w sql_store" where
  "sql_qos_incoming_delete env session_id mid =
     session_interact env
       (act_bind (session_statement env [Tab_qosin] (Session_Persist ''Error deleting qosin mid'')
          (\<lambda>db. ((), db\<lparr>db_qosin := filter (\<lambda>r. \<not> (di_session_id r = session_id \<and> di_mid r = uint mid)) (db_qosin db)\<rparr>))) (\<lambda>_.
        act_return mid))"

definition sql_qos_incoming_clear :: "'w sql_env \<Rightarrow> int \<Rightarrow> 'w sql_store \<Rightarrow> (session_error + int) \<times> 'w sql_store" where
  "sql_qos_incoming_clear env session_id =
     session_interact env
       (act_bind (session_statement env [Tab_qosin] (Session_Persist ''Clearing qos messages failed'')
          (\<lambda>db. ((), db\<lparr>db_qosin := filter (\<lambda>r. di_session_id r \<noteq> session_id) (db_qosin db)\<rparr>))) (\<lambda>_.
        act_return session_id))"

definition sql_qos_incoming_load :: "'w sql_env \<Rightarrow> int \<Rightarrow> 'w sql_store \<Rightarrow> (session_error + u16 set) \<times> 'w sql_store" where
  "sql_qos_incoming_load env session_id =
     session_interact env
       (act_bind (session_statement env [Tab_qosin] (Session_Persist ''Loading persistent qos messages failed'')
          (sql_select (\<lambda>db. map di_mid (filter (\<lambda>r. di_session_id r = session_id) (db_qosin db))))) (\<lambda>rows.
        act_bind (act_unwrap (those (map get_i32 rows))) (\<lambda>mids.
        act_return (set (map word_of_int mids)))))"

section \<open>The outgoing queue\<close>

definition insert_qosout_row :: "int \<Rightarrow> int \<Rightarrow> int \<Rightarrow> int \<Rightarrow> int option \<Rightarrow> database \<Rightarrow> int \<times> database" where
  "insert_qosout_row now session_id mtype mid message_id db =
     (let i = next_row_id (map do_id (db_qosout db))
      in (i, db\<lparr>db_qosout := db_qosout db @
            [\<lparr>do_id = i, do_session_id = session_id, do_message_id = message_id, do_received = now, do_type = mtype,
              do_mid = mid, do_dup = False\<rparr>]\<rparr>))"

text \<open>The row of the message itself, for a PUBLISH, and the type of the message.\<close>

definition store_message_row :: "'w sql_env \<Rightarrow> mqtt_message \<Rightarrow> ('w, session_error, int \<times> int option) sql_act" where
  "store_message_row env msg =
     (let failed = Session_Persist ''QoS outgoing message store failed'' in
      case msg of
        Publish m \<Rightarrow>
          act_bind (session_statement env [Tab_messages] failed
            (insert_message_row (pub_qos m) (pub_topic m) (pub_message m))) (\<lambda>i.
          act_bind (or_error failed (act_return (get_i32 i))) (\<lambda>stored_message_id.
          act_return (message_type_code Type_Publish, Some stored_message_id)))
      | PubRec _ \<Rightarrow> act_return (message_type_code Type_PubRec, None)
      | _ \<Rightarrow> act_fail (Failed (Session_Persist ''QoS outgoing message unknown message type'')))"

definition sql_qos_outgoing_store :: "'w sql_env \<Rightarrow> int \<Rightarrow> u16 \<Rightarrow> mqtt_message \<Rightarrow> 'w sql_store \<Rightarrow> (session_error + u16) \<times> 'w sql_store" where
  "sql_qos_outgoing_store env session_id mid msg =
     (let failed = Session_Persist ''Message retain failed'' in
      session_interact env
        (act_bind (sql_transaction env (Session_Persist ''Unable to start transaction'')
           (Session_Persist ''QoS outgoing delete commit failed'')
           (act_bind (store_message_row env msg) (\<lambda>(mtype, message_id).
            act_bind (sql_now env) (\<lambda>now.
            act_bind (or_error failed (sql_execute env [Tab_qosout]
              (insert_qosout_row now session_id mtype (uint mid) message_id))) (\<lambda>i.
            or_error failed (act_return (get_i32 i))))))) (\<lambda>_.
         act_return mid)))"

definition sql_qos_outgoing_delete :: "'w sql_env \<Rightarrow> int \<Rightarrow> u16 \<Rightarrow> 'w sql_store \<Rightarrow> (session_error + u16) \<times> 'w sql_store" where
  "sql_qos_outgoing_delete env session_id mid =
     (let failed = Session_Persist ''Delete qosout message getting message id failed'' in
      session_interact env
        (act_bind (sql_transaction env (Session_Persist ''Unable to start transaction'')
           (Session_Persist ''QoS outgoing delete commit failed'')
           (act_bind (session_statement env [Tab_qosout] failed
              (sql_select (\<lambda>db. map do_message_id (filter (\<lambda>r. do_session_id r = session_id \<and> do_mid r = uint mid) (db_qosout db))))) (\<lambda>rows.
            act_bind (or_error failed (act_return (case rows of v # _ \<Rightarrow> get_i32_opt v | [] \<Rightarrow> None))) (\<lambda>message_id.
            act_bind (or_error (Session_Persist ''Error deleting qosout mid'') (sql_execute env [Tab_qosout]
              (\<lambda>db. ((), db\<lparr>db_qosout := filter (\<lambda>r. \<not> (do_session_id r = session_id \<and> do_mid r = uint mid)) (db_qosout db)\<rparr>)))) (\<lambda>_.
            case message_id of
              Some table_message_id \<Rightarrow>
                or_error (Session_Persist ''Qosout delete message failed'')
                  (sql_execute env [Tab_messages] (delete_message_row table_message_id))
            | None \<Rightarrow> act_return ()))))) (\<lambda>_.
         act_return mid)))"

text \<open>\<open>UPDATE ... RETURNING qosout_id\<close>, where the returned row id is read as a \<open>u16\<close>.\<close>

definition update_dup_rows :: "int \<Rightarrow> int \<Rightarrow> bool \<Rightarrow> database \<Rightarrow> int list \<times> database" where
  "update_dup_rows session_id mid dup db =
     (map do_id (filter (\<lambda>r. do_session_id r = session_id \<and> do_mid r = mid) (db_qosout db)),
      db\<lparr>db_qosout := map (\<lambda>r. if do_session_id r = session_id \<and> do_mid r = mid then r\<lparr>do_dup := dup\<rparr> else r) (db_qosout db)\<rparr>)"

definition sql_qos_outgoing_update_dup :: "'w sql_env \<Rightarrow> int \<Rightarrow> u16 \<Rightarrow> bool \<Rightarrow> 'w sql_store \<Rightarrow> (session_error + u16) \<times> 'w sql_store" where
  "sql_qos_outgoing_update_dup env session_id mid dup =
     (let failed = Session_Persist ''Loading persistent message failed'' in
      session_interact env
        (act_bind (session_statement env [Tab_qosout] failed (update_dup_rows session_id (uint mid) dup)) (\<lambda>ids.
         or_error failed (act_return (case ids of i # _ \<Rightarrow> get_u16 i | [] \<Rightarrow> None)))))"

definition sql_qos_outgoing_clear :: "'w sql_env \<Rightarrow> int \<Rightarrow> 'w sql_store \<Rightarrow> (session_error + u16) \<times> 'w sql_store" where
  "sql_qos_outgoing_clear env session_id =
     session_interact env
       (act_bind (sql_transaction env (Session_Persist ''Unable to start transaction'')
          (Session_Persist ''Qosout clear delete message failed'')
          (act_bind (session_statement env [Tab_qosout] (Session_Persist ''Loading persistent message failed'')
             (sql_select (\<lambda>db. map do_message_id (filter (\<lambda>r. do_session_id r = session_id) (db_qosout db))))) (\<lambda>rows.
           act_bind (or_error session_value_error (act_return (those (map get_i32_opt rows)))) (\<lambda>mids.
           act_bind (or_error (Session_Persist ''Error clearing qosout'') (sql_execute env [Tab_qosout]
             (\<lambda>db. ((), db\<lparr>db_qosout := filter (\<lambda>r. do_session_id r \<noteq> session_id) (db_qosout db)\<rparr>)))) (\<lambda>_.
           act_for (concat (map (\<lambda>mid. case mid of Some i \<Rightarrow> [i] | None \<Rightarrow> []) mids)) (\<lambda>message_id.
             or_error (Session_Persist ''Qosout clear delete message failed'')
               (sql_execute env [Tab_messages] (delete_message_row message_id)))))))) (\<lambda>_.
        act_return 0))"

section \<open>Loading the queue\<close>

definition client_load_persistent_message :: "'w sql_env \<Rightarrow> int \<Rightarrow> ('w, session_error, publish) sql_act" where
  "client_load_persistent_message env message_id =
     (let failed = Session_Persist ''Loading persistent message failed'' in
      act_bind (session_statement env [Tab_messages] failed (sql_select (message_rows message_id))) (\<lambda>rows.
      or_error failed (act_return (case rows of row # _ \<Rightarrow> stored_message row | [] \<Rightarrow> None))))"

definition sql_session_load_message :: "'w sql_env \<Rightarrow> int \<Rightarrow> 'w sql_store \<Rightarrow> (session_error + publish) \<times> 'w sql_store" where
  "sql_session_load_message env message_id = session_interact env (client_load_persistent_message env message_id)"

record message_meta =
  mm_message_id :: "int option"
  mm_message_type :: int
  mm_message_mid :: int
  mm_message_dup :: bool

definition row_meta :: "qosout_row \<Rightarrow> message_meta option" where
  "row_meta r =
     Option.bind (get_i32_opt (do_message_id r)) (\<lambda>message_id.
     Option.bind (get_i32 (do_type r)) (\<lambda>message_type.
     Option.bind (get_i32 (do_mid r)) (\<lambda>message_mid.
     Some \<lparr>mm_message_id = message_id, mm_message_type = message_type, mm_message_mid = message_mid,
           mm_message_dup = do_dup r\<rparr>)))"

text \<open>\<open>ORDER BY received\<close>; rows of the same time come in an order the client chooses.\<close>

definition qosout_rows :: "'w sql_env \<Rightarrow> int \<Rightarrow> database \<Rightarrow> qosout_row list" where
  "qosout_rows env session_id db =
     sort_key do_received (sort_key (\<lambda>r. qe_tie env (do_id r)) (filter (\<lambda>r. do_session_id r = session_id) (db_qosout db)))"

fun load_queue :: "'w sql_env \<Rightarrow> message_meta list \<Rightarrow> mqtt_message list \<Rightarrow> ('w, session_error, mqtt_message list) sql_act" where
  "load_queue env [] messages = act_return messages"
| "load_queue env (message # messages_meta) messages =
     act_bind
       (case message_type_try_from (mm_message_type message) of
          Inr Type_Publish \<Rightarrow>
            (case mm_message_id message of
               Some i \<Rightarrow>
                 act_bind (client_load_persistent_message env i) (\<lambda>pubmsg.
                 act_return (Publish (pubmsg\<lparr>pub_identifier := word_of_int (mm_message_mid message), pub_dup := mm_message_dup message\<rparr>)))
             | None \<Rightarrow> act_fail (Failed (Session_Persist ''Error loading qosout messages, no id for publish message'')))
        | Inr Type_PubRec \<Rightarrow> act_return (PubRec \<lparr>pr_identifier = word_of_int (mm_message_mid message)\<rparr>)
        | _ \<Rightarrow> act_fail (Failed (Session_Persist ''Error loading qosout messages, unkown message type''))) (\<lambda>m.
     load_queue env messages_meta (messages @ [m]))"

definition sql_qosout_load :: "'w sql_env \<Rightarrow> int \<Rightarrow> 'w sql_store \<Rightarrow> (session_error + mqtt_message list) \<times> 'w sql_store" where
  "sql_qosout_load env session_id =
     session_interact env
       (act_bind (session_statement env [Tab_qosout] (Session_Persist ''Loading session QoS queue failed'')
          (sql_select (qosout_rows env session_id))) (\<lambda>rows.
        act_bind (or_error session_value_error (act_return (those (map row_meta rows)))) (\<lambda>messages_meta.
        load_queue env messages_meta [])))"

definition session_persist_sql :: "'w sql_env \<Rightarrow> 'w sql_store session_persist" where
  "session_persist_sql env =
     \<lparr>sp_create_persistent_connection = (\<lambda>p. (Inr 0, p)),
      sp_persist_session = sql_persist_session env,
      sp_persist_update_session_generation = sql_update_session_generation env,
      sp_load_persistent_subscriptions = sql_session_subscriptions env,
      sp_persist_qos_incoming_store = sql_qos_incoming_store env,
      sp_persist_qos_incoming_delete = sql_qos_incoming_delete env,
      sp_persist_qos_incoming_clear = sql_qos_incoming_clear env,
      sp_persist_qos_incoming_load = sql_qos_incoming_load env,
      sp_persist_qos_outgoing_store = sql_qos_outgoing_store env,
      sp_persist_qos_outgoing_delete = sql_qos_outgoing_delete env,
      sp_persist_qos_outgoing_update_dup = sql_qos_outgoing_update_dup env,
      sp_persist_qos_outgoing_clear = sql_qos_outgoing_clear env,
      sp_persist_update_session_mid = sql_update_session_mid env,
      sp_persistent_qosout_load = sql_qosout_load env\<rparr>"

end
