(* ===== verification/Sql_Laws.thy ===== *)
theory Sql_Laws
  imports Sess_Sql
begin

text \<open>
  A database whose statements do not fail: what the client's operations then come to, and the
  invariant of the tables that both storages rely on.
\<close>

section \<open>A working client\<close>

text \<open>
  Pool, client and statements work, the clock does not go back, and rows of the same time come
  in the order of their ids; \<open>now\<close> is the time in a state of the environment.
\<close>

definition sql_works :: "'w sql_env \<Rightarrow> ('w \<Rightarrow> int) \<Rightarrow> bool" where
  "sql_works env now \<longleftrightarrow>
     (\<forall>w. fst (qe_pool env w) \<and> now w \<le> now (snd (qe_pool env w)) \<and>
        fst (qe_interact env w) \<and> now w \<le> now (snd (qe_interact env w)) \<and>
        fst (qe_statement env w) \<and> now w \<le> now (snd (qe_statement env w)) \<and>
        now w \<le> fst (qe_clock env w) \<and> fst (qe_clock env w) \<le> now (snd (qe_clock env w))) \<and>
     mono (qe_tie env)"

text \<open>An operation ends with \<open>r\<close>, the tables \<open>db\<close> and a later state of the environment.\<close>

definition yields :: "('w \<Rightarrow> int) \<Rightarrow> ('w sql_store \<Rightarrow> 'r \<times> 'w sql_store) \<Rightarrow> 'w sql_store \<Rightarrow> 'r \<Rightarrow> database \<Rightarrow> bool" where
  "yields now m s r db \<longleftrightarrow> (\<exists>w. m s = (r, \<lparr>sq_db = db, sq_world = w\<rparr>) \<and> now (sq_world s) \<le> now w)"

lemma yieldsI: "m s = (r, \<lparr>sq_db = db, sq_world = w\<rparr>) \<Longrightarrow> now (sq_world s) \<le> now w \<Longrightarrow> yields now m s r db"
  by (auto simp: yields_def)

lemma yieldsE:
  assumes "yields now m s r db"
  obtains w where "m s = (r, \<lparr>sq_db = db, sq_world = w\<rparr>)" and "now (sq_world s) \<le> now w"
  using assms by (auto simp: yields_def)

named_theorems yield_rules \<open>what the client's operations yield when they work\<close>

lemma yields_bind:
  assumes "yields now m s (Inr a) db"
    and "\<And>w. now (sq_world s) \<le> now w \<Longrightarrow> yields now (f a) \<lparr>sq_db = db, sq_world = w\<rparr> r db'"
  shows "yields now (act_bind m f) s r db'"
proof -
  obtain w where w: "m s = (Inr a, \<lparr>sq_db = db, sq_world = w\<rparr>)" "now (sq_world s) \<le> now w"
    using assms(1) by (rule yieldsE)
  obtain w' where w': "f a \<lparr>sq_db = db, sq_world = w\<rparr> = (r, \<lparr>sq_db = db', sq_world = w'\<rparr>)" "now w \<le> now w'"
    using assms(2) [OF w(2)] by (auto elim: yieldsE)
  show ?thesis using w w' by (intro yieldsI [of _ _ _ _ w']) auto
qed

lemma yields_bind_error: "yields now m s (Inl e) db \<Longrightarrow> yields now (act_bind m f) s (Inl e) db"
  by (auto simp: yields_def)

lemma store_eq: "\<lparr>sq_db = sq_db s, sq_world = sq_world s\<rparr> = (s :: 'w sql_store)"
  by simp

lemma yields_return [yield_rules]: "yields now (act_return a) s (Inr a) (sq_db s)"
  by (rule yieldsI [of _ _ _ _ "sq_world s"]) simp_all

lemma yields_fail [yield_rules]: "yields now (act_fail e) s (Inl e) (sq_db s)"
  by (rule yieldsI [of _ _ _ _ "sq_world s"]) simp_all

lemma yields_get [yield_rules]: "yields now (act_get f) s (Inr (f s)) (sq_db s)"
  by (rule yieldsI [of _ _ _ _ "sq_world s"]) simp_all

lemma yields_ask:
  "now (sq_world s) \<le> now (snd (f (sq_world s))) \<Longrightarrow> yields now (sql_ask f) s (Inr (fst (f (sq_world s)))) (sq_db s)"
  by (rule yieldsI [of _ _ _ _ "snd (f (sq_world s))"]) (auto simp: sql_ask_def split: prod.split)

lemma yields_asked:
  assumes "sql_works env now"
  shows "yields now (sql_ask (qe_pool env)) s (Inr True) (sq_db s)"
    and "yields now (sql_ask (qe_interact env)) s (Inr True) (sq_db s)"
    and "yields now (sql_ask (qe_statement env)) s (Inr True) (sq_db s)"
  using yields_ask [of now s "qe_pool env"] yields_ask [of now s "qe_interact env"] yields_ask [of now s "qe_statement env"]
    assms by (simp_all add: sql_works_def)

text \<open>The same with a condition on result and store, for what depends on the clock.\<close>

definition runs :: "('w \<Rightarrow> int) \<Rightarrow> ('w sql_store \<Rightarrow> 'r \<times> 'w sql_store) \<Rightarrow> 'w sql_store \<Rightarrow> ('r \<Rightarrow> 'w sql_store \<Rightarrow> bool) \<Rightarrow> bool" where
  "runs now m s P \<longleftrightarrow> (\<exists>r db w. m s = (r, \<lparr>sq_db = db, sq_world = w\<rparr>) \<and> now (sq_world s) \<le> now w \<and> P r \<lparr>sq_db = db, sq_world = w\<rparr>)"

lemma runsI: "m s = (r, \<lparr>sq_db = db, sq_world = w\<rparr>) \<Longrightarrow> now (sq_world s) \<le> now w \<Longrightarrow> P r \<lparr>sq_db = db, sq_world = w\<rparr> \<Longrightarrow> runs now m s P"
  by (auto simp: runs_def)

lemma runsE:
  assumes "runs now m s P"
  obtains r db w where "m s = (r, \<lparr>sq_db = db, sq_world = w\<rparr>)" and "now (sq_world s) \<le> now w" and "P r \<lparr>sq_db = db, sq_world = w\<rparr>"
  using assms by (auto simp: runs_def)

lemma yields_runs: "yields now m s r db \<longleftrightarrow> runs now m s (\<lambda>r' s'. r' = r \<and> sq_db s' = db)"
  by (auto simp: yields_def runs_def)

lemma runs_yields:
  "yields now m s r db \<Longrightarrow> (\<And>w. now (sq_world s) \<le> now w \<Longrightarrow> P r \<lparr>sq_db = db, sq_world = w\<rparr>) \<Longrightarrow> runs now m s P"
  by (auto simp: yields_def runs_def)

lemma runs_mono: "runs now m s P \<Longrightarrow> (\<And>r s'. P r s' \<Longrightarrow> Q r s') \<Longrightarrow> runs now m s Q"
  by (auto simp: runs_def)

lemma runs_bind:
  assumes "yields now m s (Inr a) db"
    and "\<And>w. now (sq_world s) \<le> now w \<Longrightarrow> runs now (f a) \<lparr>sq_db = db, sq_world = w\<rparr> P"
  shows "runs now (act_bind m f) s P"
proof -
  obtain w where w: "m s = (Inr a, \<lparr>sq_db = db, sq_world = w\<rparr>)" "now (sq_world s) \<le> now w"
    using assms(1) by (rule yieldsE)
  obtain r db' w' where w': "f a \<lparr>sq_db = db, sq_world = w\<rparr> = (r, \<lparr>sq_db = db', sq_world = w'\<rparr>)" "now w \<le> now w'"
    "P r \<lparr>sq_db = db', sq_world = w'\<rparr>"
    using assms(2) [OF w(2)] by (auto elim: runsE)
  show ?thesis using w w' by (intro runsI [of _ _ r db' w']) auto
qed

lemma runs_clock:
  assumes "sql_works env now"
    and "\<And>t w. now (sq_world s) \<le> t \<Longrightarrow> t \<le> now w \<Longrightarrow> runs now (f t) \<lparr>sq_db = sq_db s, sq_world = w\<rparr> P"
  shows "runs now (act_bind (sql_now env) f) s P"
proof -
  obtain t w where c: "qe_clock env (sq_world s) = (t, w)" by force
  with assms(1) have t: "now (sq_world s) \<le> t" "t \<le> now w" unfolding sql_works_def by (metis fst_conv, metis fst_conv snd_conv)
  have "act_bind (sql_now env) f s = f t \<lparr>sq_db = sq_db s, sq_world = w\<rparr>"
    using c by (cases s) (simp add: act_bind_def sql_now_def sql_ask_def)
  moreover obtain r db' w' where "f t \<lparr>sq_db = sq_db s, sq_world = w\<rparr> = (r, \<lparr>sq_db = db', sq_world = w'\<rparr>)" "now w \<le> now w'"
    "P r \<lparr>sq_db = db', sq_world = w'\<rparr>"
    using assms(2) [OF t] by (auto elim: runsE)
  ultimately show ?thesis using t by (intro runsI [of _ _ r db' w']) auto
qed

text \<open>The result of \<open>interact\<close>.\<close>

definition interact_result :: "'e \<Rightarrow> 'e failure + 'a \<Rightarrow> 'e + 'a" where
  "interact_result e2 r = (case r of Inr a \<Rightarrow> Inr a | Inl (Failed e) \<Rightarrow> Inl e | Inl Panicked \<Rightarrow> Inl e2)"

lemma interact_result_simps [simp]:
  "interact_result e2 (Inr a) = Inr a" "interact_result e2 (Inl (Failed e)) = Inl e" "interact_result e2 (Inl Panicked) = Inl e2"
  by (simp_all add: interact_result_def)

lemma runs_interact:
  assumes works: "sql_works env now"
    and body: "\<And>w. now (sq_world s) \<le> now w \<Longrightarrow> runs now body \<lparr>sq_db = sq_db s, sq_world = w\<rparr> (\<lambda>r. P (interact_result e2 r))"
  shows "runs now (sql_interact env e1 e2 body) s P"
proof -
  have "runs now (act_bind (sql_ask (qe_pool env)) (\<lambda>ok.
           if ok then
             act_bind (sql_ask (qe_interact env)) (\<lambda>ok. if ok then body else act_fail (Failed e2))
           else act_fail (Failed e1))) s (\<lambda>r. P (interact_result e2 r))"
    using body by (auto intro!: runs_bind [OF yields_asked(1) [OF works]] runs_bind [OF yields_asked(2) [OF works]])
  then obtain r db w where "act_bind (sql_ask (qe_pool env)) (\<lambda>ok.
           if ok then
             act_bind (sql_ask (qe_interact env)) (\<lambda>ok. if ok then body else act_fail (Failed e2))
           else act_fail (Failed e1)) s = (r, \<lparr>sq_db = db, sq_world = w\<rparr>)" "now (sq_world s) \<le> now w"
    "P (interact_result e2 r) \<lparr>sq_db = db, sq_world = w\<rparr>"
    by (rule runsE)
  then show ?thesis
    by (intro runsI [of _ _ "interact_result e2 r" db w]) (auto simp: sql_interact_def interact_result_def split: sum.split failure.split)
qed

lemma yields_interact:
  assumes "sql_works env now" and "\<And>w. now (sq_world s) \<le> now w \<Longrightarrow> yields now body \<lparr>sq_db = sq_db s, sq_world = w\<rparr> r db"
  shows "yields now (sql_interact env e1 e2 body) s (interact_result e2 r) db"
  unfolding yields_runs
  by (rule runs_interact [OF assms(1)], rule runs_mono [OF assms(2) [unfolded yields_runs]]) auto

lemma yields_prepare:
  assumes "sql_works env now" and "set tables \<subseteq> set (db_tables (sq_db s))"
  shows "yields now (sql_prepare env tables) s (Inr True) (sq_db s)"
  unfolding sql_prepare_def
  by (rule yields_bind [OF yields_asked(3) [OF assms(1)]], rule yieldsI) (auto simp: assms(2))

lemma yields_step:
  assumes "sql_works env now" and "f (sq_db s) = (a, db)" and "foreign_keys_ok (sq_db s) \<longrightarrow> foreign_keys_ok db"
  shows "yields now (sql_step env f) s (Inr (Some a)) db"
  unfolding sql_step_def
  by (rule yields_bind [OF yields_asked(3) [OF assms(1)]], rule yieldsI) (auto simp: assms)

lemma yields_execute:
  assumes "sql_works env now" and "set tables \<subseteq> set (db_tables (sq_db s))"
    and "f (sq_db s) = (a, db)" and "foreign_keys_ok (sq_db s) \<longrightarrow> foreign_keys_ok db"
  shows "yields now (sql_execute env tables f) s (Inr (Some a)) db"
  unfolding sql_execute_def
  by (rule yields_bind [OF yields_prepare [OF assms(1,2)]]) (simp, rule yields_step, simp_all add: assms)

lemma yields_or_error:
  "yields now m s (Inr (Some a)) db \<Longrightarrow> yields now (or_error e m) s (Inr a) db"
  "yields now m s (Inr None) db \<Longrightarrow> yields now (or_error e m) s (Inl (Failed e)) db"
  by (auto simp: yields_def or_error_def)

lemma yields_statement:
  assumes "sql_works env now" and "set tables \<subseteq> set (db_tables (sq_db s))"
    and "f (sq_db s) = (a, db)" and "foreign_keys_ok (sq_db s) \<longrightarrow> foreign_keys_ok db"
  shows "yields now (session_statement env tables e f) s (Inr a) db"
  unfolding session_statement_def
  by (rule yields_bind [OF yields_prepare [OF assms(1,2)]]) (simp, rule yields_or_error(1), rule yields_step, simp_all add: assms)

lemma runs_transaction:
  assumes works: "sql_works env now"
    and body: "\<And>w. now (sq_world s) \<le> now w \<Longrightarrow> runs now body \<lparr>sq_db = sq_db s, sq_world = w\<rparr>
      (\<lambda>r s'. case r of Inr a \<Rightarrow> (\<forall>w. now (sq_world s') \<le> now w \<longrightarrow> P (Inr a) \<lparr>sq_db = sq_db s', sq_world = w\<rparr>)
                      | Inl e \<Rightarrow> P (Inl e) \<lparr>sq_db = sq_db s, sq_world = sq_world s'\<rparr>)"
  shows "runs now (sql_transaction env e1 e2 body) s P"
proof -
  define m where "m = act_bind body (\<lambda>a. act_bind (sql_ask (qe_statement env)) (\<lambda>ok.
      if ok then act_return a else act_fail (Failed e2)))"
  have "runs now (\<lambda>t. case m t of (Inr a, s') \<Rightarrow> (Inr a, s') | (Inl e, s') \<Rightarrow> (Inl e, s'\<lparr>sq_db := sq_db t\<rparr>))
      \<lparr>sq_db = sq_db s, sq_world = w\<rparr> P" if le: "now (sq_world s) \<le> now w" for w
  proof -
    obtain r db w1 where w1: "body \<lparr>sq_db = sq_db s, sq_world = w\<rparr> = (r, \<lparr>sq_db = db, sq_world = w1\<rparr>)" "now w \<le> now w1"
      "case r of Inr a \<Rightarrow> (\<forall>w. now w1 \<le> now w \<longrightarrow> P (Inr a) \<lparr>sq_db = db, sq_world = w\<rparr>)
               | Inl e \<Rightarrow> P (Inl e) \<lparr>sq_db = sq_db s, sq_world = w1\<rparr>"
      by (rule runsE [OF body [OF le]]) (simp split: sum.splits)
    show ?thesis
    proof (cases r)
      case (Inl e)
      with w1 show ?thesis by (intro runsI [of _ _ r "sq_db s" w1]) (simp_all add: m_def)
    next
      case (Inr a)
      obtain w2 where w2: "sql_ask (qe_statement env) \<lparr>sq_db = db, sq_world = w1\<rparr> = (Inr True :: 'b failure + bool, \<lparr>sq_db = db, sq_world = w2\<rparr>)"
        "now w1 \<le> now w2"
        using yields_asked(3) [OF works, of "\<lparr>sq_db = db, sq_world = w1\<rparr>"] by (auto simp: yields_def)
      with w1 Inr show ?thesis by (intro runsI [of _ _ r db w2]) (simp_all add: m_def)
    qed
  qed
  note inner = this
  show ?thesis
    unfolding sql_transaction_def m_def [symmetric]
    by (rule runs_bind [OF yields_asked(3) [OF works]]) (simp only: not_True_eq_False if_False, rule inner)
qed

lemma yields_transaction:
  assumes "sql_works env now" and "\<And>w. now (sq_world s) \<le> now w \<Longrightarrow> yields now body \<lparr>sq_db = sq_db s, sq_world = w\<rparr> r db"
  shows "yields now (sql_transaction env e1 e2 body) s r (case r of Inr _ \<Rightarrow> db | Inl _ \<Rightarrow> sq_db s)"
  unfolding yields_runs
  by (rule runs_transaction [OF assms(1)], rule runs_mono [OF assms(2) [unfolded yields_runs]])
    (auto split: sum.split)

end
