(* ===== verification/Sess_Worker.thy ===== *)
theory Sess_Worker
  imports Sess_Persist
begin

text \<open>
  \<open>src/sessions/sessionworker.rs\<close>: the task that owns one MQTT session. Its state is the
  record \<open>mqtt_session\<close>; what it sends is logged in the record, and whether a channel takes a
  message is asked from an environment \<open>'w session_env\<close>.
\<close>

section \<open>State and environment\<close>

text \<open>The sending half of a client's channel is its number.\<close>

type_synonym client_tx = nat

record new_client =
  nc_msg :: connect
  nc_client :: client_tx

record session_internal_message =
  im_session :: session_id
  im_message :: mqtt_message

datatype session_message =
    Internal session_internal_message
  | Client_Message mqtt_message
  | New_Client new_client

record ('p, 'w) mqtt_session =
  ss_id :: rstring
  ss_running :: bool
  ss_subscriptions :: "(rstring, bool) hmap"
  ss_client :: "client_tx option"
  ss_clean :: bool
  ss_generation :: int
  ss_internal_id :: int
  ss_next_message_id :: u16
  ss_qos_outgoing :: "u16 set"
  ss_qos_outgoing_messages :: "mqtt_message list"
  ss_qos_incoming :: "u16 set"
  ss_persist :: 'p
  ss_counter_publish_received :: nat
  ss_counter_publish_sent :: nat
  ss_client_log :: "(client_tx \<times> mqtt_message) list"
  ss_router_log :: "router_message list"
  ss_world :: 'w

text \<open>
  The channels: whether the receiver still takes a message, a new one-shot channel, and what
  is received from it. \<open>overflow_checks\<close> is the setting the program is compiled with.
\<close>

record 'w session_env =
  se_client_send :: "client_tx \<Rightarrow> mqtt_message \<Rightarrow> 'w \<Rightarrow> bool \<times> 'w"
  se_router_send :: "router_message \<Rightarrow> 'w \<Rightarrow> bool \<times> 'w"
  se_oneshot_channel :: "'w \<Rightarrow> oneshot \<times> 'w"
  se_oneshot_recv :: "oneshot \<Rightarrow> 'w \<Rightarrow> router_subscribe_response option \<times> 'w"
  se_overflow_checks :: bool

definition mqtt_session_new :: "rstring \<Rightarrow> 'p \<Rightarrow> 'w \<Rightarrow> ('p, 'w) mqtt_session" where
  "mqtt_session_new session_name p w =
     \<lparr>ss_id = session_name, ss_running = True, ss_subscriptions = [], ss_client = None, ss_clean = True,
      ss_generation = 0, ss_internal_id = 0, ss_next_message_id = 1, ss_qos_outgoing = {},
      ss_qos_outgoing_messages = [], ss_qos_incoming = {}, ss_persist = p,
      ss_counter_publish_received = 0, ss_counter_publish_sent = 0,
      ss_client_log = [], ss_router_log = [], ss_world = w\<rparr>"

type_synonym ('p, 'w, 'a) sess_act = "(('p, 'w) mqtt_session, session_error, 'a) act"

text \<open>\<open>self.persist.method(..).await?\<close>, and a step of the environment.\<close>

definition with_session_persist :: "(('p, 'w) mqtt_session \<Rightarrow> ('p, 'a) session_call) \<Rightarrow> ('p, 'w, 'a) sess_act" where
  "with_session_persist call self =
     (case call self (ss_persist self) of
        (Inl e, p) \<Rightarrow> (Inl (Failed e), self\<lparr>ss_persist := p\<rparr>)
      | (Inr a, p) \<Rightarrow> (Inr a, self\<lparr>ss_persist := p\<rparr>))"

definition with_world :: "('w \<Rightarrow> 'a \<times> 'w) \<Rightarrow> ('p, 'w, 'a) sess_act" where
  "with_world f self = (case f (ss_world self) of (a, w) \<Rightarrow> (Inr a, self\<lparr>ss_world := w\<rparr>))"

text \<open>What the worker says of itself in its messages to the router.\<close>

definition own_session_id :: "('p, 'w) mqtt_session \<Rightarrow> session_id" where
  "own_session_id self =
     \<lparr>sid_session = ss_id self, sid_internal_id = ss_internal_id self, sid_generation = ss_generation self\<rparr>"

section \<open>Sending\<close>

definition send_client_message :: "'w session_env \<Rightarrow> mqtt_message \<Rightarrow> ('p, 'w, unit) sess_act" where
  "send_client_message env message =
     act_bind (act_get ss_client) (\<lambda>client.
     case client of
       None \<Rightarrow> act_fail (Failed Session_Client)
     | Some tx \<Rightarrow>
         act_bind (with_world (se_client_send env tx message)) (\<lambda>sent.
         if \<not> sent then
           act_bind (act_modify (\<lambda>self. self\<lparr>ss_client := None\<rparr>)) (\<lambda>_. act_fail (Failed Session_Client))
         else act_modify (\<lambda>self. self\<lparr>ss_client_log := ss_client_log self @ [(tx, message)]\<rparr>)))"

definition send_message_router :: "'w session_env \<Rightarrow> router_message \<Rightarrow> ('p, 'w, unit) sess_act" where
  "send_message_router env message =
     act_bind (with_world (se_router_send env message)) (\<lambda>sent.
     if \<not> sent then act_fail (Failed Session_Router)
     else act_modify (\<lambda>self. self\<lparr>ss_router_log := ss_router_log self @ [message]\<rparr>))"

section \<open>The queue of outgoing QoS messages\<close>

fun position_of :: "('a \<Rightarrow> bool) \<Rightarrow> 'a list \<Rightarrow> nat option" where
  "position_of p [] = None"
| "position_of p (x # xs) = (if p x then Some 0 else map_option Suc (position_of p xs))"

definition vec_get :: "nat \<Rightarrow> 'a list \<Rightarrow> 'a option" where
  "vec_get pos xs = (if pos < length xs then Some (xs ! pos) else None)"

definition vec_remove :: "nat \<Rightarrow> 'a list \<Rightarrow> 'a list" where
  "vec_remove pos xs = take pos xs @ drop (Suc pos) xs"

definition has_outgoing_id :: "u16 \<Rightarrow> mqtt_message \<Rightarrow> bool" where
  "has_outgoing_id mid x =
     (case x of
        Publish m \<Rightarrow> pub_identifier m = mid
      | PubRec m \<Rightarrow> pr_identifier m = mid
      | _ \<Rightarrow> False)"

definition qos_outgoing_message_position :: "u16 \<Rightarrow> ('p, 'w) mqtt_session \<Rightarrow> nat option" where
  "qos_outgoing_message_position mid self =
     (if mid \<in> ss_qos_outgoing self
      then position_of (has_outgoing_id mid) (ss_qos_outgoing_messages self)
      else None)"

definition qos_outgoing_set_dup :: "'p session_persist \<Rightarrow> u16 \<Rightarrow> ('p, 'w, u16) sess_act" where
  "qos_outgoing_set_dup sp mid =
     act_bind (act_get (qos_outgoing_message_position mid)) (\<lambda>pos.
     case pos of
       Some pos \<Rightarrow>
         act_bind (act_get (\<lambda>self. vec_get pos (ss_qos_outgoing_messages self))) (\<lambda>elem.
         act_bind
           (case elem of
              None \<Rightarrow> act_return ()
            | Some (Publish m) \<Rightarrow>
                if \<not> pub_dup m then
                  act_bind (with_session_persist (\<lambda>self.
                      sp_persist_qos_outgoing_update_dup sp (ss_internal_id self) (pub_identifier m) True)) (\<lambda>_.
                  let r = m\<lparr>pub_dup := True\<rparr> in
                  act_modify (\<lambda>self. self\<lparr>ss_qos_outgoing_messages :=
                    (ss_qos_outgoing_messages self)[pos := Publish r]\<rparr>))
                else act_return ()
            | Some _ \<Rightarrow> act_fail (Failed (Session_Persist ''QoS message not found to set dup'')))
           (\<lambda>_. act_return mid))
     | None \<Rightarrow> act_fail (Failed (Session_Persist ''QoS message not stored to set dup'')))"

text \<open>\<open>self.next_message_id += 1\<close> overflows after 65535: a panic where overflow is checked.\<close>

definition qos_outgoing_next_mid :: "'w session_env \<Rightarrow> 'p session_persist \<Rightarrow> ('p, 'w, u16) sess_act" where
  "qos_outgoing_next_mid env sp =
     act_bind (act_get ss_next_message_id) (\<lambda>mid.
     if se_overflow_checks env \<and> mid = - 1 then act_fail Panicked
     else
       act_bind (act_modify (\<lambda>self. self\<lparr>ss_next_message_id := mid + 1\<rparr>)) (\<lambda>_.
       act_bind (with_session_persist (\<lambda>self.
           sp_persist_update_session_mid sp (ss_internal_id self) (ss_next_message_id self))) (\<lambda>_.
       act_return mid)))"

definition qos_outgoing_insert :: "'w session_env \<Rightarrow> 'p session_persist \<Rightarrow> mqtt_message \<Rightarrow> ('p, 'w, u16) sess_act" where
  "qos_outgoing_insert env sp message =
     (case message of
        Publish m \<Rightarrow>
          act_bind (qos_outgoing_next_mid env sp) (\<lambda>mid.
          act_bind (act_get (\<lambda>self. mid \<in> ss_qos_outgoing self)) (\<lambda>contained.
          if \<not> contained then
            let pubmessage = Publish (m\<lparr>pub_identifier := mid\<rparr>) in
            act_bind (with_session_persist (\<lambda>self.
                sp_persist_qos_outgoing_store sp (ss_internal_id self) mid pubmessage)) (\<lambda>_.
            act_bind (act_modify (\<lambda>self. self\<lparr>ss_qos_outgoing := insert mid (ss_qos_outgoing self),
                ss_qos_outgoing_messages := ss_qos_outgoing_messages self @ [pubmessage]\<rparr>)) (\<lambda>_.
            act_return mid))
          else act_fail (Failed (Session_Persist ''QoS outgoing mid duplicate found''))))
      | PubRec m \<Rightarrow>
          let mid = pr_identifier m in
          act_bind (act_get (qos_outgoing_message_position mid)) (\<lambda>pos.
          case pos of
            Some pos \<Rightarrow>
              act_bind (act_get (\<lambda>self. vec_get pos (ss_qos_outgoing_messages self))) (\<lambda>elem.
              act_bind (act_unwrap elem) (\<lambda>elem.
              act_bind
                (case elem of
                   Publish _ \<Rightarrow>
                     act_bind (with_session_persist (\<lambda>self.
                         sp_persist_qos_outgoing_delete sp (ss_internal_id self) mid)) (\<lambda>_.
                     act_bind (act_modify (\<lambda>self. self\<lparr>ss_qos_outgoing_messages :=
                         vec_remove pos (ss_qos_outgoing_messages self)\<rparr>)) (\<lambda>_.
                     let pubrecmessage = PubRec m in
                     act_bind (with_session_persist (\<lambda>self.
                         sp_persist_qos_outgoing_store sp (ss_internal_id self) mid pubrecmessage)) (\<lambda>_.
                     act_modify (\<lambda>self. self\<lparr>ss_qos_outgoing_messages :=
                         ss_qos_outgoing_messages self @ [pubrecmessage]\<rparr>))))
                 | PubRec _ \<Rightarrow> act_return ()
                 | _ \<Rightarrow> act_fail (Failed (Session_Persist ''Uknown qos outgoing message in queue'')))
                (\<lambda>_. act_return mid)))
          | None \<Rightarrow>
              let pubrecmessage = PubRec m in
              act_bind (with_session_persist (\<lambda>self.
                  sp_persist_qos_outgoing_store sp (ss_internal_id self) mid pubrecmessage)) (\<lambda>_.
              act_bind (act_modify (\<lambda>self. self\<lparr>ss_qos_outgoing := insert mid (ss_qos_outgoing self),
                  ss_qos_outgoing_messages := ss_qos_outgoing_messages self @ [pubrecmessage]\<rparr>)) (\<lambda>_.
              act_return mid)))
      | _ \<Rightarrow> act_fail (Failed (Session_Persist ''Uknown qos outgoing message'')))"

definition qos_outgoing_remove :: "'p session_persist \<Rightarrow> u16 \<Rightarrow> ('p, 'w, u16) sess_act" where
  "qos_outgoing_remove sp mid =
     act_bind (act_get (qos_outgoing_message_position mid)) (\<lambda>pos.
     act_bind
       (case pos of
          Some pos \<Rightarrow>
            act_bind (with_session_persist (\<lambda>self.
                sp_persist_qos_outgoing_delete sp (ss_internal_id self) mid)) (\<lambda>_.
            act_modify (\<lambda>self. self\<lparr>ss_qos_outgoing_messages := vec_remove pos (ss_qos_outgoing_messages self),
                ss_qos_outgoing := ss_qos_outgoing self - {mid}\<rparr>))
        | None \<Rightarrow> act_return ())
       (\<lambda>_. act_return mid))"

definition qos_incoming_store :: "'p session_persist \<Rightarrow> u16 \<Rightarrow> ('p, 'w, u16) sess_act" where
  "qos_incoming_store sp mid =
     act_bind (with_session_persist (\<lambda>self. sp_persist_qos_incoming_store sp (ss_internal_id self) mid)) (\<lambda>_.
     act_bind (act_modify (\<lambda>self. self\<lparr>ss_qos_incoming := insert mid (ss_qos_incoming self)\<rparr>)) (\<lambda>_.
     act_return mid))"

definition qos_incoming_received :: "u16 \<Rightarrow> ('p, 'w) mqtt_session \<Rightarrow> bool" where
  "qos_incoming_received mid self \<longleftrightarrow> mid \<in> ss_qos_incoming self"

definition qos_incoming_remove :: "'p session_persist \<Rightarrow> u16 \<Rightarrow> ('p, 'w, u16) sess_act" where
  "qos_incoming_remove sp mid =
     act_bind (with_session_persist (\<lambda>self. sp_persist_qos_incoming_delete sp (ss_internal_id self) mid)) (\<lambda>_.
     act_bind (act_modify (\<lambda>self. self\<lparr>ss_qos_incoming := ss_qos_incoming self - {mid}\<rparr>)) (\<lambda>_.
     act_return mid))"

text \<open>One round of the loop of \<open>send_queued_messages\<close>.\<close>

definition send_queued_message :: "'w session_env \<Rightarrow> 'p session_persist \<Rightarrow> nat \<Rightarrow> ('p, 'w, unit) sess_act" where
  "send_queued_message env sp pos =
     act_bind (act_get (\<lambda>self. vec_get pos (ss_qos_outgoing_messages self))) (\<lambda>message.
     act_bind (act_unwrap message) (\<lambda>message.
     case message of
       Publish m \<Rightarrow>
         let mid = pub_identifier m; qos = pub_qos m; dup = pub_dup m in
         act_bind (send_client_message env (Publish m)) (\<lambda>_.
         if (qos = qos_u8 QOS1 \<or> qos = qos_u8 QOS2) \<and> \<not> dup
         then act_bind (qos_outgoing_set_dup sp mid) (\<lambda>_. act_return ())
         else act_return ())
     | PubRec m \<Rightarrow>
         let mid = pr_identifier m; pubrel = pubrel_new\<lparr>pl_identifier := mid\<rparr> in
         send_client_message env (PubRel pubrel)
     | _ \<Rightarrow> act_fail (Failed (Session_Persist ''Unkown queued message''))))"

definition send_queued_messages :: "'w session_env \<Rightarrow> 'p session_persist \<Rightarrow> ('p, 'w, unit) sess_act" where
  "send_queued_messages env sp =
     act_bind (act_get (\<lambda>self. length (ss_qos_outgoing_messages self))) (\<lambda>n.
     act_for [0..<n] (send_queued_message env sp))"

section \<open>Messages from the router and from the client\<close>

definition internal_publish_message :: "'w session_env \<Rightarrow> 'p session_persist \<Rightarrow> publish \<Rightarrow> ('p, 'w, unit) sess_act" where
  "internal_publish_message env sp message =
     act_bind (act_modify (\<lambda>self. self\<lparr>ss_counter_publish_sent := ss_counter_publish_sent self + 1\<rparr>)) (\<lambda>_.
     let mid = pub_identifier message;
         message = message\<lparr>pub_dup := False\<rparr>;
         qos = pub_qos message
     in
     act_bind
       (if qos = qos_u8 QOS1 \<or> qos = qos_u8 QOS2 then
          act_bind (qos_outgoing_insert env sp (Publish message)) (\<lambda>mid.
          act_return (mid, message\<lparr>pub_identifier := mid\<rparr>))
        else act_return (mid, message)) (\<lambda>(mid, message).
     act_bind (act_get (\<lambda>self. ss_client self \<noteq> None)) (\<lambda>connected.
     if connected then
       act_bind (send_client_message env (Publish message)) (\<lambda>_.
       if qos = qos_u8 QOS1 \<or> qos = qos_u8 QOS2
       then act_bind (qos_outgoing_set_dup sp mid) (\<lambda>_. act_return ())
       else act_return ())
     else act_return ())))"

definition puback_message :: "'p session_persist \<Rightarrow> puback \<Rightarrow> ('p, 'w, unit) sess_act" where
  "puback_message sp message =
     act_bind (qos_outgoing_remove sp (pa_identifier message)) (\<lambda>_. act_return ())"

definition pubrel_message :: "'w session_env \<Rightarrow> 'p session_persist \<Rightarrow> pubrel \<Rightarrow> ('p, 'w, unit) sess_act" where
  "pubrel_message env sp message =
     (let mid = pl_identifier message in
      act_bind (qos_incoming_remove sp mid) (\<lambda>_.
      let pubcomp = pubcomp_new\<lparr>pc_identifier := mid\<rparr> in
      send_client_message env (PubComp pubcomp)))"

definition pubrec_message :: "'w session_env \<Rightarrow> 'p session_persist \<Rightarrow> pubrec \<Rightarrow> ('p, 'w, unit) sess_act" where
  "pubrec_message env sp message =
     act_bind (qos_outgoing_insert env sp (PubRec message)) (\<lambda>mid.
     let pubrel = pubrel_new\<lparr>pl_identifier := mid\<rparr> in
     send_client_message env (PubRel pubrel))"

definition pubcomp_message :: "'p session_persist \<Rightarrow> pubcomp \<Rightarrow> ('p, 'w, unit) sess_act" where
  "pubcomp_message sp message =
     act_bind (qos_outgoing_remove sp (pc_identifier message)) (\<lambda>_. act_return ())"

text \<open>\<open>if self.send_client_message(..).is_err() { log }\<close>\<close>

definition send_or_log :: "'w session_env \<Rightarrow> mqtt_message \<Rightarrow> ('p, 'w, unit) sess_act" where
  "send_or_log env message = act_bind (act_try (send_client_message env message)) (\<lambda>_. act_return ())"

definition publish_message :: "'w session_env \<Rightarrow> 'p session_persist \<Rightarrow> publish \<Rightarrow> ('p, 'w, unit) sess_act" where
  "publish_message env sp message =
     act_bind (act_modify (\<lambda>self. self\<lparr>ss_counter_publish_received := ss_counter_publish_received self + 1\<rparr>)) (\<lambda>_.
     let qos = pub_qos message; mid = pub_identifier message in
     act_bind (act_get (qos_incoming_received mid)) (\<lambda>received.
     if qos = qos_u8 QOS2 \<and> received then
       let pubrec = pubrec_new\<lparr>pr_identifier := mid\<rparr> in
       send_client_message env (PubRec pubrec)
     else
       let message = message\<lparr>pub_dup := False\<rparr> in
       act_bind (act_get own_session_id) (\<lambda>session.
       let msg = \<lparr>rp_session = session, rp_message = message\<rparr> in
       act_bind (send_message_router env (Router_Publish msg)) (\<lambda>_.
       if qos = qos_u8 QOS1 then
         let puback = puback_new\<lparr>pa_identifier := mid\<rparr> in
         send_or_log env (PubAck puback)
       else if qos = qos_u8 QOS2 then
         act_bind (qos_incoming_store sp mid) (\<lambda>_.
         let pubrec = pubrec_new\<lparr>pr_identifier := mid\<rparr> in
         send_or_log env (PubRec pubrec))
       else act_return ()))))"

definition session_subscribe :: "'w session_env \<Rightarrow> rstring \<Rightarrow> u8 \<Rightarrow> ('p, 'w, router_subscribe_response) sess_act" where
  "session_subscribe env topic qos =
     act_bind (act_modify (\<lambda>self. self\<lparr>ss_subscriptions := hm_insert topic True (ss_subscriptions self)\<rparr>)) (\<lambda>_.
     act_bind (with_world (se_oneshot_channel env)) (\<lambda>conn.
     act_bind (act_get own_session_id) (\<lambda>session.
     let msg = \<lparr>rs_session = session, rs_topic = topic, rs_qos = qos, rs_response_tx = conn\<rparr> in
     act_bind (send_message_router env (Router_Subscribe msg)) (\<lambda>_.
     act_bind (with_world (se_oneshot_recv env conn)) (\<lambda>response.
     case response of
       Some response \<Rightarrow> act_return response
     | None \<Rightarrow> act_fail (Failed Session_Router))))))"

text \<open>The loop over the topics, with the variables it assigns.\<close>

fun subscribe_loop :: "'w session_env \<Rightarrow> (rstring \<times> u8) list \<Rightarrow> bool \<Rightarrow> suback \<Rightarrow> publish list \<Rightarrow> ('p, 'w, bool \<times> suback \<times> publish list) sess_act" where
  "subscribe_loop env [] router_error suback retained_messages =
     act_return (router_error, suback, retained_messages)"
| "subscribe_loop env ((topic, qos) # topics) router_error suback retained_messages =
     act_bind (act_try (session_subscribe env topic qos)) (\<lambda>result.
     let (router_error, retained_messages, response) =
       (case result of
          Inl _ \<Rightarrow> (True, retained_messages, 0x80)
        | Inr response \<Rightarrow>
            if rr_ret response \<noteq> 0x80
            then (router_error, retained_messages @ rr_retained_messages response, qos)
            else (router_error, retained_messages, 0x80))
     in subscribe_loop env topics router_error (suback_add_response response suback) retained_messages)"

text \<open>The loop that sends the retained messages; the value is \<open>client_error\<close>.\<close>

fun send_retained_loop :: "'w session_env \<Rightarrow> publish list \<Rightarrow> ('p, 'w, bool) sess_act" where
  "send_retained_loop env [] = act_return False"
| "send_retained_loop env (msg # msgs) =
     act_bind (act_try (send_client_message env (Publish msg))) (\<lambda>result.
     case result of Inl _ \<Rightarrow> act_return True | Inr _ \<Rightarrow> send_retained_loop env msgs)"

definition subscribe_message :: "'w session_env \<Rightarrow> Msg_Types.subscribe \<Rightarrow> ('p, 'w, unit) sess_act" where
  "subscribe_message env message =
     (let suback = suback_new\<lparr>sack_identifier := sub_identifier message\<rparr> in
      act_bind (subscribe_loop env (sub_topics message) False suback []) (\<lambda>(router_error, suback, retained_messages).
      act_bind (act_try (send_client_message env (SubAck suback))) (\<lambda>result.
      act_bind (if \<not> isl result then send_retained_loop env retained_messages else act_return False) (\<lambda>client_error.
      if router_error then act_fail (Failed Session_Router)
      else if client_error then act_fail (Failed Session_Client)
      else act_return ()))))"

definition session_unsubscribe :: "'w session_env \<Rightarrow> rstring list \<Rightarrow> ('p, 'w, unit) sess_act" where
  "session_unsubscribe env topics =
     act_bind (act_for topics (\<lambda>topic.
       act_modify (\<lambda>self. self\<lparr>ss_subscriptions := hm_remove topic (ss_subscriptions self)\<rparr>))) (\<lambda>_.
     act_bind (act_get own_session_id) (\<lambda>session.
     let msg = \<lparr>ru_session = session, ru_topics = topics\<rparr> in
     send_message_router env (Router_Unsubscribe msg)))"

definition unsubscribe_message :: "'w session_env \<Rightarrow> Msg_Types.unsubscribe \<Rightarrow> ('p, 'w, unit) sess_act" where
  "unsubscribe_message env message =
     (let ack = unsuback_new\<lparr>uack_identifier := unsub_identifier message\<rparr> in
      act_bind (session_unsubscribe env (unsub_topics message)) (\<lambda>_.
      send_client_message env (UnsubAck ack)))"

definition unsubscribe_all :: "'w session_env \<Rightarrow> ('p, 'w, unit) sess_act" where
  "unsubscribe_all env =
     act_bind (act_get (\<lambda>self. map fst (ss_subscriptions self))) (\<lambda>topics.
     act_bind (session_unsubscribe env topics) (\<lambda>_.
     act_modify (\<lambda>self. self\<lparr>ss_subscriptions := []\<rparr>)))"

definition clean_session :: "'w session_env \<Rightarrow> 'p session_persist \<Rightarrow> ('p, 'w, unit) sess_act" where
  "clean_session env sp =
     act_bind (with_session_persist (\<lambda>self. sp_persist_qos_incoming_clear sp (ss_internal_id self))) (\<lambda>_.
     act_bind (act_modify (\<lambda>self. self\<lparr>ss_qos_incoming := {}\<rparr>)) (\<lambda>_.
     act_bind (with_session_persist (\<lambda>self. sp_persist_qos_outgoing_clear sp (ss_internal_id self))) (\<lambda>_.
     act_bind (act_modify (\<lambda>self. self\<lparr>ss_qos_outgoing := {}, ss_qos_outgoing_messages := []\<rparr>)) (\<lambda>_.
     act_bind (unsubscribe_all env) (\<lambda>_.
     act_bind (act_modify (\<lambda>self. self\<lparr>ss_clean := True, ss_generation := ss_generation self + 1,
         ss_next_message_id := 1\<rparr>)) (\<lambda>_.
     act_bind (with_session_persist (\<lambda>self.
         sp_persist_update_session_generation sp (ss_internal_id self) (ss_generation self))) (\<lambda>_.
     act_return ())))))))"

definition new_client_connected :: "'w session_env \<Rightarrow> 'p session_persist \<Rightarrow> new_client \<Rightarrow> ('p, 'w, unit) sess_act" where
  "new_client_connected env sp new_client =
     act_bind (act_get (\<lambda>self. ss_client self \<noteq> None)) (\<lambda>connected.
     act_bind (if connected then act_try (send_client_message env Disconnect) else act_return (Inr ())) (\<lambda>result.
     act_bind (if isl result then act_modify (\<lambda>self. self\<lparr>ss_client := None\<rparr>) else act_return ()) (\<lambda>_.
     act_bind (act_modify (\<lambda>self. self\<lparr>ss_client := None\<rparr>)) (\<lambda>_.
     act_bind (if con_clean_session (nc_msg new_client) then act_try (clean_session env sp)
               else act_return (Inr ())) (\<lambda>clean_result.
     act_bind (act_get ss_clean) (\<lambda>clean.
     let connack = connack_new\<lparr>cack_session_present := \<not> clean\<rparr> in
     act_bind (act_modify (\<lambda>self. self\<lparr>ss_clean := False\<rparr>)) (\<lambda>_.
     act_bind (act_modify (\<lambda>self. self\<lparr>ss_client := Some (nc_client new_client)\<rparr>)) (\<lambda>_.
     let connack = connack\<lparr>cack_return_code := (if \<not> isl clean_result then Accepted else ServerUnavailable)\<rparr> in
     act_bind (act_try (send_client_message env (ConnAck connack))) (\<lambda>client_result.
     act_bind (send_queued_messages env sp) (\<lambda>_.
     act_result (if \<not> isl clean_result then client_result else clean_result)))))))))))"

section \<open>The task\<close>

definition load_qos_message :: "mqtt_message \<Rightarrow> ('p, 'w, unit) sess_act" where
  "load_qos_message msg =
     (case msg of
        Publish m \<Rightarrow> act_modify (\<lambda>self. self\<lparr>ss_qos_outgoing := insert (pub_identifier m) (ss_qos_outgoing self)\<rparr>)
      | PubRec m \<Rightarrow> act_modify (\<lambda>self. self\<lparr>ss_qos_outgoing := insert (pr_identifier m) (ss_qos_outgoing self)\<rparr>)
      | _ \<Rightarrow> act_fail (Failed (Session_Persist ''Error loading persistent state - unkown qos message'')))"

definition init_persist_session :: "'p session_persist \<Rightarrow> ('p, 'w, unit) sess_act" where
  "init_persist_session sp =
     act_bind (with_session_persist (\<lambda>self. sp_persist_session sp (ss_id self))) (\<lambda>(internal_id, generation, clean, next_mid).
     act_bind (act_modify (\<lambda>self. self\<lparr>ss_internal_id := internal_id, ss_generation := generation,
         ss_clean := clean, ss_next_message_id := next_mid\<rparr>)) (\<lambda>_.
     act_bind (act_get ss_clean) (\<lambda>clean.
     if \<not> clean then
       act_bind (with_session_persist (\<lambda>self. sp_load_persistent_subscriptions sp (ss_internal_id self))) (\<lambda>subscriptions.
       act_bind (act_for subscriptions (\<lambda>topic.
         act_modify (\<lambda>self. self\<lparr>ss_subscriptions := hm_insert topic True (ss_subscriptions self)\<rparr>))) (\<lambda>_.
       act_bind (with_session_persist (\<lambda>self. sp_persist_qos_incoming_load sp (ss_internal_id self))) (\<lambda>qosin_mids.
       act_bind (act_modify (\<lambda>self. self\<lparr>ss_qos_incoming := qosin_mids\<rparr>)) (\<lambda>_.
       act_bind (with_session_persist (\<lambda>self. sp_persistent_qosout_load sp (ss_internal_id self))) (\<lambda>qosmessages.
       act_bind (act_for qosmessages load_qos_message) (\<lambda>_.
       act_modify (\<lambda>self. self\<lparr>ss_qos_outgoing_messages := qosmessages\<rparr>)))))))
     else act_return ())))"

text \<open>What the loop does with one message.\<close>

definition session_handle :: "'w session_env \<Rightarrow> 'p session_persist \<Rightarrow> session_message \<Rightarrow> ('p, 'w, unit) sess_act" where
  "session_handle env sp v =
     (case v of
        Internal internal_message \<Rightarrow>
          act_bind (act_get ss_generation) (\<lambda>generation.
          if sid_generation (im_session internal_message) = generation then
            (case im_message internal_message of
               Publish msg \<Rightarrow> internal_publish_message env sp msg
             | _ \<Rightarrow> act_return ())
          else act_return ())
      | Client_Message client_message \<Rightarrow>
          (case client_message of
             Publish msg \<Rightarrow> publish_message env sp msg
           | PubAck msg \<Rightarrow> puback_message sp msg
           | PubRel msg \<Rightarrow> pubrel_message env sp msg
           | PubRec msg \<Rightarrow> pubrec_message env sp msg
           | PubComp msg \<Rightarrow> pubcomp_message sp msg
           | Subscribe msg \<Rightarrow> subscribe_message env msg
           | Unsubscribe msg \<Rightarrow> unsubscribe_message env msg
           | _ \<Rightarrow> act_return ())
      | New_Client new_client \<Rightarrow> new_client_connected env sp new_client)"

text \<open>How far the task gets with the messages it receives.\<close>

datatype task_end = Waiting | Stopped | Crashed

fun session_loop :: "'w session_env \<Rightarrow> 'p session_persist \<Rightarrow> session_message list \<Rightarrow> ('p, 'w) mqtt_session \<Rightarrow> task_end \<times> ('p, 'w) mqtt_session" where
  "session_loop env sp [] self = (Waiting, self)"
| "session_loop env sp (v # vs) self =
     (case session_handle env sp v self of
        (Inr _, self) \<Rightarrow> session_loop env sp vs self
      | (Inl (Failed Session_Client), self) \<Rightarrow> session_loop env sp vs self
      | (Inl (Failed Session_Router), self) \<Rightarrow> (Stopped, self)
      | (Inl (Failed (Session_Persist _)), self) \<Rightarrow> (Stopped, self)
      | (Inl Panicked, self) \<Rightarrow> (Crashed, self))"

definition session_start :: "'p session_persist \<Rightarrow> ('p, 'w, unit) sess_act" where
  "session_start sp =
     act_bind (with_session_persist (\<lambda>self. sp_create_persistent_connection sp)) (\<lambda>_. init_persist_session sp)"

text \<open>After the loop: a client that is still connected is told, if that works.\<close>

definition session_close :: "'w session_env \<Rightarrow> ('p, 'w, unit) sess_act" where
  "session_close env =
     act_bind (act_get (\<lambda>self. ss_client self \<noteq> None)) (\<lambda>connected.
     if connected then send_or_log env Disconnect else act_return ())"

text \<open>\<open>drop\<close>, when the task ends, by a panic too.\<close>

definition session_drop :: "('p, 'w) mqtt_session \<Rightarrow> ('p, 'w) mqtt_session" where
  "session_drop self = self\<lparr>ss_running := False\<rparr>"

definition run_loop :: "'w session_env \<Rightarrow> 'p session_persist \<Rightarrow> session_message list \<Rightarrow> ('p, 'w) mqtt_session \<Rightarrow> task_end \<times> ('p, 'w) mqtt_session" where
  "run_loop env sp vs self =
     (let (e, self) =
        (case session_start sp self of
           (Inr _, self) \<Rightarrow> session_loop env sp vs self
         | (Inl (Failed _), self) \<Rightarrow> (Stopped, self)
         | (Inl Panicked, self) \<Rightarrow> (Crashed, self))
      in case e of
           Waiting \<Rightarrow> (Waiting, self)
         | Stopped \<Rightarrow> (Stopped, session_drop (snd (session_close env self)))
         | Crashed \<Rightarrow> (Crashed, session_drop self))"

end
