(* ===== verification/Sess_Queue.thy ===== *)
theory Sess_Queue
  imports Sess_Worker
begin

text \<open>
  The outgoing queue of a session: when it is in order, and what each operation of the worker
  computes on a session whose queue is.
\<close>

section \<open>Positions in lists\<close>

lemma position_of_Some:
  "position_of p xs = Some i \<Longrightarrow> i < length xs \<and> p (xs ! i)"
  by (induction xs arbitrary: i) (auto split: if_splits)

lemma position_of_None: "position_of p xs = None \<longleftrightarrow> (\<forall>x\<in>set xs. \<not> p x)"
  by (induction xs) auto

text \<open>The only element with a property is at \<open>i\<close>.\<close>

definition only_at :: "('a \<Rightarrow> bool) \<Rightarrow> 'a list \<Rightarrow> nat \<Rightarrow> bool" where
  "only_at p xs i \<longleftrightarrow> (\<forall>j<length xs. p (xs ! j) \<longrightarrow> j = i)"

lemma only_atD: "only_at p xs i \<Longrightarrow> j < length xs \<Longrightarrow> j \<noteq> i \<Longrightarrow> \<not> p (xs ! j)"
  by (auto simp: only_at_def)

lemma only_at_Cons: "only_at p (x # xs) (Suc k) \<Longrightarrow> only_at p xs k"
  unfolding only_at_def by (metis Suc_less_eq length_Cons nat.inject nth_Cons_Suc)

lemma vec_remove_filter:
  "position_of p xs = Some i \<Longrightarrow> only_at p xs i \<Longrightarrow> vec_remove i xs = filter (\<lambda>x. \<not> p x) xs"
proof (induction xs arbitrary: i)
  case (Cons x xs)
  show ?case
  proof (cases "p x")
    case True
    with Cons.prems(1) have i: "i = 0" by simp
    have "\<not> p y" if y: "y \<in> set xs" for y
    proof -
      from y obtain j where "j < length xs" "y = xs ! j" by (auto simp: in_set_conv_nth)
      with only_atD [OF Cons.prems(2), of "Suc j"] show ?thesis by (simp add: i)
    qed
    then have "filter (\<lambda>x. \<not> p x) xs = xs" by simp
    then show ?thesis using True by (simp add: vec_remove_def i)
  next
    case False
    with Cons.prems(1) obtain k where k: "i = Suc k" "position_of p xs = Some k" by auto
    from k(1) Cons.prems(2) have "only_at p xs k" by (simp add: only_at_Cons)
    with k(2) have "vec_remove k xs = filter (\<lambda>x. \<not> p x) xs" by (rule Cons.IH)
    then show ?thesis using False k(1) by (simp add: vec_remove_def)
  qed
qed simp

lemma list_update_map:
  assumes "i < length xs" and "p (xs ! i)" and "only_at p xs i"
  shows "xs[i := f (xs ! i)] = map (\<lambda>x. if p x then f x else x) xs"
proof (rule nth_equalityI)
  fix k
  assume "k < length (xs[i := f (xs ! i)])"
  then have "k < length xs" by simp
  with assms show "xs[i := f (xs ! i)] ! k = map (\<lambda>x. if p x then f x else x) xs ! k"
    by (cases "k = i") (auto dest: only_atD)
qed simp

section \<open>A queue in order\<close>

definition outgoing_id :: "mqtt_message \<Rightarrow> u16 option" where
  "outgoing_id x = (case x of Publish m \<Rightarrow> Some (pub_identifier m) | PubRec m \<Rightarrow> Some (pr_identifier m) | _ \<Rightarrow> None)"

lemma outgoing_id_simps [simp]:
  "outgoing_id (Publish m) = Some (pub_identifier m)"
  "outgoing_id (PubRec r) = Some (pr_identifier r)"
  by (simp_all add: outgoing_id_def)

lemma has_outgoing_id_iff: "has_outgoing_id mid x \<longleftrightarrow> outgoing_id x = Some mid"
  by (cases x) (simp_all add: has_outgoing_id_def outgoing_id_def)

lemma outgoing_id_SomeE:
  assumes "outgoing_id x = Some mid"
  obtains m where "x = Publish m" "pub_identifier m = mid" | r where "x = PubRec r" "pr_identifier r = mid"
  using assms by (cases x) (auto simp: outgoing_id_def)

definition queue_ok :: "u16 set \<Rightarrow> mqtt_message list \<Rightarrow> bool" where
  "queue_ok ids ms \<longleftrightarrow> outgoing_id ` set ms = Some ` ids \<and> distinct (map outgoing_id ms)"

definition sess_ok :: "('p, 'w) mqtt_session \<Rightarrow> bool" where
  "sess_ok s \<longleftrightarrow> queue_ok (ss_qos_outgoing s) (ss_qos_outgoing_messages s)"

lemma queue_ok_Nil [simp, wf_intros]: "queue_ok {} []"
  by (simp add: queue_ok_def)

lemma queue_ok_push [wf_intros]:
  "queue_ok ids ms \<Longrightarrow> mid \<notin> ids \<Longrightarrow> outgoing_id x = Some mid \<Longrightarrow> queue_ok (insert mid ids) (ms @ [x])"
  unfolding queue_ok_def by (auto simp: image_iff)

lemma queue_ok_filter [wf_intros]:
  assumes "queue_ok ids ms"
  shows "queue_ok (ids - {mid}) (filter (\<lambda>x. \<not> has_outgoing_id mid x) ms)"
proof -
  from assms have img: "outgoing_id ` set ms = Some ` ids" and d: "distinct (map outgoing_id ms)"
    by (simp_all add: queue_ok_def)
  have "outgoing_id ` set (filter (\<lambda>x. \<not> has_outgoing_id mid x) ms) = outgoing_id ` set ms - {Some mid}"
    by (auto simp: has_outgoing_id_iff)
  also have "\<dots> = Some ` (ids - {mid})" using img by auto
  finally show ?thesis using d by (simp add: queue_ok_def distinct_map_filter)
qed

lemma queue_ok_map [wf_intros]:
  assumes "queue_ok ids ms" and "\<And>x. outgoing_id (f x) = outgoing_id x"
  shows "queue_ok ids (map f ms)"
  using assms(1) by (simp add: queue_ok_def image_image assms(2) o_def)

lemma queue_ok_replace [wf_intros]:
  assumes "queue_ok ids ms" and "mid \<in> ids" and "outgoing_id x = Some mid"
  shows "queue_ok ids (filter (\<lambda>x. \<not> has_outgoing_id mid x) ms @ [x])"
proof -
  have "queue_ok (insert mid (ids - {mid})) (filter (\<lambda>x. \<not> has_outgoing_id mid x) ms @ [x])"
    by (rule queue_ok_push [OF queue_ok_filter [OF assms(1)]]) (use assms(3) in auto)
  then show ?thesis using assms(2) by (simp add: insert_absorb)
qed

text \<open>A registered id is at exactly one place of the queue.\<close>

lemma queue_position:
  assumes "queue_ok ids ms" and "mid \<in> ids"
  obtains i where "position_of (has_outgoing_id mid) ms = Some i" and "i < length ms"
    and "outgoing_id (ms ! i) = Some mid"
    and "only_at (has_outgoing_id mid) ms i"
proof -
  from assms have "Some mid \<in> outgoing_id ` set ms" by (simp add: queue_ok_def)
  then obtain x where "x \<in> set ms" "has_outgoing_id mid x" by (auto simp: has_outgoing_id_iff)
  then obtain i where i: "position_of (has_outgoing_id mid) ms = Some i"
    by (cases "position_of (has_outgoing_id mid) ms") (auto simp: position_of_None)
  then have len: "i < length ms" "has_outgoing_id mid (ms ! i)" by (auto dest: position_of_Some)
  have "j = i" if "j < length ms" "has_outgoing_id mid (ms ! j)" for j
  proof -
    have "distinct (map outgoing_id ms)" using assms(1) by (simp add: queue_ok_def)
    then have "map outgoing_id ms ! j = map outgoing_id ms ! i \<longleftrightarrow> j = i"
      using that(1) len(1) by (intro nth_eq_iff_index_eq) simp_all
    then show ?thesis using that len by (simp add: has_outgoing_id_iff)
  qed
  then have "only_at (has_outgoing_id mid) ms i" by (auto simp: only_at_def)
  with i len that show ?thesis by (simp add: has_outgoing_id_iff)
qed

lemma message_position:
  assumes "sess_ok s" and "mid \<in> ss_qos_outgoing s"
  obtains i where "qos_outgoing_message_position mid s = Some i"
    and "i < length (ss_qos_outgoing_messages s)"
    and "outgoing_id (ss_qos_outgoing_messages s ! i) = Some mid"
    and "only_at (has_outgoing_id mid) (ss_qos_outgoing_messages s) i"
proof -
  from queue_position [OF assms(1) [unfolded sess_ok_def] assms(2)] obtain i
    where "position_of (has_outgoing_id mid) (ss_qos_outgoing_messages s) = Some i"
      and "i < length (ss_qos_outgoing_messages s)"
      and "outgoing_id (ss_qos_outgoing_messages s ! i) = Some mid"
      and "only_at (has_outgoing_id mid) (ss_qos_outgoing_messages s) i" .
  with assms(2) that show ?thesis by (simp add: qos_outgoing_message_position_def)
qed

lemma message_position_None: "mid \<notin> ss_qos_outgoing s \<Longrightarrow> qos_outgoing_message_position mid s = None"
  by (simp add: qos_outgoing_message_position_def)

lemma queue_remove:
  assumes "sess_ok s" and "qos_outgoing_message_position mid s = Some i"
  shows "vec_remove i (ss_qos_outgoing_messages s) =
         filter (\<lambda>x. \<not> has_outgoing_id mid x) (ss_qos_outgoing_messages s)"
proof -
  have "mid \<in> ss_qos_outgoing s"
    using assms(2) by (auto simp: qos_outgoing_message_position_def split: if_splits)
  from message_position [OF assms(1) this] assms(2) show ?thesis
    by (auto intro!: vec_remove_filter simp: qos_outgoing_message_position_def split: if_splits)
qed

section \<open>The operations on the queue, computed\<close>

lemma act_bind_base [simp]:
  "act_bind (act_get g) f1 s = f1 (g s) s"
  "act_bind (act_modify h) f2 s = f2 () (h s)"
  "act_bind (act_return a) f3 s = f3 a s"
  "act_bind (act_fail e) f4 s = (Inl e, s)"
  "act_bind (act_unwrap (Some b)) f5 s = f5 b s"
  by (simp_all add: act_bind_def)

lemma act_bind_persist:
  "act_bind (with_session_persist call) f s =
     (case call s (ss_persist s) of
        (Inl e, p) \<Rightarrow> (Inl (Failed e), s\<lparr>ss_persist := p\<rparr>)
      | (Inr a, p) \<Rightarrow> f a (s\<lparr>ss_persist := p\<rparr>))"
  by (simp add: act_bind_def with_session_persist_def split: prod.split sum.split)

lemma sess_ok_updates [simp]:
  "sess_ok (s\<lparr>ss_persist := p\<rparr>) = sess_ok s"
  "sess_ok (s\<lparr>ss_world := w\<rparr>) = sess_ok s"
  "sess_ok (s\<lparr>ss_client := c\<rparr>) = sess_ok s"
  "sess_ok (s\<lparr>ss_client_log := l\<rparr>) = sess_ok s"
  "sess_ok (s\<lparr>ss_router_log := rl\<rparr>) = sess_ok s"
  "sess_ok (s\<lparr>ss_subscriptions := subs\<rparr>) = sess_ok s"
  "sess_ok (s\<lparr>ss_clean := b\<rparr>) = sess_ok s"
  "sess_ok (s\<lparr>ss_counter_publish_sent := n\<rparr>) = sess_ok s"
  "sess_ok (s\<lparr>ss_counter_publish_received := n\<rparr>) = sess_ok s"
  "sess_ok (s\<lparr>ss_qos_incoming := q\<rparr>) = sess_ok s"
  "sess_ok (s\<lparr>ss_next_message_id := i\<rparr>) = sess_ok s"
  by (simp_all add: sess_ok_def)

fun mark_dup :: "u16 \<Rightarrow> mqtt_message \<Rightarrow> mqtt_message" where
  "mark_dup mid (Publish m) = (if pub_identifier m = mid then Publish (m\<lparr>pub_dup := True\<rparr>) else Publish m)"
| "mark_dup mid x = x"

lemma outgoing_id_mark_dup [simp]: "outgoing_id (mark_dup mid x) = outgoing_id x"
  by (cases x) (auto simp: outgoing_id_def)

lemma mark_dup_map:
  assumes "i < length xs" and "xs ! i = Publish m" and "pub_identifier m = mid"
    and "only_at (has_outgoing_id mid) xs i"
  shows "xs[i := Publish (m\<lparr>pub_dup := True\<rparr>)] = map (mark_dup mid) xs"
proof -
  have "xs[i := mark_dup mid (xs ! i)] = map (\<lambda>x. if has_outgoing_id mid x then mark_dup mid x else x) xs"
    by (rule list_update_map [OF assms(1) _ assms(4)]) (simp add: assms has_outgoing_id_iff)
  also have "(\<lambda>x. if has_outgoing_id mid x then mark_dup mid x else x) = mark_dup mid"
  proof
    fix x show "(if has_outgoing_id mid x then mark_dup mid x else x) = mark_dup mid x"
      by (cases x) (simp_all add: has_outgoing_id_iff)
  qed
  finally show ?thesis using assms(2,3) by simp
qed

text \<open>The element that a registered id points to.\<close>

lemma queue_element:
  assumes "sess_ok s" and x: "x \<in> set (ss_qos_outgoing_messages s)" and xid: "outgoing_id x = Some mid"
  obtains i where "mid \<in> ss_qos_outgoing s" and "qos_outgoing_message_position mid s = Some i"
    and "i < length (ss_qos_outgoing_messages s)" and "ss_qos_outgoing_messages s ! i = x"
    and "only_at (has_outgoing_id mid) (ss_qos_outgoing_messages s) i"
proof -
  from assms have "Some mid \<in> outgoing_id ` set (ss_qos_outgoing_messages s)" by force
  with assms(1) have mid: "mid \<in> ss_qos_outgoing s" by (auto simp: sess_ok_def queue_ok_def)
  from message_position [OF assms(1) this] obtain i
    where i: "qos_outgoing_message_position mid s = Some i" "i < length (ss_qos_outgoing_messages s)"
      "only_at (has_outgoing_id mid) (ss_qos_outgoing_messages s) i" .
  from x obtain j where "j < length (ss_qos_outgoing_messages s)" "x = ss_qos_outgoing_messages s ! j"
    by (auto simp: in_set_conv_nth)
  with only_atD [OF i(3), of j] xid have "ss_qos_outgoing_messages s ! i = x"
    by (auto simp: has_outgoing_id_iff)
  with mid i that show ?thesis by blast
qed

lemma registered_element:
  assumes "sess_ok s" and "mid \<in> ss_qos_outgoing s"
  obtains x where "x \<in> set (ss_qos_outgoing_messages s)" and "outgoing_id x = Some mid"
proof -
  from assms have "Some mid \<in> outgoing_id ` set (ss_qos_outgoing_messages s)"
    by (simp add: sess_ok_def queue_ok_def)
  with that show ?thesis by auto
qed

lemma set_dup_eq:
  assumes "sess_ok s" and "Publish m \<in> set (ss_qos_outgoing_messages s)" and "pub_identifier m = mid"
  shows "qos_outgoing_set_dup sp mid s =
    (if pub_dup m then (Inr mid, s)
     else case sp_persist_qos_outgoing_update_dup sp (ss_internal_id s) mid True (ss_persist s) of
        (Inl e, p) \<Rightarrow> (Inl (Failed e), s\<lparr>ss_persist := p\<rparr>)
      | (Inr _, p) \<Rightarrow> (Inr mid, s\<lparr>ss_persist := p,
          ss_qos_outgoing_messages := map (mark_dup mid) (ss_qos_outgoing_messages s)\<rparr>))"
proof -
  from assms(3) have "outgoing_id (Publish m) = Some mid" by simp
  from queue_element [OF assms(1,2) this] obtain i
    where i: "qos_outgoing_message_position mid s = Some i" "i < length (ss_qos_outgoing_messages s)"
      "ss_qos_outgoing_messages s ! i = Publish m"
      "only_at (has_outgoing_id mid) (ss_qos_outgoing_messages s) i" .
  have "(ss_qos_outgoing_messages s)[i := Publish (m\<lparr>pub_dup := True\<rparr>)] =
        map (mark_dup mid) (ss_qos_outgoing_messages s)"
    using i assms(3) by (intro mark_dup_map)
  with i assms(3) show ?thesis
    by (simp add: qos_outgoing_set_dup_def vec_get_def act_bind_persist act_bind_app with_session_persist_def
        split: prod.split sum.split)
qed

lemma set_dup_pubrec:
  assumes "sess_ok s" and "PubRec r \<in> set (ss_qos_outgoing_messages s)" and "pr_identifier r = mid"
  shows "qos_outgoing_set_dup sp mid s = (Inl (Failed (Session_Persist ''QoS message not found to set dup'')), s)"
proof -
  from assms(3) have "outgoing_id (PubRec r) = Some mid" by simp
  from queue_element [OF assms(1,2) this] obtain i
    where "qos_outgoing_message_position mid s = Some i" "i < length (ss_qos_outgoing_messages s)"
      "ss_qos_outgoing_messages s ! i = PubRec r" .
  then show ?thesis by (simp add: qos_outgoing_set_dup_def vec_get_def)
qed

lemma set_dup_unknown:
  "mid \<notin> ss_qos_outgoing s \<Longrightarrow>
   qos_outgoing_set_dup sp mid s = (Inl (Failed (Session_Persist ''QoS message not stored to set dup'')), s)"
  by (simp add: qos_outgoing_set_dup_def message_position_None)

text \<open>The session after an id is taken.\<close>

definition mid_taken :: "('p, 'w) mqtt_session \<Rightarrow> ('p, 'w) mqtt_session" where
  "mid_taken s = s\<lparr>ss_next_message_id := ss_next_message_id s + 1\<rparr>"

lemma next_mid_eq:
  "qos_outgoing_next_mid env sp s =
    (if se_overflow_checks env \<and> ss_next_message_id s = - 1 then (Inl Panicked, s)
     else case sp_persist_update_session_mid sp (ss_internal_id s) (ss_next_message_id s + 1) (ss_persist s) of
        (Inl e, p) \<Rightarrow> (Inl (Failed e), (mid_taken s)\<lparr>ss_persist := p\<rparr>)
      | (Inr _, p) \<Rightarrow> (Inr (ss_next_message_id s), (mid_taken s)\<lparr>ss_persist := p\<rparr>))"
  by (simp add: qos_outgoing_next_mid_def act_bind_persist mid_taken_def split: prod.split sum.split)

lemma insert_publish_eq:
  "qos_outgoing_insert env sp (Publish m) s =
    (case qos_outgoing_next_mid env sp s of
       (Inl e, s') \<Rightarrow> (Inl e, s')
     | (Inr mid, s') \<Rightarrow>
         if mid \<in> ss_qos_outgoing s' then (Inl (Failed (Session_Persist ''QoS outgoing mid duplicate found'')), s')
         else case sp_persist_qos_outgoing_store sp (ss_internal_id s') mid (Publish (m\<lparr>pub_identifier := mid\<rparr>)) (ss_persist s') of
            (Inl e, p) \<Rightarrow> (Inl (Failed e), s'\<lparr>ss_persist := p\<rparr>)
          | (Inr _, p) \<Rightarrow> (Inr mid, s'\<lparr>ss_persist := p, ss_qos_outgoing := insert mid (ss_qos_outgoing s'),
              ss_qos_outgoing_messages := ss_qos_outgoing_messages s' @ [Publish (m\<lparr>pub_identifier := mid\<rparr>)]\<rparr>))"
  by (simp add: qos_outgoing_insert_def act_bind_persist act_bind_app [of "qos_outgoing_next_mid env sp"] Let_def
      split: prod.split sum.split)

lemma insert_pubrec_new:
  assumes "pr_identifier r \<notin> ss_qos_outgoing s"
  shows "qos_outgoing_insert env sp (PubRec r) s =
    (case sp_persist_qos_outgoing_store sp (ss_internal_id s) (pr_identifier r) (PubRec r) (ss_persist s) of
       (Inl e, p) \<Rightarrow> (Inl (Failed e), s\<lparr>ss_persist := p\<rparr>)
     | (Inr _, p) \<Rightarrow> (Inr (pr_identifier r), s\<lparr>ss_persist := p,
         ss_qos_outgoing := insert (pr_identifier r) (ss_qos_outgoing s),
         ss_qos_outgoing_messages := ss_qos_outgoing_messages s @ [PubRec r]\<rparr>))"
  using assms
  by (simp add: qos_outgoing_insert_def act_bind_persist message_position_None Let_def split: prod.split sum.split)

lemma insert_pubrec_again:
  assumes "sess_ok s" and "PubRec r' \<in> set (ss_qos_outgoing_messages s)" and "pr_identifier r' = pr_identifier r"
  shows "qos_outgoing_insert env sp (PubRec r) s = (Inr (pr_identifier r), s)"
proof -
  from assms(3) have "outgoing_id (PubRec r') = Some (pr_identifier r)" by simp
  from queue_element [OF assms(1,2) this] obtain i
    where "qos_outgoing_message_position (pr_identifier r) s = Some i"
      "i < length (ss_qos_outgoing_messages s)" "ss_qos_outgoing_messages s ! i = PubRec r'" .
  then show ?thesis by (simp add: qos_outgoing_insert_def vec_get_def Let_def)
qed

lemma insert_pubrec_publish:
  assumes "sess_ok s" and "Publish m \<in> set (ss_qos_outgoing_messages s)" and "pub_identifier m = pr_identifier r"
  shows "qos_outgoing_insert env sp (PubRec r) s =
    (case sp_persist_qos_outgoing_delete sp (ss_internal_id s) (pr_identifier r) (ss_persist s) of
       (Inl e, p) \<Rightarrow> (Inl (Failed e), s\<lparr>ss_persist := p\<rparr>)
     | (Inr _, p) \<Rightarrow>
         let s' = s\<lparr>ss_persist := p, ss_qos_outgoing_messages :=
           filter (\<lambda>x. \<not> has_outgoing_id (pr_identifier r) x) (ss_qos_outgoing_messages s)\<rparr>
         in case sp_persist_qos_outgoing_store sp (ss_internal_id s) (pr_identifier r) (PubRec r) p of
              (Inl e, p') \<Rightarrow> (Inl (Failed e), s'\<lparr>ss_persist := p'\<rparr>)
            | (Inr _, p') \<Rightarrow> (Inr (pr_identifier r), s'\<lparr>ss_persist := p',
                ss_qos_outgoing_messages := ss_qos_outgoing_messages s' @ [PubRec r]\<rparr>))"
proof -
  from assms(3) have "outgoing_id (Publish m) = Some (pr_identifier r)" by simp
  from queue_element [OF assms(1,2) this] obtain i
    where i: "qos_outgoing_message_position (pr_identifier r) s = Some i"
      "i < length (ss_qos_outgoing_messages s)" "ss_qos_outgoing_messages s ! i = Publish m" .
  then show ?thesis
    by (simp add: qos_outgoing_insert_def vec_get_def Let_def act_bind_persist queue_remove [OF assms(1) i(1)]
        act_bind_app [of "act_bind _ _"] split: prod.split sum.split)
qed

lemma outgoing_remove_eq:
  assumes "sess_ok s"
  shows "qos_outgoing_remove sp mid s =
    (if mid \<notin> ss_qos_outgoing s then (Inr mid, s)
     else case sp_persist_qos_outgoing_delete sp (ss_internal_id s) mid (ss_persist s) of
       (Inl e, p) \<Rightarrow> (Inl (Failed e), s\<lparr>ss_persist := p\<rparr>)
     | (Inr _, p) \<Rightarrow> (Inr mid, s\<lparr>ss_persist := p, ss_qos_outgoing := ss_qos_outgoing s - {mid},
         ss_qos_outgoing_messages := filter (\<lambda>x. \<not> has_outgoing_id mid x) (ss_qos_outgoing_messages s)\<rparr>))"
proof (cases "mid \<in> ss_qos_outgoing s")
  case True
  from message_position [OF assms True] obtain i where i: "qos_outgoing_message_position mid s = Some i" .
  show ?thesis
    by (simp add: qos_outgoing_remove_def i True act_bind_app [of "act_bind _ _"] act_bind_persist
        queue_remove [OF assms i] split: prod.split sum.split)
qed (simp add: qos_outgoing_remove_def message_position_None)

end
