(* ===== verification/Sess_Contract.thy ===== *)
theory Sess_Contract
  imports Sess_Queue
begin

text \<open>
  The contract of an invariant of the session worker: a locale that says which updates and
  operations it has to survive, and in it, once, that every handler and the loop keep it.
\<close>

section \<open>Triples\<close>

lemma act_hoare_conj:
  "act_hoare P m Q E \<Longrightarrow> act_hoare P' m Q' E' \<Longrightarrow>
   act_hoare (\<lambda>s. P s \<and> P' s) m (\<lambda>a s. Q a s \<and> Q' a s) (\<lambda>e s. E e s \<and> E' e s)"
  unfolding act_hoare_def by (fastforce split: prod.splits sum.splits)

lemma act_hoare_cong_pre: "(\<And>s. P s \<Longrightarrow> act_hoare (\<lambda>t. t = s) m Q E) \<Longrightarrow> act_hoare P m Q E"
  unfolding act_hoare_def by (auto split: prod.splits sum.splits)

lemma act_hoare_at: "(case m s of (Inl e, s') \<Rightarrow> E e s' | (Inr a, s') \<Rightarrow> Q a s') \<Longrightarrow> act_hoare (\<lambda>t. t = s) m Q E"
  by (simp add: act_hoare_def)

lemma act_hoare_get_bind: "(\<And>s. P s \<Longrightarrow> act_hoare (\<lambda>t. t = s) (f (g s)) Q E) \<Longrightarrow> act_hoare P (act_bind (act_get g) f) Q E"
  by (rule act_hoare_cong_pre) (auto simp: act_hoare_def)

lemma act_hoare_eq: "m s = m' s \<Longrightarrow> act_hoare (\<lambda>t. t = s) m' Q E \<Longrightarrow> act_hoare (\<lambda>t. t = s) m Q E"
  by (simp add: act_hoare_def)

section \<open>The contract of an invariant\<close>

definition no_publish :: "router_message \<Rightarrow> bool" where
  "no_publish m \<longleftrightarrow> (case m of Router_Publish _ \<Rightarrow> False | _ \<Rightarrow> True)"

lemma no_publish_simps [simp]:
  "\<not> no_publish (Router_Publish p)" "no_publish (Router_Subscribe q)" "no_publish (Router_Unsubscribe u)"
  by (simp_all add: no_publish_def)

text \<open>
  What an invariant \<open>I\<close> of the worker has to satisfy: it may not depend on the fields that
  sending changes, and the operations on the two QoS stores keep it, or fail with \<open>E\<close>. The
  messages the worker receives are those that are \<open>allowed\<close>.
\<close>

locale session_contract =
  fixes env :: "'w session_env" and sp :: "'p session_persist"
    and I :: "('p, 'w) mqtt_session \<Rightarrow> bool"
    and E :: "session_error failure \<Rightarrow> ('p, 'w) mqtt_session \<Rightarrow> bool"
    and allowed :: "session_message \<Rightarrow> bool"
  assumes world: "I s \<Longrightarrow> I (s\<lparr>ss_world := w\<rparr>)"
    and client: "I s \<Longrightarrow> I (s\<lparr>ss_client := c\<rparr>)"
    and client_log: "I s \<Longrightarrow> I (s\<lparr>ss_client_log := l\<rparr>)"
    and subscriptions: "I s \<Longrightarrow> I (s\<lparr>ss_subscriptions := subs\<rparr>)"
    and connected: "I s \<Longrightarrow> I (s\<lparr>ss_clean := b\<rparr>)"
    and sent: "I s \<Longrightarrow> I (s\<lparr>ss_counter_publish_sent := n\<rparr>)"
    and route: "I s \<Longrightarrow> no_publish rm \<Longrightarrow> I (s\<lparr>ss_router_log := ss_router_log s @ [rm]\<rparr>)"
    and queue: "I s \<Longrightarrow> sess_ok s"
    and no_client: "E (Failed Session_Client) s \<longleftrightarrow> I s"
    and no_router: "I s \<Longrightarrow> E (Failed Session_Router) s"
    and errors: "E (Failed e) s \<Longrightarrow> I s' \<Longrightarrow> E (Failed e) s'"
    and set_dup: "act_hoare (\<lambda>s. I s \<and> Publish m \<in> set (ss_qos_outgoing_messages s) \<and> pub_identifier m = mid)
        (qos_outgoing_set_dup sp mid) (\<lambda>_. I) E"
    and insert_publish: "\<not> pub_dup m \<Longrightarrow> act_hoare I (qos_outgoing_insert env sp (Publish m))
        (\<lambda>mid s. I s \<and> Publish (m\<lparr>pub_identifier := mid\<rparr>) \<in> set (ss_qos_outgoing_messages s)) E"
    and insert_pubrec: "allowed (Client_Message (PubRec r)) \<Longrightarrow>
        act_hoare I (qos_outgoing_insert env sp (PubRec r)) (\<lambda>_. I) E"
    and remove_ack: "allowed (Client_Message (PubAck a)) \<Longrightarrow>
        act_hoare I (qos_outgoing_remove sp (pa_identifier a)) (\<lambda>_. I) E"
    and remove_comp: "allowed (Client_Message (PubComp pc)) \<Longrightarrow>
        act_hoare I (qos_outgoing_remove sp (pc_identifier pc)) (\<lambda>_. I) E"
    and release: "allowed (Client_Message (PubRel pl)) \<Longrightarrow>
        act_hoare I (qos_incoming_remove sp (pl_identifier pl)) (\<lambda>_. I) E"
    and publish: "allowed (Client_Message (Publish m)) \<Longrightarrow>
        act_hoare I (publish_message env sp m) (\<lambda>_. I) E"
    and clean: "allowed (New_Client nc) \<Longrightarrow> con_clean_session (nc_msg nc) \<Longrightarrow>
        act_hoare I (clean_session env sp) (\<lambda>_. I) (\<lambda>e s. E e s \<and> I s)"
begin

text \<open>Sending leaves the queue alone.\<close>

lemma send_client:
  "act_hoare (\<lambda>s. I s \<and> Q (ss_qos_outgoing_messages s)) (send_client_message env m)
     (\<lambda>_ s. I s \<and> Q (ss_qos_outgoing_messages s))
     (\<lambda>e s. e = Failed Session_Client \<and> I s \<and> Q (ss_qos_outgoing_messages s))"
  unfolding act_hoare_def send_client_message_def
  by (auto simp: act_bind_app [of "with_world _"] with_world_def world client client_log
      split: option.split prod.split)

lemma send_client_I: "act_hoare I (send_client_message env m) (\<lambda>_. I) E"
  by (rule act_hoare_weaken [OF send_client [of "\<lambda>_. True"]]) (auto simp: no_client)

lemma try_send_client: "act_hoare I (act_try (send_client_message env m)) (\<lambda>_. I) E"
  by (rule act_hoare_try [where E' = "\<lambda>e s. e = Failed Session_Client \<and> I s"],
      rule act_hoare_weaken [OF send_client [of "\<lambda>_. True"]]) (auto simp: no_client)

lemma send_or_log_I: "act_hoare I (send_or_log env m) (\<lambda>_. I) E"
  unfolding send_or_log_def by (rule act_hoare_bind [OF try_send_client]) (rule act_hoare_return)

lemma send_router:
  "no_publish r \<Longrightarrow> act_hoare I (send_message_router env r) (\<lambda>_. I)
     (\<lambda>e s. e = Failed Session_Router \<and> I s)"
proof (rule act_hoare_cong_pre, rule act_hoare_at)
  fix s assume r: "no_publish r" and s: "I s"
  obtain sent w where w: "se_router_send env r (ss_world s) = (sent, w)" by force
  with route [OF world [OF s] r, of w] world [OF s, of w]
  show "case send_message_router env r s of (Inl e, s') \<Rightarrow> e = Failed Session_Router \<and> I s' | (Inr a, s') \<Rightarrow> I s'"
    by (simp add: send_message_router_def act_bind_app [of "with_world _"] with_world_def)
qed

lemma send_router_I: "no_publish r \<Longrightarrow> act_hoare I (send_message_router env r) (\<lambda>_. I) E"
  by (rule act_hoare_weaken [OF send_router]) (auto simp: no_router)

lemma with_world_I: "act_hoare I (with_world f) (\<lambda>_. I) F"
  by (simp add: act_hoare_def with_world_def world split: prod.split)

lemma with_subscriptions: "act_hoare I (act_modify (\<lambda>s. s\<lparr>ss_subscriptions := f s\<rparr>)) (\<lambda>_. I) F"
  by (rule act_hoare_modify) (rule subscriptions)

section \<open>Redelivery\<close>

lemma set_dup_length:
  "act_hoare (\<lambda>s. length (ss_qos_outgoing_messages s) = n) (qos_outgoing_set_dup sp mid)
     (\<lambda>_ s. length (ss_qos_outgoing_messages s) = n) (\<lambda>_ s. length (ss_qos_outgoing_messages s) = n)"
  unfolding act_hoare_def qos_outgoing_set_dup_def
  by (auto simp: act_bind_app [of "case_option _ _ _"] act_bind_persist Let_def
      split: option.splits mqtt_message.splits prod.splits sum.splits)

lemma send_queued_one:
  assumes "pos < n"
  shows "act_hoare (\<lambda>s. I s \<and> length (ss_qos_outgoing_messages s) = n) (send_queued_message env sp pos)
     (\<lambda>_ s. I s \<and> length (ss_qos_outgoing_messages s) = n) E"
proof (rule act_hoare_cong_pre)
  fix s assume s: "I s \<and> length (ss_qos_outgoing_messages s) = n"
  define x where "x = ss_qos_outgoing_messages s ! pos"
  have x: "x \<in> set (ss_qos_outgoing_messages s)" using s assms by (simp add: x_def)
  with queue [of s] s have "outgoing_id x \<in> Some ` ss_qos_outgoing s" by (auto simp: sess_ok_def queue_ok_def)
  then consider (Publish) m where "x = Publish m" | (PubRec) r where "x = PubRec r"
    by (cases x) (auto simp: outgoing_id_def)
  moreover have get: "vec_get pos (ss_qos_outgoing_messages s) = Some x"
    using s assms by (simp add: vec_get_def x_def)
  let ?Q = "\<lambda>ms. x \<in> set ms \<and> length ms = n"
  have send: "act_hoare (\<lambda>t. t = s) (send_client_message env y)
      (\<lambda>_ s. I s \<and> ?Q (ss_qos_outgoing_messages s)) E" for y
    by (rule act_hoare_weaken [OF send_client [of ?Q]]) (use s x no_client in auto)
  ultimately show "act_hoare (\<lambda>t. t = s) (send_queued_message env sp pos)
      (\<lambda>_ s. I s \<and> length (ss_qos_outgoing_messages s) = n) E"
  proof cases
    case (Publish m)
    have dup: "act_hoare (\<lambda>s. I s \<and> ?Q (ss_qos_outgoing_messages s)) (qos_outgoing_set_dup sp (pub_identifier m))
        (\<lambda>_ s. I s \<and> length (ss_qos_outgoing_messages s) = n) E"
      by (rule act_hoare_weaken [OF act_hoare_conj [OF set_dup [of m] set_dup_length [of n]]]) (use Publish in auto)
    let ?again = "(pub_qos m = qos_u8 QOS1 \<or> pub_qos m = qos_u8 QOS2) \<and> \<not> pub_dup m"
    have "act_hoare (\<lambda>t. t = s) (act_bind (send_client_message env (Publish m)) (\<lambda>_.
        if ?again then act_bind (qos_outgoing_set_dup sp (pub_identifier m)) (\<lambda>_. act_return ()) else act_return ()))
      (\<lambda>_ s. I s \<and> length (ss_qos_outgoing_messages s) = n) E"
      by (rule act_hoare_bind [OF send], rule act_hoare_if, rule act_hoare_bind [OF dup]) (auto intro: act_hoare_return)
    then show ?thesis
      by (rule act_hoare_eq [rotated]) (simp add: send_queued_message_def get Publish Let_def)
  next
    case (PubRec r)
    have "act_hoare (\<lambda>t. t = s) (send_client_message env (PubRel (pubrel_new\<lparr>pl_identifier := pr_identifier r\<rparr>)))
      (\<lambda>_ s. I s \<and> length (ss_qos_outgoing_messages s) = n) E"
      by (rule act_hoare_weaken [OF send]) auto
    then show ?thesis
      by (rule act_hoare_eq [rotated]) (simp add: send_queued_message_def get PubRec Let_def)
  qed
qed

lemma send_queued: "act_hoare I (send_queued_messages env sp) (\<lambda>_. I) E"
  unfolding send_queued_messages_def
proof (rule act_hoare_get_bind)
  fix s assume "I s"
  let ?n = "length (ss_qos_outgoing_messages s)"
  have "act_hoare (\<lambda>s. I s \<and> length (ss_qos_outgoing_messages s) = ?n)
      (act_for [0..<?n] (send_queued_message env sp))
      (\<lambda>_ s. I s \<and> length (ss_qos_outgoing_messages s) = ?n) E"
    by (rule act_hoare_for) (auto intro: send_queued_one)
  then show "act_hoare (\<lambda>t. t = s) (act_for [0..<?n] (send_queued_message env sp)) (\<lambda>_. I) E"
    by (rule act_hoare_weaken) (use \<open>I s\<close> in auto)
qed

end

context session_contract
begin

lemma internal_publish: "act_hoare I (internal_publish_message env sp m) (\<lambda>_. I) E"
proof -
  let ?m = "m\<lparr>pub_dup := False\<rparr>"
  let ?q = "pub_qos m = qos_u8 QOS1 \<or> pub_qos m = qos_u8 QOS2"
  let ?R = "\<lambda>mm s. I s \<and> (?q \<longrightarrow> mm = (fst mm, ?m\<lparr>pub_identifier := fst mm\<rparr>)
      \<and> Publish (snd mm) \<in> set (ss_qos_outgoing_messages s))"
  have insert: "act_hoare I (act_bind (qos_outgoing_insert env sp (Publish ?m)) (\<lambda>mid.
      act_return (mid, ?m\<lparr>pub_identifier := mid\<rparr>))) ?R E"
    by (rule act_hoare_bind [OF insert_publish [of ?m]]) (auto intro: act_hoare_return)
  have keep: "act_hoare (\<lambda>s. I s \<and> (?q \<longrightarrow> Publish (snd mm) \<in> set (ss_qos_outgoing_messages s)))
      (send_client_message env y)
      (\<lambda>_ s. I s \<and> (?q \<longrightarrow> Publish (snd mm) \<in> set (ss_qos_outgoing_messages s))) E" for mm y
    by (rule act_hoare_weaken [OF send_client [of "\<lambda>ms. ?q \<longrightarrow> Publish (snd mm) \<in> set ms"]]) (auto simp: no_client)
  have deliver: "act_hoare (?R mm) (act_bind (act_get (\<lambda>s. ss_client s \<noteq> None)) (\<lambda>connected.
      if connected then act_bind (send_client_message env (Publish (snd mm))) (\<lambda>_.
        if ?q then act_bind (qos_outgoing_set_dup sp (fst mm)) (\<lambda>_. act_return ()) else act_return ())
      else act_return ())) (\<lambda>_. I) E" for mm
  proof (rule act_hoare_get_bind, rule act_hoare_if)
    fix s assume R: "?R mm s"
    have dup: "act_hoare (\<lambda>s. I s \<and> (?q \<longrightarrow> Publish (snd mm) \<in> set (ss_qos_outgoing_messages s)))
        (qos_outgoing_set_dup sp (fst mm)) (\<lambda>_. I) E" if "?q"
      by (rule act_hoare_weaken [OF set_dup [of "snd mm"]]) (use R that in \<open>auto simp: prod_eq_iff\<close>)
    have "act_hoare (\<lambda>t. t = s) (send_client_message env (Publish (snd mm)))
        (\<lambda>_ s. I s \<and> (?q \<longrightarrow> Publish (snd mm) \<in> set (ss_qos_outgoing_messages s))) E"
      by (rule act_hoare_weaken [OF keep [of mm]]) (use R in auto)
    then show "act_hoare (\<lambda>t. t = s) (act_bind (send_client_message env (Publish (snd mm))) (\<lambda>_.
        if ?q then act_bind (qos_outgoing_set_dup sp (fst mm)) (\<lambda>_. act_return ()) else act_return ())) (\<lambda>_. I) E"
      by (rule act_hoare_bind, intro act_hoare_if act_hoare_bind [OF dup])
        (auto intro: act_hoare_return simp del: act_simps)
  qed (auto intro: act_hoare_return)
  have q: "pub_qos ?m = pub_qos m" by simp
  show ?thesis
    unfolding internal_publish_message_def Let_def
  proof (rule act_hoare_bind [OF act_hoare_modify [where Q = "\<lambda>_. I"]], goal_cases)
    case (2 a)
    show ?case
      apply (simp only: q)
      apply (rule act_hoare_bind [where R = ?R])
       apply (rule act_hoare_if [OF insert])
       apply (rule act_hoare_return)
       apply simp
      subgoal for mm using deliver [of mm] by (cases mm) (simp only: split fst_conv snd_conv)
      done
  qed (rule sent)
qed

lemma subscribe_one: "act_hoare I (session_subscribe env topic qos) (\<lambda>_. I) (\<lambda>e s. e = Failed Session_Router \<and> I s)"
  unfolding session_subscribe_def Let_def
  apply (rule act_hoare_bind [OF with_subscriptions])
  apply (rule act_hoare_bind [OF with_world_I])
  apply (rule act_hoare_bind [OF act_hoare_get [where Q = "\<lambda>_. I"]], assumption)
  apply (rule act_hoare_bind [OF send_router], simp)
  apply (rule act_hoare_bind [OF with_world_I])
  apply (auto split: option.split intro: act_hoare_return act_hoare_fail)
  done

lemma subscribe_topics: "act_hoare I (subscribe_loop env topics re ack rs) (\<lambda>_. I) E"
proof (induction topics arbitrary: re ack rs)
  case (Cons t topics)
  obtain topic qos where t: "t = (topic, qos)" by force
  show ?case
    unfolding t subscribe_loop.simps
    by (rule act_hoare_bind [OF act_hoare_try [OF subscribe_one]]) (auto simp: Let_def split: prod.split intro: Cons.IH)
qed (auto intro: act_hoare_return)

lemma send_retained: "act_hoare I (send_retained_loop env ms) (\<lambda>_. I) E"
proof (induction ms)
  case (Cons m ms)
  show ?case
    unfolding send_retained_loop.simps
    by (rule act_hoare_bind [OF try_send_client])
      (auto split: sum.split intro: Cons.IH act_hoare_return simp del: act_simps)
qed (auto intro: act_hoare_return simp del: act_simps)

lemma subscribe_handler: "act_hoare I (subscribe_message env m) (\<lambda>_. I) E"
proof -
  have "act_hoare I (act_bind (act_try (send_client_message env y)) (\<lambda>result.
      act_bind (if \<not> isl result then send_retained_loop env rs else act_return False) (\<lambda>client_error.
      if re then act_fail (Failed Session_Router)
      else if client_error then act_fail (Failed Session_Client)
      else act_return ()))) (\<lambda>_. I) E" for re rs y
    by (rule act_hoare_bind [OF try_send_client], rule act_hoare_bind [where R = "\<lambda>_. I"], rule act_hoare_if)
      (auto intro: send_retained act_hoare_return act_hoare_fail simp: no_client no_router simp del: act_simps)
  then show ?thesis
    unfolding subscribe_message_def Let_def
    by (intro act_hoare_bind [OF subscribe_topics]) (auto split: prod.split)
qed

lemma unsubscribe_topics: "act_hoare I (session_unsubscribe env topics) (\<lambda>_. I) (\<lambda>e s. e = Failed Session_Router \<and> I s)"
  unfolding session_unsubscribe_def Let_def
  apply (rule act_hoare_bind [OF act_hoare_for [OF with_subscriptions]])
  apply (rule act_hoare_bind [OF act_hoare_get [where Q = "\<lambda>_. I"]], assumption)
  apply (rule send_router, simp)
  done

lemma unsubscribe_handler: "act_hoare I (unsubscribe_message env m) (\<lambda>_. I) E"
  unfolding unsubscribe_message_def Let_def
  by (rule act_hoare_bind [where R = "\<lambda>_. I"], rule act_hoare_weaken [OF unsubscribe_topics])
    (auto simp: no_router intro: send_client_I)

lemma unsubscribe_all_I: "act_hoare I (unsubscribe_all env) (\<lambda>_. I) (\<lambda>e s. e = Failed Session_Router \<and> I s)"
  unfolding unsubscribe_all_def
  apply (rule act_hoare_bind [OF act_hoare_get [where Q = "\<lambda>_. I"]], assumption)
  apply (rule act_hoare_bind [OF unsubscribe_topics])
  apply (rule with_subscriptions)
  done

lemma new_client:
  assumes "allowed (New_Client nc)"
  shows "act_hoare I (new_client_connected env sp nc) (\<lambda>_. I) E"
proof -
  have clean': "act_hoare I (if con_clean_session (nc_msg nc) then act_try (clean_session env sp) else act_return (Inr ()))
      (\<lambda>r s. I s \<and> (\<forall>e. r = Inl e \<longrightarrow> E (Failed e) s)) E"
  proof (rule act_hoare_if)
    assume c: "con_clean_session (nc_msg nc)"
    show "act_hoare I (act_try (clean_session env sp))
        (\<lambda>r s. I s \<and> (\<forall>e. r = Inl e \<longrightarrow> E (Failed e) s)) E"
      by (rule act_hoare_try [where E' = "\<lambda>e s. E e s \<and> I s"], rule act_hoare_weaken [OF clean [OF assms c]]) auto
  qed (auto intro: act_hoare_return simp del: act_simps)
  have get: "act_hoare I (act_get g) (\<lambda>_. I) F" for g :: "('p, 'w) mqtt_session \<Rightarrow> 'z" and F
    by (rule act_hoare_get)
  let ?R = "\<lambda>clean_result s. I s \<and> (\<forall>e. clean_result = Inl e \<longrightarrow> E (Failed e) s)"
  have rest: "act_hoare (?R cr) (act_bind (act_try (send_client_message env y)) (\<lambda>client_result.
      act_bind (send_queued_messages env sp) (\<lambda>_.
      act_result (if \<not> isl cr then client_result else cr)))) (\<lambda>_. I) E" for cr y
  proof (rule act_hoare_cong_pre)
    fix s assume R: "?R cr s"
    have "act_hoare I (act_try (send_client_message env y)) (\<lambda>r s. I s \<and> (\<forall>e. r = Inl e \<longrightarrow> e = Session_Client)) E"
      by (rule act_hoare_try [where E' = "\<lambda>e s. e = Failed Session_Client \<and> I s"],
          rule act_hoare_weaken [OF send_client [of "\<lambda>_. True"]]) auto
    moreover have "act_hoare (\<lambda>s. I s \<and> (\<forall>e. r = Inl e \<longrightarrow> e = Session_Client)) (act_bind (send_queued_messages env sp) (\<lambda>_.
      act_result (if \<not> isl cr then r else cr))) (\<lambda>_. I) E" for r
    proof (rule act_hoare_cong_pre)
      fix s' assume r: "I s' \<and> (\<forall>e. r = Inl e \<longrightarrow> e = Session_Client)"
      have "act_hoare I (act_result (if \<not> isl cr then r else cr)) (\<lambda>_. I) E"
        by (cases cr; cases r)
          (use R r in \<open>auto intro!: act_hoare_return act_hoare_fail simp: no_client dest: errors\<close>)
      then have "act_hoare I (act_bind (send_queued_messages env sp) (\<lambda>_.
          act_result (if \<not> isl cr then r else cr))) (\<lambda>_. I) E"
        by (rule act_hoare_bind [OF send_queued])
      then show "act_hoare (\<lambda>t. t = s') (act_bind (send_queued_messages env sp) (\<lambda>_.
          act_result (if \<not> isl cr then r else cr))) (\<lambda>_. I) E"
        by (rule act_hoare_weaken) (use r in auto)
    qed
    ultimately have "act_hoare I (act_bind (act_try (send_client_message env y)) (\<lambda>client_result.
      act_bind (send_queued_messages env sp) (\<lambda>_.
      act_result (if \<not> isl cr then client_result else cr)))) (\<lambda>_. I) E"
      by (rule act_hoare_bind)
    then show "act_hoare (\<lambda>t. t = s) (act_bind (act_try (send_client_message env y)) (\<lambda>client_result.
      act_bind (send_queued_messages env sp) (\<lambda>_.
      act_result (if \<not> isl cr then client_result else cr)))) (\<lambda>_. I) E"
      by (rule act_hoare_weaken) (use R in auto)
  qed
  show ?thesis
    unfolding new_client_connected_def Let_def
    apply (rule act_hoare_bind [OF get])
    apply (rule act_hoare_bind [where R = "\<lambda>_. I"])
     apply (auto intro: try_send_client act_hoare_return) []
    apply (rule act_hoare_bind [where R = "\<lambda>_. I"])
     apply (auto intro!: act_hoare_modify act_hoare_return client) []
    apply (rule act_hoare_bind [where R = "\<lambda>_. I"])
     apply (auto intro!: act_hoare_modify client) []
    apply (rule act_hoare_bind [OF clean'])
    subgoal for _ _ _ _ cr
      apply (rule act_hoare_bind [OF act_hoare_get [where Q = "\<lambda>_. ?R cr"]], assumption)
      apply (rule act_hoare_bind [where R = "\<lambda>_. ?R cr"])
       apply (auto intro!: act_hoare_modify connected dest: errors) []
      apply (rule act_hoare_bind [where R = "\<lambda>_. ?R cr"])
       apply (auto intro!: act_hoare_modify client dest: errors) []
      apply (rule rest)
      done
    done
qed

end

context session_contract
begin

text \<open>Every message the worker may receive, and the loop over them.\<close>

lemma handle:
  assumes "allowed v"
  shows "act_hoare I (session_handle env sp v) (\<lambda>_. I) E"
proof (cases v)
  case (Internal im)
  show ?thesis
    unfolding session_handle_def Internal session_message.case
    by (rule act_hoare_bind [OF act_hoare_get [where Q = "\<lambda>_. I"]], assumption, rule act_hoare_if)
      (auto split: mqtt_message.split intro: internal_publish act_hoare_return simp del: act_simps)
next
  case (Client_Message cm)
  note a = assms [unfolded Client_Message]
  have ack: "act_hoare I (puback_message sp pa) (\<lambda>_. I) E" if "cm = PubAck pa" for pa
    unfolding puback_message_def using a that
    by (auto intro!: act_hoare_bind [OF remove_ack] act_hoare_return simp del: act_simps)
  have comp: "act_hoare I (pubcomp_message sp pc) (\<lambda>_. I) E" if "cm = PubComp pc" for pc
    unfolding pubcomp_message_def using a that
    by (auto intro!: act_hoare_bind [OF remove_comp] act_hoare_return simp del: act_simps)
  have rel: "act_hoare I (pubrel_message env sp pl) (\<lambda>_. I) E" if "cm = PubRel pl" for pl
    unfolding pubrel_message_def Let_def using a that
    by (auto intro!: act_hoare_bind [OF release] send_client_I)
  have rec: "act_hoare I (pubrec_message env sp pr) (\<lambda>_. I) E" if "cm = PubRec pr" for pr
    unfolding pubrec_message_def Let_def using a that
    by (auto intro!: act_hoare_bind [OF insert_pubrec] send_client_I)
  show ?thesis
    unfolding session_handle_def Client_Message session_message.case using a
    by (auto split: mqtt_message.split intro: publish ack comp rel rec subscribe_handler unsubscribe_handler
        act_hoare_return simp del: act_simps)
next
  case (New_Client nc)
  with assms new_client show ?thesis by (simp add: session_handle_def)
qed

lemma loop:
  assumes "I s" and "\<forall>v\<in>set vs. allowed v" and "session_loop env sp vs s = (e, s')"
  shows "case e of Waiting \<Rightarrow> I s' | Crashed \<Rightarrow> E Panicked s'
    | Stopped \<Rightarrow> E (Failed Session_Router) s' \<or> (\<exists>x. E (Failed (Session_Persist x)) s')"
  using assms
proof (induction vs arbitrary: s)
  case (Cons v vs)
  obtain r t where step: "session_handle env sp v s = (r, t)" by force
  from handle [of v] Cons.prems(1,2) step have keep: "case r of Inl f \<Rightarrow> E f t | Inr _ \<Rightarrow> I t"
    by (cases r) (auto simp: act_hoare_def)
  consider (go) "session_loop env sp vs t = (e, s')" "I t" | (stop) x where "r = Inl (Failed x)" "x \<noteq> Session_Client"
    "(e, s') = (Stopped, t)" | (crash) "r = Inl Panicked" "(e, s') = (Crashed, t)"
  proof (cases r)
    case (Inl f)
    show ?thesis
    proof (cases f)
      case (Failed x)
      with Inl step keep Cons.prems(3) that show ?thesis by (cases x) (auto simp: no_client)
    next
      case Panicked
      with Inl step Cons.prems(3) that(3) show ?thesis by auto
    qed
  next
    case (Inr u)
    with step keep Cons.prems(3) that(1) show ?thesis by auto
  qed
  then show ?case
  proof cases
    case go
    with Cons.IH [OF go(2) _ go(1)] Cons.prems(2) show ?thesis by simp
  next
    case stop
    with keep show ?thesis by (cases x) auto
  next
    case crash
    with keep show ?thesis by auto
  qed
qed auto

lemma loop_waiting:
  "I s \<Longrightarrow> \<forall>v\<in>set vs. allowed v \<Longrightarrow> session_loop env sp vs s = (Waiting, s') \<Longrightarrow> I s'"
  using loop [of s vs Waiting s'] by simp

end

end
