(* ===== verification/Sess_Inv.thy ===== *)
theory Sess_Inv
  imports Sess_Contract
begin

text \<open>
  The invariants of the session worker that meet the contract: the queue is in order, the
  receipt of a QoS 2 message is remembered, a message stays queued, and with a working
  storage only a few errors are left.
\<close>

section \<open>The queue stays in order\<close>

definition fatal :: "session_error failure \<Rightarrow> bool" where
  "fatal e \<longleftrightarrow> (case e of Panicked \<Rightarrow> True | Failed (Session_Persist _) \<Rightarrow> True | _ \<Rightarrow> False)"

lemma fatal_simps [simp]:
  "fatal Panicked" "fatal (Failed (Session_Persist x))" "\<not> fatal (Failed Session_Client)" "\<not> fatal (Failed Session_Router)"
  by (simp_all add: fatal_def)

lemma sess_ok_mid_taken [simp]: "sess_ok (mid_taken s) = sess_ok s"
  by (simp add: mid_taken_def)

lemma mid_taken_simps [simp]:
  "ss_qos_outgoing (mid_taken s) = ss_qos_outgoing s"
  "ss_qos_outgoing_messages (mid_taken s) = ss_qos_outgoing_messages s"
  "ss_qos_incoming (mid_taken s) = ss_qos_incoming s"
  "ss_internal_id (mid_taken s) = ss_internal_id s"
  "ss_router_log (mid_taken s) = ss_router_log s"
  "ss_persist (mid_taken s) = ss_persist s"
  by (simp_all add: mid_taken_def)

lemma sess_ok_mark [simp, wf_intros]:
  "sess_ok s \<Longrightarrow> sess_ok (s\<lparr>ss_qos_outgoing_messages := map (mark_dup mid) (ss_qos_outgoing_messages s)\<rparr>)"
  by (simp add: sess_ok_def queue_ok_map)

lemma next_mid_ok:
  "qos_outgoing_next_mid env sp s = (r, s') \<Longrightarrow>
   sess_ok s' = sess_ok s \<and> ss_qos_outgoing_messages s' = ss_qos_outgoing_messages s \<and>
   ss_qos_outgoing s' = ss_qos_outgoing s \<and> ss_qos_incoming s' = ss_qos_incoming s \<and> ss_router_log s' = ss_router_log s"
  by (auto simp: next_mid_eq split: if_splits prod.splits sum.splits)

text \<open>
  The queue after each of its operations: what is added, what is gone, and that it is in order
  unless the storage failed.
\<close>

lemma set_dup_ok:
  assumes "sess_ok s" and "Publish m \<in> set (ss_qos_outgoing_messages s)" and "pub_identifier m = mid"
    and "qos_outgoing_set_dup sp mid s = (r, s')"
  shows "sess_ok s' \<and> ss_qos_incoming s' = ss_qos_incoming s \<and> ss_router_log s' = ss_router_log s \<and>
    (\<exists>p. s' = s\<lparr>ss_persist := p\<rparr> \<or>
      s' = s\<lparr>ss_persist := p, ss_qos_outgoing_messages := map (mark_dup mid) (ss_qos_outgoing_messages s)\<rparr>)"
proof (cases "pub_dup m")
  case True
  with assms set_dup_eq [OF assms(1-3), of sp] show ?thesis
    by (auto intro: exI [of _ "ss_persist s"])
next
  case False
  with assms set_dup_eq [OF assms(1-3), of sp] show ?thesis
    by (auto simp: sess_ok_def queue_ok_map split: prod.splits sum.splits)
qed

lemma insert_publish_ok:
  assumes "sess_ok s" and "qos_outgoing_insert env sp (Publish m) s = (r, s')"
  shows "sess_ok s' \<and> ss_qos_incoming s' = ss_qos_incoming s \<and> ss_router_log s' = ss_router_log s \<and>
    (case r of
       Inl _ \<Rightarrow> ss_qos_outgoing_messages s' = ss_qos_outgoing_messages s
     | Inr mid \<Rightarrow> mid \<notin> ss_qos_outgoing s \<and>
         ss_qos_outgoing_messages s' = ss_qos_outgoing_messages s @ [Publish (m\<lparr>pub_identifier := mid\<rparr>)])"
proof -
  obtain q t where t: "qos_outgoing_next_mid env sp s = (q, t)" by force
  from next_mid_ok [OF t] assms(2) t show ?thesis
    using assms(1) unfolding insert_publish_eq
    by (auto simp: sess_ok_def queue_ok_push split: if_splits prod.splits sum.splits)
qed

text \<open>
  A storage reports its failures as \<open>Persist\<close> errors, so that the worker stops. Replacing a
  PUBLISH by its PUBREC relies on it: it is two calls, and a failure of the second leaves the
  id registered without a message.
\<close>

definition reports_failures :: "'p session_persist \<Rightarrow> bool" where
  "reports_failures sp \<longleftrightarrow>
     (\<forall>i mid p e p'. sp_persist_qos_outgoing_delete sp i mid p = (Inl e, p') \<longrightarrow> fatal (Failed e)) \<and>
     (\<forall>i mid m p e p'. sp_persist_qos_outgoing_store sp i mid m p = (Inl e, p') \<longrightarrow> fatal (Failed e)) \<and>
     (\<forall>i mid p e p'. sp_persist_update_session_mid sp i mid p = (Inl e, p') \<longrightarrow> fatal (Failed e))"

lemma reports_failuresD:
  assumes "reports_failures sp"
  shows "sp_persist_qos_outgoing_delete sp i mid p = (Inl e, p') \<Longrightarrow> fatal (Failed e)"
    and "sp_persist_qos_outgoing_store sp i mid m p = (Inl e, p') \<Longrightarrow> fatal (Failed e)"
    and "sp_persist_update_session_mid sp i mid p = (Inl e, p') \<Longrightarrow> fatal (Failed e)"
  using assms unfolding reports_failures_def by blast+

lemma insert_pubrec_ok:
  assumes "sess_ok s" and "reports_failures sp" and "qos_outgoing_insert env sp (PubRec p) s = (r, s')"
  shows "ss_qos_incoming s' = ss_qos_incoming s \<and> ss_router_log s' = ss_router_log s \<and>
    filter (\<lambda>x. \<not> has_outgoing_id (pr_identifier p) x) (ss_qos_outgoing_messages s') =
    filter (\<lambda>x. \<not> has_outgoing_id (pr_identifier p) x) (ss_qos_outgoing_messages s) \<and>
    (case r of
       Inl e \<Rightarrow> fatal e
     | Inr mid \<Rightarrow> mid = pr_identifier p \<and> sess_ok s' \<and> (\<exists>p'. PubRec p' \<in> set (ss_qos_outgoing_messages s') \<and> pr_identifier p' = mid))"
proof (cases "pr_identifier p \<in> ss_qos_outgoing s")
  case True
  from registered_element [OF assms(1) True] obtain x
    where x: "x \<in> set (ss_qos_outgoing_messages s)" "outgoing_id x = Some (pr_identifier p)" .
  from x(2) show ?thesis
  proof (cases rule: outgoing_id_SomeE)
    case (1 m)
    have ok: "queue_ok (ss_qos_outgoing s)
        (filter (\<lambda>x. \<not> has_outgoing_id (pr_identifier p) x) (ss_qos_outgoing_messages s) @ [PubRec p])"
      using assms(1) True by (simp add: sess_ok_def queue_ok_replace)
    show ?thesis
      using assms(3) x ok insert_pubrec_publish [OF assms(1), of m p env sp] 1
      by (auto simp: sess_ok_def has_outgoing_id_iff Let_def split: prod.splits sum.splits
          dest: reports_failuresD [OF assms(2)])
  next
    case (2 p')
    with assms x insert_pubrec_again [OF assms(1), of p' p env sp] show ?thesis by auto
  qed
next
  case False
  from assms show ?thesis
    unfolding insert_pubrec_new [OF False]
    by (auto simp: sess_ok_def queue_ok_push [OF _ False] has_outgoing_id_iff split: prod.splits sum.splits
        dest: reports_failuresD)
qed

lemma remove_ok:
  assumes "sess_ok s" and "qos_outgoing_remove sp mid s = (r, s')"
  shows "sess_ok s' \<and> ss_qos_incoming s' = ss_qos_incoming s \<and> ss_router_log s' = ss_router_log s \<and>
    (case r of
       Inl _ \<Rightarrow> \<exists>p. s' = s\<lparr>ss_persist := p\<rparr>
     | Inr _ \<Rightarrow> mid \<notin> ss_qos_outgoing s' \<and>
         ss_qos_outgoing_messages s' = filter (\<lambda>x. \<not> has_outgoing_id mid x) (ss_qos_outgoing_messages s))"
proof (cases "mid \<in> ss_qos_outgoing s")
  case True
  with assms outgoing_remove_eq [OF assms(1), of sp mid] show ?thesis
    by (auto simp: sess_ok_def queue_ok_filter split: prod.splits sum.splits)
next
  case False
  have "filter (\<lambda>x. \<not> has_outgoing_id mid x) (ss_qos_outgoing_messages s) = ss_qos_outgoing_messages s"
  proof -
    have "\<not> has_outgoing_id mid x" if "x \<in> set (ss_qos_outgoing_messages s)" for x
    proof
      assume "has_outgoing_id mid x"
      with that have "Some mid \<in> outgoing_id ` set (ss_qos_outgoing_messages s)"
        by (force simp: has_outgoing_id_iff)
      with assms(1) False show False by (auto simp: sess_ok_def queue_ok_def)
    qed
    then show ?thesis by simp
  qed
  with False assms outgoing_remove_eq [OF assms(1), of sp mid] show ?thesis by auto
qed

section \<open>Invariants that meet the contract\<close>

lemma clean_outgoing_ok:
  "sess_ok (s\<lparr>ss_qos_outgoing := {}, ss_qos_outgoing_messages := []\<rparr>)"
  by (simp add: sess_ok_def)

lemma incoming_remove_eq:
  "qos_incoming_remove sp mid s =
    (case sp_persist_qos_incoming_delete sp (ss_internal_id s) mid (ss_persist s) of
       (Inl e, p) \<Rightarrow> (Inl (Failed e), s\<lparr>ss_persist := p\<rparr>)
     | (Inr _, p) \<Rightarrow> (Inr mid, s\<lparr>ss_persist := p, ss_qos_incoming := ss_qos_incoming s - {mid}\<rparr>))"
  by (simp add: qos_incoming_remove_def act_bind_persist split: prod.split sum.split)

lemma incoming_store_eq:
  "qos_incoming_store sp mid s =
    (case sp_persist_qos_incoming_store sp (ss_internal_id s) mid (ss_persist s) of
       (Inl e, p) \<Rightarrow> (Inl (Failed e), s\<lparr>ss_persist := p\<rparr>)
     | (Inr _, p) \<Rightarrow> (Inr mid, s\<lparr>ss_persist := p, ss_qos_incoming := insert mid (ss_qos_incoming s)\<rparr>))"
  by (simp add: qos_incoming_store_def act_bind_persist split: prod.split sum.split)

text \<open>What sending to the client and to the router changes.\<close>

definition same_core :: "('p, 'w) mqtt_session \<Rightarrow> ('p, 'w) mqtt_session \<Rightarrow> bool" where
  "same_core s t \<longleftrightarrow> ss_qos_outgoing t = ss_qos_outgoing s \<and> ss_qos_outgoing_messages t = ss_qos_outgoing_messages s \<and>
     ss_qos_incoming t = ss_qos_incoming s \<and> ss_generation t = ss_generation s \<and> ss_id t = ss_id s \<and>
     ss_internal_id t = ss_internal_id s \<and> ss_next_message_id t = ss_next_message_id s"

lemma send_client_cases:
  "send_client_message env m s =
     (case ss_client s of
        None \<Rightarrow> (Inl (Failed Session_Client), s)
      | Some tx \<Rightarrow>
          (case se_client_send env tx m (ss_world s) of
             (True, w) \<Rightarrow> (Inr (), s\<lparr>ss_world := w, ss_client_log := ss_client_log s @ [(tx, m)]\<rparr>)
           | (False, w) \<Rightarrow> (Inl (Failed Session_Client), s\<lparr>ss_world := w, ss_client := None\<rparr>)))"
  by (auto simp: send_client_message_def act_bind_app [of "with_world _"] with_world_def
      split: option.split prod.split)

lemma send_router_cases:
  "send_message_router env m s =
     (case se_router_send env m (ss_world s) of
        (True, w) \<Rightarrow> (Inr (), s\<lparr>ss_world := w, ss_router_log := ss_router_log s @ [m]\<rparr>)
      | (False, w) \<Rightarrow> (Inl (Failed Session_Router), s\<lparr>ss_world := w\<rparr>))"
  by (auto simp: send_message_router_def act_bind_app [of "with_world _"] with_world_def split: prod.split)

lemma send_or_log_cases:
  "send_or_log env m s = (Inr (), snd (send_client_message env m s))"
  by (auto simp: send_or_log_def act_bind_def act_try_def send_client_cases split: option.splits prod.splits bool.splits)

text \<open>What the router gets of a PUBLISH from the client.\<close>

definition forwarded :: "publish \<Rightarrow> ('p, 'w) mqtt_session \<Rightarrow> router_message" where
  "forwarded m s = Router_Publish \<lparr>rp_session = own_session_id s, rp_message = m\<lparr>pub_dup := False\<rparr>\<rparr>"

lemma publish_ok:
  assumes "publish_message env sp m s = (r, s')"
  shows "ss_qos_outgoing s' = ss_qos_outgoing s \<and> ss_qos_outgoing_messages s' = ss_qos_outgoing_messages s \<and>
    (if pub_qos m = 2 \<and> pub_identifier m \<in> ss_qos_incoming s
     then ss_router_log s' = ss_router_log s \<and> ss_qos_incoming s' = ss_qos_incoming s
     else if r = Inl (Failed Session_Router) \<and> ss_router_log s' = ss_router_log s
     then ss_qos_incoming s' = ss_qos_incoming s
     else ss_router_log s' = ss_router_log s @ [forwarded m s] \<and>
       ss_qos_incoming s' = (if pub_qos m = 2 \<and> r = Inr () then insert (pub_identifier m) (ss_qos_incoming s) else ss_qos_incoming s))"
  using assms unfolding publish_message_def Let_def
  by (auto simp: qos_incoming_received_def send_client_cases act_bind_app [of "send_message_router _ _"]
      send_router_cases send_or_log_cases act_bind_app [of "qos_incoming_store _ _"] incoming_store_eq forwarded_def
      own_session_id_def split: option.splits prod.splits sum.splits if_splits bool.splits)


section \<open>The queue\<close>

definition queue_error :: "session_error failure \<Rightarrow> ('p, 'w) mqtt_session \<Rightarrow> bool" where
  "queue_error e s \<longleftrightarrow> fatal e \<or> sess_ok s"

lemma unsubscribe_all_core:
  "act_hoare (\<lambda>s. J (ss_qos_outgoing s) (ss_qos_outgoing_messages s)) (unsubscribe_all env)
     (\<lambda>_ s. J (ss_qos_outgoing s) (ss_qos_outgoing_messages s))
     (\<lambda>_ s. J (ss_qos_outgoing s) (ss_qos_outgoing_messages s))"
proof -
  let ?J = "\<lambda>s. J (ss_qos_outgoing s) (ss_qos_outgoing_messages s)"
  have subs: "act_hoare ?J (act_modify (\<lambda>s. s\<lparr>ss_subscriptions := f s\<rparr>)) (\<lambda>_. ?J) (\<lambda>_. ?J)" for f
    by (rule act_hoare_modify) simp
  have send: "act_hoare ?J (send_message_router env m) (\<lambda>_. ?J) (\<lambda>_. ?J)" for m
    by (auto simp: act_hoare_def send_router_cases split: prod.split bool.split)
  have get: "act_hoare ?J (act_get f) (\<lambda>_. ?J) (\<lambda>_. ?J)" for f :: "('a, 'b) mqtt_session \<Rightarrow> 'c"
    by (rule act_hoare_get)
  have unsub: "act_hoare ?J (session_unsubscribe env topics) (\<lambda>_. ?J) (\<lambda>_. ?J)" for topics
    unfolding session_unsubscribe_def Let_def
    by (rule act_hoare_bind [OF act_hoare_for [OF subs]], rule act_hoare_bind [OF act_hoare_get send])
  show ?thesis
    unfolding unsubscribe_all_def
    by (rule act_hoare_bind [OF act_hoare_get], assumption, rule act_hoare_bind [OF unsub subs])
qed

lemma clean_session_ok: "act_hoare sess_ok (clean_session env sp) (\<lambda>_. sess_ok) (\<lambda>_. sess_ok)"
proof -
  have p: "act_hoare sess_ok (with_session_persist call) (\<lambda>_. sess_ok) (\<lambda>_. sess_ok)" for call :: "('p, 'w) mqtt_session \<Rightarrow> ('p, 'x) session_call"
    by (auto simp: act_hoare_def with_session_persist_def split: prod.split sum.split)
  have all: "act_hoare sess_ok (unsubscribe_all env) (\<lambda>_. sess_ok) (\<lambda>_. sess_ok)"
    using unsubscribe_all_core [of queue_ok env] by (simp add: sess_ok_def [abs_def])
  show ?thesis
    unfolding clean_session_def
    apply (rule act_hoare_bind [OF p])
    apply (rule act_hoare_bind [OF act_hoare_modify [where Q = "\<lambda>_. sess_ok"]], simp)
    apply (rule act_hoare_bind [OF p])
    apply (rule act_hoare_bind [OF act_hoare_modify [where Q = "\<lambda>_. sess_ok"]], simp add: clean_outgoing_ok)
    apply (rule act_hoare_bind [OF all])
    apply (rule act_hoare_bind [OF act_hoare_modify [where Q = "\<lambda>_. sess_ok"]], simp add: sess_ok_def)
    apply (rule act_hoare_bind [OF p])
    apply (rule act_hoare_return, assumption)
    done
qed

lemma queue_contract:
  assumes "reports_failures sp"
  shows "session_contract env sp sess_ok queue_error (\<lambda>_. True)"
proof (unfold_locales, goal_cases)
  case (12 m mid)
  show ?case
    by (auto simp: act_hoare_def queue_error_def split: prod.split sum.split dest: set_dup_ok)
next
  case (13 m)
  show ?case
    by (auto simp: act_hoare_def queue_error_def split: prod.split sum.split dest: insert_publish_ok)
next
  case (14 p)
  show ?case
    by (auto simp: act_hoare_def queue_error_def split: prod.split sum.split dest!: insert_pubrec_ok [OF _ assms])
next
  case (15 a)
  show ?case
    by (auto simp: act_hoare_def queue_error_def split: prod.split sum.split dest: remove_ok)
next
  case (16 c)
  show ?case
    by (auto simp: act_hoare_def queue_error_def split: prod.split sum.split dest: remove_ok)
next
  case (17 l)
  show ?case
    by (auto simp: act_hoare_def queue_error_def incoming_remove_eq split: prod.split sum.split)
next
  case (18 m)
  show ?case
    by (auto simp: act_hoare_def queue_error_def sess_ok_def split: prod.split sum.split dest: publish_ok)
next
  case (19 nc)
  show ?case
    by (rule act_hoare_weaken [OF clean_session_ok]) (auto simp: queue_error_def)
qed (auto simp: queue_error_def)

section \<open>A QoS 2 message is forwarded once\<close>

text \<open>How often a QoS 2 PUBLISH with this identifier went to the router.\<close>

definition is_qos2_forward :: "u16 \<Rightarrow> router_message \<Rightarrow> bool" where
  "is_qos2_forward mid m =
     (case m of
        Router_Publish p \<Rightarrow> pub_qos (rp_message p) = 2 \<and> pub_identifier (rp_message p) = mid
      | _ \<Rightarrow> False)"

definition qos2_forwards :: "u16 \<Rightarrow> ('p, 'w) mqtt_session \<Rightarrow> nat" where
  "qos2_forwards mid s = length (filter (is_qos2_forward mid) (ss_router_log s))"

lemma is_qos2_forward_simps [simp]:
  "no_publish rm \<Longrightarrow> \<not> is_qos2_forward mid rm"
  "is_qos2_forward mid (forwarded m s) \<longleftrightarrow> pub_qos m = 2 \<and> pub_identifier m = mid"
  by (auto simp: is_qos2_forward_def no_publish_def forwarded_def split: router_message.splits)

text \<open>The receipt of \<open>mid\<close> is on record and it was forwarded \<open>n\<close> times so far.\<close>

definition received_inv :: "u16 \<Rightarrow> nat \<Rightarrow> ('p, 'w) mqtt_session \<Rightarrow> bool" where
  "received_inv mid n s \<longleftrightarrow> sess_ok s \<and> mid \<in> ss_qos_incoming s \<and> qos2_forwards mid s = n"

definition received_error :: "u16 \<Rightarrow> nat \<Rightarrow> session_error failure \<Rightarrow> ('p, 'w) mqtt_session \<Rightarrow> bool" where
  "received_error mid n e s \<longleftrightarrow> fatal e \<or> received_inv mid n s \<or> e = Failed Session_Router"

text \<open>The messages that do not end the handshake of \<open>mid\<close>.\<close>

definition no_release :: "u16 \<Rightarrow> session_message \<Rightarrow> bool" where
  "no_release mid v =
     (case v of
        Client_Message (PubRel m) \<Rightarrow> pl_identifier m \<noteq> mid
      | New_Client nc \<Rightarrow> \<not> con_clean_session (nc_msg nc)
      | _ \<Rightarrow> True)"

lemma received_inv_updates [simp]:
  "received_inv mid n (s\<lparr>ss_persist := p\<rparr>) = received_inv mid n s"
  "received_inv mid n (s\<lparr>ss_world := w\<rparr>) = received_inv mid n s"
  "received_inv mid n (s\<lparr>ss_client := c\<rparr>) = received_inv mid n s"
  "received_inv mid n (s\<lparr>ss_client_log := l\<rparr>) = received_inv mid n s"
  "received_inv mid n (s\<lparr>ss_subscriptions := subs\<rparr>) = received_inv mid n s"
  "received_inv mid n (s\<lparr>ss_clean := b\<rparr>) = received_inv mid n s"
  "received_inv mid n (s\<lparr>ss_counter_publish_sent := k\<rparr>) = received_inv mid n s"
  by (simp_all add: received_inv_def qos2_forwards_def)

lemma received_publish:
  assumes "received_inv mid n s" and "publish_message env sp m s = (r, s')"
  shows "received_inv mid n s'"
  using assms publish_ok [OF assms(2)]
  by (auto simp: received_inv_def sess_ok_def qos2_forwards_def split: if_splits)

lemma received_contract:
  assumes "reports_failures sp"
  shows "session_contract env sp (received_inv mid n) (received_error mid n) (no_release mid)"
proof (unfold_locales, goal_cases)
  case (12 m mid')
  show ?case
    by (auto simp: act_hoare_def received_error_def received_inv_def qos2_forwards_def
        split: prod.split sum.split dest: set_dup_ok)
next
  case (13 m)
  show ?case
    by (auto simp: act_hoare_def received_error_def received_inv_def qos2_forwards_def
        split: prod.split sum.split dest: insert_publish_ok)
next
  case (14 p)
  show ?case
    by (auto simp: act_hoare_def received_error_def received_inv_def qos2_forwards_def
        split: prod.split sum.split dest!: insert_pubrec_ok [OF _ assms])
next
  case (15 a)
  show ?case
    by (auto simp: act_hoare_def received_error_def received_inv_def qos2_forwards_def
        split: prod.split sum.split dest: remove_ok)
next
  case (16 c)
  show ?case
    by (auto simp: act_hoare_def received_error_def received_inv_def qos2_forwards_def
        split: prod.split sum.split dest: remove_ok)
next
  case (17 l)
  then have "pl_identifier l \<noteq> mid" by (simp add: no_release_def)
  then show ?case
    by (auto simp: act_hoare_def received_error_def incoming_remove_eq split: prod.split sum.split)
      (auto simp: received_inv_def qos2_forwards_def sess_ok_def)
next
  case (18 m)
  show ?case
    by (auto simp: act_hoare_def received_error_def split: prod.split sum.split dest: received_publish)
next
  case (19 nc)
  then show ?case by (simp add: no_release_def)
qed (auto simp: received_error_def received_inv_def qos2_forwards_def)

section \<open>A QoS message stays queued until it is acknowledged\<close>

text \<open>The message is in the queue, whatever its DUP flag.\<close>

definition queued :: "publish \<Rightarrow> ('p, 'w) mqtt_session \<Rightarrow> bool" where
  "queued m s \<longleftrightarrow> sess_ok s \<and> (\<exists>d. Publish (m\<lparr>pub_dup := d\<rparr>) \<in> set (ss_qos_outgoing_messages s))"

definition queued_error :: "publish \<Rightarrow> session_error failure \<Rightarrow> ('p, 'w) mqtt_session \<Rightarrow> bool" where
  "queued_error m e s \<longleftrightarrow> fatal e \<or> queued m s \<or> e = Failed Session_Router"

definition no_acknowledgement :: "u16 \<Rightarrow> session_message \<Rightarrow> bool" where
  "no_acknowledgement mid v =
     (case v of
        Client_Message (PubAck m) \<Rightarrow> pa_identifier m \<noteq> mid
      | Client_Message (PubRec m) \<Rightarrow> pr_identifier m \<noteq> mid
      | Client_Message (PubComp m) \<Rightarrow> pc_identifier m \<noteq> mid
      | New_Client nc \<Rightarrow> \<not> con_clean_session (nc_msg nc)
      | _ \<Rightarrow> True)"

lemma queued_updates [simp]:
  "queued m (s\<lparr>ss_persist := p\<rparr>) = queued m s"
  "queued m (s\<lparr>ss_world := w\<rparr>) = queued m s"
  "queued m (s\<lparr>ss_client := c\<rparr>) = queued m s"
  "queued m (s\<lparr>ss_client_log := l\<rparr>) = queued m s"
  "queued m (s\<lparr>ss_router_log := rl\<rparr>) = queued m s"
  "queued m (s\<lparr>ss_subscriptions := subs\<rparr>) = queued m s"
  "queued m (s\<lparr>ss_clean := b\<rparr>) = queued m s"
  "queued m (s\<lparr>ss_counter_publish_sent := k\<rparr>) = queued m s"
  "queued m (s\<lparr>ss_qos_incoming := q\<rparr>) = queued m s"
  by (simp_all add: queued_def)

lemma queued_mark:
  assumes "queued m s"
  shows "queued m (s\<lparr>ss_persist := p, ss_qos_outgoing_messages := map (mark_dup mid) (ss_qos_outgoing_messages s)\<rparr>)"
proof -
  from assms obtain d where d: "Publish (m\<lparr>pub_dup := d\<rparr>) \<in> set (ss_qos_outgoing_messages s)"
    by (auto simp: queued_def)
  have "\<exists>d'. mark_dup mid (Publish (m\<lparr>pub_dup := d\<rparr>)) = Publish (m\<lparr>pub_dup := d'\<rparr>)"
    by (cases "pub_identifier m = mid") auto
  with d have "\<exists>d'. Publish (m\<lparr>pub_dup := d'\<rparr>) \<in> mark_dup mid ` set (ss_qos_outgoing_messages s)"
    by (metis imageI)
  with assms show ?thesis by (simp add: queued_def sess_ok_def queue_ok_map)
qed

lemma queued_filter:
  assumes "queued m s" and "sess_ok s'" and "mid \<noteq> pub_identifier m"
    and "filter (\<lambda>x. \<not> has_outgoing_id mid x) (ss_qos_outgoing_messages s') =
         filter (\<lambda>x. \<not> has_outgoing_id mid x) (ss_qos_outgoing_messages s)"
  shows "queued m s'"
proof -
  from assms(1) obtain d where "Publish (m\<lparr>pub_dup := d\<rparr>) \<in> set (ss_qos_outgoing_messages s)"
    by (auto simp: queued_def)
  with assms(3) have "Publish (m\<lparr>pub_dup := d\<rparr>) \<in>
      set (filter (\<lambda>x. \<not> has_outgoing_id mid x) (ss_qos_outgoing_messages s))"
    by (simp add: has_outgoing_id_iff)
  with assms(2,4) show ?thesis unfolding queued_def by (metis filter_is_subset subsetD)
qed

lemma queued_remove:
  assumes "queued m s" and "qos_outgoing_remove sp mid s = (r, s')" and "mid \<noteq> pub_identifier m"
  shows "queued m s'"
proof -
  have ok: "sess_ok s" using assms(1) by (simp add: queued_def)
  show ?thesis
  proof (cases r)
    case (Inl e)
    with remove_ok [OF ok assms(2)] assms(1) show ?thesis by auto
  next
    case (Inr u)
    with remove_ok [OF ok assms(2)] show ?thesis
      by (intro queued_filter [OF assms(1) _ assms(3)]) simp_all
  qed
qed

lemma queued_set_dup:
  assumes s: "queued m s" and x: "Publish x \<in> set (ss_qos_outgoing_messages s)"
    and r: "qos_outgoing_set_dup sp (pub_identifier x) s = (r, s')"
  shows "queued m s'"
proof -
  from s have "sess_ok s" by (simp add: queued_def)
  from set_dup_ok [OF this x refl r] s show ?thesis by (auto intro: queued_mark)
qed

lemma queued_insert:
  assumes "queued m s" and r: "qos_outgoing_insert env sp (Publish x) s = (r, s')"
  shows "queued m s'" and "r = Inr mid \<Longrightarrow> Publish (x\<lparr>pub_identifier := mid\<rparr>) \<in> set (ss_qos_outgoing_messages s')"
proof -
  from assms(1) obtain d where "sess_ok s" and d: "Publish (m\<lparr>pub_dup := d\<rparr>) \<in> set (ss_qos_outgoing_messages s)"
    by (auto simp: queued_def)
  from insert_publish_ok [OF this(1) r] d show "queued m s'"
    by (auto simp: queued_def split: sum.splits intro!: exI [of _ d])
  from insert_publish_ok [OF \<open>sess_ok s\<close> r]
  show "r = Inr mid \<Longrightarrow> Publish (x\<lparr>pub_identifier := mid\<rparr>) \<in> set (ss_qos_outgoing_messages s')" by simp
qed

lemma queued_publish: "queued m s \<Longrightarrow> publish_message env sp x s = (r, s') \<Longrightarrow> queued m s'"
  using publish_ok [of env sp x s r s'] by (simp add: queued_def sess_ok_def)

lemma queued_pubrec:
  assumes s: "queued m s" and p: "pr_identifier p \<noteq> pub_identifier m" and "reports_failures sp"
    and r: "qos_outgoing_insert env sp (PubRec p) s = (r, s')"
  shows "case r of Inl e \<Rightarrow> queued_error m e s' | Inr _ \<Rightarrow> queued m s'"
proof -
  from s have "sess_ok s" by (simp add: queued_def)
  from insert_pubrec_ok [OF this assms(3) r] show ?thesis
    by (auto simp: queued_error_def split: sum.splits intro: queued_filter [OF s _ p])
qed

lemma queued_contract:
  assumes "reports_failures sp"
  shows "session_contract env sp (queued m) (queued_error m) (no_acknowledgement (pub_identifier m))"
proof (unfold_locales, goal_cases)
  case (12 x mid)
  show ?case
    by (auto simp: act_hoare_def queued_error_def split: prod.split sum.split dest: queued_set_dup)
next
  case (13 x)
  show ?case
    by (auto simp: act_hoare_def queued_error_def split: prod.split sum.split
        dest: queued_insert(1) queued_insert(2) [OF _ _ refl])
next
  case (14 p)
  then have p: "pr_identifier p \<noteq> pub_identifier m" by (simp add: no_acknowledgement_def)
  then show ?case
    by (auto simp: act_hoare_def split: prod.split dest: queued_pubrec [OF _ _ assms])
next
  case (15 a)
  then have "pa_identifier a \<noteq> pub_identifier m" by (simp add: no_acknowledgement_def)
  then show ?case
    by (auto simp: act_hoare_def queued_error_def split: prod.split sum.split dest: queued_remove)
next
  case (16 c)
  then have "pc_identifier c \<noteq> pub_identifier m" by (simp add: no_acknowledgement_def)
  then show ?case
    by (auto simp: act_hoare_def queued_error_def split: prod.split sum.split dest: queued_remove)
next
  case (17 l)
  show ?case
    by (auto simp: act_hoare_def queued_error_def incoming_remove_eq split: prod.split sum.split)
next
  case (18 x)
  show ?case
    by (auto simp: act_hoare_def queued_error_def split: prod.split sum.split dest: queued_publish)
next
  case (19 nc)
  then show ?case by (simp add: no_acknowledgement_def)
qed (auto simp: queued_error_def, auto simp: queued_def)

section \<open>What can stop a worker\<close>

text \<open>A storage none of whose operations fails.\<close>

definition storage_works :: "'p session_persist \<Rightarrow> bool" where
  "storage_works sp \<longleftrightarrow>
     (\<forall>i mid p. \<not> isl (fst (sp_persist_qos_outgoing_delete sp i mid p))) \<and>
     (\<forall>i mid m p. \<not> isl (fst (sp_persist_qos_outgoing_store sp i mid m p))) \<and>
     (\<forall>i mid d p. \<not> isl (fst (sp_persist_qos_outgoing_update_dup sp i mid d p))) \<and>
     (\<forall>i p. \<not> isl (fst (sp_persist_qos_outgoing_clear sp i p))) \<and>
     (\<forall>i mid p. \<not> isl (fst (sp_persist_update_session_mid sp i mid p))) \<and>
     (\<forall>i mid p. \<not> isl (fst (sp_persist_qos_incoming_store sp i mid p))) \<and>
     (\<forall>i mid p. \<not> isl (fst (sp_persist_qos_incoming_delete sp i mid p))) \<and>
     (\<forall>i p. \<not> isl (fst (sp_persist_qos_incoming_clear sp i p))) \<and>
     (\<forall>i g p. \<not> isl (fst (sp_persist_update_session_generation sp i g p)))"

lemma storage_worksD:
  assumes "storage_works sp"
  shows "sp_persist_qos_outgoing_delete sp i mid p \<noteq> (Inl e, p')"
    and "sp_persist_qos_outgoing_store sp i mid m p \<noteq> (Inl e, p')"
    and "sp_persist_qos_outgoing_update_dup sp i mid d p \<noteq> (Inl e, p')"
    and "sp_persist_qos_outgoing_clear sp i p \<noteq> (Inl e, p')"
    and "sp_persist_update_session_mid sp i mid p \<noteq> (Inl e, p')"
    and "sp_persist_qos_incoming_store sp i mid p \<noteq> (Inl e, p')"
    and "sp_persist_qos_incoming_delete sp i mid p \<noteq> (Inl e, p')"
    and "sp_persist_qos_incoming_clear sp i p \<noteq> (Inl e, p')"
    and "sp_persist_update_session_generation sp i g p \<noteq> (Inl e, p')"
  using assms unfolding storage_works_def by (metis fst_conv isl_def)+

lemma storage_works_reports: "storage_works sp \<Longrightarrow> reports_failures sp"
  by (simp add: reports_failures_def storage_worksD)

lemma persist_session_test_works: "storage_works persist_session_test"
  by (simp add: storage_works_def persist_session_test_def)

definition stop_error :: "bool \<Rightarrow> session_error failure \<Rightarrow> ('p, 'w) mqtt_session \<Rightarrow> bool" where
  "stop_error overflow e s \<longleftrightarrow>
     (e = Failed Session_Client \<and> sess_ok s) \<or> e = Failed Session_Router \<or>
     e = Failed (Session_Persist ''QoS outgoing mid duplicate found'') \<or> (e = Panicked \<and> overflow)"

lemma working_insert_pubrec:
  assumes "storage_works sp" and "sess_ok s" and "qos_outgoing_insert env sp (PubRec p) s = (r, s')"
  shows "\<not> isl r \<and> sess_ok s'"
proof (cases "pr_identifier p \<in> ss_qos_outgoing s")
  case True
  from registered_element [OF assms(2) True] obtain x
    where x: "x \<in> set (ss_qos_outgoing_messages s)" "outgoing_id x = Some (pr_identifier p)" .
  have "\<not> isl r"
    using x(2)
  proof (cases rule: outgoing_id_SomeE)
    case (1 m)
    with assms x insert_pubrec_publish [OF assms(2), of m p env sp] show ?thesis
      by (auto simp: Let_def storage_worksD split: prod.splits sum.splits)
  next
    case (2 p')
    with assms x insert_pubrec_again [OF assms(2), of p' p env sp] show ?thesis by auto
  qed
  with insert_pubrec_ok [OF assms(2) storage_works_reports [OF assms(1)] assms(3)] show ?thesis
    by (auto split: sum.splits)
next
  case False
  with assms insert_pubrec_new [OF False, of env sp] have "\<not> isl r"
    by (auto simp: storage_worksD split: prod.splits sum.splits)
  with insert_pubrec_ok [OF assms(2) storage_works_reports [OF assms(1)] assms(3)] show ?thesis
    by (auto split: sum.splits)
qed

lemma working_clean:
  assumes "storage_works sp"
  shows "act_hoare sess_ok (clean_session env sp) (\<lambda>_. sess_ok) (\<lambda>e s. e = Failed Session_Router \<and> sess_ok s)"
proof -
  have "act_hoare (\<lambda>_. True) (clean_session env sp) (\<lambda>_ _. True) (\<lambda>e _. e = Failed Session_Router)"
  proof -
    have send: "act_hoare (\<lambda>_. True) (unsubscribe_all env) (\<lambda>_ _. True) (\<lambda>e _. e = Failed Session_Router)"
      unfolding unsubscribe_all_def session_unsubscribe_def Let_def
      by (intro act_hoare_bind [where R = "\<lambda>_ _. True"] act_hoare_get act_hoare_for act_hoare_modify)
        (auto simp: act_hoare_def send_router_cases split: prod.split bool.split)
    have p: "(\<And>s. \<not> isl (fst (call s (ss_persist s)))) \<Longrightarrow>
        act_hoare (\<lambda>_. True) (with_session_persist call) (\<lambda>_ _. True) (\<lambda>e _. e = Failed Session_Router)"
      for call :: "('a, 'w) mqtt_session \<Rightarrow> ('a, 'x) session_call"
      by (auto simp: act_hoare_def with_session_persist_def split: prod.split sum.split) (metis fst_conv isl_def)
    show ?thesis
      unfolding clean_session_def
      by (intro act_hoare_bind [where R = "\<lambda>_ _. True"] p send act_hoare_modify act_hoare_return)
        (use assms in \<open>auto simp: storage_works_def\<close>)
  qed
  from act_hoare_conj [OF clean_session_ok this] show ?thesis
    by (rule act_hoare_weaken) auto
qed

lemma stop_contract:
  assumes "storage_works sp"
  shows "session_contract env sp sess_ok (stop_error (se_overflow_checks env)) (\<lambda>_. True)"
proof (unfold_locales, goal_cases)
  case (12 m mid)
  show ?case
    by (auto simp: act_hoare_def set_dup_eq storage_worksD [OF assms] sess_ok_def queue_ok_map
        split: prod.splits sum.splits if_splits)
next
  case (13 m)
  have "stop_error (se_overflow_checks env) e s'" if "qos_outgoing_insert env sp (Publish m) s = (Inl e, s')" for e and s s'
    using that by (auto simp: insert_publish_eq next_mid_eq storage_worksD [OF assms] stop_error_def
        split: if_splits prod.splits sum.splits)
  then show ?case
    by (auto simp: act_hoare_def split: prod.split sum.split dest: insert_publish_ok)
next
  case (14 p)
  show ?case
    by (auto simp: act_hoare_def split: prod.split sum.split dest: working_insert_pubrec [OF assms])
next
  case (15 a)
  show ?case
    by (auto simp: act_hoare_def outgoing_remove_eq storage_worksD [OF assms] sess_ok_def queue_ok_filter
        split: prod.split sum.split)
next
  case (16 c)
  show ?case
    by (auto simp: act_hoare_def outgoing_remove_eq storage_worksD [OF assms] sess_ok_def queue_ok_filter
        split: prod.split sum.split)
next
  case (17 l)
  show ?case
    by (auto simp: act_hoare_def incoming_remove_eq storage_worksD [OF assms] split: prod.split sum.split)
next
  case (18 m)
  have "stop_error (se_overflow_checks env) e s'" if "publish_message env sp m s = (Inl e, s')" "sess_ok s" for e and s s'
    using that unfolding publish_message_def Let_def
    by (auto simp: qos_incoming_received_def send_client_cases act_bind_app [of "send_message_router _ _"]
      send_router_cases send_or_log_cases act_bind_app [of "qos_incoming_store _ _"] incoming_store_eq
      storage_worksD [OF assms] stop_error_def sess_ok_def
      split: option.splits prod.splits sum.splits if_splits bool.splits)
  then show ?case
    by (auto simp: act_hoare_def sess_ok_def split: prod.split sum.split dest: publish_ok)
next
  case (19 nc)
  show ?case
    by (rule act_hoare_weaken [OF working_clean [OF assms]]) (auto simp: stop_error_def)
qed (auto simp: stop_error_def)

section \<open>The contract on the storage that keeps nothing\<close>

interpretation test_queue: session_contract env persist_session_test sess_ok queue_error "\<lambda>_. True" for env
  by (rule queue_contract [OF storage_works_reports [OF persist_session_test_works]])

interpretation test_received: session_contract env persist_session_test "received_inv mid n" "received_error mid n" "no_release mid"
  for env mid n
  by (rule received_contract [OF storage_works_reports [OF persist_session_test_works]])

interpretation test_queued: session_contract env persist_session_test "queued m" "queued_error m" "no_acknowledgement (pub_identifier m)"
  for env m
  by (rule queued_contract [OF storage_works_reports [OF persist_session_test_works]])

interpretation test_stop: session_contract env persist_session_test sess_ok "stop_error (se_overflow_checks env)" "\<lambda>_. True" for env
  by (rule stop_contract [OF persist_session_test_works])

end
