(* ===== verification/Sess_Redelivery.thy ===== *)
theory Sess_Redelivery
  imports Sess_Inv
begin

text \<open>
  How a session worker starts from its storage, and what a client that connects is sent of
  the queue.
\<close>

section \<open>Starting\<close>

lemma load_one:
  "load_qos_message m s =
     (case outgoing_id m of
        Some mid \<Rightarrow> (Inr (), s\<lparr>ss_qos_outgoing := insert mid (ss_qos_outgoing s)\<rparr>)
      | None \<Rightarrow> (Inl (Failed (Session_Persist ''Error loading persistent state - unkown qos message'')), s))"
  by (cases m) (simp_all add: load_qos_message_def outgoing_id_def)

lemma load_messages:
  "act_for ms load_qos_message s = (Inr (), s') \<Longrightarrow>
   None \<notin> outgoing_id ` set ms \<and>
   s' = s\<lparr>ss_qos_outgoing := {mid. Some mid \<in> outgoing_id ` set ms} \<union> ss_qos_outgoing s\<rparr>"
proof (induction ms arbitrary: s)
  case (Cons m ms)
  then obtain mid where mid: "outgoing_id m = Some mid"
    by (cases "outgoing_id m") (auto simp: act_bind_app load_one)
  then have "load_qos_message m s = (Inr (), s\<lparr>ss_qos_outgoing := insert mid (ss_qos_outgoing s)\<rparr>)"
    by (simp add: load_one)
  with Cons.prems have "act_for ms load_qos_message (s\<lparr>ss_qos_outgoing := insert mid (ss_qos_outgoing s)\<rparr>) = (Inr (), s')"
    by (simp add: act_bind_app)
  from Cons.IH [OF this] mid show ?case by (auto simp: insert_commute Collect_disj_eq)
qed simp

lemma bind_subscriptions:
  "act_bind (act_for topics (\<lambda>topic. act_modify (\<lambda>self. self\<lparr>ss_subscriptions := hm_insert topic True (ss_subscriptions self)\<rparr>))) g s =
     g () (s\<lparr>ss_subscriptions := fold (\<lambda>topic. hm_insert topic True) topics (ss_subscriptions s)\<rparr>)"
  by (induction topics arbitrary: s) (simp_all add: act_bind_app)

text \<open>A started session has the queue of the storage, in order when the stored ids are distinct.\<close>

lemma started_ok:
  assumes "act_for ms load_qos_message s = (Inr (), s')" and "ss_qos_outgoing s = {}"
    and "distinct (map outgoing_id ms)"
  shows "sess_ok (s'\<lparr>ss_qos_outgoing_messages := ms\<rparr>)"
proof -
  have "outgoing_id ` set ms = Some ` {mid. Some mid \<in> outgoing_id ` set ms}"
    using load_messages [OF assms(1)] by (auto simp: image_iff) (metis not_None_eq)
  with load_messages [OF assms(1)] assms(2,3) show ?thesis
    by (simp add: sess_ok_def queue_ok_def)
qed

lemma sess_ok_empty: "ss_qos_outgoing s = {} \<Longrightarrow> ss_qos_outgoing_messages s = [] \<Longrightarrow> sess_ok s"
  by (simp add: sess_ok_def)

lemma start_ok:
  assumes "session_start sp (mqtt_session_new name p w) = (Inr (), s)"
    and "distinct (map outgoing_id (ss_qos_outgoing_messages s))"
  shows "sess_ok s"
  using assms unfolding session_start_def init_persist_session_def
  by (auto simp: act_bind_persist bind_subscriptions mqtt_session_new_def act_bind_app [of "act_for _ load_qos_message"]
      simp del: act_for.simps split: prod.splits sum.splits if_splits intro!: started_ok intro: sess_ok_empty)

section \<open>Redelivery\<close>

text \<open>What a new client gets of a queued message, and what becomes of it in the queue.\<close>

fun redelivery :: "mqtt_message \<Rightarrow> mqtt_message" where
  "redelivery (PubRec m) = PubRel \<lparr>pl_identifier = pr_identifier m\<rparr>"
| "redelivery x = x"

fun resent :: "mqtt_message \<Rightarrow> mqtt_message" where
  "resent (Publish m) = (if pub_qos m = 1 \<or> pub_qos m = 2 then Publish (m\<lparr>pub_dup := True\<rparr>) else Publish m)"
| "resent x = x"

lemma outgoing_id_resent [simp]: "outgoing_id (resent x) = outgoing_id x"
  by (cases x) (auto simp: outgoing_id_def)

lemma queue_ok_cong: "map outgoing_id ms' = map outgoing_id ms \<Longrightarrow> queue_ok ids ms' = queue_ok ids ms"
  unfolding queue_ok_def by (metis list.set_map)

definition client_alive :: "'w session_env \<Rightarrow> client_tx \<Rightarrow> bool" where
  "client_alive env tx \<longleftrightarrow> (\<forall>m w. fst (se_client_send env tx m w))"

lemma send_alive:
  assumes "client_alive env tx" and "ss_client s = Some tx"
  shows "\<exists>w. send_client_message env m s = (Inr (), s\<lparr>ss_world := w, ss_client_log := ss_client_log s @ [(tx, m)]\<rparr>)"
proof -
  obtain ok w where w: "se_client_send env tx m (ss_world s) = (ok, w)" by force
  with assms(1) have ok by (metis client_alive_def fst_conv)
  with w assms(2) show ?thesis by (auto simp: send_client_cases)
qed

lemma queue_only_at:
  assumes "queue_ok ids ms" and "i < length ms" and "outgoing_id (ms ! i) = Some mid"
  shows "only_at (has_outgoing_id mid) ms i"
proof -
  have d: "distinct (map outgoing_id ms)" using assms(1) by (simp add: queue_ok_def)
  have "j = i" if "j < length ms" "outgoing_id (ms ! j) = Some mid" for j
    using nth_eq_iff_index_eq [OF d, of j i] that assms(2,3) by simp
  then show ?thesis by (auto simp: only_at_def has_outgoing_id_iff)
qed

lemma redeliver_one:
  assumes works: "storage_works sp" and alive: "client_alive env tx" and c: "ss_client s = Some tx" and ok: "sess_ok s"
    and i: "i < length (ss_qos_outgoing_messages s)"
  defines "x \<equiv> ss_qos_outgoing_messages s ! i"
  shows "\<exists>w p. send_queued_message env sp i s =
    (Inr (), s\<lparr>ss_world := w, ss_persist := p, ss_client_log := ss_client_log s @ [(tx, redelivery x)],
       ss_qos_outgoing_messages := (ss_qos_outgoing_messages s)[i := resent x]\<rparr>)"
proof -
  let ?ms = "ss_qos_outgoing_messages s"
  have x: "x \<in> set ?ms" and get: "vec_get i ?ms = Some x" and upd: "?ms[i := x] = ?ms"
    using i by (simp_all add: x_def vec_get_def)
  from ok x have "outgoing_id x \<in> Some ` ss_qos_outgoing s" by (auto simp: sess_ok_def queue_ok_def)
  then consider (Publish) m where "x = Publish m" | (PubRec) r where "x = PubRec r"
    by (cases x) (auto simp: outgoing_id_def)
  then show ?thesis
  proof cases
    case (Publish m)
    let ?again = "(pub_qos m = 1 \<or> pub_qos m = 2) \<and> \<not> pub_dup m"
    obtain w where w: "send_client_message env (Publish m) s =
        (Inr (), s\<lparr>ss_world := w, ss_client_log := ss_client_log s @ [(tx, Publish m)]\<rparr>)" (is "_ = (_, ?t)")
      using send_alive [OF alive c] by blast
    show ?thesis
    proof (cases ?again)
      case True
      have only: "only_at (has_outgoing_id (pub_identifier m)) ?ms i"
        using ok i Publish by (intro queue_only_at [of "ss_qos_outgoing s"]) (simp_all add: sess_ok_def x_def)
      have mark: "map (mark_dup (pub_identifier m)) ?ms = ?ms[i := resent x]"
        using mark_dup_map [where m = m, OF i _ refl only] Publish True by (simp add: x_def [symmetric])
      obtain r p where p: "sp_persist_qos_outgoing_update_dup sp (ss_internal_id s) (pub_identifier m) True (ss_persist s) = (r, p)"
        by force
      with storage_worksD(3) [OF works] obtain a where r: "r = Inr a" by (cases r) auto
      have "qos_outgoing_set_dup sp (pub_identifier m) ?t =
          (Inr (pub_identifier m), ?t\<lparr>ss_persist := p, ss_qos_outgoing_messages := ?ms[i := resent x]\<rparr>)"
        using set_dup_eq [of ?t m "pub_identifier m" sp] ok x Publish True by (simp add: p r mark)
      then have "send_queued_message env sp i s =
          (Inr (), ?t\<lparr>ss_persist := p, ss_qos_outgoing_messages := ?ms[i := resent x]\<rparr>)"
        using True by (auto simp: send_queued_message_def get Publish act_bind_app [of "send_client_message _ _"] w
            act_bind_app [of "qos_outgoing_set_dup _ _"])
      then show ?thesis using Publish by (intro exI [of _ w] exI [of _ p]) simp
    next
      case False
      then have "resent x = x" by (cases "pub_dup m") (auto simp: Publish)
      moreover have "send_queued_message env sp i s = (Inr (), ?t)"
        using False by (auto simp: send_queued_message_def get Publish act_bind_app [of "send_client_message _ _"] w)
      ultimately show ?thesis using Publish upd by (intro exI [of _ w] exI [of _ "ss_persist s"]) simp
    qed
  next
    case (PubRec r)
    let ?m = "PubRel \<lparr>pl_identifier = pr_identifier r\<rparr>"
    obtain w where w: "send_client_message env ?m s =
        (Inr (), s\<lparr>ss_world := w, ss_client_log := ss_client_log s @ [(tx, ?m)]\<rparr>)" (is "_ = (_, ?t)")
      using send_alive [OF alive c] by blast
    then have "send_queued_message env sp i s = (Inr (), ?t)"
      by (simp add: send_queued_message_def get PubRec pubrel_new_def)
    then show ?thesis using PubRec upd by (intro exI [of _ w] exI [of _ "ss_persist s"]) simp
  qed
qed

text \<open>The rest of the queue, from position \<open>k\<close>.\<close>

lemma redeliver_rest:
  assumes works: "storage_works sp" and alive: "client_alive env tx"
    and "ss_client s = Some tx" and "sess_ok s"
    and "ss_qos_outgoing_messages s = ds @ ms"
  shows "\<exists>w p. act_for [length ds..<length ds + length ms] (send_queued_message env sp) s =
    (Inr (), s\<lparr>ss_world := w, ss_persist := p,
       ss_client_log := ss_client_log s @ map (\<lambda>x. (tx, redelivery x)) ms,
       ss_qos_outgoing_messages := ds @ map resent ms\<rparr>)"
  using assms(3-5)
proof (induction ms arbitrary: ds s)
  case Nil
  then show ?case by (intro exI [of _ "ss_world s"] exI [of _ "ss_persist s"]) simp
next
  case (Cons x ms)
  let ?i = "length ds"
  have i: "?i < length (ss_qos_outgoing_messages s)" and nth: "ss_qos_outgoing_messages s ! ?i = x"
    using Cons.prems(3) by simp_all
  from redeliver_one [OF works alive Cons.prems(1,2) i] obtain w p where one:
    "send_queued_message env sp ?i s = (Inr (), s\<lparr>ss_world := w, ss_persist := p,
       ss_client_log := ss_client_log s @ [(tx, redelivery x)], ss_qos_outgoing_messages := (ds @ [resent x]) @ ms\<rparr>)"
    (is "_ = (_, ?t)") using Cons.prems(3) unfolding nth by (auto simp: list_update_append)
  have "sess_ok ?t"
    using Cons.prems(2,3) queue_ok_cong [of "(ds @ [resent x]) @ ms" "ds @ x # ms"] by (simp add: sess_ok_def)
  from Cons.IH [of ?t "ds @ [resent x]", OF _ this] Cons.prems(1) obtain w' p' where
    "act_for [length (ds @ [resent x])..<length (ds @ [resent x]) + length ms] (send_queued_message env sp) ?t =
      (Inr (), ?t\<lparr>ss_world := w', ss_persist := p',
       ss_client_log := ss_client_log ?t @ map (\<lambda>x. (tx, redelivery x)) ms,
       ss_qos_outgoing_messages := (ds @ [resent x]) @ map resent ms\<rparr>)" by auto
  moreover have "[?i..<?i + length (x # ms)] = ?i # [length (ds @ [resent x])..<length (ds @ [resent x]) + length ms]"
    by (subst upt_conv_Cons) simp_all
  ultimately show ?case by (intro exI [of _ w'] exI [of _ p']) (simp add: act_bind_app one)
qed

lemma send_queued_eq:
  assumes "storage_works sp" and "client_alive env tx" and "ss_client s = Some tx" and "sess_ok s"
  shows "\<exists>w p. send_queued_messages env sp s =
    (Inr (), s\<lparr>ss_world := w, ss_persist := p,
       ss_client_log := ss_client_log s @ map (\<lambda>x. (tx, redelivery x)) (ss_qos_outgoing_messages s),
       ss_qos_outgoing_messages := map resent (ss_qos_outgoing_messages s)\<rparr>)"
  using redeliver_rest [OF assms, of "[]" "ss_qos_outgoing_messages s"] by (simp add: send_queued_messages_def)

end
