(* ===== verification/Sess_Storage.thy ===== *)
theory Sess_Storage
  imports Sess_Redelivery
begin

text \<open>
  What a session's storage promises, as a locale: a view of what it holds of a session, and
  what each call does to it. In it, once, that the worker and its storage stay in step, and
  that a worker started again over the storage continues where the last one was.
\<close>

section \<open>The view of a session\<close>

record session_view =
  sv_name :: rstring
  sv_generation :: int
  sv_next_mid :: u16
  sv_received :: "u16 set"
  sv_queue :: "mqtt_message list"

text \<open>What a storage keeps of a queued message.\<close>

fun stored_form :: "mqtt_message \<Rightarrow> mqtt_message" where
  "stored_form (Publish m) = Publish (publish_new\<lparr>pub_topic := pub_topic m, pub_qos := pub_qos m,
     pub_message := pub_message m, pub_identifier := pub_identifier m, pub_dup := pub_dup m\<rparr>)"
| "stored_form x = x"

lemma outgoing_id_stored_form [simp]: "outgoing_id (stored_form m) = outgoing_id m"
  by (cases m) (simp_all add: outgoing_id_def)

lemma stored_form_mark_dup [simp]: "stored_form (mark_dup mid x) = mark_dup mid (stored_form x)"
  by (cases x) simp_all

lemma stored_form_idem [simp]: "stored_form (stored_form x) = stored_form x"
  by (cases x) simp_all

lemma has_outgoing_id_stored_form [simp]: "has_outgoing_id mid (stored_form x) = has_outgoing_id mid x"
  by (simp add: has_outgoing_id_iff)

definition session_view_of :: "('p, 'w) mqtt_session \<Rightarrow> session_view" where
  "session_view_of s = \<lparr>sv_name = ss_id s, sv_generation = ss_generation s, sv_next_mid = ss_next_message_id s,
     sv_received = ss_qos_incoming s, sv_queue = map stored_form (ss_qos_outgoing_messages s)\<rparr>"

text \<open>A call fails with an error of the storage, or shows \<open>v\<close> afterwards; or it shows \<open>v\<close> for certain.\<close>

definition shows_or_fails :: "('p \<Rightarrow> bool) \<Rightarrow> ('p \<Rightarrow> int \<Rightarrow> session_view option) \<Rightarrow> int \<Rightarrow> session_view \<Rightarrow> (session_error + 'a) \<times> 'p \<Rightarrow> bool" where
  "shows_or_fails ok view S v c \<longleftrightarrow>
     (case c of (Inl e, _) \<Rightarrow> \<exists>m. e = Session_Persist m | (Inr _, p) \<Rightarrow> ok p \<and> view p S = Some v)"

definition shows_now :: "('p \<Rightarrow> bool) \<Rightarrow> ('p \<Rightarrow> int \<Rightarrow> session_view option) \<Rightarrow> int \<Rightarrow> session_view \<Rightarrow> 'a \<Rightarrow> (session_error + 'a) \<times> 'p \<Rightarrow> bool" where
  "shows_now ok view S v a c \<longleftrightarrow> (\<exists>p. c = (Inr a, p) \<and> ok p \<and> view p S = Some v)"

locale session_storage =
  fixes sp :: "'p session_persist" and ok :: "'p \<Rightarrow> bool" and view :: "'p \<Rightarrow> int \<Rightarrow> session_view option"
  assumes connection: "ok p \<Longrightarrow> \<exists>a p'. sp_create_persistent_connection sp p = (Inr a, p') \<and> ok p' \<and> view p' = view p"
    and open_known: "ok p \<Longrightarrow> view p S = Some v \<Longrightarrow>
        shows_now ok view S v (S, sv_generation v, False, sv_next_mid v) (sp_persist_session sp (sv_name v) p)"
    and open_new: "ok p \<Longrightarrow> sp_persist_session sp name p = (Inr (S, g, True, mid), p') \<Longrightarrow>
        ok p' \<and> view p' S = Some \<lparr>sv_name = name, sv_generation = g, sv_next_mid = mid, sv_received = {}, sv_queue = []\<rparr>"
    and load_subscriptions: "ok p \<Longrightarrow> \<exists>a p'. sp_load_persistent_subscriptions sp S p = (Inr a, p') \<and> ok p' \<and> view p' = view p"
    and load_received: "ok p \<Longrightarrow> view p S = Some v \<Longrightarrow>
        shows_now ok view S v (sv_received v) (sp_persist_qos_incoming_load sp S p)"
    and load_queue: "ok p \<Longrightarrow> view p S = Some v \<Longrightarrow> shows_now ok view S v (sv_queue v) (sp_persistent_qosout_load sp S p)"
    and update_generation: "ok p \<Longrightarrow> view p S = Some v \<Longrightarrow>
        shows_now ok view S (v\<lparr>sv_generation := g, sv_next_mid := 1\<rparr>) S (sp_persist_update_session_generation sp S g p)"
    and update_mid: "ok p \<Longrightarrow> view p S = Some v \<Longrightarrow>
        shows_or_fails ok view S (v\<lparr>sv_next_mid := mid\<rparr>) (sp_persist_update_session_mid sp S mid p)"
    and store_received: "ok p \<Longrightarrow> view p S = Some v \<Longrightarrow>
        shows_or_fails ok view S (v\<lparr>sv_received := insert mid (sv_received v)\<rparr>) (sp_persist_qos_incoming_store sp S mid p)"
    and delete_received: "ok p \<Longrightarrow> view p S = Some v \<Longrightarrow>
        shows_or_fails ok view S (v\<lparr>sv_received := sv_received v - {mid}\<rparr>) (sp_persist_qos_incoming_delete sp S mid p)"
    and clear_received: "ok p \<Longrightarrow> view p S = Some v \<Longrightarrow>
        shows_now ok view S (v\<lparr>sv_received := {}\<rparr>) S (sp_persist_qos_incoming_clear sp S p)"
    and store_message: "ok p \<Longrightarrow> view p S = Some v \<Longrightarrow> outgoing_id m = Some mid \<Longrightarrow> (\<forall>x. m = Publish x \<longrightarrow> \<not> pub_dup x) \<Longrightarrow>
        shows_or_fails ok view S (v\<lparr>sv_queue := sv_queue v @ [stored_form m]\<rparr>) (sp_persist_qos_outgoing_store sp S mid m p)"
    and delete_message: "ok p \<Longrightarrow> view p S = Some v \<Longrightarrow> distinct (map outgoing_id (sv_queue v)) \<Longrightarrow>
        Some mid \<in> outgoing_id ` set (sv_queue v) \<Longrightarrow>
        shows_or_fails ok view S (v\<lparr>sv_queue := filter (\<lambda>x. \<not> has_outgoing_id mid x) (sv_queue v)\<rparr>)
          (sp_persist_qos_outgoing_delete sp S mid p)"
    and update_dup: "ok p \<Longrightarrow> view p S = Some v \<Longrightarrow>
        shows_or_fails ok view S (v\<lparr>sv_queue := map (mark_dup mid) (sv_queue v)\<rparr>) (sp_persist_qos_outgoing_update_dup sp S mid True p)"
    and clear_queue: "ok p \<Longrightarrow> view p S = Some v \<Longrightarrow>
        shows_now ok view S (v\<lparr>sv_queue := []\<rparr>) 0 (sp_persist_qos_outgoing_clear sp S p)"

text \<open>Worker and storage in step.\<close>

definition in_step :: "('p \<Rightarrow> bool) \<Rightarrow> ('p \<Rightarrow> int \<Rightarrow> session_view option) \<Rightarrow> ('p, 'w) mqtt_session \<Rightarrow> bool" where
  "in_step ok view s \<longleftrightarrow> sess_ok s \<and> ok (ss_persist s) \<and> view (ss_persist s) (ss_internal_id s) = Some (session_view_of s)"

definition step_error :: "('p \<Rightarrow> bool) \<Rightarrow> ('p \<Rightarrow> int \<Rightarrow> session_view option) \<Rightarrow> session_error failure \<Rightarrow> ('p, 'w) mqtt_session \<Rightarrow> bool" where
  "step_error ok view e s \<longleftrightarrow> (\<forall>m. e \<noteq> Failed (Session_Persist m)) \<longrightarrow> in_step ok view s"

lemma step_error_simps [simp]:
  "step_error ok view (Failed Session_Client) s = in_step ok view s"
  "step_error ok view (Failed Session_Router) s = in_step ok view s"
  "step_error ok view (Failed (Session_Persist m)) s"
  "step_error ok view Panicked s = in_step ok view s"
  by (simp_all add: step_error_def)

lemma session_view_of_updates [simp]:
  "session_view_of (s\<lparr>ss_persist := p\<rparr>) = session_view_of s"
  "session_view_of (s\<lparr>ss_world := w\<rparr>) = session_view_of s"
  "session_view_of (s\<lparr>ss_client := c\<rparr>) = session_view_of s"
  "session_view_of (s\<lparr>ss_client_log := l\<rparr>) = session_view_of s"
  "session_view_of (s\<lparr>ss_router_log := rl\<rparr>) = session_view_of s"
  "session_view_of (s\<lparr>ss_subscriptions := subs\<rparr>) = session_view_of s"
  "session_view_of (s\<lparr>ss_clean := b\<rparr>) = session_view_of s"
  "session_view_of (s\<lparr>ss_counter_publish_sent := n\<rparr>) = session_view_of s"
  "session_view_of (s\<lparr>ss_counter_publish_received := n\<rparr>) = session_view_of s"
  "session_view_of (s\<lparr>ss_qos_outgoing := ids\<rparr>) = session_view_of s"
  "session_view_of (s\<lparr>ss_qos_incoming := q\<rparr>) = (session_view_of s)\<lparr>sv_received := q\<rparr>"
  "session_view_of (s\<lparr>ss_next_message_id := i\<rparr>) = (session_view_of s)\<lparr>sv_next_mid := i\<rparr>"
  "session_view_of (s\<lparr>ss_generation := g\<rparr>) = (session_view_of s)\<lparr>sv_generation := g\<rparr>"
  "session_view_of (s\<lparr>ss_qos_outgoing_messages := ms\<rparr>) = (session_view_of s)\<lparr>sv_queue := map stored_form ms\<rparr>"
  by (simp_all add: session_view_of_def)

lemma in_step_updates [simp]:
  "in_step ok view (s\<lparr>ss_world := w\<rparr>) = in_step ok view s"
  "in_step ok view (s\<lparr>ss_client := c\<rparr>) = in_step ok view s"
  "in_step ok view (s\<lparr>ss_client_log := l\<rparr>) = in_step ok view s"
  "in_step ok view (s\<lparr>ss_router_log := rl\<rparr>) = in_step ok view s"
  "in_step ok view (s\<lparr>ss_subscriptions := subs\<rparr>) = in_step ok view s"
  "in_step ok view (s\<lparr>ss_clean := b\<rparr>) = in_step ok view s"
  "in_step ok view (s\<lparr>ss_counter_publish_sent := n\<rparr>) = in_step ok view s"
  "in_step ok view (s\<lparr>ss_counter_publish_received := n\<rparr>) = in_step ok view s"
  by (simp_all add: in_step_def)

lemma shows_or_failsE:
  assumes "shows_or_fails ok view S v c"
  obtains (failed) m p where "c = (Inl (Session_Persist m), p)"
    | (shown) a p where "c = (Inr a, p)" and "ok p" and "view p S = Some v"
  using assms by (cases c) (auto simp: shows_or_fails_def split: sum.splits)

lemma shows_nowE:
  assumes "shows_now ok view S v a c"
  obtains p where "c = (Inr a, p)" and "ok p" and "view p S = Some v"
  using assms by (auto simp: shows_now_def)

lemma in_stepD:
  assumes "in_step ok view s"
  shows "sess_ok s" and "ok (ss_persist s)" and "view (ss_persist s) (ss_internal_id s) = Some (session_view_of s)"
  using assms by (simp_all add: in_step_def)

lemma session_view_sel [simp]:
  "sv_queue (session_view_of s) = map stored_form (ss_qos_outgoing_messages s)"
  "sv_received (session_view_of s) = ss_qos_incoming s"
  "sv_next_mid (session_view_of s) = ss_next_message_id s"
  "sv_generation (session_view_of s) = ss_generation s"
  "sv_name (session_view_of s) = ss_id s"
  by (simp_all add: session_view_of_def)

lemma filter_stored_form: "filter (\<lambda>x. \<not> has_outgoing_id mid x) (map stored_form ms) = map stored_form (filter (\<lambda>x. \<not> has_outgoing_id mid x) ms)"
  by (simp add: filter_map o_def)

lemma stored_queue_distinct:
  assumes "sess_ok s"
  shows "distinct (map outgoing_id (map stored_form (ss_qos_outgoing_messages s)))"
  using assms by (simp add: sess_ok_def queue_ok_def o_def)

lemma stored_queue_ids:
  assumes "sess_ok s" and "mid \<in> ss_qos_outgoing s"
  shows "Some mid \<in> outgoing_id ` set (map stored_form (ss_qos_outgoing_messages s))"
  using assms by (simp add: sess_ok_def queue_ok_def image_image)

context session_storage
begin

lemma step_set_dup:
  assumes "in_step ok view s" and "Publish m \<in> set (ss_qos_outgoing_messages s)" and "pub_identifier m = mid"
    and "qos_outgoing_set_dup sp mid s = (r, s')"
  shows "case r of Inl e \<Rightarrow> step_error ok view e s' | Inr _ \<Rightarrow> in_step ok view s'"
proof (cases "pub_dup m")
  case True
  with assms(4) in_stepD(1) [OF assms(1)] assms(1) show ?thesis by (auto simp: set_dup_eq [OF _ assms(2,3)])
next
  case False
  from update_dup [OF in_stepD(2,3) [OF assms(1)], of mid] show ?thesis
  proof (cases rule: shows_or_failsE)
    case (failed e p)
    then show ?thesis using assms(4) in_stepD(1) [OF assms(1)] False by (auto simp: set_dup_eq [OF _ assms(2,3)])
  next
    case (shown a p)
    then show ?thesis using assms(4) in_stepD(1) [OF assms(1)] False
      by (auto simp: set_dup_eq [OF _ assms(2,3)] in_step_def o_def sess_ok_def queue_ok_map)
  qed
qed

lemma step_insert_publish:
  assumes "in_step ok view s" and "\<not> pub_dup m" and "qos_outgoing_insert env sp (Publish m) s = (r, s')"
  shows "case r of Inl e \<Rightarrow> step_error ok view e s' |
    Inr mid \<Rightarrow> in_step ok view s' \<and> Publish (m\<lparr>pub_identifier := mid\<rparr>) \<in> set (ss_qos_outgoing_messages s')"
proof (cases "se_overflow_checks env \<and> ss_next_message_id s = - 1")
  case True
  then show ?thesis using assms(1,3) by (auto simp: insert_publish_eq next_mid_eq)
next
  case False
  let ?mid = "ss_next_message_id s"
  from update_mid [OF in_stepD(2,3) [OF assms(1)], of "?mid + 1"] show ?thesis
  proof (cases rule: shows_or_failsE)
    case (failed e p)
    then show ?thesis using assms(3) False by (auto simp: insert_publish_eq next_mid_eq)
  next
    case (shown a p)
    show ?thesis
    proof (cases "?mid \<in> ss_qos_outgoing s")
      case True
      then show ?thesis using assms(3) False shown by (auto simp: insert_publish_eq next_mid_eq)
    next
      case new: False
      let ?m = "Publish (m\<lparr>pub_identifier := ?mid\<rparr>)"
      have "outgoing_id ?m = Some ?mid" "\<forall>x. ?m = Publish x \<longrightarrow> \<not> pub_dup x" using assms(2) by simp_all
      from store_message [OF shown(2,3) this] show ?thesis
      proof (cases rule: shows_or_failsE)
        case (failed e p)
        then show ?thesis using assms(3) False shown new by (auto simp: insert_publish_eq next_mid_eq)
      next
        case stored: (shown a' p')
        have "queue_ok (insert ?mid (ss_qos_outgoing s)) (ss_qos_outgoing_messages s @ [?m])"
          using in_stepD(1) [OF assms(1)] new by (intro queue_ok_push) (simp_all add: sess_ok_def)
        then show ?thesis using assms(3) False shown new stored
          by (auto simp: insert_publish_eq next_mid_eq in_step_def sess_ok_def session_view_of_def mid_taken_def)
      qed
    qed
  qed
qed

lemma store_pubrec:
  "ok p \<Longrightarrow> view p S = Some v \<Longrightarrow>
   shows_or_fails ok view S (v\<lparr>sv_queue := sv_queue v @ [PubRec q]\<rparr>) (sp_persist_qos_outgoing_store sp S (pr_identifier q) (PubRec q) p)"
  using store_message [of p S v "PubRec q" "pr_identifier q"] by simp

lemma step_insert_pubrec:
  assumes "in_step ok view s" and "qos_outgoing_insert env sp (PubRec q) s = (r, s')"
  shows "case r of Inl e \<Rightarrow> step_error ok view e s' | Inr _ \<Rightarrow> in_step ok view s'"
proof (cases "pr_identifier q \<in> ss_qos_outgoing s")
  case False
  from store_pubrec [OF in_stepD(2,3) [OF assms(1)], of q] show ?thesis
  proof (cases rule: shows_or_failsE)
    case (failed e p)
    then show ?thesis using assms(2) by (auto simp: insert_pubrec_new [OF False])
  next
    case (shown a p)
    have "queue_ok (insert (pr_identifier q) (ss_qos_outgoing s)) (ss_qos_outgoing_messages s @ [PubRec q])"
      using in_stepD(1) [OF assms(1)] False by (intro queue_ok_push) (simp_all add: sess_ok_def)
    with shown show ?thesis using assms(2)
      by (auto simp: insert_pubrec_new [OF False] in_step_def sess_ok_def session_view_of_def)
  qed
next
  case True
  note s = in_stepD [OF assms(1)]
  from registered_element [OF s(1) True] obtain x
    where x: "x \<in> set (ss_qos_outgoing_messages s)" "outgoing_id x = Some (pr_identifier q)" .
  from x(2) show ?thesis
  proof (cases rule: outgoing_id_SomeE)
    case (1 m)
    note eq = insert_pubrec_publish [OF s(1), of m q env sp]
    from delete_message [OF s(2,3), of "pr_identifier q"] stored_queue_distinct [OF s(1)] stored_queue_ids [OF s(1) True]
    have "shows_or_fails ok view (ss_internal_id s)
        ((session_view_of s)\<lparr>sv_queue := filter (\<lambda>x. \<not> has_outgoing_id (pr_identifier q) x) (sv_queue (session_view_of s))\<rparr>)
        (sp_persist_qos_outgoing_delete sp (ss_internal_id s) (pr_identifier q) (ss_persist s))" by simp
    then show ?thesis
    proof (cases rule: shows_or_failsE)
      case (failed e p)
      then show ?thesis using assms(2) eq x 1 by auto
    next
      case (shown a p)
      from store_pubrec [OF shown(2,3), of q] show ?thesis
      proof (cases rule: shows_or_failsE)
        case (failed e p)
        then show ?thesis using assms(2) eq x 1 shown by (auto simp: Let_def)
      next
        case stored: (shown a' p')
        have "queue_ok (ss_qos_outgoing s) (filter (\<lambda>x. \<not> has_outgoing_id (pr_identifier q) x) (ss_qos_outgoing_messages s) @ [PubRec q])"
          using s(1) True by (intro queue_ok_replace) (simp_all add: sess_ok_def)
        with stored show ?thesis using assms(2) eq x 1 shown
          by (auto simp: Let_def in_step_def sess_ok_def session_view_of_def filter_stored_form)
      qed
    qed
  next
    case (2 q')
    with x assms insert_pubrec_again [OF s(1), of q' q env sp] show ?thesis by auto
  qed
qed

lemma step_remove:
  assumes "in_step ok view s" and "qos_outgoing_remove sp mid s = (r, s')"
  shows "case r of Inl e \<Rightarrow> step_error ok view e s' | Inr _ \<Rightarrow> in_step ok view s'"
proof (cases "mid \<in> ss_qos_outgoing s")
  case True
  note s = in_stepD [OF assms(1)]
  from delete_message [OF s(2,3), of mid] stored_queue_distinct [OF s(1)] stored_queue_ids [OF s(1) True]
  have "shows_or_fails ok view (ss_internal_id s)
      ((session_view_of s)\<lparr>sv_queue := filter (\<lambda>x. \<not> has_outgoing_id mid x) (sv_queue (session_view_of s))\<rparr>)
      (sp_persist_qos_outgoing_delete sp (ss_internal_id s) mid (ss_persist s))" by simp
  then show ?thesis
  proof (cases rule: shows_or_failsE)
    case (failed e p)
    then show ?thesis using assms(2) True by (auto simp: outgoing_remove_eq [OF s(1)])
  next
    case (shown a p)
    have "queue_ok (ss_qos_outgoing s - {mid}) (filter (\<lambda>x. \<not> has_outgoing_id mid x) (ss_qos_outgoing_messages s))"
      using s(1) by (intro queue_ok_filter) (simp add: sess_ok_def)
    with shown show ?thesis using assms(2) True
      by (auto simp: outgoing_remove_eq [OF s(1)] in_step_def sess_ok_def session_view_of_def filter_stored_form)
  qed
next
  case False
  with assms in_stepD(1) [OF assms(1)] show ?thesis by (auto simp: outgoing_remove_eq)
qed

lemma step_release:
  assumes "in_step ok view s" and "qos_incoming_remove sp mid s = (r, s')"
  shows "case r of Inl e \<Rightarrow> step_error ok view e s' | Inr _ \<Rightarrow> in_step ok view s'"
  using delete_received [OF in_stepD(2,3) [OF assms(1)], of mid]
proof (cases rule: shows_or_failsE)
  case (failed e p)
  then show ?thesis using assms(2) by (auto simp: incoming_remove_eq)
next
  case (shown a p)
  then show ?thesis using assms(2) in_stepD(1) [OF assms(1)] by (auto simp: incoming_remove_eq in_step_def)
qed

lemma step_receive:
  assumes "in_step ok view s" and "qos_incoming_store sp mid s = (r, s')"
  shows "case r of Inl e \<Rightarrow> step_error ok view e s' | Inr _ \<Rightarrow> in_step ok view s'"
  using store_received [OF in_stepD(2,3) [OF assms(1)], of mid]
proof (cases rule: shows_or_failsE)
  case (failed e p)
  then show ?thesis using assms(2) by (auto simp: incoming_store_eq)
next
  case (shown a p)
  then show ?thesis using assms(2) in_stepD(1) [OF assms(1)] by (auto simp: incoming_store_eq in_step_def)
qed

lemma step_publish: "act_hoare (in_step ok view) (publish_message env sp m) (\<lambda>_. in_step ok view) (step_error ok view)"
proof -
  let ?I = "in_step ok view" and ?E = "step_error ok view"
  have store: "act_hoare ?I (qos_incoming_store sp mid) (\<lambda>_. ?I) ?E" for mid
    by (auto simp: act_hoare_def split: prod.split sum.split dest: step_receive)
  have client: "act_hoare ?I (send_client_message env x) (\<lambda>_. ?I) ?E" for x
    by (auto simp: act_hoare_def send_client_cases split: option.split prod.split bool.split)
  have router: "act_hoare ?I (send_message_router env x) (\<lambda>_. ?I) ?E" for x
    by (auto simp: act_hoare_def send_router_cases split: prod.split bool.split)
  have log: "act_hoare ?I (send_or_log env x) (\<lambda>_. ?I) ?E" for x
    by (auto simp: act_hoare_def send_or_log_cases send_client_cases split: option.split prod.split bool.split)
  show ?thesis
    unfolding publish_message_def Let_def
    apply (rule act_hoare_bind [OF act_hoare_modify [where Q = "\<lambda>_. ?I"]], simp)
    apply (rule act_hoare_bind [OF act_hoare_get [where Q = "\<lambda>_. ?I"]], assumption)
    apply (rule act_hoare_if [OF client])
    apply (rule act_hoare_bind [OF act_hoare_get [where Q = "\<lambda>_. ?I"]], assumption)
    apply (rule act_hoare_bind [OF router])
    apply (intro act_hoare_if log act_hoare_bind [OF store])
    apply (rule act_hoare_return, assumption)
    done
qed

lemma step_unsubscribe: "act_hoare (in_step ok view) (unsubscribe_all env) (\<lambda>_. in_step ok view) (\<lambda>e s. step_error ok view e s \<and> in_step ok view s)"
proof -
  let ?I = "in_step ok view" and ?F = "\<lambda>e s. step_error ok view e s \<and> in_step ok view s"
  have router: "act_hoare ?I (send_message_router env x) (\<lambda>_. ?I) ?F" for x
    by (auto simp: act_hoare_def send_router_cases split: prod.split bool.split)
  have subs: "act_hoare ?I (act_modify (\<lambda>s. s\<lparr>ss_subscriptions := f s\<rparr>)) (\<lambda>_. ?I) ?F" for f
    by (rule act_hoare_modify) simp
  show ?thesis
    unfolding unsubscribe_all_def session_unsubscribe_def Let_def
    apply (rule act_hoare_bind [OF act_hoare_get [where Q = "\<lambda>_. ?I"]], assumption)
    apply (rule act_hoare_bind [OF act_hoare_bind [OF act_hoare_for [OF subs]]])
     apply (rule act_hoare_bind [OF act_hoare_get [where Q = "\<lambda>_. ?I"]], assumption)
     apply (rule router)
    apply (rule subs)
    done
qed

lemma step_clean: "act_hoare (in_step ok view) (clean_session (env :: 'w session_env) sp) (\<lambda>_. in_step ok view) (\<lambda>e s. step_error ok view e s \<and> in_step ok view s)"
proof (rule act_hoare_cong_pre, rule act_hoare_at)
  fix s :: "('p, 'w) mqtt_session" assume s: "in_step ok view s"
  let ?G = "\<lambda>c. case c of (Inl e, s') \<Rightarrow> step_error ok view e s' \<and> in_step ok view s' | (Inr a, s') \<Rightarrow> in_step ok view s'"
  obtain p1 where p1: "sp_persist_qos_incoming_clear sp (ss_internal_id s) (ss_persist s) = (Inr (ss_internal_id s), p1)"
    "ok p1" "view p1 (ss_internal_id s) = Some ((session_view_of s)\<lparr>sv_received := {}\<rparr>)"
    by (rule shows_nowE [OF clear_received [OF in_stepD(2,3) [OF s]]])
  obtain p2 where p2: "sp_persist_qos_outgoing_clear sp (ss_internal_id s) p1 = (Inr 0, p2)"
    "ok p2" "view p2 (ss_internal_id s) = Some ((session_view_of s)\<lparr>sv_received := {}, sv_queue := []\<rparr>)"
    using shows_nowE [OF clear_queue [OF p1(2,3)]] by auto
  let ?t = "s\<lparr>ss_qos_incoming := {}, ss_persist := p2, ss_qos_outgoing := {}, ss_qos_outgoing_messages := []\<rparr>"
  have t: "in_step ok view ?t" using p2 by (simp add: in_step_def sess_ok_def session_view_of_def)
  obtain r t' where u: "unsubscribe_all env ?t = (r, t')" by force
  with step_unsubscribe [of env] t have t': "?G (r, t')"
    unfolding act_hoare_def by (metis (mono_tags, lifting) case_prod_conv)
  show "?G (clean_session env sp s)"
  proof (cases r)
    case (Inl e)
    with t' u p1 p2 show ?thesis
      by (simp add: clean_session_def act_bind_persist act_bind_app [of "unsubscribe_all _"])
  next
    case (Inr a)
    with t' have i: "in_step ok view t'" by simp
    let ?g = "ss_generation t' + 1"
    obtain p3 where p3: "sp_persist_update_session_generation sp (ss_internal_id t') ?g (ss_persist t') = (Inr (ss_internal_id t'), p3)"
      "ok p3" "view p3 (ss_internal_id t') = Some ((session_view_of t')\<lparr>sv_generation := ?g, sv_next_mid := 1\<rparr>)"
      by (rule shows_nowE [OF update_generation [OF in_stepD(2,3) [OF i]]])
    with Inr u p1 p2 in_stepD(1) [OF i] show ?thesis
      by (simp add: clean_session_def act_bind_persist act_bind_app [of "unsubscribe_all _"] in_step_def sess_ok_def session_view_of_def)
  qed
qed

lemma step_contract: "session_contract env sp (in_step ok view) (step_error ok view) (\<lambda>_. True)"
proof (unfold_locales, goal_cases)
  case (12 m mid)
  show ?case
    by (auto simp: act_hoare_def split: prod.split sum.split dest: step_set_dup)
next
  case (13 m)
  then show ?case
    by (auto simp: act_hoare_def split: prod.split sum.split dest: step_insert_publish)
next
  case (14 p)
  show ?case
    by (auto simp: act_hoare_def split: prod.split sum.split dest: step_insert_pubrec)
next
  case (15 a)
  show ?case
    by (auto simp: act_hoare_def split: prod.split sum.split dest: step_remove)
next
  case (16 c)
  show ?case
    by (auto simp: act_hoare_def split: prod.split sum.split dest: step_remove)
next
  case (17 l)
  show ?case
    by (auto simp: act_hoare_def split: prod.split sum.split dest: step_release)
next
  case (18 m)
  show ?case by (rule step_publish)
next
  case (19 nc)
  show ?case by (rule step_clean)
qed (auto simp: in_step_def step_error_def)

end

section \<open>Restarts\<close>

lemma load_messages_eq:
  "None \<notin> outgoing_id ` set ms \<Longrightarrow>
   act_for ms load_qos_message s = (Inr (), s\<lparr>ss_qos_outgoing := {mid. Some mid \<in> outgoing_id ` set ms} \<union> ss_qos_outgoing s\<rparr>)"
proof (induction ms arbitrary: s)
  case (Cons m ms)
  then obtain mid where mid: "outgoing_id m = Some mid" by (cases "outgoing_id m") auto
  with Cons.IH [of "s\<lparr>ss_qos_outgoing := insert mid (ss_qos_outgoing s)\<rparr>"] Cons.prems show ?case
    by (auto simp: act_bind_app load_one Collect_disj_eq)
qed simp

lemma queue_ok_ids:
  assumes "queue_ok ids ms"
  shows "{mid. Some mid \<in> outgoing_id ` set ms} = ids" and "None \<notin> outgoing_id ` set ms"
  using assms by (auto simp: queue_ok_def)

text \<open>What a worker that is started again over the storage of \<open>s\<close> has in common with \<open>s\<close>.\<close>

definition continues :: "('p, 'w) mqtt_session \<Rightarrow> ('p, 'w) mqtt_session \<Rightarrow> bool" where
  "continues s s' \<longleftrightarrow> ss_id s' = ss_id s \<and> ss_internal_id s' = ss_internal_id s \<and> ss_generation s' = ss_generation s \<and>
     ss_next_message_id s' = ss_next_message_id s \<and> ss_qos_incoming s' = ss_qos_incoming s \<and>
     ss_qos_outgoing s' = ss_qos_outgoing s \<and>
     ss_qos_outgoing_messages s' = map stored_form (ss_qos_outgoing_messages s) \<and> \<not> ss_clean s' \<and> ss_client s' = None"

text \<open>
  The states of a session over its storage: opened for the first time, after a message, after
  others changed the storage but not what it shows of this session, and started again. A
  handler may stop the worker for any reason but an error of the storage.
\<close>

inductive session_life :: "'w session_env \<Rightarrow> 'p session_persist \<Rightarrow> ('p \<Rightarrow> bool) \<Rightarrow> ('p \<Rightarrow> int \<Rightarrow> session_view option) \<Rightarrow>
    ('p, 'w) mqtt_session \<Rightarrow> bool"
  for env sp ok view where
  opened: "ok p \<Longrightarrow> session_start sp (mqtt_session_new name p w) = (Inr (), s) \<Longrightarrow> ss_clean s \<Longrightarrow>
     session_life env sp ok view s"
| handled: "session_life env sp ok view s \<Longrightarrow> session_handle env sp v s = (r, s') \<Longrightarrow>
     (\<forall>m. r \<noteq> Inl (Failed (Session_Persist m))) \<Longrightarrow> session_life env sp ok view s'"
| others: "session_life env sp ok view s \<Longrightarrow> ok p \<Longrightarrow> view p (ss_internal_id s) = view (ss_persist s) (ss_internal_id s) \<Longrightarrow>
     session_life env sp ok view (s\<lparr>ss_persist := p\<rparr>)"
| restarted: "session_life env sp ok view s \<Longrightarrow> session_start sp (mqtt_session_new (ss_id s) (ss_persist s) w) = (Inr (), s') \<Longrightarrow>
     session_life env sp ok view s'"

context session_storage
begin

lemma start_new:
  assumes "ok p" and "session_start sp (mqtt_session_new name p w) = (Inr (), s)" and "ss_clean s"
  shows "in_step ok view s"
proof -
  obtain a p1 where p1: "sp_create_persistent_connection sp p = (Inr a, p1)" "ok p1"
    using connection [OF assms(1)] by blast
  obtain r p2 where p2: "sp_persist_session sp name p1 = (r, p2)" by force
  show ?thesis
  proof (cases r)
    case (Inl e)
    with assms(2) p1 p2 show ?thesis
      by (simp add: session_start_def init_persist_session_def mqtt_session_new_def act_bind_persist)
  next
    case (Inr q)
    obtain S g clean mid where q: "q = (S, g, clean, mid)" by (cases q)
    have clean: clean
      using assms(2,3) p1 p2 Inr q
      by (auto simp: session_start_def init_persist_session_def mqtt_session_new_def act_bind_persist bind_subscriptions
          act_bind_app [of "act_for _ load_qos_message"] simp del: act_for.simps
          split: prod.splits sum.splits if_splits dest: load_messages)
    with open_new [OF p1(2), of name S g mid p2] p2 Inr q have "ok p2"
      "view p2 S = Some \<lparr>sv_name = name, sv_generation = g, sv_next_mid = mid, sv_received = {}, sv_queue = []\<rparr>" by simp_all
    with assms(2) p1 p2 Inr q clean show ?thesis
      by (auto simp: session_start_def init_persist_session_def mqtt_session_new_def act_bind_persist in_step_def sess_ok_def
          session_view_of_def)
  qed
qed

lemma restart:
  assumes "in_step ok view s"
  obtains s' where "session_start sp (mqtt_session_new (ss_id s) (ss_persist s) w) = (Inr (), s')"
    and "in_step ok view s'" and "continues s s'"
proof -
  let ?S = "ss_internal_id s" and ?v = "session_view_of s" and ?ms = "map stored_form (ss_qos_outgoing_messages s)"
  note s = in_stepD [OF assms]
  obtain a p1 where p1: "sp_create_persistent_connection sp (ss_persist s) = (Inr a, p1)" "ok p1" "view p1 ?S = Some ?v"
    using connection [OF s(2)] s(3) by metis
  obtain p2 where p2: "sp_persist_session sp (ss_id s) p1 = (Inr (?S, ss_generation s, False, ss_next_message_id s), p2)"
    "ok p2" "view p2 ?S = Some ?v"
    using open_known [OF p1(2,3)] by (auto elim: shows_nowE)
  obtain subs p3 where p3: "sp_load_persistent_subscriptions sp ?S p2 = (Inr subs, p3)" "ok p3" "view p3 ?S = Some ?v"
    using load_subscriptions [OF p2(2)] p2(3) by metis
  obtain p4 where p4: "sp_persist_qos_incoming_load sp ?S p3 = (Inr (ss_qos_incoming s), p4)" "ok p4" "view p4 ?S = Some ?v"
    using load_received [OF p3(2,3)] by (auto elim: shows_nowE)
  obtain p5 where p5: "sp_persistent_qosout_load sp ?S p4 = (Inr ?ms, p5)" "ok p5" "view p5 ?S = Some ?v"
    using load_queue [OF p4(2,3)] by (auto elim: shows_nowE)
  have q: "queue_ok (ss_qos_outgoing s) ?ms"
    using s(1) by (simp add: sess_ok_def queue_ok_map)
  note load = load_messages_eq [OF queue_ok_ids(2) [OF q], unfolded queue_ok_ids(1) [OF q]]
  define s' where "s' = (mqtt_session_new (ss_id s) p5 w)\<lparr>ss_internal_id := ?S, ss_generation := ss_generation s,
    ss_clean := False, ss_next_message_id := ss_next_message_id s,
    ss_subscriptions := fold (\<lambda>topic. hm_insert topic True) subs [], ss_qos_incoming := ss_qos_incoming s,
    ss_qos_outgoing := ss_qos_outgoing s, ss_qos_outgoing_messages := ?ms\<rparr>"
  have "session_start sp (mqtt_session_new (ss_id s) (ss_persist s) w) = (Inr (), s')"
    using p1(1) p2(1) p3(1) p4(1) p5(1)
    by (simp add: session_start_def init_persist_session_def mqtt_session_new_def act_bind_persist bind_subscriptions
        act_bind_app [of "act_for _ load_qos_message"] load s'_def del: act_for.simps)
  moreover have "in_step ok view s'"
    using p5 q by (simp add: in_step_def sess_ok_def s'_def session_view_of_def mqtt_session_new_def o_def)
  moreover have "continues s s'" by (simp add: continues_def s'_def mqtt_session_new_def)
  ultimately show ?thesis using that by blast
qed

lemma life_in_step: "session_life env sp ok view s \<Longrightarrow> in_step ok view s"
proof (induction rule: session_life.induct)
  case (opened p name w s)
  then show ?case by (rule start_new)
next
  case (handled s v r s')
  have "act_hoare (in_step ok view) (session_handle env sp v) (\<lambda>_. in_step ok view) (step_error ok view)"
    by (rule session_contract.handle [OF step_contract]) simp
  with handled.IH handled(2) have "case r of Inl e \<Rightarrow> step_error ok view e s' | Inr _ \<Rightarrow> in_step ok view s'"
    unfolding act_hoare_def by (metis (mono_tags, lifting) case_prod_conv)
  with handled(3) show ?case by (cases r) (auto simp: step_error_def)
next
  case (others s p)
  then show ?case by (simp add: in_step_def)
next
  case (restarted s w s')
  from restart [OF restarted.IH, of w] restarted(2) show ?case by auto
qed

lemma life_restarts:
  assumes "session_life env sp ok view s"
  shows "\<exists>s'. session_start sp (mqtt_session_new (ss_id s) (ss_persist s) w) = (Inr (), s') \<and> continues s s'"
  using restart [OF life_in_step [OF assms]] by metis

end

end
