(* ===== verification/Sql_Schema.thy ===== *)
theory Sql_Schema
  imports Sql_Laws Sess_Storage
begin

text \<open>
  The invariant of the tables: they exist, ids do not repeat, references have their rows, every
  message row has one owner, and ids can be read back. Each statement of the two storages that
  is used as they use it keeps it.
\<close>

section \<open>The invariant\<close>

definition somes :: "'a option list \<Rightarrow> 'a list" where
  "somes xs = map the (filter (\<lambda>x. x \<noteq> None) xs)"

lemma somes_simps [simp]:
  "somes [] = []" "somes (None # xs) = somes xs" "somes (Some a # xs) = a # somes xs"
  "somes (xs @ ys) = somes xs @ somes ys"
  by (simp_all add: somes_def)

lemma set_somes [simp]: "set (somes xs) = {a. Some a \<in> set xs}"
  by (force simp: somes_def)

text \<open>The message rows that topics and queues own.\<close>

definition owned :: "database \<Rightarrow> int list" where
  "owned db = somes (map dt_retained_message_id (db_topics db)) @ somes (map do_message_id (db_qosout db))"

definition db_ok :: "database \<Rightarrow> bool" where
  "db_ok db \<longleftrightarrow>
     {Tab_sessions, Tab_messages, Tab_topics, Tab_subscriptions, Tab_qosin, Tab_qosout} \<subseteq> set (db_tables db) \<and>
     distinct (map ds_id (db_sessions db)) \<and> distinct (map dm_id (db_messages db)) \<and>
     distinct (map dt_id (db_topics db)) \<and> sorted_wrt (<) (map do_id (db_qosout db)) \<and>
     foreign_keys_ok db \<and> distinct (owned db) \<and> (\<forall>i \<in> set (owned db). get_i32 i = Some i) \<and>
     (\<forall>r \<in> set (db_qosin db). 0 \<le> di_mid r \<and> di_mid r < 65536) \<and>
     (\<forall>r \<in> set (db_qosout db). 0 \<le> do_mid r \<and> do_mid r < 65536)"

lemma somes_subset:
  "set (somes (map f xs)) \<subseteq> S \<longleftrightarrow> (\<forall>x \<in> set xs. case f x of None \<Rightarrow> True | Some i \<Rightarrow> i \<in> S)"
proof (induction xs)
  case (Cons x xs)
  then show ?case by (cases "f x") (simp_all del: set_somes)
qed simp

lemma foreign_keys_owned:
  "foreign_keys_ok db \<longleftrightarrow> set (owned db) \<subseteq> dm_id ` set (db_messages db) \<and>
     (\<forall>u \<in> set (db_subscriptions db). du_session_id u \<in> ds_id ` set (db_sessions db) \<and> du_topic_id u \<in> dt_id ` set (db_topics db)) \<and>
     (\<forall>q \<in> set (db_qosin db). di_session_id q \<in> ds_id ` set (db_sessions db)) \<and>
     (\<forall>q \<in> set (db_qosout db). do_session_id q \<in> ds_id ` set (db_sessions db))"
  unfolding foreign_keys_ok_def owned_def set_append Un_subset_iff somes_subset set_map ball_conj_distrib
  by (simp only: conj_ac)

lemma fold_max_start: "(m :: int) \<le> fold max ids m"
proof (induction ids arbitrary: m)
  case (Cons a ids)
  have "m \<le> max a m" by (rule max.cobounded2)
  also have "\<dots> \<le> fold max ids (max a m)" by (rule Cons.IH)
  finally show ?case by (simp only: fold_simps)
qed simp

lemma fold_max_greater: "i \<in> set ids \<Longrightarrow> i \<le> fold max ids (m :: int)"
proof (induction ids arbitrary: m)
  case (Cons a ids)
  show ?case
  proof (cases "i = a")
    case True
    have "a \<le> max a m" by (rule max.cobounded1)
    also have "\<dots> \<le> fold max ids (max a m)" by (rule fold_max_start)
    finally show ?thesis using True by (simp only: fold_simps)
  next
    case False
    with Cons.prems have "i \<in> set ids" by simp
    from Cons.IH [OF this] show ?thesis by (simp only: fold_simps)
  qed
qed simp

lemma next_row_id_greater: "i \<in> set ids \<Longrightarrow> i < next_row_id ids"
  using fold_max_greater [of i ids 0] unfolding next_row_id_def by linarith

lemma next_row_id_fresh: "next_row_id ids \<notin> set ids"
  using next_row_id_greater [of "next_row_id ids" ids] by auto


lemma db_okD:
  assumes "db_ok db"
  shows "{Tab_sessions, Tab_messages, Tab_topics, Tab_subscriptions, Tab_qosin, Tab_qosout} \<subseteq> set (db_tables db)"
    and "distinct (map ds_id (db_sessions db))" and "distinct (map dm_id (db_messages db))"
    and "distinct (map dt_id (db_topics db))" and "sorted_wrt (<) (map do_id (db_qosout db))"
    and "foreign_keys_ok db" and "distinct (owned db)" and "i \<in> set (owned db) \<Longrightarrow> get_i32 i = Some i"
    and "r \<in> set (db_qosin db) \<Longrightarrow> 0 \<le> di_mid r \<and> di_mid r < 65536"
    and "q \<in> set (db_qosout db) \<Longrightarrow> 0 \<le> do_mid q \<and> do_mid q < 65536"
  using assms unfolding db_ok_def by simp_all

section \<open>What a session has in the tables\<close>

definition session_row_of :: "database \<Rightarrow> int \<Rightarrow> session_row option" where
  "session_row_of db S = find (\<lambda>r. ds_id r = S) (db_sessions db)"

definition stored_received :: "database \<Rightarrow> int \<Rightarrow> int set" where
  "stored_received db S = di_mid ` {r \<in> set (db_qosin db). di_session_id r = S}"

definition own_rows :: "database \<Rightarrow> int \<Rightarrow> qosout_row list" where
  "own_rows db S = filter (\<lambda>r. do_session_id r = S) (db_qosout db)"

text \<open>The message a row of the queue stands for.\<close>

definition row_message :: "database \<Rightarrow> qosout_row \<Rightarrow> mqtt_message option" where
  "row_message db r =
     (if do_type r = message_type_code Type_Publish then
        (case do_message_id r of
           None \<Rightarrow> None
         | Some i \<Rightarrow>
             (case message_rows i db of
                [] \<Rightarrow> None
              | row # _ \<Rightarrow> map_option (\<lambda>m. Publish (m\<lparr>pub_identifier := word_of_int (do_mid r), pub_dup := do_dup r\<rparr>)) (stored_message row)))
      else if do_type r = message_type_code Type_PubRec then Some (PubRec \<lparr>pr_identifier = word_of_int (do_mid r)\<rparr>)
      else None)"

definition stored_queue :: "database \<Rightarrow> int \<Rightarrow> mqtt_message option list" where
  "stored_queue db S = map (row_message db) (own_rows db S)"

lemma session_row_id: "session_row_of db S = Some r \<Longrightarrow> ds_id r = S \<and> r \<in> set (db_sessions db)"
  by (auto simp: session_row_of_def find_Some_iff)

lemma session_exists: "session_row_of db S = Some r \<Longrightarrow> S \<in> ds_id ` set (db_sessions db)"
  using session_row_id by force

lemma row_message_id: "row_message db r = Some m \<Longrightarrow> outgoing_id m = Some (word_of_int (do_mid r))"
  by (auto simp: row_message_def outgoing_id_def split: if_splits option.splits list.splits)

lemma message_rows_updates [simp]:
  "message_rows i (db\<lparr>db_sessions := ss\<rparr>) = message_rows i db"
  "message_rows i (db\<lparr>db_topics := ts\<rparr>) = message_rows i db"
  "message_rows i (db\<lparr>db_subscriptions := us\<rparr>) = message_rows i db"
  "message_rows i (db\<lparr>db_qosin := qi\<rparr>) = message_rows i db"
  "message_rows i (db\<lparr>db_qosout := qo\<rparr>) = message_rows i db"
  by (simp_all add: message_rows_def)

lemma mid_eq: "0 \<le> m \<Longrightarrow> m < 65536 \<Longrightarrow> word_of_int m = (mid :: u16) \<longleftrightarrow> m = uint mid"
  by (auto simp: word_eq_iff_unsigned uint_word_of_int)

text \<open>Rows of messages that stay are found as before.\<close>

lemma row_message_cong:
  assumes "\<And>i. do_message_id r = Some i \<Longrightarrow> message_rows i db' = message_rows i db"
  shows "row_message db' r = row_message db r"
  using assms by (auto simp: row_message_def split: option.splits)

lemma row_message_updates [simp]:
  "row_message (db\<lparr>db_sessions := ss\<rparr>) = row_message db"
  "row_message (db\<lparr>db_topics := ts\<rparr>) = row_message db"
  "row_message (db\<lparr>db_subscriptions := us\<rparr>) = row_message db"
  "row_message (db\<lparr>db_qosin := qi\<rparr>) = row_message db"
  "row_message (db\<lparr>db_qosout := qo\<rparr>) = row_message db"
  by (rule ext, rule row_message_cong, simp)+

lemma stored_updates [simp]:
  "own_rows (db\<lparr>db_sessions := ss\<rparr>) = own_rows db"
  "own_rows (db\<lparr>db_qosin := qi\<rparr>) = own_rows db"
  "own_rows (db\<lparr>db_messages := ms\<rparr>) = own_rows db"
  "stored_queue (db\<lparr>db_sessions := ss\<rparr>) = stored_queue db"
  "stored_queue (db\<lparr>db_qosin := qi\<rparr>) = stored_queue db"
  "stored_received (db\<lparr>db_sessions := ss\<rparr>) = stored_received db"
  "stored_received (db\<lparr>db_messages := ms\<rparr>) = stored_received db"
  "stored_received (db\<lparr>db_qosout := qo\<rparr>) = stored_received db"
  "session_row_of (db\<lparr>db_messages := ms\<rparr>) = session_row_of db"
  "session_row_of (db\<lparr>db_qosin := qi\<rparr>) = session_row_of db"
  "session_row_of (db\<lparr>db_qosout := qo\<rparr>) = session_row_of db"
  "owned (db\<lparr>db_sessions := ss\<rparr>) = owned db"
  "owned (db\<lparr>db_messages := ms\<rparr>) = owned db"
  "owned (db\<lparr>db_qosin := qi\<rparr>) = owned db"
  by (simp_all add: own_rows_def stored_queue_def stored_received_def session_row_of_def owned_def fun_eq_iff)

lemma own_rows_in: "r \<in> set (own_rows db S) \<longleftrightarrow> r \<in> set (db_qosout db) \<and> do_session_id r = S"
  by (auto simp: own_rows_def)

lemma owned_row: "r \<in> set (db_qosout db) \<Longrightarrow> do_message_id r = Some i \<Longrightarrow> i \<in> set (owned db)"
  by (force simp: owned_def)

section \<open>Sessions and received identifiers\<close>

lemma db_ok_sessions:
  assumes "db_ok db" and "ds_id ` set rows = ds_id ` set (db_sessions db)" and "distinct (map ds_id rows)"
  shows "db_ok (db\<lparr>db_sessions := rows\<rparr>)"
  using assms by (simp add: db_ok_def owned_def foreign_keys_owned)

lemma update_session_effect:
  assumes "db_ok db" and "session_row_of db S = Some r" and "\<And>x. ds_id (f x) = ds_id x"
    and "update_session_row S f db = (rows, db')"
  shows "db_ok db' \<and> rows = [f r] \<and> session_row_of db' S = Some (f r) \<and> stored_received db' = stored_received db \<and>
    stored_queue db' = stored_queue db \<and> db_qosout db' = db_qosout db"
proof -
  let ?rows = "map (\<lambda>r. if ds_id r = S then f r else r) (db_sessions db)"
  have db': "db' = db\<lparr>db_sessions := ?rows\<rparr>" and rows: "rows = map f (filter (\<lambda>r. ds_id r = S) (db_sessions db))"
    using assms(4) by (simp_all add: update_session_row_def)
  have ids: "map ds_id ?rows = map ds_id (db_sessions db)" by (simp add: assms(3))
  then have "ds_id ` set ?rows = ds_id ` set (db_sessions db)" by (metis list.set_map)
  moreover have "distinct (map ds_id ?rows)" unfolding ids by (rule db_okD(2) [OF assms(1)])
  ultimately have ok: "db_ok db'" unfolding db' by (rule db_ok_sessions [OF assms(1)])
  have one: "filter (\<lambda>r. ds_id r = S) xs = [r] \<and> find (\<lambda>r. ds_id r = S) (map (\<lambda>r. if ds_id r = S then f r else r) xs) = Some (f r)"
    if "distinct (map ds_id xs)" "find (\<lambda>r. ds_id r = S) xs = Some r" for xs
    using that
  proof (induction xs)
    case (Cons x xs)
    then show ?case
      by (cases "ds_id x = S") (auto simp: assms(3) filter_empty_conv image_iff)
  qed simp
  from one [OF db_okD(2) [OF assms(1)]] assms(2) show ?thesis
    using ok by (simp add: rows db' session_row_of_def)
qed

lemma stored_received_append:
  "stored_received (db\<lparr>db_qosin := db_qosin db @ [q]\<rparr>) S =
     (if di_session_id q = S then insert (di_mid q) (stored_received db S) else stored_received db S)"
  by (force simp: stored_received_def)

lemma insert_qosin_effect:
  assumes "db_ok db" and "S \<in> ds_id ` set (db_sessions db)"
    and "db' = db\<lparr>db_qosin := db_qosin db @ [\<lparr>di_id = i, di_session_id = S, di_received = t, di_mid = uint (mid :: u16)\<rparr>]\<rparr>"
  shows "db_ok db' \<and> stored_received db' S = insert (uint mid) (stored_received db S) \<and>
    session_row_of db' = session_row_of db \<and> stored_queue db' = stored_queue db \<and> db_qosout db' = db_qosout db"
proof -
  have "0 \<le> uint mid" "uint mid < 65536" using uint_range_size [of mid] by (simp_all add: word_size)
  then show ?thesis
    using assms(1,2) by (auto simp: assms(3) db_ok_def foreign_keys_owned stored_received_append)
qed

lemma filter_qosin_effect:
  assumes "db_ok db" and "db' = db\<lparr>db_qosin := filter P (db_qosin db)\<rparr>"
  shows "db_ok db' \<and> stored_received db' S = di_mid ` {r \<in> set (db_qosin db). di_session_id r = S \<and> P r} \<and>
    session_row_of db' = session_row_of db \<and> stored_queue db' = stored_queue db \<and> db_qosout db' = db_qosout db"
  using assms(1) by (auto simp: assms(2) db_ok_def foreign_keys_owned stored_received_def)

section \<open>The queue\<close>

lemma message_rows_append:
  "i \<noteq> dm_id m \<Longrightarrow> message_rows i (db\<lparr>db_messages := db_messages db @ [m]\<rparr>) = message_rows i db"
  "i = dm_id m \<Longrightarrow> i \<notin> dm_id ` set (db_messages db) \<Longrightarrow> message_rows i (db\<lparr>db_messages := db_messages db @ [m]\<rparr>) = [m]"
  by (auto simp: message_rows_def filter_empty_conv image_iff)

lemma sorted_wrt_next: "sorted_wrt (<) ids \<Longrightarrow> sorted_wrt (<) (ids @ [next_row_id ids])"
  by (simp add: sorted_wrt_append next_row_id_greater)

text \<open>A new message row: nothing that is stored changes.\<close>

lemma insert_message_effect:
  assumes "db_ok db" and "insert_message_row qos topic payload db = (i, db')"
  shows "db_ok db' \<and> i \<notin> set (owned db') \<and> i \<in> dm_id ` set (db_messages db') \<and> owned db' = owned db \<and>
    message_rows i db' = [\<lparr>dm_id = i, dm_qos = uint qos, dm_topic = topic, dm_payload = payload\<rparr>] \<and>
    session_row_of db' = session_row_of db \<and> stored_received db' = stored_received db \<and>
    stored_queue db' = stored_queue db \<and> db_qosout db' = db_qosout db \<and> db_sessions db' = db_sessions db"
proof -
  let ?m = "\<lparr>dm_id = i, dm_qos = uint qos, dm_topic = topic, dm_payload = payload\<rparr>"
  have db': "db' = db\<lparr>db_messages := db_messages db @ [?m]\<rparr>" and i: "i = next_row_id (map dm_id (db_messages db))"
    using assms(2) by (auto simp: insert_message_row_def Let_def)
  have fresh: "i \<notin> dm_id ` set (db_messages db)" using next_row_id_fresh [of "map dm_id (db_messages db)"] i by simp
  with db_okD(6) [OF assms(1)] have new: "i \<notin> set (owned db)" by (auto simp: foreign_keys_owned)
  have "row_message db' r = row_message db r" if "r \<in> set (db_qosout db)" for r
  proof (rule row_message_cong)
    fix j assume "do_message_id r = Some j"
    with owned_row [OF that this] new have "j \<noteq> dm_id ?m" by auto
    then show "message_rows j db' = message_rows j db" unfolding db' by (rule message_rows_append(1))
  qed
  then have "stored_queue db' = stored_queue db"
    by (auto simp: fun_eq_iff stored_queue_def db' own_rows_in)
  moreover have "db_ok db'" using assms(1) fresh by (auto simp: db' db_ok_def foreign_keys_owned)
  ultimately show ?thesis using fresh new by (auto simp: db' message_rows_append)
qed

text \<open>A new row of the queue.\<close>

lemma insert_qosout_effect:
  assumes "db_ok db" and "S \<in> ds_id ` set (db_sessions db)"
    and "case mi of None \<Rightarrow> True | Some i \<Rightarrow> i \<notin> set (owned db) \<and> i \<in> dm_id ` set (db_messages db) \<and> get_i32 i = Some i"
    and "insert_qosout_row now S mtype (uint (mid :: u16)) mi db = (k, db')"
  shows "db_ok db' \<and> session_row_of db' = session_row_of db \<and> stored_received db' = stored_received db \<and>
    (\<exists>r. r = \<lparr>do_id = k, do_session_id = S, do_message_id = mi, do_received = now, do_type = mtype, do_mid = uint mid, do_dup = False\<rparr> \<and>
      stored_queue db' S = stored_queue db S @ [row_message db r] \<and> db_qosout db' = db_qosout db @ [r])"
proof -
  let ?r = "\<lparr>do_id = k, do_session_id = S, do_message_id = mi, do_received = now, do_type = mtype, do_mid = uint mid, do_dup = False\<rparr>"
  have db': "db' = db\<lparr>db_qosout := db_qosout db @ [?r]\<rparr>" and k: "k = next_row_id (map do_id (db_qosout db))"
    using assms(4) by (auto simp: insert_qosout_row_def Let_def)
  have mid: "0 \<le> uint mid" "uint mid < 65536" using uint_range_size [of mid] by (simp_all add: word_size)
  have own: "owned db' = owned db @ somes [mi]" by (simp add: db' owned_def)
  have sorted: "sorted_wrt (<) (map do_id (db_qosout db'))"
    using sorted_wrt_next [OF db_okD(5) [OF assms(1)]] by (simp add: db' k)
  have "foreign_keys_ok db'" unfolding foreign_keys_owned own
    using db_okD(6) [OF assms(1)] assms(2,3) by (cases mi) (auto simp: db' foreign_keys_owned)
  moreover have "distinct (owned db') \<and> (\<forall>i \<in> set (owned db'). get_i32 i = Some i)"
    using assms(3) db_okD(7,8) [OF assms(1)] unfolding own by (cases mi) auto
  ultimately have "db_ok db'" using assms(1) mid sorted by (auto simp: db_ok_def db')
  then show ?thesis by (simp add: db' stored_queue_def own_rows_def)
qed

text \<open>Rows that go, and the message of one of them.\<close>

lemma somes_filter:
  "distinct (somes (map f xs)) \<Longrightarrow> distinct (somes (map f (filter P xs))) \<and>
     (\<forall>x \<in> set xs. \<forall>i. \<not> P x \<longrightarrow> f x = Some i \<longrightarrow> Some i \<notin> f ` set (filter P xs))"
proof (induction xs)
  case (Cons x xs)
  show ?case
  proof (cases "f x")
    case None
    with Cons show ?thesis by force
  next
    case (Some j)
    with Cons.prems have j: "Some j \<notin> f ` set xs" "distinct (somes (map f xs))" by (auto simp: image_iff)
    from Cons.IH [OF j(2)] j(1) Some show ?thesis by (auto simp: image_iff)
  qed
qed simp

lemma delete_qosout_effect:
  assumes "db_ok db" and "db' = db\<lparr>db_qosout := filter P (db_qosout db)\<rparr>"
  shows "db_ok db' \<and> session_row_of db' = session_row_of db \<and> stored_received db' = stored_received db \<and>
    stored_queue db' S = map (row_message db) (filter P (own_rows db S)) \<and> set (owned db') \<subseteq> set (owned db) \<and>
    (\<forall>r i. r \<in> set (db_qosout db) \<longrightarrow> \<not> P r \<longrightarrow> do_message_id r = Some i \<longrightarrow> i \<notin> set (owned db'))"
proof -
  from db_okD(7) [OF assms(1)] have dist: "distinct (somes (map do_message_id (db_qosout db)))"
    "distinct (somes (map dt_retained_message_id (db_topics db)))"
    "set (somes (map dt_retained_message_id (db_topics db))) \<inter> set (somes (map do_message_id (db_qosout db))) = {}"
    by (simp_all add: owned_def)
  note f = somes_filter [OF dist(1), of P]
  have sub: "set (owned db') \<subseteq> set (owned db)" by (auto simp: assms(2) owned_def)
  have "distinct (owned db')" using f dist by (auto simp: assms(2) owned_def)
  moreover have "sorted_wrt (<) (map do_id (db_qosout db'))"
    using db_okD(5) [OF assms(1)] by (simp add: assms(2) sorted_wrt_map sorted_wrt_filter)
  moreover have "foreign_keys_ok db'"
    using db_okD(6) [OF assms(1)] sub unfolding foreign_keys_owned by (auto simp: assms(2))
  ultimately have "db_ok db'" using assms(1) sub by (auto simp: db_ok_def assms(2))
  moreover have "i \<notin> set (owned db')" if "r \<in> set (db_qosout db)" "\<not> P r" "do_message_id r = Some i" for r i
  proof -
    from f that have "Some i \<notin> do_message_id ` set (filter P (db_qosout db))" by blast
    moreover have "Some i \<notin> dt_retained_message_id ` set (db_topics db)"
      using dist(3) that by (metis disjoint_iff image_eqI list.set_map mem_Collect_eq set_somes)
    ultimately show ?thesis by (simp add: owned_def assms(2))
  qed
  ultimately show ?thesis using sub
    by (auto simp: assms(2) stored_queue_def own_rows_def filter_filter conj_commute intro!: filter_cong)
qed

lemma delete_message_effect:
  assumes "db_ok db" and "i \<notin> set (owned db)" and "delete_message_row i db = (u, db')"
  shows "db_ok db' \<and> session_row_of db' = session_row_of db \<and> stored_received db' = stored_received db \<and>
    stored_queue db' = stored_queue db \<and> db_qosout db' = db_qosout db \<and> owned db' = owned db \<and> db_sessions db' = db_sessions db"
proof -
  have db': "db' = db\<lparr>db_messages := filter (\<lambda>r. dm_id r \<noteq> i) (db_messages db)\<rparr>"
    using assms(3) by (simp add: delete_message_row_def)
  have "row_message db' r = row_message db r" if "r \<in> set (db_qosout db)" for r
  proof (rule row_message_cong)
    fix j assume "do_message_id r = Some j"
    with owned_row [OF that this] assms(2) have "j \<noteq> i" by auto
    then show "message_rows j db' = message_rows j db"
      unfolding db' message_rows_def by (auto intro!: filter_cong)
  qed
  then have "stored_queue db' = stored_queue db" by (auto simp: fun_eq_iff stored_queue_def db' own_rows_in)
  moreover have "db_ok db'"
    using assms(1,2) by (auto simp: db' db_ok_def foreign_keys_owned distinct_map inj_on_def)
  ultimately show ?thesis by (simp add: db')
qed

text \<open>The mark of a retransmission.\<close>

lemma update_dup_effect:
  assumes "db_ok db" and "update_dup_rows S (uint mid) True db = (ids, db')"
  shows "db_ok db' \<and> session_row_of db' = session_row_of db \<and> stored_received db' = stored_received db \<and>
    stored_queue db' S = map (map_option (mark_dup mid)) (stored_queue db S) \<and>
    map do_received (db_qosout db') = map do_received (db_qosout db)"
proof -
  let ?f = "\<lambda>r. if do_session_id r = S \<and> do_mid r = uint mid then r\<lparr>do_dup := True\<rparr> else r"
  have db': "db' = db\<lparr>db_qosout := map ?f (db_qosout db)\<rparr>" using assms(2) by (simp add: update_dup_rows_def)
  have sel: "do_id (?f r) = do_id r" "do_message_id (?f r) = do_message_id r" "do_received (?f r) = do_received r"
    "do_session_id (?f r) = do_session_id r" "do_mid (?f r) = do_mid r" for r by simp_all
  have same: "map do_id (map ?f rs) = map do_id rs" "map do_message_id (map ?f rs) = map do_message_id rs"
    "map do_received (map ?f rs) = map do_received rs" for rs by (simp_all only: map_map o_def sel)
  define qo where "qo = map ?f (db_qosout db)"
  have qo: "map do_id qo = map do_id (db_qosout db)" "map do_message_id qo = map do_message_id (db_qosout db)"
    "map do_received qo = map do_received (db_qosout db)" "\<And>S. S \<in> do_session_id ` set qo \<Longrightarrow> S \<in> do_session_id ` set (db_qosout db)"
    "\<And>m. m \<in> do_mid ` set qo \<Longrightarrow> m \<in> do_mid ` set (db_qosout db)"
    unfolding qo_def same by (auto simp only: set_map image_image sel)
  have db'': "db' = db\<lparr>db_qosout := qo\<rparr>" using db' by (simp add: qo_def)
  have own: "owned db' = owned db" by (simp add: owned_def db'' qo)
  have "db_ok db'"
    using assms(1) own qo(1,4,5) unfolding db_ok_def foreign_keys_owned by (auto simp: db'' image_iff) metis+
  have "row_message db (?f r) = map_option (mark_dup mid) (row_message db r)"
    if "r \<in> set (db_qosout db)" "do_session_id r = S" for r
  proof -
    have "do_mid r = uint mid \<longleftrightarrow> word_of_int (do_mid r) = mid"
      using mid_eq [of "do_mid r" mid] db_okD(10) [OF assms(1) that(1)] by blast
    then show ?thesis using that(2)
      by (auto simp: row_message_def option.map_comp o_def split: option.splits list.splits)
  qed
  moreover have "filter (\<lambda>r. do_session_id r = S) (map ?f rs) = map ?f (filter (\<lambda>r. do_session_id r = S) rs)" for rs
    by (induction rs) auto
  then have "own_rows db' S = map ?f (own_rows db S)" by (simp only: own_rows_def db') simp
  ultimately have "stored_queue db' S = map (map_option (mark_dup mid)) (stored_queue db S)"
    by (simp add: stored_queue_def db'' own_rows_in)
  with \<open>db_ok db'\<close> show ?thesis using qo(3) by (simp add: db'')
qed

end
