(* ===== verification/Sql_Session.thy ===== *)
theory Sql_Session
  imports Sql_Schema
begin

text \<open>
  The SQL storage of sessions keeps the promises of a session's storage, as long as the
  database works: what its tables show of a session, and what each call does to that.
\<close>

section \<open>What the tables show of a session\<close>

text \<open>The tables in order, names that do not repeat, and the queue's rows in the order of their times.\<close>

definition store_ok :: "('w \<Rightarrow> int) \<Rightarrow> 'w sql_store \<Rightarrow> bool" where
  "store_ok now p \<longleftrightarrow> db_ok (sq_db p) \<and> distinct (map ds_name (db_sessions (sq_db p))) \<and>
     sorted (map do_received (db_qosout (sq_db p))) \<and> (\<forall>r \<in> set (db_qosout (sq_db p)). do_received r \<le> now (sq_world p))"

definition row_view :: "session_row option \<Rightarrow> int set \<Rightarrow> mqtt_message option list \<Rightarrow> session_view option" where
  "row_view row received queue =
     (case row of
        None \<Rightarrow> None
      | Some r \<Rightarrow>
          if get_i32 (ds_id r) = Some (ds_id r) \<and> get_i32 (ds_next_mid r) = Some (ds_next_mid r) \<and> None \<notin> set queue then
            Some \<lparr>sv_name = ds_name r, sv_generation = ds_generation r, sv_next_mid = word_of_int (ds_next_mid r),
              sv_received = word_of_int ` received, sv_queue = map the queue\<rparr>
          else None)"

definition db_view :: "database \<Rightarrow> int \<Rightarrow> session_view option" where
  "db_view db S = row_view (session_row_of db S) (stored_received db S) (stored_queue db S)"

definition sql_view :: "'w sql_store \<Rightarrow> int \<Rightarrow> session_view option" where
  "sql_view p = db_view (sq_db p)"

lemma sql_viewE:
  assumes "sql_view p S = Some v"
  obtains r where "session_row_of (sq_db p) S = Some r" and "ds_id r = S" and "get_i32 S = Some S"
    and "get_i32 (ds_next_mid r) = Some (ds_next_mid r)" and "None \<notin> set (stored_queue (sq_db p) S)"
    and "v = \<lparr>sv_name = ds_name r, sv_generation = ds_generation r, sv_next_mid = word_of_int (ds_next_mid r),
      sv_received = word_of_int ` stored_received (sq_db p) S, sv_queue = map the (stored_queue (sq_db p) S)\<rparr>"
  using assms session_row_id unfolding sql_view_def db_view_def row_view_def by (force split: option.splits if_splits)

lemma store_okD:
  assumes "store_ok now p"
  shows "db_ok (sq_db p)" and "distinct (map ds_name (db_sessions (sq_db p)))"
    and "sorted (map do_received (db_qosout (sq_db p)))" and "r \<in> set (db_qosout (sq_db p)) \<Longrightarrow> do_received r \<le> now (sq_world p)"
  using assms by (simp_all add: store_ok_def)

text \<open>The order of times survives what keeps the rows or drops some, at any later time.\<close>

lemma store_ok_later:
  assumes "store_ok now p" and "db_ok db" and "map do_received (db_qosout db) = map do_received (db_qosout (sq_db p))"
    and "map ds_name (db_sessions db) = map ds_name (db_sessions (sq_db p))" and "now (sq_world p) \<le> now w"
  shows "store_ok now \<lparr>sq_db = db, sq_world = w\<rparr>"
proof -
  have "do_received ` set (db_qosout db) = do_received ` set (db_qosout (sq_db p))"
    using assms(3) by (metis list.set_map)
  then have "\<exists>q \<in> set (db_qosout (sq_db p)). do_received r = do_received q" if "r \<in> set (db_qosout db)" for r
    using that by (metis (mono_tags, lifting) imageE imageI)
  with assms show ?thesis unfolding store_ok_def by fastforce
qed

lemma store_ok_rows:
  assumes "store_ok now p" and "db_ok db" and "db_qosout db = filter P (db_qosout (sq_db p))"
    and "map ds_name (db_sessions db) = map ds_name (db_sessions (sq_db p))" and "now (sq_world p) \<le> now w"
  shows "store_ok now \<lparr>sq_db = db, sq_world = w\<rparr>"
  using assms by (auto simp: store_ok_def sorted_filter)

section \<open>Calls with one statement\<close>

lemma yields_pick:
  "yields now (or_error e (act_return x)) s (case x of Some a \<Rightarrow> Inr a | None \<Rightarrow> Inl (Failed e)) (sq_db s)"
  by (rule yieldsI [of _ _ _ _ "sq_world s"]) (auto simp: or_error_def split: option.split)

lemma get_u16_uint [simp]: "get_u16 (uint mid) = Some mid"
  using uint_range_size [of mid] by (simp add: get_u16_def word_size)

lemma tables_ok:
  assumes "db_ok db"
  shows "set [Tab_sessions] \<subseteq> set (db_tables db)" "set [Tab_qosin] \<subseteq> set (db_tables db)" "set [Tab_qosout] \<subseteq> set (db_tables db)"
    "set [Tab_messages] \<subseteq> set (db_tables db)" "set [Tab_subscriptions, Tab_topics] \<subseteq> set (db_tables db)"
  using db_okD(1) [OF assms] by simp_all

lemma yields_call:
  assumes works: "sql_works env now" and tables: "set tables \<subseteq> set (db_tables (sq_db p))"
    and f: "f (sq_db p) = (a, db)" and fk: "foreign_keys_ok (sq_db p) \<longrightarrow> foreign_keys_ok db"
    and g: "\<And>w. now (sq_world p) \<le> now w \<Longrightarrow> yields now (g a) \<lparr>sq_db = db, sq_world = w\<rparr> r db"
  shows "yields now (session_interact env (act_bind (session_statement env tables e f) g)) p (interact_result session_no_query r) db"
proof -
  have "yields now (act_bind (session_statement env tables e f) g) \<lparr>sq_db = sq_db p, sq_world = w\<rparr> r db"
    if le: "now (sq_world p) \<le> now w" for w
  proof (rule yields_bind)
    show "yields now (session_statement env tables e f) \<lparr>sq_db = sq_db p, sq_world = w\<rparr> (Inr a) db"
      by (rule yields_statement [OF works]) (use tables f fk in auto)
    show "yields now (g a) \<lparr>sq_db = db, sq_world = w'\<rparr> r db"
      if "now (sq_world \<lparr>sq_db = sq_db p, sq_world = w\<rparr>) \<le> now w'" for w'
      using g that le by simp
  qed
  then show ?thesis unfolding session_interact_def by (rule yields_interact [OF works])
qed

lemma yields_return_at: "yields now (act_return a) \<lparr>sq_db = db, sq_world = w\<rparr> (Inr a) db"
  using yields_return [of now a "\<lparr>sq_db = db, sq_world = w\<rparr>"] by simp

lemma yields_pick_at:
  "yields now (or_error e (act_return x)) \<lparr>sq_db = db, sq_world = w\<rparr> (case x of Some a \<Rightarrow> Inr a | None \<Rightarrow> Inl (Failed e)) db"
  using yields_pick [of now e x "\<lparr>sq_db = db, sq_world = w\<rparr>"] by simp

lemma shown_or_failed:
  assumes "runs now call p (\<lambda>r s'. case r of Inl e \<Rightarrow> \<exists>m. e = Session_Persist m | Inr _ \<Rightarrow> store_ok now s' \<and> sql_view s' S = Some v)"
  shows "shows_or_fails (store_ok now) sql_view S v (call p)"
proof -
  obtain r db w where "call p = (r, \<lparr>sq_db = db, sq_world = w\<rparr>)"
    "case r of Inl e \<Rightarrow> \<exists>m. e = Session_Persist m | Inr _ \<Rightarrow> store_ok now \<lparr>sq_db = db, sq_world = w\<rparr> \<and> sql_view \<lparr>sq_db = db, sq_world = w\<rparr> S = Some v"
    using assms by (rule runsE)
  then show ?thesis by (cases r) (simp_all add: shows_or_fails_def)
qed

lemma shown:
  assumes "yields now call p (Inr a) db" and "\<And>w. now (sq_world p) \<le> now w \<Longrightarrow> store_ok now \<lparr>sq_db = db, sq_world = w\<rparr>"
    and "db_view db S = Some v"
  shows "shows_now (store_ok now) sql_view S v a (call p)"
  using assms by (auto simp: yields_def shows_now_def sql_view_def)

lemma shown_yields:
  assumes "yields now call p (Inr a) db" and "\<And>w. now (sq_world p) \<le> now w \<Longrightarrow> store_ok now \<lparr>sq_db = db, sq_world = w\<rparr>"
    and "db_view db S = Some v"
  shows "shows_or_fails (store_ok now) sql_view S v (call p)"
  using assms by (auto simp: yields_def shows_or_fails_def sql_view_def)

lemma shows_now_or_fails: "shows_now ok view S v a c \<Longrightarrow> shows_or_fails ok view S v c"
  by (auto simp: shows_now_def shows_or_fails_def)


lemma db_view_same:
  assumes "session_row_of db' = session_row_of db" and "stored_received db' = stored_received db" and "stored_queue db' = stored_queue db"
  shows "db_view db' = db_view db"
  using assms by (simp add: db_view_def fun_eq_iff)

lemma update_session_names:
  "(\<And>x. ds_name (f x) = ds_name x) \<Longrightarrow> update_session_row S f db = (rows, db') \<Longrightarrow>
   map ds_name (db_sessions db') = map ds_name (db_sessions db)"
  by (auto simp: update_session_row_def)

lemma shows_update_session:
  assumes works: "sql_works env now" and ok: "store_ok now p" and view: "sql_view p S = Some v"
    and f: "\<And>x. ds_id (f x) = ds_id x" "\<And>x. ds_name (f x) = ds_name x"
    and next_mid: "\<And>x. get_i32 (ds_next_mid (f x)) = Some (ds_next_mid (f x))"
    and h: "\<And>x. ds_id x = S \<Longrightarrow> h [f x] = Some a"
    and v': "\<And>x. ds_name x = sv_name v \<Longrightarrow> v' = v\<lparr>sv_generation := ds_generation (f x), sv_next_mid := word_of_int (ds_next_mid (f x))\<rparr> \<or>
      ds_generation x \<noteq> sv_generation v"
  shows "shows_now (store_ok now) sql_view S v' a
    (session_interact env (act_bind (session_statement env [Tab_sessions] e (update_session_row S f))
      (\<lambda>rows. or_error e' (act_return (h rows)))) p)"
proof -
  obtain r where r: "session_row_of (sq_db p) S = Some r" "ds_id r = S" "get_i32 S = Some S"
    "None \<notin> set (stored_queue (sq_db p) S)"
    "v = \<lparr>sv_name = ds_name r, sv_generation = ds_generation r, sv_next_mid = word_of_int (ds_next_mid r),
      sv_received = word_of_int ` stored_received (sq_db p) S, sv_queue = map the (stored_queue (sq_db p) S)\<rparr>"
    using view by (rule sql_viewE)
  obtain rows db where u: "update_session_row S f (sq_db p) = (rows, db)" by force
  note db = store_okD(1) [OF ok]
  have eff: "db_ok db" "rows = [f r]" "session_row_of db S = Some (f r)" "stored_received db = stored_received (sq_db p)"
    "stored_queue db = stored_queue (sq_db p)" "db_qosout db = db_qosout (sq_db p)"
    using update_session_effect [OF db r(1) f(1) u] by simp_all
  have "yields now (session_interact env (act_bind (session_statement env [Tab_sessions] e (update_session_row S f))
      (\<lambda>rows. or_error e' (act_return (h rows))))) p (interact_result session_no_query (case h rows of Some a \<Rightarrow> Inr a | None \<Rightarrow> Inl (Failed e'))) db"
    by (rule yields_call [where p = p and f = "update_session_row S f" and a = rows and db = db and
        g = "\<lambda>rows. or_error e' (act_return (h rows))", OF works tables_ok(1) [OF db] u])
      (simp_all add: db_okD(6) [OF eff(1)] yields_pick_at)
  then have y: "yields now (session_interact env (act_bind (session_statement env [Tab_sessions] e (update_session_row S f))
      (\<lambda>rows. or_error e' (act_return (h rows))))) p (Inr a) db"
    using h [OF r(2)] eff(2) by simp
  show ?thesis
  proof (rule shown [OF y])
    show "store_ok now \<lparr>sq_db = db, sq_world = w\<rparr>" if "now (sq_world p) \<le> now w" for w
      by (rule store_ok_later [OF ok eff(1) _ update_session_names [OF f(2) u] that]) (simp add: eff(6))
    show "db_view db S = Some v'"
      using v' [of r] r next_mid [of r] by (auto simp: db_view_def row_view_def eff(3-5) f)
  qed
qed

lemma shows_update_mid:
  assumes "sql_works env now" and "store_ok now p" and "sql_view p S = Some v"
  shows "shows_now (store_ok now) sql_view S (v\<lparr>sv_next_mid := mid\<rparr>) mid (sql_update_session_mid env S mid p)"
proof -
  have "0 \<le> uint mid" "uint mid < 65536" using uint_range_size [of mid] by (simp_all add: word_size)
  then have "- 2147483648 \<le> uint mid" "uint mid < 2147483648" by linarith+
  then show ?thesis
    unfolding sql_update_session_mid_def Let_def
    by (intro shows_update_session [OF assms]) (auto simp: get_i32_def)
qed

lemma shows_update_generation:
  assumes "sql_works env now" and "store_ok now p" and "sql_view p S = Some v"
  shows "shows_now (store_ok now) sql_view S (v\<lparr>sv_generation := g, sv_next_mid := 1\<rparr>) S (sql_update_session_generation env S g p)"
proof -
  have "get_i32 S = Some S" using assms(3) by (rule sql_viewE)
  then show ?thesis
    unfolding sql_update_session_generation_def Let_def
    by (intro shows_update_session [OF assms]) (auto simp: get_i32_def)
qed

section \<open>Received identifiers\<close>

lemma db_view_queue_row:
  assumes "db_view db S = Some v" and "session_row_of db' = session_row_of db" and "stored_queue db' = stored_queue db"
    and "word_of_int ` stored_received db' S = received"
  shows "db_view db' S = Some (v\<lparr>sv_received := received\<rparr>)"
  using assms by (auto simp: db_view_def row_view_def split: option.splits if_splits)

lemma shows_store_received:
  assumes works: "sql_works env now" and ok: "store_ok now p" and view: "sql_view p S = Some v"
  shows "shows_or_fails (store_ok now) sql_view S (v\<lparr>sv_received := insert mid (sv_received v)\<rparr>) (sql_qos_incoming_store env S mid p)"
proof (rule shown_or_failed)
  note db = store_okD(1) [OF ok]
  have S: "S \<in> ds_id ` set (db_sessions (sq_db p))" using view by (rule sql_viewE) (rule session_exists)
  let ?P = "\<lambda>r s'. case r of Inl e \<Rightarrow> \<exists>m. e = Session_Persist m
    | Inr a \<Rightarrow> store_ok now s' \<and> sql_view s' S = Some (v\<lparr>sv_received := insert mid (sv_received v)\<rparr>)"
  show "runs now (sql_qos_incoming_store env S mid) p ?P"
    unfolding sql_qos_incoming_store_def Let_def session_interact_def
  proof (rule runs_interact [OF works], rule runs_clock [OF works])
    fix w t w'
    assume le: "now (sq_world p) \<le> now w" "now (sq_world \<lparr>sq_db = sq_db p, sq_world = w\<rparr>) \<le> t" "t \<le> now w'"
    let ?i = "next_row_id (map di_id (db_qosin (sq_db p)))"
    define db' where "db' = (sq_db p)\<lparr>db_qosin := db_qosin (sq_db p) @
      [\<lparr>di_id = ?i, di_session_id = S, di_received = t, di_mid = uint mid\<rparr>]\<rparr>"
    have eff: "db_ok db'" "stored_received db' S = insert (uint mid) (stored_received (sq_db p) S)"
      "session_row_of db' = session_row_of (sq_db p)" "stored_queue db' = stored_queue (sq_db p)"
      "db_qosout db' = db_qosout (sq_db p)"
      using insert_qosin_effect [OF db S db'_def] by simp_all
    have "db_view db' S = Some (v\<lparr>sv_received := insert mid (sv_received v)\<rparr>)"
    proof (rule db_view_queue_row [OF _ eff(3,4)])
      show "db_view (sq_db p) S = Some v" using view by (simp add: sql_view_def)
      show "word_of_int ` stored_received db' S = insert mid (sv_received v)"
        using view by (rule sql_viewE) (simp add: eff(2))
    qed
    moreover have "store_ok now \<lparr>sq_db = db', sq_world = u\<rparr>" if "now w' \<le> now u" for u
      by (rule store_ok_later [OF ok eff(1)]) (use le that in \<open>auto simp: eff(5) db'_def\<close>)
    ultimately have after: "store_ok now \<lparr>sq_db = db', sq_world = u\<rparr> \<and> sql_view \<lparr>sq_db = db', sq_world = u\<rparr> S =
        Some (v\<lparr>sv_received := insert mid (sv_received v)\<rparr>)" if "now w' \<le> now u" for u
      using that by (simp add: sql_view_def)
    show "runs now (act_bind (session_statement env [Tab_qosin] (Session_Persist ''Error storing qosin mid'')
           (\<lambda>db. (next_row_id (map di_id (db_qosin db)), db\<lparr>db_qosin := db_qosin db @
               [\<lparr>di_id = next_row_id (map di_id (db_qosin db)), di_session_id = S, di_received = t, di_mid = uint mid\<rparr>]\<rparr>))) (\<lambda>i.
         or_error (Session_Persist ''Error storing qosin mid'') (act_return (get_i32 i))))
      \<lparr>sq_db = sq_db \<lparr>sq_db = sq_db p, sq_world = w\<rparr>, sq_world = w'\<rparr> (\<lambda>r. ?P (interact_result session_no_query r))"
    proof (rule runs_bind [where a = ?i and db = db', OF yields_statement [OF works]])
      show "runs now (or_error (Session_Persist ''Error storing qosin mid'') (act_return (get_i32 ?i))) \<lparr>sq_db = db', sq_world = u\<rparr>
          (\<lambda>r. ?P (interact_result session_no_query r))"
        if "now (sq_world \<lparr>sq_db = sq_db \<lparr>sq_db = sq_db p, sq_world = w\<rparr>, sq_world = w'\<rparr>) \<le> now u" for u
        by (rule runs_yields [OF yields_pick_at]) (use that after in \<open>auto split: option.split\<close>)
    qed (use db_okD(1) [OF db] db_okD(6) [OF eff(1)] in \<open>auto simp: db'_def Let_def\<close>)
  qed
qed

lemma filter_received:
  assumes works: "sql_works env now" and ok: "store_ok now p" and view: "sql_view p S = Some v"
    and r: "word_of_int ` di_mid ` {r \<in> set (db_qosin (sq_db p)). di_session_id r = S \<and> P r} = received"
  shows "shows_now (store_ok now) sql_view S (v\<lparr>sv_received := received\<rparr>) a
    (session_interact env (act_bind (session_statement env [Tab_qosin] e
      (\<lambda>db. ((), db\<lparr>db_qosin := filter P (db_qosin db)\<rparr>))) (\<lambda>_. act_return a)) p)"
proof -
  note db = store_okD(1) [OF ok]
  define db' where "db' = (sq_db p)\<lparr>db_qosin := filter P (db_qosin (sq_db p))\<rparr>"
  have eff: "db_ok db'" "stored_received db' S = di_mid ` {r \<in> set (db_qosin (sq_db p)). di_session_id r = S \<and> P r}"
    "session_row_of db' = session_row_of (sq_db p)" "stored_queue db' = stored_queue (sq_db p)" "db_qosout db' = db_qosout (sq_db p)"
    using filter_qosin_effect [OF db db'_def, of S] by simp_all
  show ?thesis
  proof (rule shown)
    show "yields now (session_interact env (act_bind (session_statement env [Tab_qosin] e
      (\<lambda>db. ((), db\<lparr>db_qosin := filter P (db_qosin db)\<rparr>))) (\<lambda>_. act_return a))) p (Inr a) db'"
      using yields_call [where p = p and f = "\<lambda>db. ((), db\<lparr>db_qosin := filter P (db_qosin db)\<rparr>)" and a = "()" and db = db'
          and g = "\<lambda>_. act_return a" and r = "Inr a" and e = e, OF works tables_ok(2) [OF db] _ _ yields_return_at]
      by (simp add: db'_def [symmetric] db_okD(6) [OF eff(1)])
    show "store_ok now \<lparr>sq_db = db', sq_world = w\<rparr>" if "now (sq_world p) \<le> now w" for w
      by (rule store_ok_later [OF ok eff(1) _ _ that]) (simp_all add: eff(5) db'_def)
    show "db_view db' S = Some (v\<lparr>sv_received := received\<rparr>)"
      by (rule db_view_queue_row [OF _ eff(3,4)]) (use view r in \<open>simp_all add: sql_view_def eff(2)\<close>)
  qed
qed

lemma shows_delete_received:
  assumes "sql_works env now" and ok: "store_ok now p" and view: "sql_view p S = Some v"
  shows "shows_now (store_ok now) sql_view S (v\<lparr>sv_received := sv_received v - {mid}\<rparr>) mid (sql_qos_incoming_delete env S mid p)"
proof -
  have eq: "word_of_int (di_mid r) = mid \<longleftrightarrow> di_mid r = uint mid" if "r \<in> set (db_qosin (sq_db p))" for r
    using mid_eq db_okD(9) [OF store_okD(1) [OF ok] that] by blast
  have "sv_received v = word_of_int ` stored_received (sq_db p) S" using view by (rule sql_viewE) simp
  then have "word_of_int ` di_mid ` {r \<in> set (db_qosin (sq_db p)). di_session_id r = S \<and> \<not> (di_session_id r = S \<and> di_mid r = uint mid)} =
      sv_received v - {mid}"
    using eq by (auto simp: stored_received_def)
  from filter_received [OF assms this] show ?thesis unfolding sql_qos_incoming_delete_def .
qed

lemma shows_clear_received:
  assumes "sql_works env now" and "store_ok now p" and "sql_view p S = Some v"
  shows "shows_now (store_ok now) sql_view S (v\<lparr>sv_received := {}\<rparr>) S (sql_qos_incoming_clear env S p)"
  unfolding sql_qos_incoming_clear_def by (rule filter_received [OF assms]) auto

section \<open>Bodies with more than one step\<close>

text \<open>An error that is reported as one of the storage.\<close>

definition persist_error :: "session_error failure \<Rightarrow> bool" where
  "persist_error e \<longleftrightarrow> (\<forall>x. e = Failed x \<longrightarrow> (\<exists>m. x = Session_Persist m))"

lemma persist_error_simps [simp]:
  "persist_error Panicked" "persist_error (Failed (Session_Persist m))"
  by (simp_all add: persist_error_def)

definition or_fails :: "('a \<Rightarrow> 's \<Rightarrow> bool) \<Rightarrow> session_error failure + 'a \<Rightarrow> 's \<Rightarrow> bool" where
  "or_fails K r s = (case r of Inl e \<Rightarrow> persist_error e | Inr a \<Rightarrow> K a s)"

lemma or_fails_simps [simp]: "or_fails K (Inl e) s = persist_error e" "or_fails K (Inr a) s = K a s"
  by (simp_all add: or_fails_def)

lemma runs_seq:
  assumes "runs now m s (or_fails (\<lambda>a s'. runs now (f a) s' (or_fails K)))"
  shows "runs now (act_bind m f) s (or_fails K)"
proof -
  obtain r db w where m: "m s = (r, \<lparr>sq_db = db, sq_world = w\<rparr>)" "now (sq_world s) \<le> now w"
    "or_fails (\<lambda>a s'. runs now (f a) s' (or_fails K)) r \<lparr>sq_db = db, sq_world = w\<rparr>"
    using assms by (rule runsE)
  show ?thesis
  proof (cases r)
    case (Inl e)
    with m show ?thesis by (intro runsI [of _ _ "Inl e" db w]) (simp_all add: act_bind_app)
  next
    case (Inr a)
    with m have "runs now (f a) \<lparr>sq_db = db, sq_world = w\<rparr> (or_fails K)" by simp
    then obtain r' db' w' where "f a \<lparr>sq_db = db, sq_world = w\<rparr> = (r', \<lparr>sq_db = db', sq_world = w'\<rparr>)" "now w \<le> now w'"
      "or_fails K r' \<lparr>sq_db = db', sq_world = w'\<rparr>" by (rule runsE) simp
    with m Inr show ?thesis by (intro runsI [of _ _ r' db' w']) (simp_all add: act_bind_app)
  qed
qed

lemma runs_or_fails:
  "yields now m s (Inr a) db \<Longrightarrow> (\<And>w. now (sq_world s) \<le> now w \<Longrightarrow> K a \<lparr>sq_db = db, sq_world = w\<rparr>) \<Longrightarrow> runs now m s (or_fails K)"
  by (rule runs_yields, assumption) simp

lemma runs_pick:
  "(\<And>a. x = Some a \<Longrightarrow> K a s) \<Longrightarrow> runs now (or_error (Session_Persist e) (act_return x)) s (or_fails K)"
  by (rule runsI [of _ _ "case x of Some a \<Rightarrow> Inr a | None \<Rightarrow> Inl (Failed (Session_Persist e))" "sq_db s" "sq_world s"])
    (auto simp: or_error_def store_eq split: option.split)

lemma runs_return: "K a s \<Longrightarrow> runs now (act_return a) s (or_fails K)"
  by (rule runsI [of _ _ "Inr a" "sq_db s" "sq_world s"]) (simp_all add: store_eq)

lemma runs_fail: "persist_error e \<Longrightarrow> runs now (act_fail e) s (or_fails K)"
  by (rule runsI [of _ _ "Inl e" "sq_db s" "sq_world s"]) simp_all

lemma runs_statement:
  assumes "sql_works env now" and "set tables \<subseteq> set (db_tables (sq_db s))"
    and "f (sq_db s) = (a, db)" and "foreign_keys_ok db"
    and "\<And>w. now (sq_world s) \<le> now w \<Longrightarrow> K a \<lparr>sq_db = db, sq_world = w\<rparr>"
  shows "runs now (session_statement env tables e f) s (or_fails K)"
  by (rule runs_or_fails, rule yields_statement [where f = f], rule assms(1), rule assms(2), rule assms(3))
    (simp_all add: assms(4,5))

lemma runs_execute:
  assumes "sql_works env now" and "set tables \<subseteq> set (db_tables (sq_db s))"
    and "f (sq_db s) = (a, db)" and "foreign_keys_ok db"
    and "\<And>w. now (sq_world s) \<le> now w \<Longrightarrow> K a \<lparr>sq_db = db, sq_world = w\<rparr>"
  shows "runs now (or_error e (sql_execute env tables f)) s (or_fails K)"
  by (rule runs_or_fails, rule yields_or_error(1), rule yields_execute [where f = f], rule assms(1), rule assms(2), rule assms(3))
    (simp_all add: assms(4,5))

lemma runs_commit:
  assumes "sql_works env now"
    and "\<And>w. now (sq_world s) \<le> now w \<Longrightarrow> runs now body \<lparr>sq_db = sq_db s, sq_world = w\<rparr>
      (or_fails (\<lambda>a s'. \<forall>w. now (sq_world s') \<le> now w \<longrightarrow> K a \<lparr>sq_db = sq_db s', sq_world = w\<rparr>))"
  shows "runs now (sql_transaction env (Session_Persist e1) (Session_Persist e2) body) s (or_fails K)"
  by (rule runs_transaction [OF assms(1)], rule runs_mono [OF assms(2)]) (auto split: sum.split)

lemma shows_interact:
  assumes works: "sql_works env now"
    and "\<And>w. now (sq_world p) \<le> now w \<Longrightarrow> runs now body \<lparr>sq_db = sq_db p, sq_world = w\<rparr>
      (or_fails (\<lambda>_ s'. store_ok now s' \<and> sql_view s' S = Some v))"
  shows "shows_or_fails (store_ok now) sql_view S v (session_interact env body p)"
  unfolding session_interact_def
proof (rule shown_or_failed, rule runs_interact [OF works], rule runs_mono [OF assms(2)])
  fix r s' assume "or_fails (\<lambda>_ s'. store_ok now s' \<and> sql_view s' S = Some v) r s'"
  then show "case interact_result session_no_query r of Inl e \<Rightarrow> \<exists>m. e = Session_Persist m
      | Inr _ \<Rightarrow> store_ok now s' \<and> sql_view s' S = Some v"
    by (cases r) (auto simp: interact_result_def persist_error_def session_no_query_def split: failure.split)
qed

section \<open>The queue\<close>

lemma stored_message_row:
  "stored_message \<lparr>dm_id = i, dm_qos = uint qos, dm_topic = topic, dm_payload = payload\<rparr> =
     Some (publish_new\<lparr>pub_topic := topic, pub_qos := qos, pub_message := payload\<rparr>)"
proof -
  have "0 \<le> uint qos" "uint qos < 256" using uint_range_size [of qos] by (simp_all add: word_size)
  then have "- 32768 \<le> uint qos" "uint qos < 32768" by linarith+
  then show ?thesis by (simp add: stored_message_def get_i16_def)
qed

text \<open>The message row of a PUBLISH: only the messages change, and the new row is nobody's yet.\<close>

definition message_added :: "database \<Rightarrow> mqtt_message \<Rightarrow> int \<Rightarrow> int option \<Rightarrow> database \<Rightarrow> bool" where
  "message_added db m mtype mi db' \<longleftrightarrow> db_ok db' \<and> session_row_of db' = session_row_of db \<and> stored_received db' = stored_received db \<and>
     stored_queue db' = stored_queue db \<and> db_qosout db' = db_qosout db \<and> db_sessions db' = db_sessions db \<and>
     (case mi of None \<Rightarrow> True | Some i \<Rightarrow> i \<notin> set (owned db') \<and> i \<in> dm_id ` set (db_messages db') \<and> get_i32 i = Some i) \<and>
     (\<forall>mid r. outgoing_id m = Some mid \<longrightarrow> do_message_id r = mi \<longrightarrow> do_type r = mtype \<longrightarrow> do_mid r = uint mid \<longrightarrow> \<not> do_dup r \<longrightarrow>
        row_message db' r = Some (stored_form m))"

lemma get_i32_same: "get_i32 i = Some j \<Longrightarrow> j = i"
  by (simp add: get_i32_def split: if_splits)

lemma store_message_row_runs:
  assumes works: "sql_works env now" and db: "db_ok (sq_db s)" and m: "outgoing_id m = Some mid" "\<forall>x. m = Publish x \<longrightarrow> \<not> pub_dup x"
  shows "runs now (store_message_row env m) s (or_fails (\<lambda>q s'. message_added (sq_db s) m (fst q) (snd q) (sq_db s')))"
proof (cases m)
  case (Publish x)
  obtain i db' where ins: "insert_message_row (pub_qos x) (pub_topic x) (pub_message x) (sq_db s) = (i, db')" by force
  note eff = insert_message_effect [OF db ins]
  show ?thesis
    unfolding store_message_row_def Let_def Publish mqtt_message.case
  proof (rule runs_seq, rule runs_statement [where f = "insert_message_row (pub_qos x) (pub_topic x) (pub_message x)", OF works tables_ok(4) [OF db] ins])
    show "foreign_keys_ok db'" using eff by (simp add: db_okD(6))
    show "runs now (act_bind (or_error (Session_Persist ''QoS outgoing message store failed'') (act_return (get_i32 i)))
          (\<lambda>stored_message_id. act_return (message_type_code Type_Publish, Some stored_message_id)))
        \<lparr>sq_db = db', sq_world = w\<rparr>
        (or_fails (\<lambda>q s'. message_added (sq_db s) (Publish x) (fst q) (snd q) (sq_db s')))" for w
    proof (rule runs_seq, rule runs_pick, rule runs_return)
      fix j assume j: "get_i32 i = Some j"
      have "j = i" using j by (rule get_i32_same)
      moreover have "row_message db' r = Some (stored_form (Publish x))"
        if "do_message_id r = Some i" "do_type r = message_type_code Type_Publish" "do_mid r = uint (pub_identifier x)" "\<not> do_dup r" for r
        using that m(2) eff Publish by (simp add: row_message_def stored_message_row)
      ultimately show "message_added (sq_db s) (Publish x) (fst (message_type_code Type_Publish, Some j))
          (snd (message_type_code Type_Publish, Some j)) (sq_db \<lparr>sq_db = db', sq_world = w\<rparr>)"
        using eff j by (auto simp add: message_added_def)
    qed
  qed
next
  case (PubRec x)
  have "row_message (sq_db s) r = Some (PubRec x)"
    if "do_type r = message_type_code Type_PubRec" "do_mid r = uint (pr_identifier x)" for r
    using that by (simp add: row_message_def)
  then show ?thesis unfolding store_message_row_def Let_def PubRec mqtt_message.case
    by (intro runs_return) (simp add: message_added_def db)
qed (use m in \<open>simp_all add: outgoing_id_def\<close>)

lemma runs_after:
  assumes "runs now m s P"
    and "\<And>r s'. now (sq_world s) \<le> now (sq_world s') \<Longrightarrow> P r s' \<Longrightarrow> Q r s'"
  shows "runs now m s Q"
  using assms unfolding runs_def by fastforce

lemma db_view_queue:
  assumes "db_view db S = Some v" and "session_row_of db' = session_row_of db" and "stored_received db' = stored_received db"
    and "stored_queue db' S = map Some q"
  shows "db_view db' S = Some (v\<lparr>sv_queue := q\<rparr>)"
  using assms by (auto simp: db_view_def row_view_def o_def split: option.splits if_splits)

lemma view_queue:
  assumes "db_view db S = Some v"
  shows "stored_queue db S = map Some (sv_queue v)"
proof -
  from assms have "None \<notin> set (stored_queue db S)" "sv_queue v = map the (stored_queue db S)"
    by (auto simp: db_view_def row_view_def split: option.splits if_splits)
  then show ?thesis by (metis (no_types, lifting) map_idI map_map o_apply option.collapse)
qed

lemma shows_store_message:
  assumes works: "sql_works (env :: 'w sql_env) now" and ok: "store_ok now p" and view: "sql_view p S = Some v"
    and m: "outgoing_id m = Some mid" "\<forall>x. m = Publish x \<longrightarrow> \<not> pub_dup x"
  shows "shows_or_fails (store_ok now) sql_view S (v\<lparr>sv_queue := sv_queue v @ [stored_form m]\<rparr>) (sql_qos_outgoing_store env S mid m p)"
  unfolding sql_qos_outgoing_store_def Let_def
proof (rule shows_interact [OF works], rule runs_seq, rule runs_commit [OF works], rule runs_seq,
    rule runs_after [OF store_message_row_runs [OF works _ m]])
  note db = store_okD(1) [OF ok]
  have S: "S \<in> ds_id ` set (db_sessions (sq_db p))" using view by (rule sql_viewE) (rule session_exists)
  show "db_ok (sq_db \<lparr>sq_db = sq_db \<lparr>sq_db = sq_db p, sq_world = w\<rparr>, sq_world = w1\<rparr>)"
    if "now (sq_world p) \<le> now w" "now (sq_world \<lparr>sq_db = sq_db p, sq_world = w\<rparr>) \<le> now w1" for w w1 using db by simp
  fix w w1 r and s' :: "'w sql_store"
  let ?K = "\<lambda>_ s'. store_ok now s' \<and> sql_view s' S = Some (v\<lparr>sv_queue := sv_queue v @ [stored_form m]\<rparr>)"
  let ?C = "\<lambda>_ s'. \<forall>w. now (sq_world s') \<le> now w \<longrightarrow> runs now (act_return mid) \<lparr>sq_db = sq_db s', sq_world = w\<rparr> (or_fails ?K)"
  assume le: "now (sq_world p) \<le> now w" "now (sq_world \<lparr>sq_db = sq_db p, sq_world = w\<rparr>) \<le> now w1"
    "now (sq_world \<lparr>sq_db = sq_db \<lparr>sq_db = sq_db p, sq_world = w\<rparr>, sq_world = w1\<rparr>) \<le> now (sq_world s')"
    and row: "or_fails (\<lambda>q s'. message_added (sq_db \<lparr>sq_db = sq_db \<lparr>sq_db = sq_db p, sq_world = w\<rparr>, sq_world = w1\<rparr>)
      m (fst q) (snd q) (sq_db s')) r s'"
  show "or_fails (\<lambda>q s'. runs now (case q of (mtype, message_id) \<Rightarrow> act_bind (sql_now env) (\<lambda>now. act_bind
      (or_error (Session_Persist ''Message retain failed'') (sql_execute env [Tab_qosout] (insert_qosout_row now S mtype (uint mid) message_id)))
      (\<lambda>i. or_error (Session_Persist ''Message retain failed'') (act_return (get_i32 i))))) s' (or_fails ?C)) r s'"
  proof (cases r)
    case (Inr q)
    obtain mtype mi where q: "q = (mtype, mi)" by (cases q)
    have added: "message_added (sq_db p) m mtype mi (sq_db s')" using row Inr q by simp
    then have eff1: "db_ok (sq_db s')" "session_row_of (sq_db s') = session_row_of (sq_db p)"
      "stored_received (sq_db s') = stored_received (sq_db p)" "stored_queue (sq_db s') = stored_queue (sq_db p)"
      "db_qosout (sq_db s') = db_qosout (sq_db p)" "db_sessions (sq_db s') = db_sessions (sq_db p)"
      "case mi of None \<Rightarrow> True | Some i \<Rightarrow> i \<notin> set (owned (sq_db s')) \<and> i \<in> dm_id ` set (db_messages (sq_db s')) \<and> get_i32 i = Some i"
      unfolding message_added_def by blast+
    have "runs now (act_bind (sql_now env) (\<lambda>now. act_bind
      (or_error (Session_Persist ''Message retain failed'') (sql_execute env [Tab_qosout] (insert_qosout_row now S mtype (uint mid) mi)))
      (\<lambda>i. or_error (Session_Persist ''Message retain failed'') (act_return (get_i32 i))))) s' (or_fails ?C)"
    proof (rule runs_clock [OF works])
      fix t w2 assume t: "now (sq_world s') \<le> t" "t \<le> now w2"
      obtain k db' where ins: "insert_qosout_row t S mtype (uint mid) mi (sq_db s') = (k, db')" by force
      have S': "S \<in> ds_id ` set (db_sessions (sq_db s'))" using S eff1(6) by simp
      let ?r = "\<lparr>do_id = k, do_session_id = S, do_message_id = mi, do_received = t, do_type = mtype, do_mid = uint mid, do_dup = False\<rparr>"
      from insert_qosout_effect [OF eff1(1) S' eff1(7) ins]
      have eff2: "db_ok db'" "session_row_of db' = session_row_of (sq_db p)" "stored_received db' = stored_received (sq_db p)"
        "stored_queue db' S = stored_queue (sq_db p) S @ [row_message (sq_db s') ?r]"
        "db_qosout db' = db_qosout (sq_db p) @ [?r]" using eff1 by simp_all
      have names: "db_sessions db' = db_sessions (sq_db p)" using ins eff1(6) by (auto simp: insert_qosout_row_def Let_def)
      have "row_message (sq_db s') ?r = Some (stored_form m)"
        using added m(1) unfolding message_added_def by (metis qosout_row.select_convs(3,5-7))
      then have view': "db_view db' S = Some (v\<lparr>sv_queue := sv_queue v @ [stored_form m]\<rparr>)"
        using view_queue [of "sq_db p" S v] view eff2(4) by (intro db_view_queue [OF _ eff2(2,3)]) (simp_all add: sql_view_def)
      have ok': "store_ok now \<lparr>sq_db = db', sq_world = u\<rparr>" if "now w2 \<le> now u" for u
        using ok eff2(1,5) names le t that by (fastforce simp: store_ok_def sorted_append)
      show "runs now (act_bind (or_error (Session_Persist ''Message retain failed'')
            (sql_execute env [Tab_qosout] (insert_qosout_row t S mtype (uint mid) mi)))
          (\<lambda>i. or_error (Session_Persist ''Message retain failed'') (act_return (get_i32 i)))) \<lparr>sq_db = sq_db s', sq_world = w2\<rparr> (or_fails ?C)"
      proof (rule runs_seq, rule runs_execute [where f = "insert_qosout_row t S mtype (uint mid) mi", OF works])
        show "runs now (or_error (Session_Persist ''Message retain failed'') (act_return (get_i32 k)))
            \<lparr>sq_db = db', sq_world = w3\<rparr> (or_fails ?C)" if "now (sq_world \<lparr>sq_db = sq_db s', sq_world = w2\<rparr>) \<le> now w3" for w3
          by (rule runs_pick) (use that ok' view' in \<open>auto intro!: runs_return simp: sql_view_def\<close>)
      qed (use ins eff1(1) eff2(1) db_okD(1,6) in auto)
    qed
    with Inr q show ?thesis by simp
  qed (use row in simp)
qed

text \<open>The rows of a queue that is shown and the queue itself.\<close>

lemma queue_rows_conj:
  assumes "db_ok db"
  shows "map (row_message db) rows = map Some q \<Longrightarrow> set rows \<subseteq> set (db_qosout db) \<Longrightarrow>
    map outgoing_id q = map (\<lambda>r. Some (word_of_int (do_mid r))) rows \<and>
    map (row_message db) (filter (\<lambda>r. do_mid r \<noteq> uint mid) rows) = map Some (filter (\<lambda>x. \<not> has_outgoing_id mid x) q)"
proof (induction rows arbitrary: q)
  case (Cons r rows)
  obtain x q' where q: "q = x # q'" "row_message db r = Some x" "map (row_message db) rows = map Some q'"
    using Cons.prems(1) by (cases q) auto
  have "do_mid r = uint mid \<longleftrightarrow> word_of_int (do_mid r) = mid"
    using mid_eq [of "do_mid r" mid] db_okD(10) [OF assms] Cons.prems(2) by simp
  with Cons.IH [OF q(3)] Cons.prems(2) q row_message_id [OF q(2)] show ?case by (simp add: has_outgoing_id_iff)
qed simp

lemmas queue_rows = conjunct1 [OF queue_rows_conj] conjunct2 [OF queue_rows_conj]

lemma selected_row:
  assumes "db_ok db" and "db_view db S = Some v" and "distinct (map outgoing_id (sv_queue v))"
    and "Some mid \<in> outgoing_id ` set (sv_queue v)"
  obtains r where "filter (\<lambda>r. do_session_id r = S \<and> do_mid r = uint mid) (db_qosout db) = [r]"
proof -
  let ?rows = "own_rows db S" and ?f = "\<lambda>r. Some (word_of_int (do_mid r) :: u16)"
  have q: "map (row_message db) ?rows = map Some (sv_queue v)"
    using view_queue [OF assms(2)] by (simp add: stored_queue_def)
  have sub: "set ?rows \<subseteq> set (db_qosout db)" by (auto simp: own_rows_def)
  note ids = queue_rows(1) [OF assms(1) q sub]
  have eq: "?f r = Some mid \<longleftrightarrow> do_mid r = uint mid" if "r \<in> set ?rows" for r
    using mid_eq [of "do_mid r" mid] db_okD(10) [OF assms(1)] sub that by auto
  have one: "\<exists>r. filter (\<lambda>r. do_mid r = uint mid) rs = [r]"
    if "distinct (map ?f rs)" "Some mid \<in> ?f ` set rs" "set rs \<subseteq> set ?rows" for rs
    using that
  proof (induction rs)
    case (Cons r rs)
    show ?case
    proof (cases "do_mid r = uint mid")
      case True
      with Cons.prems(1) have "do_mid x \<noteq> uint mid" if "x \<in> set rs" for x using that by force
      with True show ?thesis by simp
    next
      case False
      with Cons.prems eq [of r] have "\<exists>r. filter (\<lambda>r. do_mid r = uint mid) rs = [r]" by (intro Cons.IH) auto
      with False show ?thesis by simp
    qed
  qed simp
  have "Some mid \<in> ?f ` set ?rows" using ids assms(4) by (metis list.set_map)
  with one [of ?rows] assms(3) obtain r where "filter (\<lambda>r. do_mid r = uint mid) ?rows = [r]" by (auto simp: ids)
  then show ?thesis using that by (simp add: own_rows_def conj_commute)
qed

lemma get_i32_opt_owned: "db_ok db \<Longrightarrow> r \<in> set (db_qosout db) \<Longrightarrow> get_i32_opt (do_message_id r) = Some (do_message_id r)"
  using db_okD(8) owned_row by (fastforce simp: get_i32_opt_def split: option.split)

lemma shows_delete_message:
  assumes works: "sql_works env now" and ok: "store_ok now p" and view: "sql_view p S = Some v"
    and q: "distinct (map outgoing_id (sv_queue v))" "Some mid \<in> outgoing_id ` set (sv_queue v)"
  shows "shows_or_fails (store_ok now) sql_view S (v\<lparr>sv_queue := filter (\<lambda>x. \<not> has_outgoing_id mid x) (sv_queue v)\<rparr>)
    (sql_qos_outgoing_delete env S mid p)"
proof -
  let ?sel = "\<lambda>r. do_session_id r = S \<and> do_mid r = uint mid"
  let ?e = "''Delete qosout message getting message id failed''" and ?v = "v\<lparr>sv_queue := filter (\<lambda>x. \<not> has_outgoing_id mid x) (sv_queue v)\<rparr>"
  let ?K = "\<lambda>_ s'. store_ok now s' \<and> sql_view s' S = Some ?v"
  let ?C = "\<lambda>_ s'. \<forall>w. now (sq_world s') \<le> now w \<longrightarrow> runs now (act_return mid) \<lparr>sq_db = sq_db s', sq_world = w\<rparr> (or_fails ?K)"
  note db = store_okD(1) [OF ok]
  have dview: "db_view (sq_db p) S = Some v" using view by (simp add: sql_view_def)
  obtain r where r: "filter ?sel (db_qosout (sq_db p)) = [r]" using selected_row [OF db dview q] .
  have "r \<in> set (filter ?sel (db_qosout (sq_db p)))" unfolding r by simp
  then have rin: "r \<in> set (db_qosout (sq_db p))" "?sel r" by simp_all
  define db1 where "db1 = (sq_db p)\<lparr>db_qosout := filter (\<lambda>r. \<not> ?sel r) (db_qosout (sq_db p))\<rparr>"
  note eff = delete_qosout_effect [OF db db1_def, of S]
  have "filter (\<lambda>r. \<not> ?sel r) (own_rows (sq_db p) S) = filter (\<lambda>r. do_mid r \<noteq> uint mid) (own_rows (sq_db p) S)"
    by (rule filter_cong) (auto simp: own_rows_in)
  then have queue1: "stored_queue db1 S = map Some (filter (\<lambda>x. \<not> has_outgoing_id mid x) (sv_queue v))"
    using eff queue_rows(2) [OF db, of "own_rows (sq_db p) S" "sv_queue v" mid] view_queue [OF dview]
    by (auto simp: stored_queue_def own_rows_def)
  have final: "?C () \<lparr>sq_db = db2, sq_world = w\<rparr>"
    if "db_ok db2" "session_row_of db2 = session_row_of db1" "stored_received db2 = stored_received db1"
      "stored_queue db2 = stored_queue db1" "db_qosout db2 = db_qosout db1" "db_sessions db2 = db_sessions db1" "now (sq_world p) \<le> now w"
    for db2 w
  proof (intro allI impI, rule runs_return, intro conjI)
    fix u assume "now (sq_world \<lparr>sq_db = db2, sq_world = w\<rparr>) \<le> now u"
    then show "store_ok now \<lparr>sq_db = sq_db \<lparr>sq_db = db2, sq_world = w\<rparr>, sq_world = u\<rparr>"
      using store_ok_rows [OF ok, of db2 "\<lambda>r. \<not> ?sel r" u] that by (simp add: db1_def)
    show "sql_view \<lparr>sq_db = sq_db \<lparr>sq_db = db2, sq_world = w\<rparr>, sq_world = u\<rparr> S = Some ?v"
      using db_view_queue [OF dview, of db2] that eff queue1 by (simp add: sql_view_def)
  qed
  show ?thesis
    unfolding sql_qos_outgoing_delete_def Let_def
  proof (rule shows_interact [OF works], rule runs_seq, rule runs_commit [OF works], rule runs_seq,
      rule runs_statement [where f = "sql_select (\<lambda>db. map do_message_id (filter ?sel (db_qosout db)))" and
        a = "[do_message_id r]" and db = "sq_db p", OF works], goal_cases)
    case (4 w w1 w2)
    note outer = 4
    show ?case
    proof (rule runs_seq, rule runs_pick, rule runs_seq,
        rule runs_execute [where f = "\<lambda>db. ((), db\<lparr>db_qosout := filter (\<lambda>r. \<not> ?sel r) (db_qosout db)\<rparr>)" and
          a = "()" and db = db1, OF works], goal_cases)
      case (4 mi w3)
      then have mi: "mi = do_message_id r" using get_i32_opt_owned [OF db rin(1)] by simp
      have le: "now (sq_world p) \<le> now w3" using 4 outer by simp
      show ?case
      proof (cases mi)
        case None
        then show ?thesis using final [of db1 w3] eff le by (simp add: runs_return db1_def)
      next
        case (Some i)
        obtain db2 where del: "delete_message_row i db1 = ((), db2)" by (cases "delete_message_row i db1") simp
        have "i \<notin> set (owned db1)" using eff rin mi Some by blast
        from delete_message_effect [OF _ this del] eff have eff2: "db_ok db2" "session_row_of db2 = session_row_of db1"
          "stored_received db2 = stored_received db1" "stored_queue db2 = stored_queue db1" "db_qosout db2 = db_qosout db1"
          "db_sessions db2 = db_sessions db1" by simp_all
        show ?thesis
          unfolding Some option.case
        proof (rule runs_execute [where f = "delete_message_row i" and a = "()" and db = db2, OF works], goal_cases)
          case (4 w4)
          then show ?case using le eff2 by (intro final) simp_all
        qed (use eff eff2 del db_okD(1,6) in auto)
      qed
    qed (use eff db db_okD(1,6) in \<open>auto simp: db1_def\<close>)
  qed (use r db db_okD(1,6) in \<open>auto simp: sql_select_def\<close>)
qed

lemma shows_update_dup:
  assumes works: "sql_works env now" and ok: "store_ok now p" and view: "sql_view p S = Some v"
  shows "shows_or_fails (store_ok now) sql_view S (v\<lparr>sv_queue := map (mark_dup mid) (sv_queue v)\<rparr>) (sql_qos_outgoing_update_dup env S mid True p)"
proof -
  note db = store_okD(1) [OF ok]
  have dview: "db_view (sq_db p) S = Some v" using view by (simp add: sql_view_def)
  obtain ids db' where u: "update_dup_rows S (uint mid) True (sq_db p) = (ids, db')" by force
  have eff: "db_ok db'" "session_row_of db' = session_row_of (sq_db p)" "stored_received db' = stored_received (sq_db p)"
    "stored_queue db' S = map Some (map (mark_dup mid) (sv_queue v))" "map do_received (db_qosout db') = map do_received (db_qosout (sq_db p))"
    using update_dup_effect [OF db u] view_queue [OF dview] by simp_all
  have names: "map ds_name (db_sessions db') = map ds_name (db_sessions (sq_db p))" using u by (auto simp: update_dup_rows_def)
  show ?thesis
    unfolding sql_qos_outgoing_update_dup_def Let_def
  proof (rule shows_interact [OF works], rule runs_seq,
      rule runs_statement [where f = "update_dup_rows S (uint mid) True" and a = ids and db = db', OF works], goal_cases)
    case (4 w w1)
    then show ?case
      using store_ok_later [OF ok eff(1,5) names, of w1] db_view_queue [OF dview eff(2-4)]
      by (intro runs_pick) (simp add: sql_view_def)
  qed (use u db eff(1) db_okD(1,6) in auto)
qed

text \<open>Clearing: all rows of the session, then their messages.\<close>

lemma delete_messages_yields:
  assumes works: "sql_works env now"
  shows "db_ok db1 \<Longrightarrow> set is \<inter> set (owned db1) = {} \<Longrightarrow>
    \<exists>db2. (\<forall>w. yields now (act_for is (\<lambda>i. or_error e (sql_execute env [Tab_messages] (delete_message_row i)))) \<lparr>sq_db = db1, sq_world = w\<rparr> (Inr ()) db2) \<and>
      db_ok db2 \<and> session_row_of db2 = session_row_of db1 \<and> stored_received db2 = stored_received db1 \<and>
      stored_queue db2 = stored_queue db1 \<and> db_qosout db2 = db_qosout db1 \<and> db_sessions db2 = db_sessions db1"
proof (induction "is" arbitrary: db1)
  case Nil
  then show ?case by (intro exI [of _ db1]) (auto simp: yields_def)
next
  case (Cons i "is")
  obtain db' where del: "delete_message_row i db1 = ((), db')" by (cases "delete_message_row i db1") simp
  have "i \<notin> set (owned db1)" using Cons.prems(2) by simp
  from delete_message_effect [OF Cons.prems(1) this del] have eff: "db_ok db'" "session_row_of db' = session_row_of db1"
    "stored_received db' = stored_received db1" "stored_queue db' = stored_queue db1" "db_qosout db' = db_qosout db1"
    "owned db' = owned db1" "db_sessions db' = db_sessions db1" by simp_all
  obtain db2 where rest: "\<And>w. yields now (act_for is (\<lambda>i. or_error e (sql_execute env [Tab_messages] (delete_message_row i)))) \<lparr>sq_db = db', sq_world = w\<rparr> (Inr ()) db2"
    and eff2: "db_ok db2" "session_row_of db2 = session_row_of db'"
    "stored_received db2 = stored_received db'" "stored_queue db2 = stored_queue db'" "db_qosout db2 = db_qosout db'" "db_sessions db2 = db_sessions db'"
    using Cons.IH [OF eff(1)] Cons.prems(2) eff(6) by auto
  have one: "yields now (or_error e (sql_execute env [Tab_messages] (delete_message_row i))) \<lparr>sq_db = db1, sq_world = w\<rparr> (Inr ()) db'" for w
    by (rule yields_or_error(1), rule yields_execute [where f = "delete_message_row i", OF works])
      (use Cons.prems(1) del eff(1) db_okD(1,6) in auto)
  show ?case
    using eff eff2 by (intro exI [of _ db2]) (auto intro: yields_bind [OF one rest])
qed

lemma concat_somes: "concat (map (\<lambda>x. case x of Some i \<Rightarrow> [i] | None \<Rightarrow> []) xs) = somes xs"
proof (induction xs)
  case (Cons x xs)
  then show ?case by (cases x) simp_all
qed simp

lemma those_map: "(\<And>x. x \<in> set xs \<Longrightarrow> f x = Some (g x)) \<Longrightarrow> those (map f xs) = Some (map g xs)"
  by (induction xs) simp_all

lemma yields_execute_ok:
  assumes "sql_works env now" and "set tables \<subseteq> set (db_tables db)" and "f db = (a, db')" and "foreign_keys_ok db'"
  shows "yields now (or_error e (sql_execute env tables f)) \<lparr>sq_db = db, sq_world = w\<rparr> (Inr a) db'"
  by (rule yields_or_error(1), rule yields_execute [where f = f, OF assms(1)]) (simp_all add: assms)

lemma yields_statement_ok:
  assumes "sql_works env now" and "set tables \<subseteq> set (db_tables db)" and "f db = (a, db')" and "foreign_keys_ok db'"
  shows "yields now (session_statement env tables e f) \<lparr>sq_db = db, sq_world = w\<rparr> (Inr a) db'"
  by (rule yields_statement [where f = f, OF assms(1)]) (simp_all add: assms)

lemma yields_commit:
  assumes "sql_works env now" and "\<And>w. yields now body \<lparr>sq_db = db, sq_world = w\<rparr> (Inr a) db'"
  shows "yields now (sql_transaction env e1 e2 body) \<lparr>sq_db = db, sq_world = w\<rparr> (Inr a) db'"
proof -
  have "yields now (sql_transaction env e1 e2 body) \<lparr>sq_db = db, sq_world = w\<rparr> (Inr a)
      (case Inr a :: 'b failure + 'c of Inr _ \<Rightarrow> db' | Inl _ \<Rightarrow> sq_db \<lparr>sq_db = db, sq_world = w\<rparr>)"
    by (rule yields_transaction [OF assms(1)]) (simp add: assms(2))
  then show ?thesis by simp
qed

lemma shows_clear_queue:
  assumes works: "sql_works env now" and ok: "store_ok now p" and view: "sql_view p S = Some v"
  shows "shows_now (store_ok now) sql_view S (v\<lparr>sv_queue := []\<rparr>) 0 (sql_qos_outgoing_clear env S p)"
proof -
  note db = store_okD(1) [OF ok]
  have dview: "db_view (sq_db p) S = Some v" using view by (simp add: sql_view_def)
  define db1 where "db1 = (sq_db p)\<lparr>db_qosout := filter (\<lambda>r. do_session_id r \<noteq> S) (db_qosout (sq_db p))\<rparr>"
  define own where "own = filter (\<lambda>r. do_session_id r = S) (db_qosout (sq_db p))"
  note eff = delete_qosout_effect [OF db db1_def, of S]
  have "filter (\<lambda>r. do_session_id r \<noteq> S) (own_rows (sq_db p) S) = []" by (auto simp: filter_empty_conv own_rows_in)
  with eff have queue1: "stored_queue db1 S = []" by simp
  have ok1: "db_ok db1" using eff by simp
  have disj: "set (somes (map do_message_id own)) \<inter> set (owned db1) = {}" using eff by (force simp: own_def)
  let ?deletes = "act_for (somes (map do_message_id own)) (\<lambda>i. or_error (Session_Persist ''Qosout clear delete message failed'')
       (sql_execute env [Tab_messages] (delete_message_row i)))"
  obtain db2 where A: "(\<forall>w. yields now ?deletes \<lparr>sq_db = db1, sq_world = w\<rparr> (Inr ()) db2) \<and>
    db_ok db2 \<and> session_row_of db2 = session_row_of db1 \<and> stored_received db2 = stored_received db1 \<and>
    stored_queue db2 = stored_queue db1 \<and> db_qosout db2 = db_qosout db1 \<and> db_sessions db2 = db_sessions db1"
    using delete_messages_yields [OF works ok1 disj] by (rule exE)
  note del = A [THEN conjunct1]
  have eff2: "db_ok db2" "session_row_of db2 = session_row_of db1" "stored_received db2 = stored_received db1"
    "stored_queue db2 = stored_queue db1" "db_qosout db2 = db_qosout db1" "db_sessions db2 = db_sessions db1"
    using A [THEN conjunct2] by simp_all
  have those: "those (map get_i32_opt (map do_message_id own)) = Some (map do_message_id own)"
    using get_i32_opt_owned [OF db] by (simp add: o_def) (rule those_map, simp add: own_def)
  let ?sel = "session_statement env [Tab_qosout] (Session_Persist ''Loading persistent message failed'')
    (sql_select (\<lambda>db. map do_message_id (filter (\<lambda>r. do_session_id r = S) (db_qosout db)))) :: ('a, session_error, int option list) sql_act"
  have select: "yields now ?sel \<lparr>sq_db = sq_db p, sq_world = w\<rparr> (Inr (map do_message_id own)) (sq_db p)" for w
    by (rule yields_statement_ok [OF works tables_ok(3) [OF db]]) (simp_all add: sql_select_def own_def db_okD(6) [OF db])
  have pick: "yields now (or_error session_value_error (act_return (those (map get_i32_opt (map do_message_id own))))) \<lparr>sq_db = sq_db p, sq_world = w\<rparr> (Inr (map do_message_id own)) (sq_db p)" for w
    using yields_pick_at [of now session_value_error "those (map get_i32_opt (map do_message_id own))" "sq_db p" w] unfolding those by simp
  have delete: "yields now (or_error (Session_Persist ''Error clearing qosout'') (sql_execute env [Tab_qosout]
      (\<lambda>db. ((), db\<lparr>db_qosout := filter (\<lambda>r. do_session_id r \<noteq> S) (db_qosout db)\<rparr>)))) \<lparr>sq_db = sq_db p, sq_world = w\<rparr> (Inr ()) db1" for w
    by (rule yields_execute_ok [OF works tables_ok(3) [OF db]]) (simp_all add: db1_def [symmetric] eff db_okD(6))
  let ?body = "act_bind ?sel (\<lambda>rows.
      act_bind (or_error session_value_error (act_return (those (map get_i32_opt rows)))) (\<lambda>mids.
      act_bind (or_error (Session_Persist ''Error clearing qosout'') (sql_execute env [Tab_qosout]
         (\<lambda>db. ((), db\<lparr>db_qosout := filter (\<lambda>r. do_session_id r \<noteq> S) (db_qosout db)\<rparr>)))) (\<lambda>_.
       act_for (concat (map (\<lambda>mid. case mid of Some i \<Rightarrow> [i] | None \<Rightarrow> []) mids)) (\<lambda>message_id.
         or_error (Session_Persist ''Qosout clear delete message failed'')
           (sql_execute env [Tab_messages] (delete_message_row message_id))))))"
  have body: "yields now ?body \<lparr>sq_db = sq_db p, sq_world = w\<rparr> (Inr ()) db2" for w
    by (rule yields_bind [OF select], rule yields_bind [OF pick], rule yields_bind [OF delete])
      (unfold concat_somes, rule del [rule_format])
  have "yields now (sql_qos_outgoing_clear env S) p (interact_result session_no_query (Inr 0)) db2"
    unfolding sql_qos_outgoing_clear_def session_interact_def
  proof (rule yields_interact [OF works], rule yields_bind)
    show "yields now (sql_transaction env (Session_Persist ''Unable to start transaction'')
        (Session_Persist ''Qosout clear delete message failed'') ?body) \<lparr>sq_db = sq_db p, sq_world = w\<rparr> (Inr ()) db2" for w
      by (rule yields_commit [OF works body])
  qed (rule yields_return_at)
  then have y: "yields now (sql_qos_outgoing_clear env S) p (Inr 0) db2" by simp
  show ?thesis
  proof (rule shown [OF y])
    show "store_ok now \<lparr>sq_db = db2, sq_world = w\<rparr>" if "now (sq_world p) \<le> now w" for w
      by (rule store_ok_rows [OF ok eff2(1) _ _ that, where P = "\<lambda>r. do_session_id r \<noteq> S"]) (simp_all add: eff2 db1_def)
    show "db_view db2 S = Some (v\<lparr>sv_queue := []\<rparr>)"
      by (rule db_view_queue [OF dview]) (simp_all add: eff2 eff [THEN conjunct2, THEN conjunct1] eff [THEN conjunct2, THEN conjunct2, THEN conjunct1] queue1)
  qed
qed

section \<open>Loading\<close>

lemma shows_load_received:
  assumes works: "sql_works env now" and ok: "store_ok now p" and view: "sql_view p S = Some v"
  shows "shows_now (store_ok now) sql_view S v (sv_received v) (sql_qos_incoming_load env S p)"
proof -
  note db = store_okD(1) [OF ok]
  have dview: "db_view (sq_db p) S = Some v" using view by (simp add: sql_view_def)
  define rows where "rows = map di_mid (filter (\<lambda>r. di_session_id r = S) (db_qosin (sq_db p)))"
  have i32: "get_i32 i = Some i" if "i \<in> set rows" for i
    using db_okD(9) [OF db] that by (force simp: rows_def get_i32_def)
  have those: "those (map get_i32 rows) = Some rows"
    using those_map [of rows get_i32 "\<lambda>i. i", OF i32] by simp
  have "sv_received v = word_of_int ` stored_received (sq_db p) S" using view by (rule sql_viewE) simp
  then have received: "set (map word_of_int rows) = sv_received v"
    by (simp add: rows_def stored_received_def image_image)
  have "yields now (sql_qos_incoming_load env S) p (interact_result session_no_query (Inr (sv_received v))) (sq_db p)"
    unfolding sql_qos_incoming_load_def
  proof (rule yields_call [where f = "sql_select (\<lambda>db. map di_mid (filter (\<lambda>r. di_session_id r = S) (db_qosin db)))" and a = rows and
      db = "sq_db p" and g = "\<lambda>rows. act_bind (act_unwrap (those (map get_i32 rows))) (\<lambda>mids. act_return (set (map word_of_int mids)))",
      OF works tables_ok(2) [OF db]])
    show "yields now (act_bind (act_unwrap (those (map get_i32 rows))) (\<lambda>mids. act_return (set (map word_of_int mids))))
        \<lparr>sq_db = sq_db p, sq_world = w\<rparr> (Inr (sv_received v)) (sq_db p)" for w
      unfolding those received [symmetric] by (auto simp: yields_def)
  qed (auto simp: sql_select_def rows_def)
  then have y: "yields now (sql_qos_incoming_load env S) p (Inr (sv_received v)) (sq_db p)" by simp
  show ?thesis
    by (rule shown [OF y store_ok_later [OF ok db] dview]) simp_all
qed

text \<open>Rows in the order of their ids and times are in the order they are loaded in.\<close>

lemma sort_key_sorted: "sorted (map f xs) \<Longrightarrow> sort_key f xs = xs"
  by (rule sort_key_id_if_sorted)

lemma loaded_rows:
  assumes works: "sql_works env now" and ok: "store_ok now p"
  shows "qosout_rows env S (sq_db p) = own_rows (sq_db p) S"
proof -
  note db = store_okD(1) [OF ok]
  have "sorted_wrt (<) (map do_id (own_rows (sq_db p) S))"
    using db_okD(5) [OF db] by (simp add: own_rows_def sorted_wrt_map sorted_wrt_filter)
  then have "sorted (map do_id (own_rows (sq_db p) S))" by (rule strict_sorted_imp_sorted)
  moreover have "mono (qe_tie env)" using works by (simp add: sql_works_def)
  ultimately have "sorted (map (\<lambda>r. qe_tie env (do_id r)) (own_rows (sq_db p) S))"
    by (auto simp: sorted_map mono_def elim!: sorted_wrt_mono_rel [rotated])
  moreover have "sorted (map do_received (own_rows (sq_db p) S))"
    using store_okD(3) [OF ok] by (simp add: own_rows_def sorted_filter)
  ultimately show ?thesis by (simp add: qosout_rows_def own_rows_def [symmetric] sort_key_sorted)
qed

definition meta_of :: "qosout_row \<Rightarrow> message_meta" where
  "meta_of r = \<lparr>mm_message_id = do_message_id r, mm_message_type = do_type r, mm_message_mid = do_mid r, mm_message_dup = do_dup r\<rparr>"

lemma row_meta_ok:
  assumes "db_ok db" and "r \<in> set (db_qosout db)" and "row_message db r = Some m"
  shows "row_meta r = Some (meta_of r)"
proof -
  have "get_i32 (do_mid r) = Some (do_mid r)" using db_okD(10) [OF assms(1,2)] by (simp add: get_i32_def)
  moreover have "get_i32 (do_type r) = Some (do_type r)"
    using assms(3) by (auto simp: row_message_def get_i32_def split: if_splits)
  ultimately show ?thesis using get_i32_opt_owned [OF assms(1,2)] by (simp add: row_meta_def meta_of_def)
qed

lemma load_message_yields:
  assumes works: "sql_works env now" and db: "db_ok db" and "message_rows i db = row # rows" and "stored_message row = Some m"
  shows "yields now (client_load_persistent_message env i) \<lparr>sq_db = db, sq_world = w\<rparr> (Inr m) db"
  unfolding client_load_persistent_message_def Let_def
  by (rule yields_bind, rule yields_statement_ok [where a = "row # rows" and db' = db, OF works tables_ok(4) [OF db]])
    (use yields_pick_at [of now _ "stored_message row" db] assms(3,4) db_okD(6) [OF db] in \<open>auto simp: sql_select_def\<close>)

lemma load_queue_yields:
  assumes works: "sql_works env now" and db: "db_ok db"
  shows "map (row_message db) rows = map Some q \<Longrightarrow>
    yields now (load_queue env (map meta_of rows) acc) \<lparr>sq_db = db, sq_world = w\<rparr> (Inr (acc @ q)) db"
proof (induction rows arbitrary: q acc w)
  case Nil
  then show ?case by (auto simp: yields_def)
next
  case (Cons r rows)
  obtain x q' where q: "q = x # q'" "row_message db r = Some x" "map (row_message db) rows = map Some q'"
    using Cons.prems by (cases q) auto
  have one: "yields now (case message_type_try_from (mm_message_type (meta_of r)) of
          Inr Type_Publish \<Rightarrow>
            (case mm_message_id (meta_of r) of
               Some i \<Rightarrow>
                 act_bind (client_load_persistent_message env i) (\<lambda>pubmsg.
                 act_return (Publish (pubmsg\<lparr>pub_identifier := word_of_int (mm_message_mid (meta_of r)), pub_dup := mm_message_dup (meta_of r)\<rparr>)))
             | None \<Rightarrow> act_fail (Failed (Session_Persist ''Error loading qosout messages, no id for publish message'')))
        | Inr Type_PubRec \<Rightarrow> act_return (PubRec \<lparr>pr_identifier = word_of_int (mm_message_mid (meta_of r))\<rparr>)
        | _ \<Rightarrow> act_fail (Failed (Session_Persist ''Error loading qosout messages, unkown message type'')))
      \<lparr>sq_db = db, sq_world = w\<rparr> (Inr x) db"
  proof (cases "do_type r = message_type_code Type_Publish")
    case True
    with q(2) obtain i row rows' m where m: "do_message_id r = Some i" "message_rows i db = row # rows'" "stored_message row = Some m"
      "x = Publish (m\<lparr>pub_identifier := word_of_int (do_mid r), pub_dup := do_dup r\<rparr>)"
      by (auto simp: row_message_def split: option.splits list.splits)
    show ?thesis
      by (simp add: meta_of_def message_type_try_from_def True m(1,4)) (rule yields_bind [OF load_message_yields [OF works db m(2,3)] yields_return_at])
  next
    case False
    with q(2) have "do_type r = message_type_code Type_PubRec" "x = PubRec \<lparr>pr_identifier = word_of_int (do_mid r)\<rparr>"
      by (auto simp: row_message_def split: if_splits)
    then show ?thesis by (auto simp: meta_of_def message_type_try_from_def yields_def)
  qed
  have rest: "yields now (load_queue env (map meta_of rows) (acc @ [x])) \<lparr>sq_db = db, sq_world = w'\<rparr> (Inr (acc @ q)) db" for w'
    using Cons.IH [OF q(3), of "acc @ [x]" w'] q(1) by simp
  show ?case unfolding list.map load_queue.simps by (rule yields_bind [OF one]) (rule rest)
qed

lemma shows_load_queue:
  assumes works: "sql_works env now" and ok: "store_ok now p" and view: "sql_view p S = Some v"
  shows "shows_now (store_ok now) sql_view S v (sv_queue v) (sql_qosout_load env S p)"
proof -
  note db = store_okD(1) [OF ok]
  have dview: "db_view (sq_db p) S = Some v" using view by (simp add: sql_view_def)
  let ?rows = "own_rows (sq_db p) S"
  have q: "map (row_message (sq_db p)) ?rows = map Some (sv_queue v)"
    using view_queue [OF dview] by (simp add: stored_queue_def)
  have "row_meta r = Some (meta_of r)" if "r \<in> set ?rows" for r
  proof -
    have "row_message (sq_db p) r \<in> set (map Some (sv_queue v))" using q that by (metis image_eqI list.set_map)
    then obtain m where "row_message (sq_db p) r = Some m" by auto
    then show ?thesis using row_meta_ok [OF db] that by (simp add: own_rows_in)
  qed
  then have those: "those (map row_meta ?rows) = Some (map meta_of ?rows)" by (rule those_map)
  let ?g = "\<lambda>rows. act_bind (or_error session_value_error (act_return (those (map row_meta rows)))) (\<lambda>messages_meta. load_queue env messages_meta [])"
  have "yields now (sql_qosout_load env S) p (interact_result session_no_query (Inr (sv_queue v))) (sq_db p)"
    unfolding sql_qosout_load_def
  proof (rule yields_call [where f = "sql_select (qosout_rows env S)" and a = ?rows and db = "sq_db p" and g = ?g, OF works tables_ok(3) [OF db]])
    have pick: "yields now (or_error session_value_error (act_return (those (map row_meta ?rows)))) \<lparr>sq_db = sq_db p, sq_world = w\<rparr> (Inr (map meta_of ?rows)) (sq_db p)" for w
      using yields_pick_at [of now session_value_error "those (map row_meta ?rows)" "sq_db p" w] unfolding those by simp
    show "yields now (?g ?rows) \<lparr>sq_db = sq_db p, sq_world = w\<rparr> (Inr (sv_queue v)) (sq_db p)" for w
      by (rule yields_bind [OF pick]) (use load_queue_yields [OF works db q, of "[]"] in simp)
  qed (auto simp: sql_select_def loaded_rows [OF works ok])
  then have y: "yields now (sql_qosout_load env S) p (Inr (sv_queue v)) (sq_db p)" by simp
  show ?thesis
    by (rule shown [OF y store_ok_later [OF ok db] dview]) simp_all
qed

section \<open>Opening\<close>

lemma shows_subscriptions:
  assumes works: "sql_works env now" and ok: "store_ok now p"
  shows "\<exists>a p'. sql_session_subscriptions env S p = (Inr a, p') \<and> store_ok now p' \<and> sql_view p' = sql_view p"
proof -
  note db = store_okD(1) [OF ok]
  have "yields now (sql_session_subscriptions env S) p (Inr (session_topic_rows S (sq_db p))) (sq_db p)"
    unfolding sql_session_subscriptions_def session_interact_def
    using yields_interact [OF works, of p "session_statement env [Tab_subscriptions, Tab_topics] (Session_Persist ''Loading persistent message failed'')
          (sql_select (session_topic_rows S))" "Inr (session_topic_rows S (sq_db p))" "sq_db p" session_no_client session_no_query]
      yields_statement_ok [OF works tables_ok(5) [OF db], of "sql_select (session_topic_rows S)" "session_topic_rows S (sq_db p)" "sq_db p"]
    by (simp add: sql_select_def db_okD(6) [OF db])
  then obtain w where "sql_session_subscriptions env S p = (Inr (session_topic_rows S (sq_db p)), \<lparr>sq_db = sq_db p, sq_world = w\<rparr>)"
    "now (sq_world p) \<le> now w" by (rule yieldsE)
  with store_ok_later [OF ok db, of w] show ?thesis by (simp add: sql_view_def fun_eq_iff)
qed

lemma named_row:
  assumes "session_row_of db S = Some r" and "distinct (map ds_name (db_sessions db))"
  shows "filter (\<lambda>x. ds_name x = ds_name r) (db_sessions db) = [r]"
proof -
  have "filter (\<lambda>x. ds_name x = ds_name r) xs = [r]" if "r \<in> set xs" "distinct (map ds_name xs)" for xs
    using that
  proof (induction xs)
    case (Cons x xs)
    then show ?case by (auto simp: filter_empty_conv image_iff)
  qed simp
  with assms session_row_id [OF assms(1)] show ?thesis by blast
qed

lemma shows_open_known:
  assumes works: "sql_works env now" and ok: "store_ok now p" and view: "sql_view p S = Some v"
  shows "shows_now (store_ok now) sql_view S v (S, sv_generation v, False, sv_next_mid v) (sql_persist_session env (sv_name v) p)"
proof -
  note db = store_okD(1) [OF ok]
  have dview: "db_view (sq_db p) S = Some v" using view by (simp add: sql_view_def)
  obtain r where r: "session_row_of (sq_db p) S = Some r" "ds_id r = S" "get_i32 S = Some S"
    "get_i32 (ds_next_mid r) = Some (ds_next_mid r)"
    "v = \<lparr>sv_name = ds_name r, sv_generation = ds_generation r, sv_next_mid = word_of_int (ds_next_mid r),
      sv_received = word_of_int ` stored_received (sq_db p) S, sv_queue = map the (stored_queue (sq_db p) S)\<rparr>"
    using view by (rule sql_viewE)
  have row: "filter (\<lambda>x. ds_name x = sv_name v) (db_sessions (sq_db p)) = [r]"
    using named_row [OF r(1) store_okD(2) [OF ok]] r(5) by simp
  let ?g = "\<lambda>rows. case rows of
          row # _ \<Rightarrow>
            act_bind (or_error session_value_error (act_return (get_i32 (ds_id row)))) (\<lambda>internal_id.
            act_bind (or_error session_value_error (act_return (get_i32 (ds_next_mid row)))) (\<lambda>next_mid.
            act_return (internal_id, ds_generation row, False, word_of_int next_mid)))
        | [] \<Rightarrow>
            act_bind (session_statement env [Tab_sessions] (Session_Persist ''Error persisting session'') (insert_session_row (sv_name v) 0)) (\<lambda>i.
            act_bind (or_error (Session_Persist ''Error persisting session'') (act_return (get_i32 i))) (\<lambda>internal_id.
            act_return (internal_id, 0, True, 1)))"
  have "yields now (sql_persist_session env (sv_name v)) p (interact_result session_no_query (Inr (S, sv_generation v, False, sv_next_mid v))) (sq_db p)"
    unfolding sql_persist_session_def
  proof (rule yields_call [where f = "sql_select (\<lambda>db. filter (\<lambda>x. ds_name x = sv_name v) (db_sessions db))" and a = "[r]" and
      db = "sq_db p" and g = ?g, OF works tables_ok(1) [OF db]])
    have pick: "yields now (or_error session_value_error (act_return (get_i32 S))) \<lparr>sq_db = sq_db p, sq_world = w\<rparr> (Inr S) (sq_db p)"
      "yields now (or_error session_value_error (act_return (get_i32 (ds_next_mid r)))) \<lparr>sq_db = sq_db p, sq_world = w\<rparr> (Inr (ds_next_mid r)) (sq_db p)" for w
      using yields_pick_at [of now session_value_error _ "sq_db p" w] r(3,4) by (metis option.simps(5))+
    show "yields now (?g [r]) \<lparr>sq_db = sq_db p, sq_world = w\<rparr> (Inr (S, sv_generation v, False, sv_next_mid v)) (sq_db p)" for w
      unfolding list.case r(2)
      by (rule yields_bind [OF pick(1)], rule yields_bind [OF pick(2)]) (use r(5) in \<open>simp add: yields_def\<close>)
  qed (auto simp: sql_select_def row)
  then have y: "yields now (sql_persist_session env (sv_name v)) p (Inr (S, sv_generation v, False, sv_next_mid v)) (sq_db p)" by simp
  show ?thesis
    by (rule shown [OF y store_ok_later [OF ok db] dview]) simp_all
qed

lemma insert_session_effect:
  assumes "db_ok db" and "insert_session_row name g db = (i, db')"
  shows "db_ok db' \<and> session_row_of db' i = Some \<lparr>ds_id = i, ds_name = name, ds_generation = g, ds_next_mid = 1\<rparr> \<and>
    stored_received db' i = {} \<and> stored_queue db' i = [] \<and> db_qosout db' = db_qosout db \<and>
    map ds_name (db_sessions db') = map ds_name (db_sessions db) @ [name]"
proof -
  let ?r = "\<lparr>ds_id = i, ds_name = name, ds_generation = g, ds_next_mid = 1\<rparr>"
  have db': "db' = db\<lparr>db_sessions := db_sessions db @ [?r]\<rparr>" and i: "i = next_row_id (map ds_id (db_sessions db))"
    using assms(2) by (auto simp: insert_session_row_def Let_def)
  have fresh: "i \<notin> ds_id ` set (db_sessions db)" using next_row_id_fresh [of "map ds_id (db_sessions db)"] i by simp
  have "find (\<lambda>r. ds_id r = i) (xs @ [?r]) = Some ?r" if "i \<notin> ds_id ` set xs" for xs
    using that by (induction xs) auto
  then have row: "session_row_of db' i = Some ?r" using fresh by (simp add: session_row_of_def db')
  have "db_ok db'"
    using assms(1) fresh by (auto simp: db' db_ok_def owned_def foreign_keys_owned)
  moreover have "di_session_id q \<noteq> i" if "q \<in> set (db_qosin db)" for q
    using db_okD(6) [OF assms(1)] that fresh by (auto simp: foreign_keys_owned)
  moreover have "do_session_id q \<noteq> i" if "q \<in> set (db_qosout db)" for q
    using db_okD(6) [OF assms(1)] that fresh by (auto simp: foreign_keys_owned)
  ultimately show ?thesis using row
    by (simp add: db' stored_received_def stored_queue_def own_rows_def filter_empty_conv)
qed

lemma shows_open_new:
  assumes works: "sql_works env now" and ok: "store_ok now p"
    and opened: "sql_persist_session env name p = (Inr (S, g, True, mid), p')"
  shows "store_ok now p' \<and> sql_view p' S = Some \<lparr>sv_name = name, sv_generation = g, sv_next_mid = mid, sv_received = {}, sv_queue = []\<rparr>"
proof -
  note db = store_okD(1) [OF ok]
  define rows where "rows = filter (\<lambda>r. ds_name r = name) (db_sessions (sq_db p))"
  let ?new = "\<lambda>q s'. case q of (S, g, clean, mid) \<Rightarrow> clean \<longrightarrow> store_ok now s' \<and>
    sql_view s' S = Some \<lparr>sv_name = name, sv_generation = g, sv_next_mid = mid, sv_received = {}, sv_queue = []\<rparr>"
  let ?P = "\<lambda>r s'. case r of Inl _ \<Rightarrow> True | Inr q \<Rightarrow> ?new q s'"
  have "runs now (sql_persist_session env name) p ?P"
    unfolding sql_persist_session_def session_interact_def
  proof (rule runs_interact [OF works], rule runs_mono [where P = "or_fails ?new"], rule runs_seq,
      rule runs_statement [where f = "sql_select (\<lambda>db. filter (\<lambda>r. ds_name r = name) (db_sessions db))" and a = rows and db = "sq_db p", OF works],
      goal_cases)
    case (4 w w1)
    show ?case
    proof (cases rows)
      case (Cons row rest)
      then show ?thesis
        by simp (intro runs_seq runs_pick runs_return, unfold session_value_error_def, intro runs_pick runs_seq runs_return, simp)
    next
      case Nil
      obtain i db' where ins: "insert_session_row name 0 (sq_db p) = (i, db')" by force
      note eff = insert_session_effect [OF db ins]
      have "name \<notin> set (map ds_name (db_sessions (sq_db p)))" using Nil by (auto simp: rows_def filter_empty_conv)
      then have ok': "store_ok now \<lparr>sq_db = db', sq_world = u\<rparr>" if "now (sq_world p) \<le> now u" for u
        using ok eff that by (fastforce simp: store_ok_def)
      show ?thesis
        unfolding Nil list.case
      proof (rule runs_seq, rule runs_statement [where f = "insert_session_row name 0" and a = i and db = db', OF works], goal_cases)
        case k: (4 w2)
        show ?case
        proof (rule runs_seq, rule runs_pick, rule runs_return)
          fix j assume "get_i32 i = Some j"
          then have j: "j = i" "get_i32 i = Some i" using get_i32_same by auto
          have "db_view db' i = Some \<lparr>sv_name = name, sv_generation = 0, sv_next_mid = 1, sv_received = {}, sv_queue = []\<rparr>"
            using eff j by (simp add: db_view_def row_view_def get_i32_def)
          then show "?new (j, 0, True, 1) \<lparr>sq_db = db', sq_world = w2\<rparr>"
            using ok' [of w2] 4 k j by (simp add: sql_view_def)
        qed
      qed (use ins db eff db_okD(1,6) in auto)
    qed
  next
    case (5 w r s')
    then show ?case by (auto simp: or_fails_def interact_result_def split: sum.splits failure.splits)
  qed (use db db_okD(1,6) in \<open>auto simp: sql_select_def rows_def\<close>)
  with opened show ?thesis by (auto simp: runs_def)
qed

section \<open>The storage keeps its promises\<close>

lemma connection_ok: "sp_create_persistent_connection (session_persist_sql env) p = (Inr 0, p)"
  by (simp add: session_persist_sql_def)

theorem sql_session_storage:
  assumes works: "sql_works env now"
  shows "session_storage (session_persist_sql env) (store_ok now) sql_view"
proof (unfold_locales, goal_cases)
  case (1 p)
  then show ?case by (simp add: connection_ok)
next
  case (2 p S v)
  then show ?case using shows_open_known [OF works] by (simp add: session_persist_sql_def)
next
  case (3 p name S g mid p')
  then show ?case using shows_open_new [OF works] by (simp add: session_persist_sql_def)
next
  case (4 p S)
  then show ?case using shows_subscriptions [OF works] by (simp add: session_persist_sql_def)
next
  case (5 p S v)
  then show ?case using shows_load_received [OF works] by (simp add: session_persist_sql_def)
next
  case (6 p S v)
  then show ?case using shows_load_queue [OF works] by (simp add: session_persist_sql_def)
next
  case (7 p S v g)
  then show ?case using shows_update_generation [OF works] by (simp add: session_persist_sql_def)
next
  case (8 p S v mid)
  then show ?case by (simp add: session_persist_sql_def shows_now_or_fails [OF shows_update_mid [OF works]])
next
  case (9 p S v mid)
  then show ?case using shows_store_received [OF works] by (simp add: session_persist_sql_def)
next
  case (10 p S v mid)
  then show ?case by (simp add: session_persist_sql_def shows_now_or_fails [OF shows_delete_received [OF works]])
next
  case (11 p S v)
  then show ?case using shows_clear_received [OF works] by (simp add: session_persist_sql_def)
next
  case (12 p S v m mid)
  then show ?case using shows_store_message [OF works] by (simp add: session_persist_sql_def)
next
  case (13 p S v mid)
  then show ?case using shows_delete_message [OF works] by (simp add: session_persist_sql_def)
next
  case (14 p S v mid)
  then show ?case using shows_update_dup [OF works] by (simp add: session_persist_sql_def)
next
  case (15 p S v)
  then show ?case using shows_clear_queue [OF works] by (simp add: session_persist_sql_def)
qed

end
