(* ===== verification/Broker_Topics.thy ===== *)
theory Broker_Topics
  imports Broker_Persist Rust_Utf8
begin

text \<open>
  \<open>src/broker/topics.rs\<close>: the tree of topics with its subscriptions and retained messages.
  A \<open>&mut Topic\<close> the code holds is the path from the root, and what is done through it is
  an update of the tree at that path. The gauges are the two numbers the metrics show.
\<close>

section \<open>Topics\<close>

record topic_entry =
  te_session :: session_id
  te_qos :: u8

datatype topic =
  Topic (t_topics: "(rstring \<times> topic) list") (t_internal_id: "int option")
    (t_clients: "(rstring \<times> topic_entry) list") (t_message: "publish option")

definition topic_new :: "int option \<Rightarrow> topic" where
  "topic_new internal_id = Topic [] internal_id [] None"

fun topic_set_internal_id :: "int option \<Rightarrow> topic \<Rightarrow> topic" where
  "topic_set_internal_id i (Topic ts _ cs m) = Topic ts i cs m"

fun topic_set_topics :: "(rstring \<times> topic) list \<Rightarrow> topic \<Rightarrow> topic" where
  "topic_set_topics ts (Topic _ i cs m) = Topic ts i cs m"

fun topic_set_message :: "publish option \<Rightarrow> topic \<Rightarrow> topic" where
  "topic_set_message m (Topic ts i cs _) = Topic ts i cs m"

definition topic_get_num_subscribed :: "topic \<Rightarrow> nat" where
  "topic_get_num_subscribed t = length (t_clients t)"

text \<open>The flag is true for a new entry.\<close>

fun topic_set_subscribed :: "session_id \<Rightarrow> u8 \<Rightarrow> topic \<Rightarrow> bool \<times> topic" where
  "topic_set_subscribed session qos (Topic ts i cs m) =
     (let session_name = sid_session session;
          entry = \<lparr>te_session = session, te_qos = qos\<rparr>
      in (map_of cs session_name = None, Topic ts i (hm_insert session_name entry cs) m))"

fun topic_set_unsubscribed :: "rstring \<Rightarrow> topic \<Rightarrow> bool \<times> topic" where
  "topic_set_unsubscribed client (Topic ts i cs m) =
     (map_of cs client \<noteq> None, Topic ts i (hm_remove client cs) m)"

definition topic_get_subscribed :: "session_id \<Rightarrow> topic \<Rightarrow> u8 option" where
  "topic_get_subscribed session t = map_option te_qos (map_of (t_clients t) (sid_session session))"

text \<open>The topic at a path, and an update of it: what a \<open>&mut Topic\<close> gives access to.\<close>

fun topic_at :: "rstring list \<Rightarrow> topic \<Rightarrow> topic option" where
  "topic_at [] tm = Some tm"
| "topic_at (level # levels) tm =
     (case map_of (t_topics tm) level of None \<Rightarrow> None | Some e \<Rightarrow> topic_at levels e)"

fun topic_update :: "rstring list \<Rightarrow> (topic \<Rightarrow> topic) \<Rightarrow> topic \<Rightarrow> topic" where
  "topic_update [] f tm = f tm"
| "topic_update (level # levels) f tm =
     (case map_of (t_topics tm) level of
        None \<Rightarrow> tm
      | Some e \<Rightarrow> topic_set_topics (hm_insert level (topic_update levels f e) (t_topics tm)) tm)"

definition topic_levels :: "rstring \<Rightarrow> rstring list" where
  "topic_levels topic = split_at 0x2f topic"

section \<open>The subscriptions\<close>

record 'p subscriptions =
  sb_topics :: topic
  sb_guage_subscriptions :: int
  sb_guage_retained_messages :: int
  sb_persist :: 'p

definition subscriptions_new :: "'p \<Rightarrow> 'p subscriptions" where
  "subscriptions_new p =
     \<lparr>sb_topics = topic_new None, sb_guage_subscriptions = 0, sb_guage_retained_messages = 0, sb_persist = p\<rparr>"

type_synonym ('p, 'a) sub_act = "('p subscriptions, broker_error, 'a) act"

text \<open>\<open>self.persist.method(..).await?\<close>\<close>

definition with_persist :: "('p, 'a) persist_call \<Rightarrow> ('p, 'a) sub_act" where
  "with_persist call self =
     (case call (sb_persist self) of
        (Inl e, p) \<Rightarrow> (Inl (Failed e), self\<lparr>sb_persist := p\<rparr>)
      | (Inr a, p) \<Rightarrow> (Inr a, self\<lparr>sb_persist := p\<rparr>))"

text \<open>The walk of \<open>insert_topic\<close>: missing levels are made, the last one takes the item.\<close>

fun insert_topic_walk :: "rstring list \<Rightarrow> topic \<Rightarrow> topic \<Rightarrow> topic" where
  "insert_topic_walk [] topic_item tm = tm"
| "insert_topic_walk (level # levels) topic_item tm =
     (let is_last = (levels = []) in
      case map_of (t_topics tm) level of
        None \<Rightarrow>
          if \<not> is_last then
            topic_set_topics
              (hm_insert level (insert_topic_walk levels topic_item (topic_new None)) (t_topics tm)) tm
          else topic_set_topics (hm_insert level topic_item (t_topics tm)) tm
      | Some e \<Rightarrow>
          if is_last then
            topic_set_topics
              (hm_insert level
                (Topic (t_topics e) (t_internal_id topic_item) (t_clients topic_item) (t_message topic_item))
                (t_topics tm)) tm
          else
            topic_set_topics (hm_insert level (insert_topic_walk levels topic_item e) (t_topics tm)) tm)"

definition insert_topic :: "rstring \<Rightarrow> topic \<Rightarrow> 'p subscriptions \<Rightarrow> 'p subscriptions" where
  "insert_topic topic topic_item self =
     self\<lparr>sb_topics := insert_topic_walk (topic_levels topic) topic_item (sb_topics self)\<rparr>"

text \<open>
  The two walks of \<open>get_topic\<close>. The first makes the missing levels but the last, and says
  whether the last one is missing or has no id; the second makes the last one too and gives
  it its id.
\<close>

fun get_topic_walk1 :: "rstring list \<Rightarrow> topic \<Rightarrow> bool \<times> topic" where
  "get_topic_walk1 [] tm = (False, tm)"
| "get_topic_walk1 (level # levels) tm =
     (let is_last = (levels = []) in
      case map_of (t_topics tm) level of
        None \<Rightarrow>
          if \<not> is_last then
            (case get_topic_walk1 levels (topic_new None) of
               (new_topic, e) \<Rightarrow> (new_topic, topic_set_topics (hm_insert level e (t_topics tm)) tm))
          else (True, tm)
      | Some e \<Rightarrow>
          let new_topic = (is_last \<and> t_internal_id e = None) in
          (case get_topic_walk1 levels e of
             (new_topic', e') \<Rightarrow>
               (new_topic \<or> new_topic', topic_set_topics (hm_insert level e' (t_topics tm)) tm)))"

fun get_topic_walk2 :: "rstring list \<Rightarrow> int \<Rightarrow> bool \<Rightarrow> topic \<Rightarrow> topic" where
  "get_topic_walk2 [] internal_id new_topic tm = tm"
| "get_topic_walk2 (level # levels) internal_id new_topic tm =
     (let is_last = (levels = []) in
      case map_of (t_topics tm) level of
        None \<Rightarrow>
          topic_set_topics
            (hm_insert level (get_topic_walk2 levels internal_id new_topic (topic_new (Some internal_id)))
              (t_topics tm)) tm
      | Some e \<Rightarrow>
          let e = (if is_last \<and> new_topic then topic_set_internal_id (Some internal_id) e else e) in
          topic_set_topics (hm_insert level (get_topic_walk2 levels internal_id new_topic e) (t_topics tm)) tm)"

text \<open>The result is the path of the topic that is returned.\<close>

definition get_topic :: "'p topic_persist \<Rightarrow> rstring \<Rightarrow> ('p, rstring list) sub_act" where
  "get_topic tp topic self =
     (let t = topic_levels topic;
          internal_id = 0;
          (new_topic, topics) = get_topic_walk1 t (sb_topics self);
          self = self\<lparr>sb_topics := topics\<rparr>
      in act_bind
           (if new_topic then with_persist (tp_persist_topic tp topic) else act_return internal_id)
           (\<lambda>internal_id.
             act_bind (act_modify (\<lambda>self. self\<lparr>sb_topics := get_topic_walk2 t internal_id new_topic (sb_topics self)\<rparr>))
               (\<lambda>_. act_return t)) self)"

text \<open>Reading and changing the topic behind a returned path.\<close>

definition topic_get :: "rstring list \<Rightarrow> (topic \<Rightarrow> 'a) \<Rightarrow> ('p, 'a) sub_act" where
  "topic_get path f =
     act_bind (act_get (\<lambda>self. topic_at path (sb_topics self))) (\<lambda>tm.
     act_bind (act_unwrap tm) (\<lambda>tm. act_return (f tm)))"

definition topic_modify :: "rstring list \<Rightarrow> (topic \<Rightarrow> topic) \<Rightarrow> ('p, unit) sub_act" where
  "topic_modify path f = act_modify (\<lambda>self. self\<lparr>sb_topics := topic_update path f (sb_topics self)\<rparr>)"

definition subscribe :: "'p topic_persist \<Rightarrow> session_id \<Rightarrow> rstring \<Rightarrow> u8 \<Rightarrow> ('p, u8) sub_act" where
  "subscribe tp session topic qos =
     act_bind (get_topic tp topic) (\<lambda>tm.
     act_bind (topic_get tm t_internal_id) (\<lambda>internal_id.
     act_bind (act_unwrap internal_id) (\<lambda>topic_id.
     act_bind (topic_get tm (topic_get_subscribed session)) (\<lambda>subscribed.
       case subscribed of
         Some subscribed_qos \<Rightarrow>
           if subscribed_qos \<noteq> qos then
             act_match (with_persist (tp_persist_update_subscribe tp (sid_internal_id session) topic_id qos))
               (\<lambda>_.
                 act_bind (get_topic tp topic) (\<lambda>tm.
                 act_bind (topic_modify tm (\<lambda>t. snd (topic_set_subscribed session qos t))) (\<lambda>_.
                 act_return qos)))
               (\<lambda>_. act_return subscribed_qos)
           else act_return qos
       | None \<Rightarrow>
           act_bind (with_persist (tp_persist_subscribe tp (sid_internal_id session) topic_id qos)) (\<lambda>_.
           act_bind (get_topic tp topic) (\<lambda>tm.
           act_bind (topic_get tm (\<lambda>t. fst (topic_set_subscribed session qos t))) (\<lambda>is_new.
           act_bind (topic_modify tm (\<lambda>t. snd (topic_set_subscribed session qos t))) (\<lambda>_.
           if is_new then
             act_bind (act_modify (\<lambda>self. self\<lparr>sb_guage_subscriptions := sb_guage_subscriptions self + 1\<rparr>))
               (\<lambda>_. act_return qos)
           else act_return 0x80))))))))"

text \<open>What \<open>retain\<close> and \<open>unsubscribe\<close> both do with a topic nothing is left of.\<close>

definition delete_topic_row :: "'p topic_persist \<Rightarrow> rstring \<Rightarrow> int \<Rightarrow> ('p, unit) sub_act" where
  "delete_topic_row tp topic topic_id =
     act_bind (with_persist (tp_persist_delete_topic tp topic_id)) (\<lambda>_.
     act_bind (get_topic tp topic) (\<lambda>tm.
     topic_modify tm (topic_set_internal_id None)))"

definition retain :: "'p topic_persist \<Rightarrow> publish \<Rightarrow> ('p, unit) sub_act" where
  "retain tp msg =
     (let topic = pub_topic msg in
      act_bind (get_topic tp topic) (\<lambda>tm.
      act_bind (topic_get tm t_internal_id) (\<lambda>internal_id.
      act_bind (act_unwrap internal_id) (\<lambda>topic_id.
      act_bind (topic_get tm (\<lambda>t. t_message t \<noteq> None)) (\<lambda>is_retained_message.
      act_bind (with_persist (tp_persist_delete_retain tp topic_id)) (\<lambda>_.
      act_bind
        (if pub_message msg \<noteq> [] then
           act_bind (with_persist (tp_persist_retain tp topic_id msg)) (\<lambda>_. act_return ())
         else act_return ()) (\<lambda>_.
      act_bind (get_topic tp topic) (\<lambda>tm.
      if pub_message msg = [] then
        act_bind (topic_modify tm (topic_set_message None)) (\<lambda>_.
        act_bind (topic_get tm (\<lambda>t. t_message t = None \<and> topic_get_num_subscribed t = 0)) (\<lambda>to_delete.
        act_bind
          (if to_delete then
             delete_topic_row tp topic topic_id
           else act_return ()) (\<lambda>_.
        if is_retained_message then
          act_modify (\<lambda>self. self\<lparr>sb_guage_retained_messages := sb_guage_retained_messages self - 1\<rparr>)
        else act_return ())))
      else
        act_bind (topic_modify tm (topic_set_message (Some msg))) (\<lambda>_.
        if \<not> is_retained_message then
          act_modify (\<lambda>self. self\<lparr>sb_guage_retained_messages := sb_guage_retained_messages self + 1\<rparr>)
        else act_return ())))))))))"

definition get_retained_messages :: "rstring \<Rightarrow> 'p subscriptions \<Rightarrow> publish list" where
  "get_retained_messages topic self =
     (case topic_at (topic_levels topic) (sb_topics self) of
        None \<Rightarrow> []
      | Some entry \<Rightarrow> (case t_message entry of None \<Rightarrow> [] | Some m \<Rightarrow> [m]))"

definition unsubscribe :: "'p topic_persist \<Rightarrow> session_id \<Rightarrow> rstring \<Rightarrow> ('p, unit) sub_act" where
  "unsubscribe tp session topic =
     (let t = topic_levels topic in
      act_bind (act_get (\<lambda>self. topic_at t (sb_topics self))) (\<lambda>tm.
      case tm of
        None \<Rightarrow> act_return ()
      | Some entry \<Rightarrow>
          (case topic_set_unsubscribed (sid_session session) entry of
             (removed, entry) \<Rightarrow>
               if removed then
                 act_bind (topic_modify t (\<lambda>entry. snd (topic_set_unsubscribed (sid_session session) entry))) (\<lambda>_.
                 act_bind (act_modify (\<lambda>self. self\<lparr>sb_guage_subscriptions := sb_guage_subscriptions self - 1\<rparr>)) (\<lambda>_.
                 act_bind (act_unwrap (t_internal_id entry)) (\<lambda>topic_id.
                 let to_delete = (t_message entry = None \<and> topic_get_num_subscribed entry = 0) in
                 act_bind (with_persist (tp_persist_unsubscribe tp (sid_internal_id session) topic_id)) (\<lambda>_.
                 if to_delete then
                   delete_topic_row tp topic topic_id
                 else act_return ()))))
               else act_return ())))"

text \<open>
  \<open>get_subscribed\<close>: the subscriptions of one topic node go into the result under their
  session ids; one level looks at every topic matched so far.
\<close>

definition gs_clients :: "(rstring \<times> topic_entry) list \<Rightarrow> (session_id, u8) hmap \<Rightarrow> (session_id, u8) hmap" where
  "gs_clients cs clients = fold (\<lambda>(_, s). hm_insert (te_session s) (te_qos s)) cs clients"

fun gs_level :: "rstring \<Rightarrow> topic list \<Rightarrow> (session_id, u8) hmap \<Rightarrow> topic list \<Rightarrow> (session_id, u8) hmap \<times> topic list" where
  "gs_level level [] clients nexttopics = (clients, nexttopics)"
| "gs_level level (tm # topicmatchs) clients nexttopics =
     (let clients = (case map_of (t_topics tm) [0x23] of
            Some entry \<Rightarrow> gs_clients (t_clients entry) clients | None \<Rightarrow> clients);
          nexttopics = (case map_of (t_topics tm) [0x2b] of
            Some entry \<Rightarrow> nexttopics @ [entry] | None \<Rightarrow> nexttopics);
          nexttopics = (case map_of (t_topics tm) level of
            Some entry \<Rightarrow> nexttopics @ [entry] | None \<Rightarrow> nexttopics)
      in gs_level level topicmatchs clients nexttopics)"

fun gs_levels :: "rstring list \<Rightarrow> topic list \<Rightarrow> (session_id, u8) hmap \<Rightarrow> (session_id, u8) hmap \<times> topic list" where
  "gs_levels [] topicmatchs clients = (clients, topicmatchs)"
| "gs_levels (level # t) topicmatchs clients =
     (case gs_level level topicmatchs clients [] of
        (clients, nexttopics) \<Rightarrow>
          if nexttopics = [] then (clients, nexttopics) else gs_levels t nexttopics clients)"

definition get_subscribed :: "rstring \<Rightarrow> 'p subscriptions \<Rightarrow> (session_id, u8) hmap" where
  "get_subscribed topic self =
     (let t = topic_levels topic;
          starttopic = sb_topics self;
          (clients, topicmatchs) = gs_levels t [starttopic] []
      in fold (\<lambda>tm. gs_clients (t_clients tm)) topicmatchs clients)"

text \<open>The loop of \<open>load_persistent_state\<close>, with its two counters.\<close>

fun load_topics_loop :: "'p topic_persist \<Rightarrow> persisted_topic list \<Rightarrow> int \<Rightarrow> int \<Rightarrow> ('p, int \<times> int) sub_act" where
  "load_topics_loop tp [] retained_count subscription_count = act_return (retained_count, subscription_count)"
| "load_topics_loop tp (t # topics) retained_count subscription_count =
     (let topic = topic_new (Some (pt_topic_id t)) in
      act_bind
        (case pt_retained_message_id t of
           Some message_id \<Rightarrow>
             act_bind (with_persist (tp_load_persistent_message tp message_id)) (\<lambda>message.
             act_return (topic_set_message (Some message) topic, retained_count + 1))
         | None \<Rightarrow> act_return (topic, retained_count)) (\<lambda>(topic, retained_count).
      act_bind (with_persist (tp_load_persistent_subscriptions tp (pt_topic_id t))) (\<lambda>subscriptions.
      case fold (\<lambda>(session, qos) (topic, n). (snd (topic_set_subscribed session qos topic), n + 1))
             subscriptions (topic, subscription_count) of
        (topic, subscription_count) \<Rightarrow>
          act_bind (act_modify (insert_topic (pt_topic_name t) topic)) (\<lambda>_.
          load_topics_loop tp topics retained_count subscription_count))))"

definition load_persistent_state :: "'p topic_persist \<Rightarrow> ('p, u8) sub_act" where
  "load_persistent_state tp =
     act_bind (with_persist (tp_load_persistent_topics tp)) (\<lambda>topics.
     act_bind (load_topics_loop tp topics 0 0) (\<lambda>(retained_count, subscription_count).
     act_bind (act_modify (\<lambda>self. self\<lparr>sb_guage_subscriptions := subscription_count,
         sb_guage_retained_messages := retained_count\<rparr>)) (\<lambda>_.
     act_return 0)))"

definition create_persistent_connection :: "'p topic_persist \<Rightarrow> ('p, u8) sub_act" where
  "create_persistent_connection tp = with_persist (tp_create_persistent_connection tp)"

definition init_persistent_store :: "'p topic_persist \<Rightarrow> ('p, u8) sub_act" where
  "init_persistent_store tp = with_persist (tp_init_persistent_store tp)"

end
