(* ===== verification/Topics_Laws.thy ===== *)
theory Topics_Laws
  imports Broker_Topics
begin

text \<open>
  The topic tree as the abstract state it stands for: the subscriptions of each path and the
  retained message of each path. Every operation is an update of that state; no operation
  panics on a tree whose subscribed or retaining topics have their database ids, and every
  operation keeps that, on its error paths too.
\<close>

section \<open>What a path shows\<close>

type_synonym topic_info = "int option \<times> (rstring \<times> topic_entry) list \<times> publish option"

text \<open>A missing topic shows what an empty one without an id shows.\<close>

fun topic_info :: "topic option \<Rightarrow> topic_info" where
  "topic_info None = (None, [], None)"
| "topic_info (Some t) = (t_internal_id t, t_clients t, t_message t)"

definition info_at :: "rstring list \<Rightarrow> topic \<Rightarrow> topic_info" where
  "info_at p tm = topic_info (topic_at p tm)"

lemma topic_new_sel [simp]:
  "t_topics (topic_new i) = []" "t_internal_id (topic_new i) = i" "t_clients (topic_new i) = []"
  "t_message (topic_new i) = None"
  by (simp_all add: topic_new_def)

lemma topic_set_sel [simp]:
  "t_topics (topic_set_topics ts t) = ts" "t_internal_id (topic_set_topics ts t) = t_internal_id t"
  "t_clients (topic_set_topics ts t) = t_clients t" "t_message (topic_set_topics ts t) = t_message t"
  "t_topics (topic_set_internal_id i t) = t_topics t" "t_internal_id (topic_set_internal_id i t) = i"
  "t_clients (topic_set_internal_id i t) = t_clients t" "t_message (topic_set_internal_id i t) = t_message t"
  "t_topics (topic_set_message m t) = t_topics t" "t_internal_id (topic_set_message m t) = t_internal_id t"
  "t_clients (topic_set_message m t) = t_clients t" "t_message (topic_set_message m t) = m"
  "t_topics (snd (topic_set_subscribed s q t)) = t_topics t"
  "t_internal_id (snd (topic_set_subscribed s q t)) = t_internal_id t"
  "t_message (snd (topic_set_subscribed s q t)) = t_message t"
  "t_clients (snd (topic_set_subscribed s q t)) =
     hm_insert (sid_session s) \<lparr>te_session = s, te_qos = q\<rparr> (t_clients t)"
  "fst (topic_set_subscribed s q t) \<longleftrightarrow> map_of (t_clients t) (sid_session s) = None"
  "t_topics (snd (topic_set_unsubscribed c t)) = t_topics t"
  "t_internal_id (snd (topic_set_unsubscribed c t)) = t_internal_id t"
  "t_message (snd (topic_set_unsubscribed c t)) = t_message t"
  "t_clients (snd (topic_set_unsubscribed c t)) = hm_remove c (t_clients t)"
  "fst (topic_set_unsubscribed c t) \<longleftrightarrow> map_of (t_clients t) c \<noteq> None"
  by (cases t; simp add: Let_def)+

lemma info_at_Nil: "info_at [] tm = (t_internal_id tm, t_clients tm, t_message tm)"
  by (simp add: info_at_def)

lemma info_at_Cons:
  "info_at (l # p) tm = (case map_of (t_topics tm) l of None \<Rightarrow> (None, [], None) | Some e \<Rightarrow> info_at p e)"
  by (simp add: info_at_def split: option.splits)

lemma info_at_new [simp]: "info_at (l # p) (topic_new i) = (None, [], None)"
  by (simp add: info_at_Cons)

lemma info_at_set_internal_id [simp]: "info_at (l # p) (topic_set_internal_id i tm) = info_at (l # p) tm"
  by (simp add: info_at_Cons)

lemma info_at_update:
  assumes "\<And>t. t_topics (f t) = t_topics t" and "topic_at p tm = Some t"
  shows "info_at q (topic_update p f tm) = (if q = p then topic_info (Some (f t)) else info_at q tm)"
  using assms(2)
proof (induction p arbitrary: q tm)
  case Nil
  then show ?case using assms(1) by (cases q) (simp_all add: info_at_Nil info_at_Cons)
next
  case (Cons l p)
  then show ?case by (cases q) (auto simp: info_at_Nil info_at_Cons split: option.splits)
qed

lemma topic_at_update:
  assumes "\<And>t. t_topics (f t) = t_topics t" and "topic_at p tm = Some t"
  shows "topic_at p (topic_update p f tm) = Some (f t)"
  using assms(2) by (induction p arbitrary: tm) (auto split: option.splits)

section \<open>\<open>get_topic\<close>\<close>

text \<open>Every level above the last is there: what the first walk makes sure of.\<close>

fun levels_made :: "rstring list \<Rightarrow> topic \<Rightarrow> bool" where
  "levels_made [] tm = True"
| "levels_made (level # levels) tm =
     (case map_of (t_topics tm) level of None \<Rightarrow> levels = [] | Some e \<Rightarrow> levels_made levels e)"

lemma walk1_snd:
  "snd (get_topic_walk1 (l # p) tm) =
     (case map_of (t_topics tm) l of
        None \<Rightarrow> if p = [] then tm
          else topic_set_topics (hm_insert l (snd (get_topic_walk1 p (topic_new None))) (t_topics tm)) tm
      | Some e \<Rightarrow> topic_set_topics (hm_insert l (snd (get_topic_walk1 p e)) (t_topics tm)) tm)"
  by (simp add: Let_def split: option.splits prod.splits)

lemma walk1_fst_Cons:
  "fst (get_topic_walk1 (l # p) tm) =
     (case map_of (t_topics tm) l of
        None \<Rightarrow> p = [] \<or> fst (get_topic_walk1 p (topic_new None))
      | Some e \<Rightarrow> (p = [] \<and> t_internal_id e = None) \<or> fst (get_topic_walk1 p e))"
  by (simp add: Let_def split: option.splits prod.splits)

declare get_topic_walk1.simps(2) [simp del] get_topic_walk2.simps(2) [simp del]

lemma info_at_new_None [simp]: "info_at q (topic_new None) = (None, [], None)"
  by (cases q) (simp_all add: info_at_Nil)

lemma walk1_fst:
  "fst (get_topic_walk1 p tm) \<longleftrightarrow> p \<noteq> [] \<and> fst (info_at p tm) = None"
  by (induction p arbitrary: tm) (auto simp: walk1_fst_Cons info_at_Cons info_at_Nil split: option.splits)

lemma info_at_insert:
  "info_at (k # q) (topic_set_topics (hm_insert l e (t_topics tm)) tm) =
     (if k = l then info_at q e else info_at (k # q) tm)"
  by (simp add: info_at_Cons)

lemma walk1_info: "info_at q (snd (get_topic_walk1 p tm)) = info_at q tm"
proof (induction p arbitrary: q tm)
  case (Cons l p)
  show ?case
  proof (cases q)
    case Nil
    then show ?thesis by (simp add: walk1_snd info_at_Nil split: option.splits)
  next
    case (Cons k q')
    then show ?thesis
      unfolding walk1_snd by (auto simp: info_at_insert Cons.IH split: option.splits) (auto simp: info_at_Cons)
  qed
qed simp

lemma walk1_made: "levels_made p (snd (get_topic_walk1 p tm))"
proof (induction p arbitrary: tm)
  case (Cons l p)
  then show ?case unfolding walk1_snd by (auto split: option.splits)
qed simp

lemma walk2_info:
  assumes "levels_made p tm" and "p \<noteq> []" and "new_topic \<longleftrightarrow> fst (info_at p tm) = None"
  shows "info_at q (get_topic_walk2 p i new_topic tm) =
    (if q = p \<and> new_topic then (Some i, snd (info_at p tm)) else info_at q tm) \<and>
    topic_at p (get_topic_walk2 p i new_topic tm) \<noteq> None"
  using assms
proof (induction p arbitrary: q tm)
  case (Cons l p)
  note get_topic_walk2.simps(2) [simp]
  show ?case
  proof (cases "p = []")
    case True
    then show ?thesis using Cons.prems
      by (cases q) (auto simp: info_at_insert info_at_Nil info_at_Cons Let_def split: option.splits; case_tac list; simp add: info_at_Cons info_at_Nil)+
  next
    case False
    then obtain e where e: "map_of (t_topics tm) l = Some e" "levels_made p e"
      using Cons.prems by (auto split: option.splits)
    then have "new_topic \<longleftrightarrow> fst (info_at p e) = None" using Cons.prems by (simp add: info_at_Cons)
    note IH = Cons.IH [OF e(2) False this]
    show ?thesis
    proof (cases q)
      case Nil
      then show ?thesis using e False IH by (simp add: info_at_Nil)
    next
      case (Cons k q')
      then show ?thesis using e False IH [of q'] by (auto simp: info_at_insert) (auto simp: info_at_Cons)
    qed
  qed
qed simp

lemma with_persist_Inr:
  "with_persist call self = (Inr a, self') \<longleftrightarrow>
     (\<exists>p. call (sb_persist self) = (Inr a, p) \<and> self' = self\<lparr>sb_persist := p\<rparr>)"
  by (auto simp: with_persist_def split: prod.splits sum.splits)

lemma with_persist_Inl:
  "with_persist call self = (Inl e, self') \<longleftrightarrow>
     (\<exists>p err. call (sb_persist self) = (Inl err, p) \<and> e = Failed err \<and> self' = self\<lparr>sb_persist := p\<rparr>)"
  by (auto simp: with_persist_def split: prod.splits sum.splits)

lemma topic_get_Inr:
  "topic_get path f self = (Inr a, self') \<longleftrightarrow>
     (\<exists>t. topic_at path (sb_topics self) = Some t \<and> a = f t \<and> self' = self)"
  by (cases "topic_at path (sb_topics self)") (auto simp: topic_get_def act_bind_app)

lemma topic_get_Inl:
  "topic_get path f self = (Inl e, self') \<longleftrightarrow>
     topic_at path (sb_topics self) = None \<and> e = Panicked \<and> self' = self"
  by (cases "topic_at path (sb_topics self)") (auto simp: topic_get_def act_bind_app)

lemma topic_modify_app [simp]:
  "topic_modify path f self = (Inr (), self\<lparr>sb_topics := topic_update path f (sb_topics self)\<rparr>)"
  by (simp add: topic_modify_def)

lemma act_unwrap_Inr: "act_unwrap opt s = (Inr a, s') \<longleftrightarrow> opt = Some a \<and> s' = s"
  by (cases opt) auto

lemma act_unwrap_Inl: "act_unwrap opt s = (Inl e, s') \<longleftrightarrow> opt = None \<and> e = Panicked \<and> s' = s"
  by (cases opt) auto

lemmas sub_act_simps = act_bind_Inr act_bind_Inl with_persist_Inr with_persist_Inl topic_get_Inr topic_get_Inl
  act_unwrap_Inr act_unwrap_Inl

lemma topic_levels_not_Nil [simp]: "topic_levels topic \<noteq> []"
  by (simp add: topic_levels_def)

text \<open>The view of a state: what every path shows, and the gauges.\<close>

definition info_of :: "'p subscriptions \<Rightarrow> rstring list \<Rightarrow> topic_info" where
  "info_of self p = info_at p (sb_topics self)"

definition guages :: "'p subscriptions \<Rightarrow> int \<times> int" where
  "guages self = (sb_guage_subscriptions self, sb_guage_retained_messages self)"

lemma info_of_simps [simp]:
  "info_of (self\<lparr>sb_persist := p\<rparr>) = info_of self"
  "info_of (self\<lparr>sb_guage_subscriptions := i\<rparr>) = info_of self"
  "info_of (self\<lparr>sb_guage_retained_messages := i\<rparr>) = info_of self"
  "guages (self\<lparr>sb_persist := p\<rparr>) = guages self"
  "guages (self\<lparr>sb_topics := t\<rparr>) = guages self"
  "guages (self\<lparr>sb_guage_subscriptions := i\<rparr>) = (i, sb_guage_retained_messages self)"
  "guages (self\<lparr>sb_guage_retained_messages := i\<rparr>) = (sb_guage_subscriptions self, i)"
  by (simp_all add: info_of_def guages_def fun_eq_iff)

lemma info_of_update:
  assumes "\<And>t. t_topics (f t) = t_topics t" and "topic_at p (sb_topics self) = Some t"
  shows "info_of (self\<lparr>sb_topics := topic_update p f (sb_topics self)\<rparr>) = (info_of self)(p := topic_info (Some (f t)))"
  using info_at_update [OF assms] by (auto simp: info_of_def fun_eq_iff)

lemma get_topic_Inr:
  assumes "get_topic tp topic self = (Inr t, self')"
  obtains i tm where "t = topic_levels topic" "topic_at t (sb_topics self') = Some tm"
    "info_of self' = (info_of self)(t := (Some i, snd (info_of self t)))" "guages self' = guages self"
    "fst (info_of self t) = None \<Longrightarrow> tp_persist_topic tp topic (sb_persist self) = (Inr i, sb_persist self')"
    "fst (info_of self t) \<noteq> None \<Longrightarrow> fst (info_of self t) = Some i \<and> sb_persist self' = sb_persist self"
proof -
  let ?p = "topic_levels topic"
  obtain new_topic tms where w: "get_topic_walk1 ?p (sb_topics self) = (new_topic, tms)" by fastforce
  have new: "new_topic \<longleftrightarrow> fst (info_of self ?p) = None" and same: "info_at q tms = info_of self q" for q
    using walk1_fst [of ?p "sb_topics self"] walk1_info [of q ?p "sb_topics self"] by (simp_all add: w info_of_def)
  have made: "levels_made ?p tms" using walk1_made [of ?p "sb_topics self"] by (simp add: w)
  obtain i s' where s: "(if new_topic then with_persist (tp_persist_topic tp topic) else act_return 0)
      (self\<lparr>sb_topics := tms\<rparr>) = (Inr i, s')"
    and self': "self' = s'\<lparr>sb_topics := get_topic_walk2 ?p i new_topic (sb_topics s')\<rparr>" and t: "t = ?p"
    using assms by (auto simp: get_topic_def Let_def w act_bind_Inr)
  have s': "sb_topics s' = tms" "guages s' = guages self"
    using s by (auto simp: with_persist_Inr split: if_splits)
  have "new_topic \<longleftrightarrow> fst (info_at ?p tms) = None" using new same by simp
  note w2 = walk2_info [OF made topic_levels_not_Nil this]
  define i' where "i' = (if new_topic then i else the (fst (info_of self ?p)))"
  show thesis
  proof
    show "t = topic_levels topic" by (rule t)
    show "topic_at t (sb_topics self') = Some (the (topic_at t (sb_topics self')))"
      using w2 by (auto simp: self' s' t)
    show "info_of self' = (info_of self)(t := (Some i', snd (info_of self t)))"
      using w2 [of _ i] new by (auto simp: info_of_def self' s' t fun_eq_iff same i'_def prod_eq_iff)
    show "guages self' = guages self" by (simp add: self' s')
    show "fst (info_of self t) = None \<Longrightarrow> tp_persist_topic tp topic (sb_persist self) = (Inr i', sb_persist self')"
      using s new by (auto simp: t with_persist_Inr self' i'_def)
    show "fst (info_of self t) \<noteq> None \<Longrightarrow> fst (info_of self t) = Some i' \<and> sb_persist self' = sb_persist self"
      using s new by (auto simp: t self' i'_def)
  qed
qed

lemma get_topic_Inl:
  assumes "get_topic tp topic self = (Inl e, self')"
  shows "info_of self' = info_of self \<and> guages self' = guages self \<and> fst (info_of self (topic_levels topic)) = None \<and>
    (\<exists>err. e = Failed err \<and> tp_persist_topic tp topic (sb_persist self) = (Inl err, sb_persist self'))"
proof -
  let ?p = "topic_levels topic"
  obtain new_topic tms where w: "get_topic_walk1 ?p (sb_topics self) = (new_topic, tms)" by fastforce
  have "new_topic \<longleftrightarrow> fst (info_of self ?p) = None" and "info_at q tms = info_of self q" for q
    using walk1_fst [of ?p "sb_topics self"] walk1_info [of q ?p "sb_topics self"] by (simp_all add: w info_of_def)
  then show ?thesis
    using assms by (auto simp: get_topic_def Let_def w act_bind_Inl with_persist_Inl info_of_def fun_eq_iff split: if_splits)
qed

section \<open>The abstract state\<close>

text \<open>
  What the tree stands for: the subscriptions at each path, by session name, and the retained
  message of each path.
\<close>

definition subs_of :: "'p subscriptions \<Rightarrow> rstring list \<Rightarrow> rstring \<Rightarrow> topic_entry option" where
  "subs_of self p = map_of (fst (snd (info_of self p)))"

definition retained_of :: "'p subscriptions \<Rightarrow> rstring list \<Rightarrow> publish option" where
  "retained_of self p = snd (snd (info_of self p))"

lemma abs_info_cong:
  "info_of self' = (info_of self)(p := (i, snd (info_of self p))) \<Longrightarrow>
     subs_of self' = subs_of self \<and> retained_of self' = retained_of self"
  "info_of self' = info_of self \<Longrightarrow> subs_of self' = subs_of self \<and> retained_of self' = retained_of self"
  by (auto simp: subs_of_def retained_of_def fun_eq_iff)

lemma topic_info_at:
  "topic_at p (sb_topics self) = Some t \<Longrightarrow> info_of self p = (t_internal_id t, t_clients t, t_message t)"
  by (simp add: info_of_def info_at_def)

lemma get_topic_abs:
  assumes "get_topic tp topic self = (Inr t, self')"
  obtains i tm where "t = topic_levels topic" "topic_at t (sb_topics self') = Some tm" "t_internal_id tm = Some i"
    "subs_of self' = subs_of self" "retained_of self' = retained_of self" "guages self' = guages self"
    "map_of (t_clients tm) = subs_of self t" "t_message tm = retained_of self t"
proof -
  obtain i tm where 1: "t = topic_levels topic" "topic_at t (sb_topics self') = Some tm"
    "info_of self' = (info_of self)(t := (Some i, snd (info_of self t)))" "guages self' = guages self"
    by (rule get_topic_Inr [OF assms])
  have tm: "(t_internal_id tm, t_clients tm, t_message tm) = (Some i, snd (info_of self t))"
    using topic_info_at [OF 1(2)] by (simp add: 1(3))
  show thesis
  proof (rule that [OF 1(1,2) _ _ _ 1(4)])
    show "t_internal_id tm = Some i" "map_of (t_clients tm) = subs_of self t" "t_message tm = retained_of self t"
      using tm by (cases "info_of self t"; simp add: subs_of_def retained_of_def)+
    show "subs_of self' = subs_of self" "retained_of self' = retained_of self"
      using abs_info_cong(1) [OF 1(3)] by simp_all
  qed
qed

lemma modify_abs:
  assumes "\<And>t. t_topics (f t) = t_topics t" and "topic_at p (sb_topics self) = Some t"
    and "self' = self\<lparr>sb_topics := topic_update p f (sb_topics self)\<rparr>"
  shows "subs_of self' = (subs_of self)(p := map_of (t_clients (f t)))"
    and "retained_of self' = (retained_of self)(p := t_message (f t))" and "guages self' = guages self"
  using info_of_update [OF assms(1,2)] assms(3)
  by (auto simp: subs_of_def retained_of_def fun_eq_iff)

lemma abs_simps [simp]:
  "subs_of (self\<lparr>sb_persist := p\<rparr>) = subs_of self"
  "subs_of (self\<lparr>sb_guage_subscriptions := i\<rparr>) = subs_of self"
  "subs_of (self\<lparr>sb_guage_retained_messages := i\<rparr>) = subs_of self"
  "retained_of (self\<lparr>sb_persist := p\<rparr>) = retained_of self"
  "retained_of (self\<lparr>sb_guage_subscriptions := i\<rparr>) = retained_of self"
  "retained_of (self\<lparr>sb_guage_retained_messages := i\<rparr>) = retained_of self"
  by (simp_all add: subs_of_def retained_of_def fun_eq_iff)

section \<open>\<open>subscribe\<close>\<close>

text \<open>The steps after the topic has been found.\<close>

lemma subscribe_new:
  assumes "subscribe tp session topic qos self = (Inr ret, self')"
    and "subs_of self (topic_levels topic) (sid_session session) = None"
  shows "ret = qos \<and> subs_of self' = (subs_of self)(topic_levels topic :=
      (subs_of self (topic_levels topic))(sid_session session \<mapsto> \<lparr>te_session = session, te_qos = qos\<rparr>)) \<and>
    retained_of self' = retained_of self \<and>
    guages self' = (sb_guage_subscriptions self + 1, sb_guage_retained_messages self)"
proof -
  let ?p = "topic_levels topic" and ?n = "sid_session session"
  obtain t s1 where g1: "get_topic tp topic self = (Inr t, s1)"
    using assms(1) by (auto simp: subscribe_def act_bind_Inr)
  obtain i tm where 1: "t = ?p" "topic_at t (sb_topics s1) = Some tm" "t_internal_id tm = Some i"
    "subs_of s1 = subs_of self" "retained_of s1 = retained_of self" "guages s1 = guages self"
    "map_of (t_clients tm) = subs_of self t"
    using get_topic_abs [OF g1] by metis
  have none: "topic_get_subscribed session tm = None" using 1 assms(2) by (simp add: topic_get_subscribed_def)
  obtain b s2 t2 s3 where p: "with_persist (tp_persist_subscribe tp (sid_internal_id session) i qos) s1 = (Inr b, s2)"
    and g2: "get_topic tp topic s2 = (Inr t2, s3)"
    and rest: "act_bind (topic_get t2 (\<lambda>t. fst (topic_set_subscribed session qos t))) (\<lambda>is_new.
           act_bind (topic_modify t2 (\<lambda>t. snd (topic_set_subscribed session qos t))) (\<lambda>_.
           if is_new then
             act_bind (act_modify (\<lambda>self. self\<lparr>sb_guage_subscriptions := sb_guage_subscriptions self + 1\<rparr>))
               (\<lambda>_. act_return qos)
           else act_return 0x80)) s3 = (Inr ret, self')"
    using assms(1) g1 1 none by (auto simp: subscribe_def act_bind_Inr topic_get_Inr)
  have s2: "subs_of s2 = subs_of s1" "retained_of s2 = retained_of s1" "guages s2 = guages s1"
    using p by (auto simp: with_persist_Inr)
  obtain i2 tm2 where 2: "t2 = ?p" "topic_at t2 (sb_topics s3) = Some tm2"
    "subs_of s3 = subs_of s2" "retained_of s3 = retained_of s2" "guages s3 = guages s2"
    "map_of (t_clients tm2) = subs_of s2 t2" "t_message tm2 = retained_of s2 t2"
    using get_topic_abs [OF g2] by metis
  let ?f = "\<lambda>t. snd (topic_set_subscribed session qos t)"
  let ?s4 = "s3\<lparr>sb_topics := topic_update t2 ?f (sb_topics s3)\<rparr>"
  have "fst (topic_set_subscribed session qos tm2)" using 1 2 s2 assms(2) by simp
  then have self': "ret = qos" "self' = ?s4\<lparr>sb_guage_subscriptions := sb_guage_subscriptions ?s4 + 1\<rparr>"
    using rest 2 by (auto simp: act_bind_Inr topic_get_Inr)
  have "subs_of ?s4 = (subs_of s3)(t2 := map_of (t_clients (?f tm2)))"
    "retained_of ?s4 = (retained_of s3)(t2 := t_message (?f tm2))" "guages ?s4 = guages s3"
    by (rule modify_abs [OF _ 2(2) refl]; simp)+
  then show ?thesis
    using 1 2 s2 by (auto simp: self' guages_def)
qed

lemma subscribe_known:
  assumes "subscribe tp session topic qos self = (Inr ret, self')"
    and "subs_of self (topic_levels topic) (sid_session session) = Some e"
  shows "retained_of self' = retained_of self \<and> guages self' = guages self \<and>
    (if te_qos e = qos then ret = qos \<and> subs_of self' = subs_of self
     else ret = qos \<and> subs_of self' = (subs_of self)(topic_levels topic :=
        (subs_of self (topic_levels topic))(sid_session session \<mapsto> \<lparr>te_session = session, te_qos = qos\<rparr>)) \<or>
       ret = te_qos e \<and> subs_of self' = subs_of self)"
proof -
  let ?p = "topic_levels topic" and ?n = "sid_session session"
  obtain t s1 where g1: "get_topic tp topic self = (Inr t, s1)"
    using assms(1) by (auto simp: subscribe_def act_bind_Inr)
  obtain i tm where 1: "t = ?p" "topic_at t (sb_topics s1) = Some tm" "t_internal_id tm = Some i"
    "subs_of s1 = subs_of self" "retained_of s1 = retained_of self" "guages s1 = guages self"
    "map_of (t_clients tm) = subs_of self t"
    using get_topic_abs [OF g1] by metis
  have some: "topic_get_subscribed session tm = Some (te_qos e)" using 1 assms(2) by (simp add: topic_get_subscribed_def)
  show ?thesis
  proof (cases "te_qos e = qos")
    case True
    then have "ret = qos" "self' = s1"
      using assms(1) g1 1 some by (auto simp: subscribe_def act_bind_Inr topic_get_Inr)
    then show ?thesis using True 1 by simp
  next
    case ne: False
    obtain r s2 where p: "with_persist (tp_persist_update_subscribe tp (sid_internal_id session) i qos) s1 = (r, s2)"
      by fastforce
    have s2: "subs_of s2 = subs_of s1" "retained_of s2 = retained_of s1" "guages s2 = guages s1"
      using p by (cases r; auto simp: with_persist_Inr with_persist_Inl)+
    show ?thesis
    proof (cases r)
      case (Inl x)
      then have "ret = te_qos e" "self' = s2"
        using assms(1) g1 1 some ne p by (auto simp: subscribe_def act_bind_Inr topic_get_Inr)
      then show ?thesis using ne 1 s2 by simp
    next
      case (Inr x)
      then obtain t2 s3 where g2: "get_topic tp topic s2 = (Inr t2, s3)"
        and self': "ret = qos" "self' = s3\<lparr>sb_topics := topic_update t2 (\<lambda>t. snd (topic_set_subscribed session qos t)) (sb_topics s3)\<rparr>"
        using assms(1) g1 1 some ne p by (auto simp: subscribe_def act_bind_Inr topic_get_Inr)
      obtain i2 tm2 where 2: "t2 = ?p" "topic_at t2 (sb_topics s3) = Some tm2"
        "subs_of s3 = subs_of s2" "retained_of s3 = retained_of s2" "guages s3 = guages s2"
        "map_of (t_clients tm2) = subs_of s2 t2" "t_message tm2 = retained_of s2 t2"
        using get_topic_abs [OF g2] by metis
      let ?f = "\<lambda>t. snd (topic_set_subscribed session qos t)"
      have "subs_of self' = (subs_of s3)(t2 := map_of (t_clients (?f tm2)))"
        "retained_of self' = (retained_of s3)(t2 := t_message (?f tm2))" "guages self' = guages s3"
        by (rule modify_abs [OF _ 2(2) self'(2)]; simp)+
      then show ?thesis using ne self'(1) 1 2 s2 by (auto simp: fun_eq_iff)
    qed
  qed
qed

section \<open>\<open>retain\<close> and \<open>unsubscribe\<close>\<close>

lemma persist_abs:
  assumes "with_persist call s = (r, s')"
  shows "subs_of s' = subs_of s" "retained_of s' = retained_of s" "guages s' = guages s" "sb_topics s' = sb_topics s"
    "info_of s' = info_of s"
  using assms by (cases r; auto simp: with_persist_Inr with_persist_Inl)+

lemma fun_upd_abs: "f p = x \<Longrightarrow> f(p := x) = f"
  by auto

text \<open>Taking the id from a topic with no clients and no message, as both operations end.\<close>

lemma drop_id_abs:
  assumes "delete_topic_row tp topic i s = (Inr (), s')"
  shows "subs_of s' = subs_of s \<and> retained_of s' = retained_of s \<and> guages s' = guages s"
proof -
  obtain b s1 t s2 where p: "with_persist (tp_persist_delete_topic tp i) s = (Inr b, s1)" and g: "get_topic tp topic s1 = (Inr t, s2)"
    and s': "s' = s2\<lparr>sb_topics := topic_update t (topic_set_internal_id None) (sb_topics s2)\<rparr>"
    using assms by (auto simp: delete_topic_row_def act_bind_Inr)
  obtain tm where 2: "topic_at t (sb_topics s2) = Some tm" "subs_of s2 = subs_of s1"
    "retained_of s2 = retained_of s1" "guages s2 = guages s1" "map_of (t_clients tm) = subs_of s1 t"
    "t_message tm = retained_of s1 t"
    using get_topic_abs [OF g] by metis
  have "subs_of s' = (subs_of s2)(t := map_of (t_clients (topic_set_internal_id None tm)))"
    "retained_of s' = (retained_of s2)(t := t_message (topic_set_internal_id None tm))" "guages s' = guages s2"
    by (rule modify_abs [OF _ 2(1) s']; simp)+
  then show ?thesis using 2 persist_abs [OF p] by auto
qed

lemma retain_abs:
  assumes "retain tp msg self = (Inr (), self')"
  shows "subs_of self' = subs_of self \<and>
    retained_of self' = (retained_of self)(topic_levels (pub_topic msg) :=
      (if pub_message msg = [] then None else Some msg)) \<and>
    guages self' = (sb_guage_subscriptions self,
      sb_guage_retained_messages self +
        (if pub_message msg = [] then 0 else 1) - (if retained_of self (topic_levels (pub_topic msg)) = None then 0 else 1))"
proof -
  let ?p = "topic_levels (pub_topic msg)"
  obtain t s1 where g1: "get_topic tp (pub_topic msg) self = (Inr t, s1)"
    using assms by (auto simp: retain_def Let_def act_bind_Inr)
  obtain i tm where 1: "t = ?p" "topic_at t (sb_topics s1) = Some tm" "t_internal_id tm = Some i"
    "subs_of s1 = subs_of self" "retained_of s1 = retained_of self" "guages s1 = guages self"
    "t_message tm = retained_of self t"
    using get_topic_abs [OF g1] by metis
  obtain u s2 v s3 t2 s4 where p2: "with_persist (tp_persist_delete_retain tp i) s1 = (Inr u, s2)"
    and p3: "(if pub_message msg \<noteq> [] then
           act_bind (with_persist (tp_persist_retain tp i msg)) (\<lambda>_. act_return ())
         else act_return ()) s2 = (Inr v, s3)"
    and g2: "get_topic tp (pub_topic msg) s3 = (Inr t2, s4)"
    and rest: "(if pub_message msg = [] then
        act_bind (topic_modify t2 (topic_set_message None)) (\<lambda>_.
        act_bind (topic_get t2 (\<lambda>t. t_message t = None \<and> topic_get_num_subscribed t = 0)) (\<lambda>to_delete.
        act_bind
          (if to_delete then delete_topic_row tp (pub_topic msg) i
           else act_return ()) (\<lambda>_.
        if t_message tm \<noteq> None then
          act_modify (\<lambda>self. self\<lparr>sb_guage_retained_messages := sb_guage_retained_messages self - 1\<rparr>)
        else act_return ())))
      else
        act_bind (topic_modify t2 (topic_set_message (Some msg))) (\<lambda>_.
        if \<not> t_message tm \<noteq> None then
          act_modify (\<lambda>self. self\<lparr>sb_guage_retained_messages := sb_guage_retained_messages self + 1\<rparr>)
        else act_return ())) s4 = (Inr (), self')"
    using assms g1 1 unfolding retain_def Let_def by (auto simp only: act_bind_Inr topic_get_Inr act_unwrap_Inr)
  have s3: "subs_of s3 = subs_of s1" "retained_of s3 = retained_of s1" "guages s3 = guages s1"
    using p3 persist_abs [OF p2] by (auto simp: act_bind_Inr persist_abs split: if_splits)
  obtain tm2 where 2: "t2 = ?p" "topic_at t2 (sb_topics s4) = Some tm2"
    "subs_of s4 = subs_of s3" "retained_of s4 = retained_of s3" "guages s4 = guages s3"
    "map_of (t_clients tm2) = subs_of s3 t2"
    using get_topic_abs [OF g2] by metis
  define m where "m = (if pub_message msg = [] then None else Some msg)"
  define s5 where "s5 = s4\<lparr>sb_topics := topic_update t2 (topic_set_message m) (sb_topics s4)\<rparr>"
  have "subs_of s5 = (subs_of s4)(t2 := map_of (t_clients (topic_set_message m tm2)))"
    "retained_of s5 = (retained_of s4)(t2 := t_message (topic_set_message m tm2))" "guages s5 = guages s4"
    by (rule modify_abs [OF _ 2(2) s5_def]; simp)+
  then have s5: "subs_of s5 = subs_of self" "retained_of s5 = (retained_of self)(?p := m)" "guages s5 = guages self"
    using 1 2 s3 by auto
  show ?thesis
  proof (cases "pub_message msg = []")
    case True
    then have s5e: "s4\<lparr>sb_topics := topic_update t2 (topic_set_message None) (sb_topics s4)\<rparr> = s5"
      by (simp add: s5_def m_def)
    define isr where "isr = (t_message tm \<noteq> None)"
    obtain d s6 where d: "(if d then delete_topic_row tp (pub_topic msg) i
           else act_return ()) s5 = (Inr (), s6)"
      and g: "(if isr then
          act_modify (\<lambda>self. self\<lparr>sb_guage_retained_messages := sb_guage_retained_messages self - 1\<rparr>)
        else act_return () :: (_, unit) sub_act) s6 = (Inr (), self')"
      using rest True unfolding isr_def [symmetric]
      by (auto simp: act_bind_Inr topic_get_Inr s5e split del: if_split)
    have self': "self' = (if isr
          then s6\<lparr>sb_guage_retained_messages := sb_guage_retained_messages s6 - 1\<rparr> else s6)"
      using g by (simp split: if_splits)
    have "subs_of s6 = subs_of s5" "retained_of s6 = retained_of s5" "guages s6 = guages s5"
      using d drop_id_abs by (auto split: if_splits dest!: drop_id_abs)
    then show ?thesis using True s5 1 by (auto simp: self' m_def guages_def isr_def)
  next
    case False
    then have "self' = (if t_message tm \<noteq> None then s5
        else s5\<lparr>sb_guage_retained_messages := sb_guage_retained_messages s5 + 1\<rparr>)"
      using rest by (auto simp: act_bind_Inr s5_def m_def split: if_splits)
    then show ?thesis using False s5 1 by (auto simp: m_def guages_def)
  qed
qed

lemma unsubscribe_abs:
  assumes "unsubscribe tp session topic self = (Inr (), self')"
  shows "subs_of self' = (subs_of self)(topic_levels topic :=
      (subs_of self (topic_levels topic))(sid_session session := None)) \<and>
    retained_of self' = retained_of self \<and>
    guages self' = (sb_guage_subscriptions self -
        (if subs_of self (topic_levels topic) (sid_session session) = None then 0 else 1),
      sb_guage_retained_messages self)"
proof (cases "topic_at (topic_levels topic) (sb_topics self)")
  case None
  then have "self' = self" using assms by (simp add: unsubscribe_def Let_def)
  moreover have "subs_of self (topic_levels topic) = Map.empty" using None by (simp add: subs_of_def info_of_def info_at_def)
  ultimately show ?thesis by (auto simp: guages_def)
next
  case (Some tm)
  let ?p = "topic_levels topic" and ?n = "sid_session session"
  have at: "subs_of self ?p = map_of (t_clients tm)" "retained_of self ?p = t_message tm"
    using topic_info_at [OF Some] by (simp_all add: subs_of_def retained_of_def)
  show ?thesis
  proof (cases "map_of (t_clients tm) ?n")
    case None
    then have "topic_set_unsubscribed ?n tm = (False, snd (topic_set_unsubscribed ?n tm))" by (simp add: prod_eq_iff)
    then have "self' = self" using assms Some
      by (auto simp: unsubscribe_def Let_def split: prod.splits if_splits)
    then show ?thesis using None by (auto simp: guages_def at fun_upd_idem)
  next
    case e: (Some e)
    define tm' where "tm' = snd (topic_set_unsubscribed ?n tm)"
    have u: "topic_set_unsubscribed ?n tm = (True, tm')" using e by (auto simp: tm'_def prod_eq_iff)
    let ?f = "\<lambda>t. snd (topic_set_unsubscribed ?n t)"
    define s1 where "s1 = self\<lparr>sb_topics := topic_update ?p ?f (sb_topics self)\<rparr>"
    define s2 where "s2 = s1\<lparr>sb_guage_subscriptions := sb_guage_subscriptions s1 - 1\<rparr>"
    have "subs_of s1 = (subs_of self)(?p := map_of (t_clients (?f tm)))"
      "retained_of s1 = (retained_of self)(?p := t_message (?f tm))" "guages s1 = guages self"
      by (rule modify_abs [OF _ Some s1_def]; simp)+
    then have s2: "subs_of s2 = (subs_of self)(?p := (subs_of self ?p)(?n := None))"
      "retained_of s2 = retained_of self"
      "guages s2 = (sb_guage_subscriptions self - 1, sb_guage_retained_messages self)"
      using at by (auto simp: s2_def guages_def)
    obtain i b s3 d where p: "with_persist (tp_persist_unsubscribe tp (sid_internal_id session) i) s2 = (Inr b, s3)"
      and rest: "(if d then delete_topic_row tp topic i
           else act_return ()) s3 = (Inr (), self')"
      using assms Some u by (auto simp: unsubscribe_def Let_def act_bind_Inr act_unwrap_Inr s2_def s1_def)
    have "subs_of self' = subs_of s3" "retained_of self' = retained_of s3" "guages self' = guages s3"
      using rest by (auto split: if_splits dest!: drop_id_abs)
    then show ?thesis using s2 persist_abs [OF p] e at by auto
  qed
qed

section \<open>Ids and panics\<close>

text \<open>
  Where the database id of a topic is missing, the topic has neither subscriptions nor a
  retained message: this is what makes the \<open>unwrap\<close>s of the id safe. The subscriptions of a
  topic are filed under the names of their own sessions.
\<close>

definition entries_ok :: "(rstring \<times> topic_entry) list \<Rightarrow> bool" where
  "entries_ok cs \<longleftrightarrow> hm_wf cs \<and> (\<forall>k e. map_of cs k = Some e \<longrightarrow> sid_session (te_session e) = k)"

definition tree_ok :: "'p subscriptions \<Rightarrow> bool" where
  "tree_ok self \<longleftrightarrow> (\<forall>p. (fst (info_of self p) = None \<longrightarrow> snd (info_of self p) = ([], None)) \<and>
     entries_ok (fst (snd (info_of self p))))"

lemma entries_ok_simps [simp]:
  "entries_ok []"
  "entries_ok cs \<Longrightarrow> entries_ok (hm_remove k cs)"
  "entries_ok cs \<Longrightarrow> entries_ok (hm_insert (sid_session session) \<lparr>te_session = session, te_qos = qos\<rparr> cs)"
  by (auto simp: entries_ok_def split: if_splits)

definition no_panic :: "broker_error failure \<Rightarrow> 'p subscriptions \<Rightarrow> bool" where
  "no_panic e self \<longleftrightarrow> e \<noteq> Panicked \<and> tree_ok self"

text \<open>The topic at a path exists and has an id; \<open>x\<close> is what else it shows.\<close>

definition found :: "rstring list \<Rightarrow> (rstring \<times> topic_entry) list \<times> publish option \<Rightarrow> 'p subscriptions \<Rightarrow> bool" where
  "found p x self \<longleftrightarrow> (\<exists>tm i. topic_at p (sb_topics self) = Some tm \<and> t_internal_id tm = Some i \<and>
     snd (info_of self p) = x \<and> tree_ok self)"

lemma tree_ok_simps [simp]:
  "tree_ok (self\<lparr>sb_persist := q\<rparr>) = tree_ok self"
  "tree_ok (self\<lparr>sb_guage_subscriptions := n\<rparr>) = tree_ok self"
  "tree_ok (self\<lparr>sb_guage_retained_messages := n\<rparr>) = tree_ok self"
  "found p x (self\<lparr>sb_persist := q\<rparr>) = found p x self"
  "found p x (self\<lparr>sb_guage_subscriptions := n\<rparr>) = found p x self"
  "found p x (self\<lparr>sb_guage_retained_messages := n\<rparr>) = found p x self"
  by (simp_all add: tree_ok_def found_def)

lemma found_tree_ok: "found p x self \<Longrightarrow> tree_ok self"
  by (auto simp: found_def)

lemma hoare_persist:
  assumes "\<And>s q. P s \<Longrightarrow> P (s\<lparr>sb_persist := q\<rparr>)" and "\<And>s. P s \<Longrightarrow> tree_ok s"
  shows "act_hoare P (with_persist call) (\<lambda>_. P) no_panic"
  using assms by (auto simp: act_hoare_def with_persist_def no_panic_def split: prod.splits sum.splits)

lemma get_topic_info:
  assumes "get_topic tp topic self = (r, self')" and "tree_ok self"
  shows "tree_ok self' \<and> (\<forall>p. snd (info_of self' p) = snd (info_of self p)) \<and>
    (case r of Inl e \<Rightarrow> e \<noteq> Panicked
     | Inr t \<Rightarrow> t = topic_levels topic \<and> found t (snd (info_of self t)) self')"
proof (cases r)
  case (Inl e)
  then show ?thesis using get_topic_Inl assms by (fastforce simp: tree_ok_def)
next
  case (Inr t)
  obtain i tm where 1: "t = topic_levels topic" "topic_at t (sb_topics self') = Some tm"
    "info_of self' = (info_of self)(t := (Some i, snd (info_of self t)))"
    using get_topic_Inr [of tp topic self t self'] assms(1) Inr by metis
  have "t_internal_id tm = Some i" using topic_info_at [OF 1(2)] 1(3) by simp
  moreover have "tree_ok self'" using assms(2) 1(3) by (auto simp: tree_ok_def)
  ultimately show ?thesis using 1 Inr by (auto simp: found_def)
qed

lemma hoare_get_topic [act_rules]:
  "act_hoare (\<lambda>s. tree_ok s \<and> R (snd (info_of s (topic_levels topic)))) (get_topic tp topic)
     (\<lambda>t s. t = topic_levels topic \<and> (\<exists>x. R x \<and> found t x s)) no_panic"
  unfolding act_hoare_def
proof (intro allI impI)
  fix s :: "'a subscriptions"
  assume s: "tree_ok s \<and> R (snd (info_of s (topic_levels topic)))"
  obtain r s' where g: "get_topic tp topic s = (r, s')" by fastforce
  show "case get_topic tp topic s of (Inl e, s') \<Rightarrow> no_panic e s'
      | (Inr t, s') \<Rightarrow> t = topic_levels topic \<and> (\<exists>x. R x \<and> found t x s')"
    using get_topic_info [OF g] s by (cases r) (auto simp: g no_panic_def simp del: split_paired_Ex)
qed

lemma hoare_topic_get:
  assumes "\<And>s. P s \<Longrightarrow> \<exists>x. found p x s"
  shows "act_hoare P (topic_get p f) (\<lambda>a s. P s \<and> (\<exists>tm. topic_at p (sb_topics s) = Some tm \<and> a = f tm)) no_panic"
  unfolding act_hoare_def
proof (intro allI impI)
  fix s assume P: "P s"
  then obtain x where "found p x s" using assms by blast
  then obtain tm where "topic_at p (sb_topics s) = Some tm" by (auto simp: found_def)
  then show "case topic_get p f s of (Inl e, s') \<Rightarrow> no_panic e s'
      | (Inr a, s') \<Rightarrow> P s' \<and> (\<exists>tm. topic_at p (sb_topics s') = Some tm \<and> a = f tm)"
    using P by (auto simp: topic_get_def act_bind_app)
qed

lemma info_of_modify:
  assumes "\<And>t. t_topics (f t) = t_topics t" and "topic_at p (sb_topics s) = Some tm"
  shows "info_of (s\<lparr>sb_topics := topic_update p f (sb_topics s)\<rparr>) =
      (info_of s)(p := (t_internal_id (f tm), t_clients (f tm), t_message (f tm)))"
    and "topic_at p (topic_update p f (sb_topics s)) = Some (f tm)"
  using info_of_update [OF assms] topic_at_update [OF assms] by simp_all

text \<open>A change that keeps the id, and the removal of the id of an empty topic.\<close>

lemma hoare_topic_modify:
  assumes "\<And>t. t_topics (f t) = t_topics t" and "\<And>t. t_internal_id (f t) = t_internal_id t"
    and "\<And>t. entries_ok (t_clients t) \<Longrightarrow> entries_ok (t_clients (f t))"
    and "\<And>s. P s \<Longrightarrow> \<exists>x. found p x s"
  shows "act_hoare P (topic_modify p f) (\<lambda>_ s. \<exists>t. found p (t_clients (f t), t_message (f t)) s) E"
  unfolding act_hoare_def
proof (intro allI impI)
  fix s assume "P s"
  then obtain x where "found p x s" using assms(4) by blast
  then obtain tm i where 1: "topic_at p (sb_topics s) = Some tm" "t_internal_id tm = Some i" "tree_ok s"
    by (auto simp: found_def)
  have ok: "entries_ok (t_clients tm)" using topic_info_at [OF 1(1)] 1(3) by (metis tree_ok_def fst_conv snd_conv)
  show "case topic_modify p f s of (Inl e, s') \<Rightarrow> E e s'
      | (Inr a, s') \<Rightarrow> \<exists>t. found p (t_clients (f t), t_message (f t)) s'"
    using info_of_modify [OF assms(1) 1(1)] assms(2) [of tm] assms(3) [of tm] ok 1
    by (auto simp: found_def tree_ok_def)
qed

lemma hoare_drop_id:
  "act_hoare (found p ([], None)) (topic_modify p (topic_set_internal_id None)) (\<lambda>_. tree_ok) E"
  unfolding act_hoare_def
proof (intro allI impI)
  fix s :: "'a subscriptions" assume "found p ([], None) s"
  then obtain tm i where 1: "topic_at p (sb_topics s) = Some tm" "snd (info_of s p) = ([], None)" "tree_ok s"
    by (auto simp: found_def)
  show "case topic_modify p (topic_set_internal_id None) s of (Inl e, s') \<Rightarrow> E e s' | (Inr a, s') \<Rightarrow> tree_ok s'"
    using info_of_modify [where f = "topic_set_internal_id None", OF _ 1(1)] topic_info_at [OF 1(1)] 1
    by (auto simp: tree_ok_def)
qed

lemma hoare_delete_topic_row [act_rules]:
  "act_hoare (found (topic_levels topic) ([], None)) (delete_topic_row tp topic i) (\<lambda>_. tree_ok) no_panic"
  unfolding delete_topic_row_def
proof (rule act_hoare_bind)
  show "act_hoare (found (topic_levels topic) ([], None)) (with_persist (tp_persist_delete_topic tp i))
      (\<lambda>_. found (topic_levels topic) ([], None)) no_panic"
    by (rule hoare_persist) (auto dest: found_tree_ok)
  show "act_hoare (found (topic_levels topic) ([], None))
      (act_bind (get_topic tp topic) (\<lambda>tm. topic_modify tm (topic_set_internal_id None))) (\<lambda>_. tree_ok) no_panic"
  proof (rule act_hoare_bind)
    show "act_hoare (found (topic_levels topic) ([], None)) (get_topic tp topic)
        (\<lambda>t s. t = topic_levels topic \<and> (\<exists>x. x = ([], None) \<and> found t x s)) no_panic"
      by (rule act_hoare_weaken [OF hoare_get_topic [where R = "\<lambda>x. x = ([], None)"]]) (auto simp: found_def)
    show "act_hoare (\<lambda>s. t = topic_levels topic \<and> (\<exists>x. x = ([], None) \<and> found t x s))
        (topic_modify t (topic_set_internal_id None)) (\<lambda>_. tree_ok) no_panic" for t
      by (rule act_hoare_weaken [OF hoare_drop_id]) auto
  qed
qed

lemma hoare_id:
  "act_hoare (found p x) (topic_get p t_internal_id) (\<lambda>i s. i \<noteq> None \<and> found p x s) no_panic"
  by (rule act_hoare_weaken [OF hoare_topic_get [where P = "found p x" and p = p]]) (auto simp: found_def)

lemma hoare_look: "act_hoare (found p x) (topic_get p f) (\<lambda>_. found p x) no_panic"
  by (rule act_hoare_weaken [OF hoare_topic_get [where P = "found p x" and p = p]]) (auto simp del: split_paired_Ex)

lemma hoare_persist_found: "act_hoare (found p x) (with_persist call) (\<lambda>_. found p x) no_panic"
  by (rule hoare_persist) (auto dest: found_tree_ok)

lemma hoare_persist_ids: "act_hoare tree_ok (with_persist call) (\<lambda>_. tree_ok) no_panic"
  by (rule hoare_persist) auto

lemma hoare_find: "act_hoare tree_ok (get_topic tp topic) (\<lambda>t s. t = topic_levels topic \<and> (\<exists>x. found t x s)) no_panic"
  by (rule act_hoare_weaken [OF hoare_get_topic [where R = "\<lambda>_. True"]]) auto

lemma hoare_find_again:
  "act_hoare (found p x) (get_topic tp topic) (\<lambda>t s. t = topic_levels topic \<and> (\<exists>x. found t x s)) no_panic"
  by (rule act_hoare_weaken [OF hoare_find]) (auto dest: found_tree_ok)

lemma hoare_set_subscribed:
  "act_hoare (found p x) (topic_modify p (\<lambda>t. snd (topic_set_subscribed session qos t))) (\<lambda>_. tree_ok) no_panic"
  by (rule act_hoare_weaken [OF hoare_topic_modify [where P = "found p x" and p = p]])
    (auto simp del: split_paired_Ex dest: found_tree_ok)

lemma subscribe_safe: "act_hoare tree_ok (subscribe tp session topic qos) (\<lambda>_. tree_ok) no_panic"
  unfolding subscribe_def
proof (rule act_hoare_bind [OF hoare_find], rule act_hoare_pure, rule act_hoare_ex, rule act_hoare_bind [OF hoare_id],
    rule act_hoare_bind [OF act_hoare_unwrap], rule act_hoare_pure, rule act_hoare_bind [OF hoare_look])
  fix tm x internal_id topic_id subscribed
  have again: "act_hoare (found tm x)
     (act_match (with_persist (tp_persist_update_subscribe tp (sid_internal_id session) topic_id qos))
       (\<lambda>_. act_bind (get_topic tp topic) (\<lambda>tm.
            act_bind (topic_modify tm (\<lambda>t. snd (topic_set_subscribed session qos t))) (\<lambda>_. act_return qos)))
       (\<lambda>_. act_return subscribed_qos)) (\<lambda>_. tree_ok) no_panic" for subscribed_qos
    by (rule act_hoare_match [OF hoare_persist_found],
        rule act_hoare_bind [OF hoare_find_again], rule act_hoare_pure, rule act_hoare_ex,
        rule act_hoare_bind [OF hoare_set_subscribed])
      (auto intro!: act_hoare_return simp: no_panic_def)
  have new: "act_hoare (found tm x)
     (act_bind (with_persist (tp_persist_subscribe tp (sid_internal_id session) topic_id qos)) (\<lambda>_.
           act_bind (get_topic tp topic) (\<lambda>tm.
           act_bind (topic_get tm (\<lambda>t. fst (topic_set_subscribed session qos t))) (\<lambda>is_new.
           act_bind (topic_modify tm (\<lambda>t. snd (topic_set_subscribed session qos t))) (\<lambda>_.
           if is_new then
             act_bind (act_modify (\<lambda>self. self\<lparr>sb_guage_subscriptions := sb_guage_subscriptions self + 1\<rparr>))
               (\<lambda>_. act_return qos)
           else act_return 0x80))))) (\<lambda>_. tree_ok) no_panic"
    by (rule act_hoare_bind [OF hoare_persist_found], rule act_hoare_bind [OF hoare_find_again],
        rule act_hoare_pure, rule act_hoare_ex, rule act_hoare_bind [OF hoare_look],
        rule act_hoare_bind [OF hoare_set_subscribed])
      (auto intro!: act_hoare_if act_hoare_bind [OF act_hoare_modify [where Q = "\<lambda>_. tree_ok"]] act_hoare_return)
  show "act_hoare (found tm x) (case subscribed of
         Some subscribed_qos \<Rightarrow>
           if subscribed_qos \<noteq> qos then
             act_match (with_persist (tp_persist_update_subscribe tp (sid_internal_id session) topic_id qos))
               (\<lambda>_.
                 act_bind (get_topic tp topic) (\<lambda>tm.
                 act_bind (topic_modify tm (\<lambda>t. snd (topic_set_subscribed session qos t))) (\<lambda>_.
                 act_return qos)))
               (\<lambda>_. act_return subscribed_qos)
           else act_return qos
       | None \<Rightarrow>
           act_bind (with_persist (tp_persist_subscribe tp (sid_internal_id session) topic_id qos)) (\<lambda>_.
           act_bind (get_topic tp topic) (\<lambda>tm.
           act_bind (topic_get tm (\<lambda>t. fst (topic_set_subscribed session qos t))) (\<lambda>is_new.
           act_bind (topic_modify tm (\<lambda>t. snd (topic_set_subscribed session qos t))) (\<lambda>_.
           if is_new then
             act_bind (act_modify (\<lambda>self. self\<lparr>sb_guage_subscriptions := sb_guage_subscriptions self + 1\<rparr>))
               (\<lambda>_. act_return qos)
           else act_return 0x80))))) (\<lambda>_. tree_ok) no_panic"
    using again new by (auto split: option.splits intro!: act_hoare_return dest: found_tree_ok)
qed

lemma hoare_to_delete:
  "act_hoare (found p x) (topic_get p (\<lambda>t. t_message t = None \<and> topic_get_num_subscribed t = 0))
     (\<lambda>d s. (d \<longrightarrow> x = ([], None)) \<and> found p x s) no_panic"
  by (rule act_hoare_weaken [OF hoare_topic_get [where P = "found p x" and p = p]])
    (auto simp: found_def topic_get_num_subscribed_def topic_info_at)

lemma hoare_delete_if:
  "(d \<longrightarrow> x = ([], None)) \<Longrightarrow>
   act_hoare (found (topic_levels topic) x) (if d then delete_topic_row tp topic i else act_return ())
     (\<lambda>_. tree_ok) no_panic"
  by (auto intro!: act_hoare_return dest: found_tree_ok simp: hoare_delete_topic_row)

lemma hoare_set_message:
  "act_hoare (found p x) (topic_modify p (topic_set_message m)) (\<lambda>_ s. \<exists>y. found p y s) no_panic"
  by (rule act_hoare_weaken [OF hoare_topic_modify [where P = "found p x" and p = p]])
    (auto simp del: split_paired_Ex)

lemma retain_safe: "act_hoare tree_ok (retain tp msg) (\<lambda>_. tree_ok) no_panic"
  unfolding retain_def Let_def
proof (rule act_hoare_bind [OF hoare_find], rule act_hoare_pure, rule act_hoare_ex, rule act_hoare_bind [OF hoare_id],
    rule act_hoare_bind [OF act_hoare_unwrap], rule act_hoare_pure, rule act_hoare_bind [OF hoare_look],
    rule act_hoare_bind [OF hoare_persist_found])
  fix tm x topic_id is_retained_message
  have store: "act_hoare (found tm x) (if pub_message msg \<noteq> [] then
           act_bind (with_persist (tp_persist_retain tp topic_id msg)) (\<lambda>_. act_return ())
         else act_return ()) (\<lambda>_. found tm x) no_panic"
    by (auto intro!: act_hoare_bind [OF hoare_persist_found] act_hoare_return)
  have count: "act_hoare tree_ok (if b then act_modify f else act_return ()) (\<lambda>_. tree_ok) no_panic"
    if "\<And>s. tree_ok s \<Longrightarrow> tree_ok (f s)" for b :: bool and f :: "'a subscriptions \<Rightarrow> 'a subscriptions"
    using that by (auto intro!: act_hoare_modify act_hoare_return)
  have empty: "act_hoare (found (topic_levels (pub_topic msg)) y)
    (act_bind (topic_modify (topic_levels (pub_topic msg)) (topic_set_message None)) (\<lambda>_.
        act_bind (topic_get (topic_levels (pub_topic msg)) (\<lambda>t. t_message t = None \<and> topic_get_num_subscribed t = 0)) (\<lambda>to_delete.
        act_bind
          (if to_delete then delete_topic_row tp (pub_topic msg) topic_id else act_return ()) (\<lambda>_.
        if is_retained_message then
          act_modify (\<lambda>self. self\<lparr>sb_guage_retained_messages := sb_guage_retained_messages self - 1\<rparr>)
        else act_return ())))) (\<lambda>_. tree_ok) no_panic" for y
    by (rule act_hoare_bind [OF hoare_set_message], rule act_hoare_ex, rule act_hoare_bind [OF hoare_to_delete],
        rule act_hoare_pure, rule act_hoare_bind [OF hoare_delete_if], assumption, rule count) simp
  have some: "act_hoare (found (topic_levels (pub_topic msg)) y :: 'a subscriptions \<Rightarrow> bool)
    (act_bind (topic_modify (topic_levels (pub_topic msg)) (topic_set_message (Some msg))) (\<lambda>_.
        if \<not> is_retained_message then
          act_modify (\<lambda>self. self\<lparr>sb_guage_retained_messages := sb_guage_retained_messages self + 1\<rparr>)
        else act_return ())) (\<lambda>_. tree_ok) no_panic" for y
    by (rule act_hoare_bind [OF hoare_set_message], rule act_hoare_ex,
        rule act_hoare_weaken, rule count)
      (auto dest: found_tree_ok)
  show "act_hoare (found tm x)
     (act_bind (if pub_message msg \<noteq> [] then
           act_bind (with_persist (tp_persist_retain tp topic_id msg)) (\<lambda>_. act_return ())
         else act_return ()) (\<lambda>_.
      act_bind (get_topic tp (pub_topic msg)) (\<lambda>tm.
      if pub_message msg = [] then
        act_bind (topic_modify tm (topic_set_message None)) (\<lambda>_.
        act_bind (topic_get tm (\<lambda>t. t_message t = None \<and> topic_get_num_subscribed t = 0)) (\<lambda>to_delete.
        act_bind
          (if to_delete then delete_topic_row tp (pub_topic msg) topic_id else act_return ()) (\<lambda>_.
        if is_retained_message then
          act_modify (\<lambda>self. self\<lparr>sb_guage_retained_messages := sb_guage_retained_messages self - 1\<rparr>)
        else act_return ())))
      else
        act_bind (topic_modify tm (topic_set_message (Some msg))) (\<lambda>_.
        if \<not> is_retained_message then
          act_modify (\<lambda>self. self\<lparr>sb_guage_retained_messages := sb_guage_retained_messages self + 1\<rparr>)
        else act_return ())))) (\<lambda>_. tree_ok) no_panic"
    by (rule act_hoare_bind [OF store], rule act_hoare_bind [OF hoare_find_again], rule act_hoare_pure,
        rule act_hoare_ex, hypsubst, rule act_hoare_if [OF empty some])
qed

lemma hoare_set_unsubscribed:
  "act_hoare (\<lambda>s. map_of (t_clients entry) c \<noteq> None \<and> topic_at p (sb_topics s) = Some entry \<and> tree_ok s)
     (topic_modify p (\<lambda>t. snd (topic_set_unsubscribed c t)))
     (\<lambda>_ s. t_internal_id (snd (topic_set_unsubscribed c entry)) \<noteq> None \<and>
        found p (hm_remove c (t_clients entry), t_message entry) s) E"
  unfolding act_hoare_def
proof (intro allI impI)
  fix s :: "'a subscriptions"
  assume P: "map_of (t_clients entry) c \<noteq> None \<and> topic_at p (sb_topics s) = Some entry \<and> tree_ok s"
  have "t_internal_id entry \<noteq> None"
  proof
    assume "t_internal_id entry = None"
    then have "t_clients entry = []" using P topic_info_at [of p s entry] by (metis tree_ok_def fst_conv snd_conv)
    then show False using P by simp
  qed
  moreover have "entries_ok (t_clients entry)" using P topic_info_at [of p s entry] by (metis tree_ok_def fst_conv snd_conv)
  ultimately show "case topic_modify p (\<lambda>t. snd (topic_set_unsubscribed c t)) s of (Inl e, s') \<Rightarrow> E e s'
      | (Inr u, s') \<Rightarrow> t_internal_id (snd (topic_set_unsubscribed c entry)) \<noteq> None \<and>
          found p (hm_remove c (t_clients entry), t_message entry) s'"
    using P info_of_modify [where f = "\<lambda>t. snd (topic_set_unsubscribed c t)" and p = p and s = s and tm = entry]
    by (auto simp: found_def tree_ok_def)
qed

lemma unsubscribe_safe: "act_hoare tree_ok (unsubscribe tp session topic) (\<lambda>_. tree_ok) no_panic"
  unfolding unsubscribe_def Let_def
proof (rule act_hoare_bind [OF act_hoare_get [where Q = "\<lambda>tm s. topic_at (topic_levels topic) (sb_topics s) = tm \<and> tree_ok s"]])
  fix tm
  show "act_hoare (\<lambda>s. topic_at (topic_levels topic) (sb_topics s) = tm \<and> tree_ok s)
    (case tm of None \<Rightarrow> act_return () | Some entry \<Rightarrow>
      (case topic_set_unsubscribed (sid_session session) entry of
             (removed, entry) \<Rightarrow>
               if removed then
                 act_bind (topic_modify (topic_levels topic) (\<lambda>entry. snd (topic_set_unsubscribed (sid_session session) entry))) (\<lambda>_.
                 act_bind (act_modify (\<lambda>self. self\<lparr>sb_guage_subscriptions := sb_guage_subscriptions self - 1\<rparr>)) (\<lambda>_.
                 act_bind (act_unwrap (t_internal_id entry)) (\<lambda>topic_id.
                 act_bind (with_persist (tp_persist_unsubscribe tp (sid_internal_id session) topic_id)) (\<lambda>_.
                 if t_message entry = None \<and> topic_get_num_subscribed entry = 0 then
                   delete_topic_row tp topic topic_id
                 else act_return ()))))
               else act_return ())) (\<lambda>_. tree_ok) no_panic"
  proof (cases tm)
    case (Some entry)
    let ?c = "sid_session session" and ?p = "topic_levels topic"
    define entry' where "entry' = snd (topic_set_unsubscribed ?c entry)"
    have e: "topic_set_unsubscribed ?c entry = (map_of (t_clients entry) ?c \<noteq> None, entry')"
      by (simp add: entry'_def prod_eq_iff)
    have "act_hoare (\<lambda>s. topic_at ?p (sb_topics s) = Some entry \<and> tree_ok s)
      (act_bind (topic_modify ?p (\<lambda>entry. snd (topic_set_unsubscribed ?c entry))) (\<lambda>_.
                 act_bind (act_modify (\<lambda>self. self\<lparr>sb_guage_subscriptions := sb_guage_subscriptions self - 1\<rparr>)) (\<lambda>_.
                 act_bind (act_unwrap (t_internal_id entry')) (\<lambda>topic_id.
                 act_bind (with_persist (tp_persist_unsubscribe tp (sid_internal_id session) topic_id)) (\<lambda>_.
                 if t_message entry' = None \<and> topic_get_num_subscribed entry' = 0 then
                   delete_topic_row tp topic topic_id
                 else act_return ()))))) (\<lambda>_. tree_ok) no_panic"
      if r: "map_of (t_clients entry) ?c \<noteq> None"
    proof (rule act_hoare_bind)
      show "act_hoare (\<lambda>s. topic_at ?p (sb_topics s) = Some entry \<and> tree_ok s)
          (topic_modify ?p (\<lambda>entry. snd (topic_set_unsubscribed ?c entry)))
          (\<lambda>_ s. t_internal_id entry' \<noteq> None \<and> found ?p (t_clients entry', t_message entry') s) no_panic"
        by (rule act_hoare_weaken [OF hoare_set_unsubscribed [of entry ?c]]) (use r in \<open>auto simp: entry'_def\<close>)
      show "act_hoare (\<lambda>s. t_internal_id entry' \<noteq> None \<and> found ?p (t_clients entry', t_message entry') s)
         (act_bind (act_modify (\<lambda>self. self\<lparr>sb_guage_subscriptions := sb_guage_subscriptions self - 1\<rparr>)) (\<lambda>_.
                 act_bind (act_unwrap (t_internal_id entry')) (\<lambda>topic_id.
                 act_bind (with_persist (tp_persist_unsubscribe tp (sid_internal_id session) topic_id)) (\<lambda>_.
                 if t_message entry' = None \<and> topic_get_num_subscribed entry' = 0 then
                   delete_topic_row tp topic topic_id
                 else act_return ())))) (\<lambda>_. tree_ok) no_panic"
        by (rule act_hoare_bind [OF act_hoare_modify [where Q = "\<lambda>_ s. t_internal_id entry' \<noteq> None \<and> found ?p (t_clients entry', t_message entry') s"]],
            simp, rule act_hoare_bind [OF act_hoare_unwrap], rule act_hoare_pure,
            rule act_hoare_bind [OF hoare_persist_found], rule hoare_delete_if)
          (simp add: topic_get_num_subscribed_def)
    qed
    then show ?thesis by (auto simp: Some e intro!: act_hoare_return)
  qed (auto intro!: act_hoare_return)
qed simp

section \<open>Gauges\<close>

lemma finite_tree: "finite {(p, n). map_of (fst (snd (info_at p tm))) n \<noteq> None} \<and> finite {p. snd (snd (info_at p tm)) \<noteq> None}"
proof (induction tm)
  case (Topic ts i cs m)
  let ?S = "\<lambda>tm. {(p, n). map_of (fst (snd (info_at p tm))) n \<noteq> None}"
  let ?R = "\<lambda>tm. {p. snd (snd (info_at p tm)) \<noteq> None}"
  have IH: "finite (?S e) \<and> finite (?R e)" if "(l, e) \<in> set ts" for l e
    using Topic.IH [OF that] by simp
  have S: "?S (Topic ts i cs m) \<subseteq> Pair [] ` dom (map_of cs) \<union>
      (\<Union>(l, e) \<in> set ts. (\<lambda>(p, n). (l # p, n)) ` ?S e)"
  proof
    fix x assume "x \<in> ?S (Topic ts i cs m)"
    then obtain p n where x: "x = (p, n)" "map_of (fst (snd (info_at p (Topic ts i cs m)))) n \<noteq> None" by auto
    show "x \<in> Pair [] ` dom (map_of cs) \<union> (\<Union>(l, e) \<in> set ts. (\<lambda>(p, n). (l # p, n)) ` ?S e)"
    proof (cases p)
      case Nil
      then show ?thesis using x by (auto simp: info_at_Nil)
    next
      case (Cons l q)
      then obtain e where "map_of ts l = Some e" "map_of (fst (snd (info_at q e))) n \<noteq> None"
        using x by (auto simp: info_at_Cons split: option.splits)
      then have "(l, e) \<in> set ts" "(l # q, n) \<in> (\<lambda>(p, n). (l # p, n)) ` ?S e" by (auto dest: map_of_SomeD)
      then show ?thesis using x Cons by (intro UnI2 UN_I [of "(l, e)"]) simp_all
    qed
  qed
  have R: "?R (Topic ts i cs m) \<subseteq> {[]} \<union> (\<Union>(l, e) \<in> set ts. (#) l ` ?R e)"
  proof
    fix p assume p: "p \<in> ?R (Topic ts i cs m)"
    show "p \<in> {[]} \<union> (\<Union>(l, e) \<in> set ts. (#) l ` ?R e)"
    proof (cases p)
      case (Cons l q)
      then obtain e where "map_of ts l = Some e" "snd (snd (info_at q e)) \<noteq> None"
        using p by (auto simp: info_at_Cons split: option.splits)
      then show ?thesis using Cons by (auto dest!: map_of_SomeD intro!: bexI [of _ "(l, e)"])
    qed simp
  qed
  have "finite (Pair [] ` dom (map_of cs) \<union> (\<Union>(l, e) \<in> set ts. (\<lambda>(p, n). (l # p, n)) ` ?S e))"
    using IH by (intro finite_UnI finite_imageI finite_UN_I) (auto simp: finite_dom_map_of)
  moreover have "finite ({[]} \<union> (\<Union>(l, e) \<in> set ts. (#) l ` ?R e))"
    using IH by (intro finite_UnI finite_UN_I) auto
  ultimately show ?case
    using finite_subset [OF S] finite_subset [OF R] by blast
qed

definition subs_set :: "'p subscriptions \<Rightarrow> (rstring list \<times> rstring) set" where
  "subs_set self = {(p, n). subs_of self p n \<noteq> None}"

definition retained_set :: "'p subscriptions \<Rightarrow> rstring list set" where
  "retained_set self = {p. retained_of self p \<noteq> None}"

lemma finite_sets [simp]: "finite (subs_set self)" "finite (retained_set self)"
  using finite_tree [of "sb_topics self"]
  by (simp_all add: subs_set_def retained_set_def subs_of_def retained_of_def info_of_def)

text \<open>The gauges show the number of subscriptions and of retained messages.\<close>

definition guages_ok :: "'p subscriptions \<Rightarrow> bool" where
  "guages_ok self \<longleftrightarrow> guages self = (int (card (subs_set self)), int (card (retained_set self)))"

lemma subs_set_upd:
  "subs_of self' = (subs_of self)(p := (subs_of self p)(n \<mapsto> e)) \<Longrightarrow> subs_set self' = insert (p, n) (subs_set self)"
  "subs_of self' = (subs_of self)(p := (subs_of self p)(n := None)) \<Longrightarrow> subs_set self' = subs_set self - {(p, n)}"
  "subs_of self' = subs_of self \<Longrightarrow> subs_set self' = subs_set self"
  by (auto simp: subs_set_def split: if_splits)

lemma retained_set_upd:
  "retained_of self' = (retained_of self)(p := m) \<Longrightarrow>
     retained_set self' = (if m = None then retained_set self - {p} else insert p (retained_set self))"
  "retained_of self' = retained_of self \<Longrightarrow> retained_set self' = retained_set self"
  by (auto simp: retained_set_def split: if_splits)

lemma card_remove_int:
  assumes "finite A"
  shows "int (card (A - {x})) = int (card A) - (if x \<in> A then 1 else 0)"
proof (cases "x \<in> A")
  case True
  then have "Suc (card (A - {x})) = card A" using assms by (rule card_Suc_Diff1 [rotated])
  then show ?thesis using True by simp
qed simp

lemma subscribe_guages:
  assumes "subscribe tp session topic qos self = (Inr ret, self')" and "guages_ok self"
  shows "guages_ok self'"
proof (cases "subs_of self (topic_levels topic) (sid_session session)")
  case None
  note A = subscribe_new [OF assms(1) None]
  have "(topic_levels topic, sid_session session) \<notin> subs_set self" using None by (simp add: subs_set_def)
  then show ?thesis
    using A assms(2) subs_set_upd(1) [of self' self] retained_set_upd(2) [of self' self]
    by (simp add: guages_ok_def guages_def)
next
  case (Some e)
  note A = subscribe_known [OF assms(1) Some]
  have "(topic_levels topic, sid_session session) \<in> subs_set self" using Some by (simp add: subs_set_def)
  then have "subs_set self' = subs_set self"
    using A subs_set_upd(1) [of self' self] subs_set_upd(3) [of self' self] by (auto split: if_splits)
  then show ?thesis using A assms(2) retained_set_upd(2) [of self' self] by (simp add: guages_ok_def)
qed

lemma retain_guages:
  assumes "retain tp msg self = (Inr (), self')" and "guages_ok self"
  shows "guages_ok self'"
proof -
  note A = retain_abs [OF assms(1)]
  have "topic_levels (pub_topic msg) \<in> retained_set self \<longleftrightarrow> retained_of self (topic_levels (pub_topic msg)) \<noteq> None"
    by (simp add: retained_set_def)
  then show ?thesis
    using A assms(2) subs_set_upd(3) [of self' self] retained_set_upd(1) [of self' self]
    by (auto simp: guages_ok_def guages_def card_remove_int card_insert_if simp del: card_Diff_insert card_Diff_singleton)
qed

lemma unsubscribe_guages:
  assumes "unsubscribe tp session topic self = (Inr (), self')" and "guages_ok self"
  shows "guages_ok self'"
proof -
  note A = unsubscribe_abs [OF assms(1)]
  have "(topic_levels topic, sid_session session) \<in> subs_set self \<longleftrightarrow>
      subs_of self (topic_levels topic) (sid_session session) \<noteq> None"
    by (simp add: subs_set_def)
  then show ?thesis
    using A assms(2) subs_set_upd(2) [of self' self] retained_set_upd(2) [of self' self]
    by (auto simp: guages_ok_def guages_def card_remove_int simp del: card_Diff_insert card_Diff_singleton)
qed

section \<open>Reachable trees\<close>

text \<open>
  What the router does with the tree. It stops at the first error, so its states are those
  reached by operations that succeed.
\<close>

datatype topic_op = Op_subscribe session_id rstring u8 | Op_unsubscribe session_id rstring | Op_retain publish

fun run_topic_op :: "'p topic_persist \<Rightarrow> topic_op \<Rightarrow> ('p, u8) sub_act" where
  "run_topic_op tp (Op_subscribe session topic qos) = subscribe tp session topic qos"
| "run_topic_op tp (Op_unsubscribe session topic) = act_bind (unsubscribe tp session topic) (\<lambda>_. act_return 0)"
| "run_topic_op tp (Op_retain msg) = act_bind (retain tp msg) (\<lambda>_. act_return 0)"

inductive tree_reach :: "'p topic_persist \<Rightarrow> 'p subscriptions \<Rightarrow> bool" for tp where
  init: "tree_reach tp (subscriptions_new p)"
| step: "tree_reach tp self \<Longrightarrow> run_topic_op tp op self = (Inr r, self') \<Longrightarrow> tree_reach tp self'"

lemma run_topic_op_safe: "act_hoare tree_ok (run_topic_op tp op) (\<lambda>_. tree_ok) no_panic"
  by (cases op) (auto intro!: act_hoare_bind [OF unsubscribe_safe] act_hoare_bind [OF retain_safe]
      act_hoare_return subscribe_safe)

lemma new_tree_ok: "tree_ok (subscriptions_new p)" "guages_ok (subscriptions_new p)"
  by (simp_all add: tree_ok_def info_of_def subscriptions_new_def guages_ok_def guages_def subs_set_def
      retained_set_def subs_of_def retained_of_def)

lemma tree_reach_ok: "tree_reach tp self \<Longrightarrow> tree_ok self \<and> guages_ok self"
proof (induction rule: tree_reach.induct)
  case (step self op r self')
  have "tree_ok self'" using act_hoareD(1) [OF run_topic_op_safe] step by blast
  moreover have "guages_ok self'"
    using step by (cases op) (auto simp: act_bind_Inr intro: subscribe_guages retain_guages unsubscribe_guages)
  ultimately show ?case ..
qed (simp add: new_tree_ok)

end
