(* ===== verification/Topics_Match.thy ===== *)
theory Topics_Match
  imports Topics_Laws
begin

text \<open>
  \<open>get_subscribed\<close> against a declarative definition of when a filter matches a topic: the
  walk over sets of topics finds exactly the sessions with a matching subscription, and
  gives each the QoS of one of them.
\<close>

section \<open>Matching\<close>

text \<open>Level by level, a plus sign standing for any level.\<close>

fun exact_match :: "rstring list \<Rightarrow> rstring list \<Rightarrow> bool" where
  "exact_match [] [] = True"
| "exact_match (f # fs) (l # ls) = ((f = [0x2b] \<or> f = l) \<and> exact_match fs ls)"
| "exact_match _ _ = False"

text \<open>A hash sign as the last level of the filter, standing for one or more levels.\<close>

fun hash_match :: "rstring list \<Rightarrow> rstring list \<Rightarrow> bool" where
  "hash_match (f # fs) (l # ls) = ((f = [0x23] \<and> fs = []) \<or> ((f = [0x2b] \<or> f = l) \<and> hash_match fs ls))"
| "hash_match _ _ = False"

definition filter_match :: "rstring list \<Rightarrow> rstring list \<Rightarrow> bool" where
  "filter_match f t \<longleftrightarrow> exact_match f t \<or> hash_match f t"

text \<open>A subscription of session \<open>sid\<close> with QoS \<open>q\<close> among the clients of a topic.\<close>

definition has_client :: "topic \<Rightarrow> session_id \<Rightarrow> u8 \<Rightarrow> bool" where
  "has_client tm sid q \<longleftrightarrow> (\<exists>k e. (k, e) \<in> set (t_clients tm) \<and> te_session e = sid \<and> te_qos e = q)"

text \<open>What a map collects from a source: every value is the source's or was there before, and
  every key of the source is there.\<close>

definition collects :: "(session_id, u8) hmap \<Rightarrow> (session_id \<Rightarrow> u8 \<Rightarrow> bool) \<Rightarrow> (session_id, u8) hmap \<Rightarrow> bool" where
  "collects c S c' \<longleftrightarrow>
     (\<forall>sid q. map_of c' sid = Some q \<longrightarrow> S sid q \<or> map_of c sid = Some q) \<and>
     (\<forall>sid. (\<exists>q. S sid q) \<or> map_of c sid \<noteq> None \<longrightarrow> map_of c' sid \<noteq> None)"

lemma collects_none: "(\<And>sid q. \<not> S sid q) \<Longrightarrow> collects c S c"
  by (auto simp: collects_def)

lemma collects_trans:
  assumes "collects c S c'" and "collects c' S' c''"
  shows "collects c (\<lambda>sid q. S sid q \<or> S' sid q) c''"
  unfolding collects_def
proof (intro conjI allI impI)
  fix sid q assume "map_of c'' sid = Some q"
  then have "S' sid q \<or> map_of c' sid = Some q" using assms(2) unfolding collects_def by blast
  then show "(S sid q \<or> S' sid q) \<or> map_of c sid = Some q" using assms(1) unfolding collects_def by blast
next
  fix sid assume "(\<exists>q. S sid q \<or> S' sid q) \<or> map_of c sid \<noteq> None"
  then have "(\<exists>q. S' sid q) \<or> map_of c' sid \<noteq> None" using assms(1) unfolding collects_def by blast
  then show "map_of c'' sid \<noteq> None" using assms(2) unfolding collects_def by blast
qed

lemma collects_cong: "collects c S c' \<Longrightarrow> (\<And>sid q. S sid q \<longleftrightarrow> S' sid q) \<Longrightarrow> collects c S' c'"
  by (simp add: collects_def)

lemma gs_clients_collects: "collects c (\<lambda>sid q. \<exists>k e. (k, e) \<in> set cs \<and> te_session e = sid \<and> te_qos e = q) (gs_clients cs c)"
proof (induction cs arbitrary: c)
  case Nil
  show ?case by (simp add: gs_clients_def collects_def)
next
  case (Cons x cs)
  obtain k e where x: "x = (k, e)" by (cases x)
  have "collects c (\<lambda>sid q. te_session e = sid \<and> te_qos e = q) (hm_insert (te_session e) (te_qos e) c)"
    by (auto simp: collects_def)
  from collects_trans [OF this Cons.IH]
  have "collects c (\<lambda>sid q. te_session e = sid \<and> te_qos e = q \<or>
      (\<exists>k e. (k, e) \<in> set cs \<and> te_session e = sid \<and> te_qos e = q)) (gs_clients (x # cs) c)"
    by (simp add: gs_clients_def x)
  then show ?case by (rule collects_cong) (auto simp: x)
qed

lemma gs_clients_has: "collects c (has_client tm) (gs_clients (t_clients tm) c)"
  by (rule collects_cong [OF gs_clients_collects]) (simp add: has_client_def)

text \<open>One level: the clients of the hash topics, and the topics to go on with.\<close>

lemma gs_level_collects:
  assumes "gs_level l tms c next = (c', next')"
  shows "collects c (\<lambda>sid q. \<exists>tm \<in> set tms. \<exists>e. map_of (t_topics tm) [0x23] = Some e \<and> has_client e sid q) c' \<and>
    set next' = set next \<union> {e. \<exists>tm \<in> set tms. map_of (t_topics tm) [0x2b] = Some e \<or> map_of (t_topics tm) l = Some e}"
  using assms
proof (induction tms arbitrary: c "next")
  case Nil
  then show ?case by (simp add: collects_def)
next
  case (Cons tm tms)
  define c1 where "c1 = (case map_of (t_topics tm) [0x23] of
      Some entry \<Rightarrow> gs_clients (t_clients entry) c | None \<Rightarrow> c)"
  define n1 where "n1 = (case map_of (t_topics tm) [0x2b] of Some entry \<Rightarrow> next @ [entry] | None \<Rightarrow> next)"
  define n2 where "n2 = (case map_of (t_topics tm) l of Some entry \<Rightarrow> n1 @ [entry] | None \<Rightarrow> n1)"
  have "gs_level l tms c1 n2 = (c', next')" using Cons.prems
    unfolding c1_def n1_def n2_def by (simp only: gs_level.simps Let_def)
  note IH = Cons.IH [OF this]
  have "collects c (\<lambda>sid q. \<exists>e. map_of (t_topics tm) [0x23] = Some e \<and> has_client e sid q) c1"
    unfolding c1_def
    by (cases "map_of (t_topics tm) [0x23]") (auto simp: collects_none intro: collects_cong [OF gs_clients_has])
  from collects_trans [OF this conjunct1 [OF IH]]
  have "collects c (\<lambda>sid q. \<exists>tm \<in> set (tm # tms). \<exists>e. map_of (t_topics tm) [0x23] = Some e \<and> has_client e sid q) c'"
    by (rule collects_cong) auto
  moreover have "set n2 = set next \<union> {e. map_of (t_topics tm) [0x2b] = Some e \<or> map_of (t_topics tm) l = Some e}"
    by (auto simp: n1_def n2_def split: option.splits)
  ultimately show ?case using IH by auto
qed

text \<open>All the levels: one more level of a filter is one step down the tree.\<close>

lemma hash_match_step:
  "(\<exists>f e. hash_match f (l # ls) \<and> topic_at f tm = Some e \<and> P e) \<longleftrightarrow>
     (\<exists>e. map_of (t_topics tm) [0x23] = Some e \<and> P e) \<or>
     (\<exists>k e. (k = [0x2b] \<or> k = l) \<and> map_of (t_topics tm) k = Some e \<and>
        (\<exists>f e'. hash_match f ls \<and> topic_at f e = Some e' \<and> P e'))" (is "?A \<longleftrightarrow> ?B \<or> ?C")
proof
  assume ?A
  then obtain f e where f: "hash_match f (l # ls)" "topic_at f tm = Some e" "P e" by blast
  then obtain k f' where k: "f = k # f'" "(k = [0x23] \<and> f' = []) \<or> (k = [0x2b] \<or> k = l) \<and> hash_match f' ls"
    by (cases f) auto
  obtain t where t: "map_of (t_topics tm) k = Some t" "topic_at f' t = Some e"
    using f(2) k(1) by (auto split: option.splits)
  show "?B \<or> ?C"
  proof (cases "k = [0x23] \<and> f' = []")
    case True
    then show ?thesis using t f(3) by simp
  next
    case False
    then have kl: "k = [0x2b] \<or> k = l" "hash_match f' ls" using k(2) by auto
    have ex: "\<exists>f e'. hash_match f ls \<and> topic_at f t = Some e' \<and> P e'"
      using kl(2) t(2) f(3) by (intro exI conjI)
    show ?thesis by (rule disjI2, rule exI [of _ k], rule exI [of _ t]) (intro conjI kl(1) t(1) ex)
  qed
next
  assume "?B \<or> ?C"
  then show ?A
  proof
    assume ?B
    then show ?A by (intro exI [of _ "[[0x23]]"]) auto
  next
    assume ?C
    then obtain k e f e' where "k = [0x2b] \<or> k = l" "map_of (t_topics tm) k = Some e" "hash_match f ls"
      "topic_at f e = Some e'" "P e'" by blast
    then show ?A by (intro exI [of _ "k # f"]) auto
  qed
qed

lemma exact_match_step:
  "(\<exists>f. exact_match f (l # ls) \<and> topic_at f tm = Some e) \<longleftrightarrow>
     (\<exists>k e'. (k = [0x2b] \<or> k = l) \<and> map_of (t_topics tm) k = Some e' \<and>
        (\<exists>f. exact_match f ls \<and> topic_at f e' = Some e))" (is "?A \<longleftrightarrow> ?B")
proof
  assume ?A
  then obtain f where f: "exact_match f (l # ls)" "topic_at f tm = Some e" by blast
  then obtain k f' where k: "f = k # f'" "k = [0x2b] \<or> k = l" "exact_match f' ls" by (cases f) auto
  obtain t where t: "map_of (t_topics tm) k = Some t" "topic_at f' t = Some e"
    using f(2) k(1) by (auto split: option.splits)
  show ?B by (rule exI [of _ k], rule exI [of _ t]) (intro conjI k(2) t(1) exI [of _ f'] k(3) t(2))
next
  assume ?B
  then obtain k e' f where "k = [0x2b] \<or> k = l" "map_of (t_topics tm) k = Some e'" "exact_match f ls"
    "topic_at f e' = Some e" by blast
  then show ?A by (intro exI [of _ "k # f"]) auto
qed

lemma exact_match_Nil: "exact_match f [] \<longleftrightarrow> f = []"
  by (cases f) auto

lemma hash_match_Nil: "\<not> hash_match f []"
  by (cases f) auto

lemma gs_levels_collects:
  assumes "gs_levels ls tms c = (c', tms')"
  shows "collects c (\<lambda>sid q. \<exists>tm \<in> set tms. \<exists>f e. hash_match f ls \<and> topic_at f tm = Some e \<and> has_client e sid q) c' \<and>
    set tms' = {e. \<exists>tm \<in> set tms. \<exists>f. exact_match f ls \<and> topic_at f tm = Some e}"
  using assms
proof (induction ls arbitrary: tms c)
  case Nil
  then show ?case by (auto simp: exact_match_Nil hash_match_Nil collects_none)
next
  case (Cons l ls)
  let ?H = "\<lambda>ls tm sid q. \<exists>f e. hash_match f ls \<and> topic_at f tm = Some e \<and> has_client e sid q"
  let ?X = "\<lambda>ls tm e. \<exists>f. exact_match f ls \<and> topic_at f tm = Some e"
  obtain c1 tms1 where L: "gs_level l tms c [] = (c1, tms1)" by fastforce
  note G = gs_level_collects [OF L]
  have rest: "gs_levels ls tms1 c1 = (c', tms')" if "tms1 \<noteq> []" using Cons.prems L that by simp
  have stop: "c' = c1 \<and> tms' = []" if "tms1 = []" using Cons.prems L that by simp
  have R: "collects c1 (\<lambda>sid q. \<exists>tm \<in> set tms1. ?H ls tm sid q) c' \<and> set tms' = {e. \<exists>tm \<in> set tms1. ?X ls tm e}"
  proof (cases "tms1 = []")
    case True
    then show ?thesis using stop by (simp add: collects_none)
  next
    case False
    then show ?thesis by (rule Cons.IH [OF rest])
  qed
  have step: "(\<exists>tm \<in> set tms1. P tm) \<longleftrightarrow>
      (\<exists>tm \<in> set tms. \<exists>k e. (k = [0x2b] \<or> k = l) \<and> map_of (t_topics tm) k = Some e \<and> P e)" for P
    using conjunct2 [OF G] by auto
  have "collects c (\<lambda>sid q. \<exists>tm \<in> set tms. ?H (l # ls) tm sid q) c'"
    by (rule collects_cong [OF collects_trans [OF conjunct1 [OF G] conjunct1 [OF R]]])
      (simp only: step hash_match_step bex_disj_distrib)
  moreover have "set tms' = {e. \<exists>tm \<in> set tms. ?X (l # ls) tm e}"
    unfolding conjunct2 [OF R] by (simp only: step exact_match_step)
  ultimately show ?case ..
qed

section \<open>\<open>get_subscribed\<close>\<close>

text \<open>Some subscription of the session, with QoS \<open>q\<close>, has a filter that matches the topic.\<close>

definition subscribed :: "'p subscriptions \<Rightarrow> rstring \<Rightarrow> session_id \<Rightarrow> u8 \<Rightarrow> bool" where
  "subscribed self topic sid q \<longleftrightarrow>
     (\<exists>f n e. filter_match f (topic_levels topic) \<and> subs_of self f n = Some e \<and> te_session e = sid \<and> te_qos e = q)"

lemma has_client_subs:
  assumes "tree_ok self"
  shows "(\<exists>e. topic_at f (sb_topics self) = Some e \<and> has_client e sid q) \<longleftrightarrow>
    (\<exists>n e. subs_of self f n = Some e \<and> te_session e = sid \<and> te_qos e = q)"
proof (cases "topic_at f (sb_topics self)")
  case None
  then show ?thesis by (simp add: subs_of_def info_of_def info_at_def)
next
  case (Some tm)
  have i: "info_of self f = (t_internal_id tm, t_clients tm, t_message tm)" by (rule topic_info_at [OF Some])
  then have "distinct (map fst (t_clients tm))"
    using assms by (metis tree_ok_def entries_ok_def hm_wf_def fst_conv snd_conv)
  then have "(k, e) \<in> set (t_clients tm) \<longleftrightarrow> subs_of self f k = Some e" for k e
    by (simp add: subs_of_def i)
  then show ?thesis using Some by (simp add: has_client_def)
qed

lemma get_subscribed_collects:
  assumes "tree_ok self"
  shows "collects [] (subscribed self topic) (get_subscribed topic self)"
proof -
  obtain c tms where L: "gs_levels (topic_levels topic) [sb_topics self] [] = (c, tms)" by fastforce
  note G = gs_levels_collects [OF L]
  have f: "collects c0 (\<lambda>sid q. \<exists>tm \<in> set ts. has_client tm sid q) (fold (\<lambda>tm. gs_clients (t_clients tm)) ts c0)" for ts c0
  proof (induction ts arbitrary: c0)
    case (Cons tm ts)
    from collects_trans [OF gs_clients_has Cons.IH] show ?case by simp
  qed (simp add: collects_none)
  have "collects [] (\<lambda>sid q. (\<exists>tm \<in> set [sb_topics self]. \<exists>f e. hash_match f (topic_levels topic) \<and>
        topic_at f tm = Some e \<and> has_client e sid q) \<or> (\<exists>tm \<in> set tms. has_client tm sid q)) (get_subscribed topic self)"
    using collects_trans [OF conjunct1 [OF G] f] by (simp add: get_subscribed_def L)
  then show ?thesis
  proof (rule collects_cong)
    fix sid q
    define S where "S f \<longleftrightarrow> (\<exists>n e. subs_of self f n = Some e \<and> te_session e = sid \<and> te_qos e = q)" for f
    have S: "(\<exists>e. topic_at f (sb_topics self) = Some e \<and> has_client e sid q) \<longleftrightarrow> S f" for f
      unfolding S_def by (rule has_client_subs [OF assms])
    have h: "(\<exists>tm \<in> set [sb_topics self]. \<exists>f e. hash_match f (topic_levels topic) \<and>
        topic_at f tm = Some e \<and> has_client e sid q) \<longleftrightarrow> (\<exists>f. hash_match f (topic_levels topic) \<and> S f)"
      by (simp flip: S)
    have x: "(\<exists>tm \<in> set tms. has_client tm sid q) \<longleftrightarrow> (\<exists>f. exact_match f (topic_levels topic) \<and> S f)"
      unfolding conjunct2 [OF G] by (simp flip: S) blast
    have "subscribed self topic sid q \<longleftrightarrow>
        (\<exists>f. hash_match f (topic_levels topic) \<and> S f) \<or> (\<exists>f. exact_match f (topic_levels topic) \<and> S f)"
      unfolding subscribed_def filter_match_def S_def by blast
    then show "(\<exists>tm \<in> set [sb_topics self]. \<exists>f e. hash_match f (topic_levels topic) \<and>
        topic_at f tm = Some e \<and> has_client e sid q) \<or> (\<exists>tm \<in> set tms. has_client tm sid q) \<longleftrightarrow>
        subscribed self topic sid q"
      using h x by argo
  qed
qed

section \<open>Loading\<close>

lemma insert_walk_info:
  assumes "p \<noteq> []" and "t_topics item = []"
  shows "info_at q (insert_topic_walk p item tm) = (if q = p then topic_info (Some item) else info_at q tm)"
  using assms(1)
proof (induction p arbitrary: q tm)
  case (Cons l p)
  show ?case
  proof (cases q)
    case Nil
    then show ?thesis by (simp add: info_at_Nil Let_def split: option.splits)
  next
    case q: (Cons k q')
    show ?thesis
    proof (cases "p = []")
      case True
      have "info_at (x # xs) item = (None, [], None)" for x xs by (simp add: info_at_Cons assms(2))
      then show ?thesis using True q assms(2)
        by (cases q') (auto simp: info_at_Cons info_at_Nil Let_def split: option.splits)
    next
      case False
      then show ?thesis using q Cons.IH [OF False, of q']
        by (auto simp: info_at_insert Let_def split: option.splits) (auto simp: info_at_Cons)
    qed
  qed
qed simp

definition load_clients :: "(session_id \<times> u8) list \<Rightarrow> (rstring \<times> topic_entry) list" where
  "load_clients subs = fold (\<lambda>(s, q). hm_insert (sid_session s) \<lparr>te_session = s, te_qos = q\<rparr>) subs []"

lemma load_fold:
  "fold (\<lambda>(session, qos) (topic, n). (snd (topic_set_subscribed session qos topic), n + 1)) subs
     (Topic [] i cs m, k :: int) =
   (Topic [] i (fold (\<lambda>(s, q). hm_insert (sid_session s) \<lparr>te_session = s, te_qos = q\<rparr>) subs cs) m,
    k + int (length subs))"
  by (induction subs arbitrary: cs k) (auto simp: Let_def)

text \<open>What one row of the topics table becomes.\<close>

definition row_info :: "(int \<Rightarrow> publish) \<Rightarrow> (int \<Rightarrow> (session_id \<times> u8) list) \<Rightarrow> persisted_topic \<Rightarrow> topic_info" where
  "row_info msgs subs t =
     (Some (pt_topic_id t), load_clients (subs (pt_topic_id t)), map_option msgs (pt_retained_message_id t))"

definition loaded :: "(int \<Rightarrow> publish) \<Rightarrow> (int \<Rightarrow> (session_id \<times> u8) list) \<Rightarrow> persisted_topic list \<Rightarrow>
    (rstring list \<Rightarrow> topic_info) \<Rightarrow> rstring list \<Rightarrow> topic_info" where
  "loaded msgs subs ts info = fold (\<lambda>t info. info(topic_levels (pt_topic_name t) := row_info msgs subs t)) ts info"

lemma load_loop_info:
  assumes "\<And>mid. tp_load_persistent_message tp mid p = (Inr (msgs mid), p)"
    and "\<And>i. tp_load_persistent_subscriptions tp i p = (Inr (subs i), p)"
    and "sb_persist self = p"
  shows "\<exists>self'. load_topics_loop tp ts r n self =
      (Inr (r + int (length (filter (\<lambda>t. pt_retained_message_id t \<noteq> None) ts)),
            n + (\<Sum>t \<leftarrow> ts. int (length (subs (pt_topic_id t))))), self') \<and>
    info_of self' = loaded msgs subs ts (info_of self) \<and> sb_persist self' = p"
  using assms(3)
proof (induction ts arbitrary: r n self)
  case (Cons t ts)
  define item where "item = Topic [] (Some (pt_topic_id t)) (load_clients (subs (pt_topic_id t)))
      (map_option msgs (pt_retained_message_id t))"
  define self1 where "self1 = insert_topic (pt_topic_name t) item self"
  have info: "info_of self1 = (info_of self)(topic_levels (pt_topic_name t) := row_info msgs subs t)"
    using insert_walk_info [of "topic_levels (pt_topic_name t)" item _ "sb_topics self"]
    by (auto simp: self1_def insert_topic_def info_of_def item_def row_info_def fun_eq_iff)
  have p1: "sb_persist self1 = p" using Cons.prems by (simp add: self1_def insert_topic_def)
  have same: "self\<lparr>sb_persist := p\<rparr> = self" using Cons.prems by (cases self) simp
  have loop: "load_topics_loop tp (t # ts) r n self =
      load_topics_loop tp ts (r + (if pt_retained_message_id t = None then 0 else 1))
        (n + int (length (subs (pt_topic_id t)))) self1"
  proof (cases "pt_retained_message_id t")
    case None
    then show ?thesis
      using assms(2) [of "pt_topic_id t"] Cons.prems
      by (simp add: same act_bind_app with_persist_def topic_new_def load_fold self1_def item_def load_clients_def)
  next
    case (Some mid)
    then show ?thesis
      using assms(1) [of mid] assms(2) [of "pt_topic_id t"] Cons.prems
      by (simp add: same act_bind_app with_persist_def topic_new_def load_fold self1_def item_def load_clients_def)
  qed
  obtain self' where "load_topics_loop tp ts (r + (if pt_retained_message_id t = None then 0 else 1))
        (n + int (length (subs (pt_topic_id t)))) self1 =
      (Inr (r + (if pt_retained_message_id t = None then 0 else 1) +
              int (length (filter (\<lambda>t. pt_retained_message_id t \<noteq> None) ts)),
            n + int (length (subs (pt_topic_id t))) + (\<Sum>t \<leftarrow> ts. int (length (subs (pt_topic_id t))))), self')"
    "info_of self' = loaded msgs subs ts (info_of self1)" "sb_persist self' = p"
    using Cons.IH [OF p1] by blast
  then show ?case unfolding loop by (intro exI [of _ self']) (auto simp: loaded_def info)
qed (simp add: loaded_def)

lemma load_clients_ok: "entries_ok (load_clients subs)"
proof -
  have "entries_ok cs \<Longrightarrow> entries_ok (fold (\<lambda>(s, q). hm_insert (sid_session s) \<lparr>te_session = s, te_qos = q\<rparr>) subs cs)" for cs
    by (induction subs arbitrary: cs) auto
  then show ?thesis by (simp add: load_clients_def)
qed

lemma loaded_ok:
  "(\<forall>p. (fst (info p) = None \<longrightarrow> snd (info p) = ([], None)) \<and> entries_ok (fst (snd (info p)))) \<Longrightarrow>
   (fst (loaded msgs subs ts info p) = None \<longrightarrow> snd (loaded msgs subs ts info p) = ([], None)) \<and>
    entries_ok (fst (snd (loaded msgs subs ts info p)))"
  unfolding loaded_def by (induction ts arbitrary: info) (auto simp: row_info_def load_clients_ok)

section \<open>Properties\<close>

text \<open>Sample values for the witnesses.\<close>

definition sample_session :: session_id where
  "sample_session = \<lparr>sid_session = [0x73], sid_internal_id = 1, sid_generation = 1\<rparr>"

definition sample_topic :: rstring where
  "sample_topic = [0x61, 0x2f, 0x62]"

definition sample_publish :: publish where
  "sample_publish = publish_new\<lparr>pub_topic := sample_topic, pub_message := [1], pub_retain := True\<rparr>"

text \<open>C23: a subscription that succeeds changes one entry, the session's under the filter's levels, and no
  retained message. A new subscription is granted the QoS asked for and counted once; a known one is granted
  what was asked for, or keeps its old QoS when the storage refuses the update, and is not counted again.\<close>

theorem subscribe_effect:
  assumes "subscribe tp session topic qos self = (Inr ret, self')"
  shows "retained_of self' = retained_of self \<and>
    (case subs_of self (topic_levels topic) (sid_session session) of
       None \<Rightarrow> ret = qos \<and> guages self' = (sb_guage_subscriptions self + 1, sb_guage_retained_messages self) \<and>
         subs_of self' = (subs_of self)(topic_levels topic :=
           (subs_of self (topic_levels topic))(sid_session session \<mapsto> \<lparr>te_session = session, te_qos = qos\<rparr>))
     | Some e \<Rightarrow> guages self' = guages self \<and>
         (if te_qos e = qos then ret = qos \<and> subs_of self' = subs_of self
          else ret = qos \<and> subs_of self' = (subs_of self)(topic_levels topic :=
              (subs_of self (topic_levels topic))(sid_session session \<mapsto> \<lparr>te_session = session, te_qos = qos\<rparr>)) \<or>
            ret = te_qos e \<and> subs_of self' = subs_of self))"
  using subscribe_new [OF assms] subscribe_known [OF assms]
  by (cases "subs_of self (topic_levels topic) (sid_session session)") (simp_all split: option.splits)

lemma subscribe_effect_witness:
  "let self' = snd (subscribe persist_topic_test sample_session sample_topic 1 (subscriptions_new ()))
   in sb_guage_subscriptions self' = 1 \<and>
     subs_of self' [[0x61], [0x62]] [0x73] = Some \<lparr>te_session = sample_session, te_qos = 1\<rparr>"
proof -
  define self' where "self' = snd (subscribe persist_topic_test sample_session sample_topic 1 (subscriptions_new ()))"
  have "fst (subscribe persist_topic_test sample_session sample_topic 1 (subscriptions_new ())) = Inr 1"
    by code_simp
  then have "subscribe persist_topic_test sample_session sample_topic 1 (subscriptions_new ()) = (Inr 1, self')"
    by (simp add: self'_def prod_eq_iff)
  from subscribe_effect [OF this] show ?thesis
    by (simp add: flip: self'_def)
      (simp add: subs_of_def info_of_def subscriptions_new_def info_at_def topic_levels_def sample_topic_def
        sample_session_def guages_def)
qed

text \<open>Unsubscribing removes the session's entry under exactly that filter, keeps every other subscription
  and every retained message, and takes one off the gauge exactly when there was an entry.\<close>

theorem unsubscribe_effect:
  assumes "unsubscribe tp session topic self = (Inr (), self')"
  shows "subs_of self' = (subs_of self)(topic_levels topic :=
      (subs_of self (topic_levels topic))(sid_session session := None)) \<and>
    retained_of self' = retained_of self \<and>
    guages self' = (sb_guage_subscriptions self -
        (if subs_of self (topic_levels topic) (sid_session session) = None then 0 else 1),
      sb_guage_retained_messages self)"
  using assms by (rule unsubscribe_abs)

lemma unsubscribe_effect_witness:
  "let self = snd (subscribe persist_topic_test sample_session sample_topic 1 (subscriptions_new ()));
       self' = snd (unsubscribe persist_topic_test sample_session sample_topic self)
   in subs_of self' [[0x61], [0x62]] [0x73] = None"
proof -
  define self where "self = snd (subscribe persist_topic_test sample_session sample_topic 1 (subscriptions_new ()))"
  define self' where "self' = snd (unsubscribe persist_topic_test sample_session sample_topic self)"
  have "fst (unsubscribe persist_topic_test sample_session sample_topic self) = Inr ()"
    unfolding self_def by code_simp
  then have "unsubscribe persist_topic_test sample_session sample_topic self = (Inr (), self')"
    by (simp add: self'_def prod_eq_iff)
  from unsubscribe_effect [OF this] show ?thesis
    by (simp add: flip: self_def self'_def) (simp add: topic_levels_def sample_topic_def sample_session_def)
qed

text \<open>C24: a retained publish sets the message of exactly its topic, an empty one clears it, and the gauge of
  retained messages follows; no subscription changes. A later lookup finds the message under that very topic
  name only: a filter with wildcards never matches a retained message.\<close>

theorem retain_effect:
  assumes "retain tp msg self = (Inr (), self')"
  shows "subs_of self' = subs_of self \<and>
    (\<forall>topic. get_retained_messages topic self' =
       (if topic = pub_topic msg then (if pub_message msg = [] then [] else [msg])
        else get_retained_messages topic self)) \<and>
    sb_guage_subscriptions self' = sb_guage_subscriptions self \<and>
    sb_guage_retained_messages self' = sb_guage_retained_messages self
      - int (length (get_retained_messages (pub_topic msg) self))
      + int (length (get_retained_messages (pub_topic msg) self'))"
proof -
  have g: "get_retained_messages topic s = (case retained_of s (topic_levels topic) of None \<Rightarrow> [] | Some m \<Rightarrow> [m])"
    for topic and s :: "'a subscriptions"
    by (cases "topic_at (topic_levels topic) (sb_topics s)")
      (auto simp: get_retained_messages_def retained_of_def info_of_def info_at_def split: option.splits)
  have "topic_levels t = topic_levels u \<longleftrightarrow> t = u" for t u
    by (auto simp: topic_levels_def dest: split_at_inj)
  then show ?thesis
    using retain_abs [OF assms] by (auto simp: g guages_def)
qed

lemma retain_effect_witness:
  "get_retained_messages sample_topic
     (snd (retain persist_topic_test sample_publish (subscriptions_new ()))) = [sample_publish] \<and>
   get_retained_messages [0x61, 0x2f, 0x23]
     (snd (retain persist_topic_test sample_publish (subscriptions_new ()))) = []"
proof -
  have "fst (retain persist_topic_test sample_publish (subscriptions_new ())) = Inr ()" by code_simp
  then have "retain persist_topic_test sample_publish (subscriptions_new ()) =
      (Inr (), snd (retain persist_topic_test sample_publish (subscriptions_new ())))"
    by (simp add: prod_eq_iff)
  note E = retain_effect [OF this, THEN conjunct2, THEN conjunct1, rule_format]
  have "pub_topic sample_publish = sample_topic" "pub_message sample_publish \<noteq> []"
    "sample_topic \<noteq> [0x61, 0x2f, 0x23]" "get_retained_messages [0x61, 0x2f, 0x23] (subscriptions_new ()) = []"
    by code_simp+
  then show ?thesis using E by simp
qed

text \<open>In every state the router can reach, no operation on the tree panics: the database id that
  \<open>subscribe\<close>, \<open>retain\<close> and \<open>unsubscribe\<close> unwrap is always there.\<close>

theorem tree_no_panic:
  assumes "tree_reach tp self"
  shows "fst (run_topic_op tp op self) \<noteq> Inl Panicked"
proof (cases "run_topic_op tp op self")
  case (Pair r self')
  then show ?thesis
    using act_hoareD(2) [OF run_topic_op_safe, of self tp op _ self'] tree_reach_ok [OF assms]
    by (cases r) (auto simp: no_panic_def)
qed

lemma tree_no_panic_witness:
  "fst (run_topic_op persist_topic_test (Op_unsubscribe sample_session sample_topic) (subscriptions_new ())) \<noteq> Inl Panicked"
  by (rule tree_no_panic [OF tree_reach.init])

text \<open>In every state the router can reach, the two gauges are the number of subscriptions and the number
  of retained messages in the tree.\<close>

theorem tree_guages:
  assumes "tree_reach tp self"
  shows "sb_guage_subscriptions self = int (card {(p, n). subs_of self p n \<noteq> None}) \<and>
    sb_guage_retained_messages self = int (card {p. retained_of self p \<noteq> None})"
  using tree_reach_ok [OF assms] by (simp add: guages_ok_def guages_def subs_set_def retained_set_def)

lemma tree_guages_witness:
  "sb_guage_subscriptions (subscriptions_new ()) = int (card {(p, n). subs_of (subscriptions_new ()) p n \<noteq> None})"
  using tree_guages [OF tree_reach.init [of persist_topic_test "()"]] by simp

text \<open>C2: in every state the router can reach, the sessions a message is forwarded to are exactly those with a
  subscription whose filter matches the topic, level by level with plus for any one level and a hash for one
  or more levels at the end, and each is given the QoS of one of its matching subscriptions.\<close>

theorem get_subscribed_exact:
  assumes "tree_reach tp self"
  shows "(map_of (get_subscribed topic self) sid \<noteq> None \<longleftrightarrow> (\<exists>q. subscribed self topic sid q)) \<and>
    (map_of (get_subscribed topic self) sid = Some q \<longrightarrow> subscribed self topic sid q)"
  using get_subscribed_collects [of self topic] tree_reach_ok [OF assms] unfolding collects_def by (auto; blast)

lemma get_subscribed_exact_witness:
  "subscribed (snd (subscribe persist_topic_test sample_session [0x61, 0x2f, 0x2b] 2 (subscriptions_new ())))
     sample_topic sample_session 2"
proof -
  let ?run = "subscribe persist_topic_test sample_session [0x61, 0x2f, 0x2b] 2 (subscriptions_new ())"
  have "fst ?run = Inr 2" by code_simp
  then have "run_topic_op persist_topic_test (Op_subscribe sample_session [0x61, 0x2f, 0x2b] 2) (subscriptions_new ()) = (Inr 2, snd ?run)"
    by (simp add: prod_eq_iff)
  then have "tree_reach persist_topic_test (snd ?run)" by (rule tree_reach.step [OF tree_reach.init])
  moreover have "map_of (get_subscribed sample_topic (snd ?run)) sample_session = Some 2" by code_simp
  ultimately show ?thesis using get_subscribed_exact by blast
qed

text \<open>With overlapping subscriptions the QoS is that of the subscription the walk meets last, not the
  highest: a session with QoS 2 on \<open>a/+\<close> and QoS 0 on \<open>a/b\<close> gets a message on \<open>a/b\<close> with
  QoS 0.\<close>

theorem overlapping_qos_not_maximal:
  "let self1 = snd (subscribe persist_topic_test sample_session [0x61, 0x2f, 0x2b] 2 (subscriptions_new ()));
       self2 = snd (subscribe persist_topic_test sample_session sample_topic 0 self1)
   in tree_reach persist_topic_test self2 \<and> get_subscribed sample_topic self2 = [(sample_session, 0)]"
proof -
  define self1 where "self1 = snd (subscribe persist_topic_test sample_session [0x61, 0x2f, 0x2b] 2 (subscriptions_new ()))"
  define self2 where "self2 = snd (subscribe persist_topic_test sample_session sample_topic 0 self1)"
  have 1: "subscribe persist_topic_test sample_session [0x61, 0x2f, 0x2b] 2 (subscriptions_new ()) = (Inr 2, self1)"
    unfolding self1_def prod_eq_iff by code_simp
  have 2: "subscribe persist_topic_test sample_session sample_topic 0 self1 = (Inr 0, self2)"
    unfolding self2_def self1_def prod_eq_iff by code_simp
  have "tree_reach persist_topic_test self1"
    using tree_reach.step [where op = "Op_subscribe sample_session [0x61, 0x2f, 0x2b] 2", OF tree_reach.init] 1 by simp
  then have "tree_reach persist_topic_test self2"
    using tree_reach.step [where op = "Op_subscribe sample_session sample_topic 0"] 2 by simp
  moreover have "get_subscribed sample_topic self2 = [(sample_session, 0)]"
    unfolding self2_def self1_def by code_simp
  ultimately show ?thesis by (simp add: self1_def self2_def Let_def)
qed

text \<open>Loading builds the tree the storage describes: every topic row sets the id, the subscriptions and the
  retained message at its path, the last row of a path winning, nothing else is in the tree, and the gauges
  are the numbers of rows read. The loaded tree is one on which no operation panics.\<close>

theorem load_state_effect:
  assumes "tp_load_persistent_topics tp p = (Inr ts, p)"
    and "\<And>mid. tp_load_persistent_message tp mid p = (Inr (msgs mid), p)"
    and "\<And>i. tp_load_persistent_subscriptions tp i p = (Inr (subs i), p)"
  shows "\<exists>self'. load_persistent_state tp (subscriptions_new p) = (Inr 0, self') \<and>
    info_of self' = loaded msgs subs ts (\<lambda>_. (None, [], None)) \<and> tree_ok self' \<and>
    sb_guage_subscriptions self' = (\<Sum>t \<leftarrow> ts. int (length (subs (pt_topic_id t)))) \<and>
    sb_guage_retained_messages self' = int (length (filter (\<lambda>t. pt_retained_message_id t \<noteq> None) ts))"
proof -
  have new: "info_of (subscriptions_new p) = (\<lambda>_. (None, [], None))" "sb_persist (subscriptions_new p) = p"
    by (simp_all add: info_of_def subscriptions_new_def fun_eq_iff)
  obtain s where s: "load_topics_loop tp ts 0 0 (subscriptions_new p) =
      (Inr (0 + int (length (filter (\<lambda>t. pt_retained_message_id t \<noteq> None) ts)),
            0 + (\<Sum>t \<leftarrow> ts. int (length (subs (pt_topic_id t))))), s)"
    "info_of s = loaded msgs subs ts (\<lambda>_. (None, [], None))"
    using load_loop_info [OF assms(2,3) new(2), of ts 0 0] by (auto simp: new(1))
  have same: "(subscriptions_new p)\<lparr>sb_persist := p\<rparr> = subscriptions_new p" by (simp add: subscriptions_new_def)
  have "tree_ok s" unfolding tree_ok_def s(2) by (intro allI loaded_ok) simp
  then show ?thesis
    using s by (simp add: load_persistent_state_def act_bind_app with_persist_def assms(1) same new(2))
qed

lemma load_state_effect_witness:
  "\<exists>self'. load_persistent_state (persist_topic_test\<lparr>tp_load_persistent_message := (\<lambda>_ p. (Inr publish_new, p)),
       tp_load_persistent_topics := (\<lambda>p. (Inr [\<lparr>pt_topic_id = 5, pt_topic_name = [0x61], pt_retained_message_id = Some 1\<rparr>], p))\<rparr>)
     (subscriptions_new ()) = (Inr 0, self') \<and> info_of self' [[0x61]] = (Some 5, [], Some publish_new)"
proof -
  let ?tp = "persist_topic_test\<lparr>tp_load_persistent_message := (\<lambda>_ p. (Inr publish_new, p)),
       tp_load_persistent_topics := (\<lambda>p. (Inr [\<lparr>pt_topic_id = 5, pt_topic_name = [0x61], pt_retained_message_id = Some 1\<rparr>], p))\<rparr>"
  have "\<exists>self'. load_persistent_state ?tp (subscriptions_new ()) = (Inr 0, self') \<and>
    info_of self' = loaded (\<lambda>_. publish_new) (\<lambda>_. []) [\<lparr>pt_topic_id = 5, pt_topic_name = [0x61], pt_retained_message_id = Some 1\<rparr>]
      (\<lambda>_. (None, [], None)) \<and> tree_ok self' \<and>
    sb_guage_subscriptions self' = (\<Sum>t \<leftarrow> [\<lparr>pt_topic_id = 5, pt_topic_name = [0x61], pt_retained_message_id = Some 1\<rparr>]. int (length ((\<lambda>_. [] :: (session_id \<times> u8) list) (pt_topic_id t)))) \<and>
    sb_guage_retained_messages self' = int (length (filter (\<lambda>t. pt_retained_message_id t \<noteq> None) [\<lparr>pt_topic_id = 5, pt_topic_name = [0x61], pt_retained_message_id = Some 1\<rparr>]))"
    by (rule load_state_effect) (simp_all add: persist_topic_test_def)
  then show ?thesis by (auto simp: loaded_def row_info_def load_clients_def topic_levels_def)
qed

end
