(* ===== verification/Topic_Storage.thy ===== *)
theory Topic_Storage
  imports Topics_Match
begin

text \<open>
  What the storage of the topic tree promises, as a locale: a view of the rows it holds by
  topic name, and what each call does to that. In it, once, that tree and storage stay in step,
  and that a tree loaded from the storage is the tree that was there.
\<close>

section \<open>The view of the stored topics\<close>

text \<open>Subscriptions by internal session id, and the retained message with its own id.\<close>

record topic_view =
  tv_id :: int
  tv_subs :: "int \<rightharpoonup> u8"
  tv_retained :: "(int \<times> publish) option"

text \<open>What a storage keeps of a retained message.\<close>

definition stored_publish :: "publish \<Rightarrow> publish" where
  "stored_publish m = publish_new\<lparr>pub_topic := pub_topic m, pub_qos := pub_qos m, pub_message := pub_message m\<rparr>"

lemma stored_publish_idem [simp]: "stored_publish (stored_publish m) = stored_publish m"
  by (simp add: stored_publish_def)

text \<open>
  The parts of a state of the storage that the tree depends on: what is stored of the topics,
  and the sessions, by their internal id.
\<close>

type_synonym stored_topics = "rstring \<rightharpoonup> topic_view"
type_synonym stored_sessions = "int \<rightharpoonup> session_id"

definition named :: "stored_sessions \<Rightarrow> int \<Rightarrow> rstring \<Rightarrow> bool" where
  "named who S n \<longleftrightarrow> map_option sid_session (who S) = Some n"

text \<open>The list a storage returns for the subscriptions of a topic.\<close>

definition lists_subscriptions :: "stored_sessions \<Rightarrow> (int \<rightharpoonup> u8) \<Rightarrow> (session_id \<times> u8) list \<Rightarrow> bool" where
  "lists_subscriptions who subs ls \<longleftrightarrow> distinct (map fst ls) \<and>
     (\<forall>s q. (s, q) \<in> set ls \<longleftrightarrow> who (sid_internal_id s) = Some s \<and> subs (sid_internal_id s) = Some q)"

text \<open>The rows a storage returns for its topics.\<close>

definition lists_topics :: "stored_topics \<Rightarrow> persisted_topic list \<Rightarrow> bool" where
  "lists_topics topics ts \<longleftrightarrow> distinct (map pt_topic_name ts) \<and> dom topics \<subseteq> pt_topic_name ` set ts \<and>
     (\<forall>t \<in> set ts. \<exists>v. topics (pt_topic_name t) = Some v \<and> pt_topic_id t = tv_id v \<and>
        pt_retained_message_id t = map_option fst (tv_retained v))"

section \<open>The promises\<close>

locale topic_storage =
  fixes tp :: "'p topic_persist" and ok :: "'p \<Rightarrow> bool"
    and view :: "'p \<Rightarrow> stored_topics" and who :: "'p \<Rightarrow> stored_sessions"
  assumes who_id: "ok p \<Longrightarrow> who p S = Some s \<Longrightarrow> sid_internal_id s = S"
    and who_names: "ok p \<Longrightarrow> named (who p) S n \<Longrightarrow> named (who p) S' n \<Longrightarrow> S = S'"
    and subs_known: "ok p \<Longrightarrow> view p n = Some v \<Longrightarrow> tv_subs v S = Some q \<Longrightarrow> who p S \<noteq> None"
    and retained_form: "ok p \<Longrightarrow> view p n = Some v \<Longrightarrow> tv_retained v = Some (mid, m) \<Longrightarrow> stored_publish m = m"
    and add_topic: "ok p \<Longrightarrow> view p n = None \<Longrightarrow> tp_persist_topic tp n p = (Inr i, p') \<Longrightarrow>
        ok p' \<and> who p' = who p \<and> view p' = (view p)(n \<mapsto> \<lparr>tv_id = i, tv_subs = Map.empty, tv_retained = None\<rparr>)"
    and delete_topic: "ok p \<Longrightarrow> view p n = Some v \<Longrightarrow> tv_subs v = Map.empty \<Longrightarrow> tv_retained v = None \<Longrightarrow>
        tp_persist_delete_topic tp (tv_id v) p = (Inr a, p') \<Longrightarrow> ok p' \<and> who p' = who p \<and> view p' = (view p)(n := None)"
    and add_subscription: "ok p \<Longrightarrow> view p n = Some v \<Longrightarrow> who p S \<noteq> None \<Longrightarrow> tv_subs v S = None \<Longrightarrow>
        tp_persist_subscribe tp S (tv_id v) q p = (Inr b, p') \<Longrightarrow>
        ok p' \<and> who p' = who p \<and> view p' = (view p)(n \<mapsto> v\<lparr>tv_subs := (tv_subs v)(S \<mapsto> q)\<rparr>)"
    and update_subscription: "ok p \<Longrightarrow> view p n = Some v \<Longrightarrow> tv_subs v S \<noteq> None \<Longrightarrow>
        tp_persist_update_subscribe tp S (tv_id v) q p = (r, p') \<Longrightarrow>
        ok p' \<and> who p' = who p \<and> view p' = (case r of Inl _ \<Rightarrow> view p | Inr _ \<Rightarrow> (view p)(n \<mapsto> v\<lparr>tv_subs := (tv_subs v)(S \<mapsto> q)\<rparr>))"
    and remove_subscription: "ok p \<Longrightarrow> view p n = Some v \<Longrightarrow> tv_subs v S \<noteq> None \<Longrightarrow>
        tp_persist_unsubscribe tp S (tv_id v) p = (Inr b, p') \<Longrightarrow>
        ok p' \<and> who p' = who p \<and> view p' = (view p)(n \<mapsto> v\<lparr>tv_subs := (tv_subs v)(S := None)\<rparr>)"
    and add_retained: "ok p \<Longrightarrow> view p n = Some v \<Longrightarrow> tv_retained v = None \<Longrightarrow> tp_persist_retain tp (tv_id v) m p = (Inr a, p') \<Longrightarrow>
        ok p' \<and> who p' = who p \<and> (\<exists>mid. view p' = (view p)(n \<mapsto> v\<lparr>tv_retained := Some (mid, stored_publish m)\<rparr>))"
    and remove_retained: "ok p \<Longrightarrow> view p n = Some v \<Longrightarrow> tp_persist_delete_retain tp (tv_id v) p = (Inr u, p') \<Longrightarrow>
        ok p' \<and> who p' = who p \<and> view p' = (view p)(n \<mapsto> v\<lparr>tv_retained := None\<rparr>)"
    and load_topics: "ok p \<Longrightarrow> \<exists>ts p'. tp_load_persistent_topics tp p = (Inr ts, p') \<and>
        ok p' \<and> who p' = who p \<and> view p' = view p \<and> lists_topics (view p) ts"
    and load_message: "ok p \<Longrightarrow> view p n = Some v \<Longrightarrow> tv_retained v = Some (mid, m) \<Longrightarrow>
        \<exists>p'. tp_load_persistent_message tp mid p = (Inr m, p') \<and> ok p' \<and> who p' = who p \<and> view p' = view p"
    and load_subscriptions: "ok p \<Longrightarrow> view p n = Some v \<Longrightarrow>
        \<exists>ls p'. tp_load_persistent_subscriptions tp (tv_id v) p = (Inr ls, p') \<and>
        ok p' \<and> who p' = who p \<and> view p' = view p \<and> lists_subscriptions (who p) (tv_subs v) ls"

section \<open>Tree and storage in step\<close>

text \<open>Each entry of the tree is stored under its session's internal id, and nothing else is.\<close>

definition subs_match :: "stored_sessions \<Rightarrow> (int \<rightharpoonup> u8) \<Rightarrow> (rstring \<rightharpoonup> topic_entry) \<Rightarrow> bool" where
  "subs_match who subs tree \<longleftrightarrow>
     (\<forall>n e. tree n = Some e \<longrightarrow> named who (sid_internal_id (te_session e)) n \<and>
        subs (sid_internal_id (te_session e)) = Some (te_qos e)) \<and>
     (\<forall>S q. subs S = Some q \<longrightarrow> (\<exists>n e. tree n = Some e \<and> sid_internal_id (te_session e) = S))"

definition topic_stored :: "stored_sessions \<Rightarrow> topic_view option \<Rightarrow> topic_info \<Rightarrow> bool" where
  "topic_stored who row info \<longleftrightarrow>
     (case row of
        None \<Rightarrow> info = (None, [], None)
      | Some v \<Rightarrow> fst info = Some (tv_id v) \<and> subs_match who (tv_subs v) (map_of (fst (snd info))) \<and>
          map_option snd (tv_retained v) = map_option stored_publish (snd (snd info)))"

definition tree_stored :: "('p \<Rightarrow> bool) \<Rightarrow> ('p \<Rightarrow> stored_topics) \<Rightarrow> ('p \<Rightarrow> stored_sessions) \<Rightarrow>
    (rstring list \<Rightarrow> topic_info) \<Rightarrow> 'p \<Rightarrow> bool" where
  "tree_stored ok view who info p \<longleftrightarrow> ok p \<and>
     (\<forall>path. path \<notin> range topic_levels \<longrightarrow> info path = (None, [], None)) \<and>
     (\<forall>n. topic_stored (who p) (view p n) (info (topic_levels n)))"

abbreviation tree_in_step :: "('p \<Rightarrow> bool) \<Rightarrow> ('p \<Rightarrow> stored_topics) \<Rightarrow> ('p \<Rightarrow> stored_sessions) \<Rightarrow> 'p subscriptions \<Rightarrow> bool" where
  "tree_in_step ok view who self \<equiv> tree_stored ok view who (info_of self) (sb_persist self)"

lemma topic_levels_eq [simp]: "topic_levels m = topic_levels n \<longleftrightarrow> m = n"
  by (auto simp: topic_levels_def dest: split_at_inj)

lemma topic_levels_image [simp]: "topic_levels n \<in> topic_levels ` A \<longleftrightarrow> n \<in> A"
  by (auto dest: sym)

lemma tree_stored_upd:
  assumes "tree_stored ok view who info p" and "ok p'" and "who p' = who p"
    and "view p' = (view p)(n := row)" and "topic_stored (who p) row i"
  shows "tree_stored ok view who (info(topic_levels n := i)) p'"
  using assms by (auto simp: tree_stored_def)

lemma tree_storedD:
  assumes "tree_stored ok view who info p"
  shows "ok p" and "path \<notin> range topic_levels \<Longrightarrow> info path = (None, [], None)"
    and "view p n = None \<Longrightarrow> info (topic_levels n) = (None, [], None)"
    and "view p n = Some v \<Longrightarrow> topic_stored (who p) (Some v) (info (topic_levels n))"
proof -
  show "ok p" "path \<notin> range topic_levels \<Longrightarrow> info path = (None, [], None)" using assms by (simp_all add: tree_stored_def)
  have "topic_stored (who p) (view p n) (info (topic_levels n))" using assms by (simp add: tree_stored_def)
  then show "view p n = None \<Longrightarrow> info (topic_levels n) = (None, [], None)"
    "view p n = Some v \<Longrightarrow> topic_stored (who p) (Some v) (info (topic_levels n))" by (simp_all add: topic_stored_def)
qed

lemma tree_stored_row:
  assumes "tree_stored ok view who info p" and "info (topic_levels n) = (Some i, cs, m)"
  obtains v where "view p n = Some v" and "tv_id v = i" and "subs_match (who p) (tv_subs v) (map_of cs)"
    and "map_option snd (tv_retained v) = map_option stored_publish m"
proof (cases "view p n")
  case None
  with tree_storedD(3) [OF assms(1)] assms(2) show ?thesis by fastforce
next
  case (Some v)
  with tree_storedD(4) [OF assms(1) Some] assms(2) show ?thesis by (intro that [of v]) (auto simp: topic_stored_def)
qed

lemma subs_match_empty [simp]: "subs_match who Map.empty Map.empty" "subs_match who subs Map.empty \<longleftrightarrow> subs = Map.empty"
  by (auto simp: subs_match_def)

lemma subs_match_upd:
  assumes "subs_match who subs tree" and "\<And>S S' n. named who S n \<Longrightarrow> named who S' n \<Longrightarrow> S = S'"
    and "named who (sid_internal_id s) n"
  shows "subs_match who (subs(sid_internal_id s \<mapsto> q)) (tree(n \<mapsto> \<lparr>te_session = s, te_qos = q\<rparr>))"
  using assms unfolding subs_match_def named_def by (auto split: if_splits) (metis option.inject)+

lemma subs_match_remove:
  assumes "subs_match who subs tree" and "\<And>S S' n. named who S n \<Longrightarrow> named who S' n \<Longrightarrow> S = S'"
    and "named who S n"
  shows "subs_match who (subs(S := None)) (tree(n := None))"
  using assms unfolding subs_match_def named_def by (auto split: if_splits) (metis option.inject)+

text \<open>Under the name of a known session the tree has exactly what the storage has under its id.\<close>

lemma subs_match_at:
  assumes "subs_match who subs tree" and "\<And>S S' n. named who S n \<Longrightarrow> named who S' n \<Longrightarrow> S = S'" and "named who S n"
  shows "subs S = map_option te_qos (tree n)"
proof (cases "tree n")
  case None
  have "subs S \<noteq> Some q" for q
  proof
    assume "subs S = Some q"
    then obtain n' e where e: "tree n' = Some e" "sid_internal_id (te_session e) = S"
      using assms(1) unfolding subs_match_def by blast
    then have "named who S n'" using assms(1) unfolding subs_match_def by blast
    then have "n' = n" using assms(3) by (auto simp: named_def)
    with e None show False by simp
  qed
  then show ?thesis using None by (cases "subs S") auto
next
  case (Some e)
  then have "named who (sid_internal_id (te_session e)) n" "subs (sid_internal_id (te_session e)) = Some (te_qos e)"
    using assms(1) unfolding subs_match_def by blast+
  with assms(2) [OF assms(3)] Some show ?thesis by simp
qed

section \<open>Each operation keeps tree and storage in step\<close>

lemma get_topic_result:
  assumes "get_topic tp n s = (Inr t, s')"
  shows "\<exists>i tm. t = topic_levels n \<and> topic_at t (sb_topics s') = Some tm \<and>
    info_of s' = (info_of s)(t := (Some i, snd (info_of s t))) \<and>
    (if fst (info_of s t) = None then tp_persist_topic tp n (sb_persist s) = (Inr i, sb_persist s')
     else fst (info_of s t) = Some i \<and> sb_persist s' = sb_persist s)"
proof (rule get_topic_Inr [OF assms])
  fix i tm
  assume "t = topic_levels n" "topic_at t (sb_topics s') = Some tm" "info_of s' = (info_of s)(t := (Some i, snd (info_of s t)))"
    and "fst (info_of s t) = None \<Longrightarrow> tp_persist_topic tp n (sb_persist s) = (Inr i, sb_persist s')"
    and "fst (info_of s t) \<noteq> None \<Longrightarrow> fst (info_of s t) = Some i \<and> sb_persist s' = sb_persist s"
  then show ?thesis by (intro exI [of _ i] exI [of _ tm]) (auto split del: if_split split: if_split)
qed

text \<open>A topic that has its id is found again, and nothing changes.\<close>

lemma get_topic_again:
  assumes "get_topic tp n s = (Inr t, s')" and "fst (info_of s (topic_levels n)) \<noteq> None"
  obtains tm where "t = topic_levels n" and "info_of s' = info_of s" and "sb_persist s' = sb_persist s"
    and "topic_at (topic_levels n) (sb_topics s') = Some tm"
proof -
  obtain i tm where g: "t = topic_levels n" "topic_at t (sb_topics s') = Some tm"
    "info_of s' = (info_of s)(t := (Some i, snd (info_of s t)))"
    "if fst (info_of s t) = None then tp_persist_topic tp n (sb_persist s) = (Inr i, sb_persist s')
     else fst (info_of s t) = Some i \<and> sb_persist s' = sb_persist s"
    using get_topic_result [OF assms(1)] by blast
  with assms(2) have "fst (info_of s t) = Some i \<and> sb_persist s' = sb_persist s" by presburger
  then have "(Some i, snd (info_of s t)) = info_of s t" "sb_persist s' = sb_persist s" by (simp_all add: prod_eq_iff)
  with g(1-3) show ?thesis by (intro that [of tm]) (simp_all only: fun_upd_triv)
qed

lemma info_of_modified:
  assumes "\<And>t. t_topics (f t) = t_topics t" and "topic_at p (sb_topics s) = Some t"
  shows "info_of (s\<lparr>sb_topics := topic_update p f (sb_topics s)\<rparr>) =
    (info_of s)(p := (t_internal_id (f t), t_clients (f t), t_message (f t)))"
  using info_of_update [OF assms] by simp

context topic_storage
begin

abbreviation "stored \<equiv> tree_stored ok view who"
abbreviation "in_step s \<equiv> stored (info_of s) (sb_persist s)"

lemma names_once: "ok p \<Longrightarrow> (\<And>S S' n. named (who p) S n \<Longrightarrow> named (who p) S' n \<Longrightarrow> S = S')"
  by (rule who_names)

lemma step_get_topic:
  assumes "in_step s" and "get_topic tp n s = (Inr t, s')"
  obtains i tm where "t = topic_levels n" and "in_step s'" and "who (sb_persist s') = who (sb_persist s)"
    and "topic_at (topic_levels n) (sb_topics s') = Some tm" and "t_internal_id tm = Some i"
    and "info_of s' (topic_levels n) = (Some i, t_clients tm, t_message tm)"
proof -
  obtain i tm where g: "t = topic_levels n" "topic_at t (sb_topics s') = Some tm"
    "info_of s' = (info_of s)(t := (Some i, snd (info_of s t)))"
    "if fst (info_of s t) = None then tp_persist_topic tp n (sb_persist s) = (Inr i, sb_persist s')
     else fst (info_of s t) = Some i \<and> sb_persist s' = sb_persist s"
    using get_topic_result [OF assms(2)] by blast
  from topic_info_at [OF g(2)] have tm: "info_of s' t = (t_internal_id tm, t_clients tm, t_message tm)" .
  have "in_step s' \<and> who (sb_persist s') = who (sb_persist s)"
  proof (cases "fst (info_of s t)")
    case None
    have row: "view (sb_persist s) n = None"
    proof (rule ccontr)
      assume "view (sb_persist s) n \<noteq> None"
      then obtain v where "view (sb_persist s) n = Some v" by blast
      from tree_storedD(4) [OF assms(1) this] None g(1) show False by (simp add: topic_stored_def)
    qed
    from add_topic [OF tree_storedD(1) [OF assms(1)] row] tree_stored_upd [OF assms(1), of _ n]
    show ?thesis using tree_storedD(3) [OF assms(1) row] g None by (simp add: topic_stored_def)
  next
    case (Some j)
    with g(4) have "(Some i, snd (info_of s t)) = info_of s t" "sb_persist s' = sb_persist s" by (simp_all add: prod_eq_iff)
    with g(3) assms(1) show ?thesis by (simp only: fun_upd_triv)
  qed
  with g tm show ?thesis by (intro that [of tm i]) (auto simp: prod_eq_iff)
qed

text \<open>A row nothing is left of goes, and the topic loses its id.\<close>

lemma step_delete_row:
  assumes "in_step s" and "info_of s (topic_levels n) = (Some i, [], None)"
    and "delete_topic_row tp n i s = (Inr (), s')"
  shows "in_step s'"
proof -
  obtain a s1 t s2 where p: "with_persist (tp_persist_delete_topic tp i) s = (Inr a, s1)" and g: "get_topic tp n s1 = (Inr t, s2)"
    and s': "s' = s2\<lparr>sb_topics := topic_update t (topic_set_internal_id None) (sb_topics s2)\<rparr>"
    using assms(3) by (auto simp: delete_topic_row_def act_bind_Inr)
  obtain v where v: "view (sb_persist s) n = Some v" "tv_id v = i" "tv_subs v = Map.empty" "tv_retained v = None"
    by (rule tree_stored_row [OF assms(1,2)]) auto
  obtain q where q: "tp_persist_delete_topic tp i (sb_persist s) = (Inr a, q)" "s1 = s\<lparr>sb_persist := q\<rparr>"
    using p by (auto simp: with_persist_Inr)
  have "ok q \<and> who q = who (sb_persist s) \<and> view q = (view (sb_persist s))(n := None)"
    by (rule delete_topic [OF tree_storedD(1) [OF assms(1)] v(1,3,4)]) (simp add: v(2) q(1))
  moreover obtain tm where tm: "t = topic_levels n" "info_of s2 = info_of s1" "sb_persist s2 = sb_persist s1"
    "topic_at (topic_levels n) (sb_topics s2) = Some tm"
    by (rule get_topic_again [OF g]) (simp_all add: q(2) assms(2))
  from topic_info_at [OF tm(4)] have "t_clients tm = []" "t_message tm = None"
    using assms(2) tm(2) q(2) by simp_all
  then have "info_of s' = (info_of s)(topic_levels n := (None, [], None))" "sb_persist s' = q"
    using info_of_modified [of "topic_set_internal_id None", OF _ tm(4)] tm q(2) by (simp_all add: s')
  ultimately show ?thesis using tree_stored_upd [OF assms(1), of q n None] by (simp add: topic_stored_def)
qed

text \<open>The row has the new subscription and the tree takes it over.\<close>

lemma step_take_subscription:
  fixes session :: session_id and qos :: u8
  defines "f \<equiv> \<lambda>t. snd (topic_set_subscribed session qos t)"
  assumes "in_step s" and "info_of s (topic_levels n) = (Some (tv_id v), cs, m)"
    and "named (who (sb_persist s)) (sid_internal_id session) (sid_session session)"
    and row: "subs_match (who (sb_persist s)) (tv_subs v) (map_of cs)" "map_option snd (tv_retained v) = map_option stored_publish m"
    and q: "ok q \<and> who q = who (sb_persist s) \<and> view q = (view (sb_persist s))(n \<mapsto> v\<lparr>tv_subs := (tv_subs v)(sid_internal_id session \<mapsto> qos)\<rparr>)"
    and g: "get_topic tp n (s\<lparr>sb_persist := q\<rparr>) = (Inr t, s2)"
    and s': "info_of s' = info_of (s2\<lparr>sb_topics := topic_update t f (sb_topics s2)\<rparr>)" "sb_persist s' = sb_persist s2"
  shows "in_step s'"
proof -
  let ?p = "topic_levels n"
  obtain tm where 2: "t = ?p" "info_of s2 = info_of s" "sb_persist s2 = q" "topic_at ?p (sb_topics s2) = Some tm"
    by (rule get_topic_again [OF g]) (simp_all add: assms(3))
  from topic_info_at [OF 2(4)] have tm: "t_internal_id tm = Some (tv_id v)" "t_clients tm = cs" "t_message tm = m"
    using assms(3) 2(2) by simp_all
  define new where "new = (Some (tv_id v), hm_insert (sid_session session) \<lparr>te_session = session, te_qos = qos\<rparr> cs, m)"
  have "subs_match (who (sb_persist s)) ((tv_subs v)(sid_internal_id session \<mapsto> qos))
      ((map_of cs)(sid_session session \<mapsto> \<lparr>te_session = session, te_qos = qos\<rparr>))"
    by (rule subs_match_upd [OF row(1) names_once [OF tree_storedD(1) [OF assms(2)]] assms(4)])
  then have "topic_stored (who (sb_persist s)) (Some (v\<lparr>tv_subs := (tv_subs v)(sid_internal_id session \<mapsto> qos)\<rparr>)) new"
    using row(2) by (simp add: topic_stored_def new_def)
  from tree_stored_upd [OF assms(2) conjunct1 [OF q] conjunct1 [OF conjunct2 [OF q]] conjunct2 [OF conjunct2 [OF q]] this]
  show ?thesis using info_of_modified [of f, OF _ 2(4)] 2 tm by (simp add: s' new_def f_def)
qed

lemma step_subscribe:
  assumes "in_step s" and "named (who (sb_persist s)) (sid_internal_id session) (sid_session session)"
    and "subscribe tp session n qos s = (Inr ret, s')"
  shows "in_step s'"
proof -
  let ?p = "topic_levels n" and ?S = "sid_internal_id session" and ?f = "\<lambda>t. snd (topic_set_subscribed session qos t)"
  obtain t s1 where g1: "get_topic tp n s = (Inr t, s1)"
    using assms(3) by (auto simp: subscribe_def act_bind_Inr)
  obtain i tm where 1: "t = ?p" "in_step s1" "who (sb_persist s1) = who (sb_persist s)"
    "topic_at ?p (sb_topics s1) = Some tm" "t_internal_id tm = Some i" "info_of s1 ?p = (Some i, t_clients tm, t_message tm)"
    by (rule step_get_topic [OF assms(1) g1])
  obtain v where v: "view (sb_persist s1) n = Some v" "tv_id v = i" "subs_match (who (sb_persist s1)) (tv_subs v) (map_of (t_clients tm))"
    "map_option snd (tv_retained v) = map_option stored_publish (t_message tm)"
    by (rule tree_stored_row [OF 1(2,6)])
  note ok1 = tree_storedD(1) [OF 1(2)] and known = assms(2) [folded 1(3)]
  note finish = step_take_subscription [OF 1(2,6) [folded v(2)] known v(3,4)]
  have sub: "tv_subs v ?S = topic_get_subscribed session tm"
    unfolding topic_get_subscribed_def by (rule subs_match_at [OF v(3) names_once [OF ok1] known])
  show ?thesis
  proof (cases "topic_get_subscribed session tm")
    case None
    then obtain b q t2 s3 where q: "tp_persist_subscribe tp ?S (tv_id v) qos (sb_persist s1) = (Inr b, q)"
      and g2: "get_topic tp n (s1\<lparr>sb_persist := q\<rparr>) = (Inr t2, s3)"
      and s': "info_of s' = info_of (s3\<lparr>sb_topics := topic_update t2 ?f (sb_topics s3)\<rparr>)" "sb_persist s' = sb_persist s3"
      using assms(3) g1 1(1,4,5) v(2)
      by (auto simp: subscribe_def act_bind_Inr topic_get_Inr with_persist_Inr split: if_splits)
    have "who (sb_persist s1) ?S \<noteq> None" "tv_subs v ?S = None" using known None sub by (auto simp: named_def)
    from finish [OF add_subscription [OF ok1 v(1) this q] g2 s'] show ?thesis .
  next
    case (Some old)
    show ?thesis
    proof (cases "old = qos")
      case True
      then have "s' = s1" using assms(3) g1 1(1,4,5) Some by (auto simp: subscribe_def act_bind_Inr topic_get_Inr)
      with 1(2) show ?thesis by simp
    next
      case False
      obtain r q where q: "tp_persist_update_subscribe tp ?S (tv_id v) qos (sb_persist s1) = (r, q)" by fastforce
      have "tv_subs v ?S \<noteq> None" using Some sub by simp
      note U = update_subscription [OF ok1 v(1) this q]
      note step = assms(3) g1 1(1,4,5) Some False q [unfolded v(2)]
      show ?thesis
      proof (cases r)
        case (Inl e)
        then have "s' = s1\<lparr>sb_persist := q\<rparr>" using step
          by (auto simp: subscribe_def act_bind_Inr topic_get_Inr with_persist_Inr with_persist_Inl)
        with U Inl 1(2) show ?thesis by (simp add: tree_stored_def)
      next
        case (Inr b)
        then obtain t2 s3 where g2: "get_topic tp n (s1\<lparr>sb_persist := q\<rparr>) = (Inr t2, s3)"
          and s': "s' = s3\<lparr>sb_topics := topic_update t2 ?f (sb_topics s3)\<rparr>" using step
          by (auto simp: subscribe_def act_bind_Inr topic_get_Inr with_persist_Inr with_persist_Inl)
        show ?thesis by (rule finish [OF _ g2]) (use U Inr s' in simp_all)
      qed
    qed
  qed
qed

text \<open>The same for the retained message.\<close>

lemma step_take_retained:
  assumes "in_step s" and "info_of s (topic_levels n) = (Some (tv_id v), cs, m0)"
    and row: "subs_match (who (sb_persist s)) (tv_subs v) (map_of cs)"
    and q: "ok q \<and> who q = who (sb_persist s) \<and> view q = (view (sb_persist s))(n \<mapsto> v\<lparr>tv_retained := x\<rparr>)"
    and x: "map_option snd x = map_option stored_publish m"
    and g: "get_topic tp n (s\<lparr>sb_persist := q\<rparr>) = (Inr t, s2)"
    and s': "s' = s2\<lparr>sb_topics := topic_update t (topic_set_message m) (sb_topics s2)\<rparr>"
  shows "in_step s' \<and> info_of s' (topic_levels n) = (Some (tv_id v), cs, m) \<and> t = topic_levels n"
proof -
  let ?p = "topic_levels n"
  obtain tm where 2: "t = ?p" "info_of s2 = info_of s" "sb_persist s2 = q" "topic_at ?p (sb_topics s2) = Some tm"
    by (rule get_topic_again [OF g]) (simp_all add: assms(2))
  from topic_info_at [OF 2(4)] have tm: "t_internal_id tm = Some (tv_id v)" "t_clients tm = cs"
    using assms(2) 2(2) by simp_all
  have "topic_stored (who (sb_persist s)) (Some (v\<lparr>tv_retained := x\<rparr>)) (Some (tv_id v), cs, m)"
    using row x by (simp add: topic_stored_def)
  from tree_stored_upd [OF assms(1) conjunct1 [OF q] conjunct1 [OF conjunct2 [OF q]] conjunct2 [OF conjunct2 [OF q]] this]
  show ?thesis using info_of_modified [of "topic_set_message m", OF _ 2(4)] 2 tm by (simp add: s')
qed

text \<open>How \<open>retain\<close> ends: a topic nothing is left of goes, and the gauge follows.\<close>

lemma step_retain_end:
  assumes "in_step s" and "info_of s (topic_levels n) = (Some i, cs, m)"
    and "act_bind (topic_get (topic_levels n) (\<lambda>t. t_message t = None \<and> topic_get_num_subscribed t = 0)) (\<lambda>to_delete.
      act_bind (if to_delete then delete_topic_row tp n i else act_return ()) (\<lambda>_.
      if b then act_modify (\<lambda>self. self\<lparr>sb_guage_retained_messages := sb_guage_retained_messages self - 1\<rparr>)
      else act_return ())) s = (Inr (), s')"
  shows "in_step s'"
proof -
  obtain tm x s6 where tm: "topic_at (topic_levels n) (sb_topics s) = Some tm"
    and d: "(if t_message tm = None \<and> topic_get_num_subscribed tm = 0 then delete_topic_row tp n i else act_return ()) s = (Inr x, s6)"
    and g: "(if b then act_modify (\<lambda>self. self\<lparr>sb_guage_retained_messages := sb_guage_retained_messages self - 1\<rparr>)
      else act_return () :: ('p, unit) sub_act) s6 = (Inr (), s')"
    using assms(3) by (auto simp only: act_bind_Inr topic_get_Inr option.inject)
  from g have s': "info_of s' = info_of s6" "sb_persist s' = sb_persist s6" by (auto split: if_splits)
  from topic_info_at [OF tm] assms(2) have "t_clients tm = cs" "t_message tm = m" by simp_all
  with d step_delete_row [OF assms(1), of n i s6] assms(1,2) show ?thesis
    by (auto simp: s' topic_get_num_subscribed_def split: if_splits)
qed

lemma step_retain:
  assumes "in_step s" and "retain tp msg s = (Inr (), s')"
  shows "in_step s'"
proof -
  let ?n = "pub_topic msg" and ?m = "if pub_message msg = [] then None else Some msg"
  let ?p = "topic_levels ?n"
  obtain t s1 where g1: "get_topic tp ?n s = (Inr t, s1)"
    using assms(2) by (auto simp: retain_def Let_def act_bind_Inr)
  obtain i tm where 1: "t = ?p" "in_step s1" "who (sb_persist s1) = who (sb_persist s)"
    "topic_at ?p (sb_topics s1) = Some tm" "t_internal_id tm = Some i" "info_of s1 ?p = (Some i, t_clients tm, t_message tm)"
    by (rule step_get_topic [OF assms(1) g1])
  obtain v where v: "view (sb_persist s1) ?n = Some v" "tv_id v = i" "subs_match (who (sb_persist s1)) (tv_subs v) (map_of (t_clients tm))"
    by (rule tree_stored_row [OF 1(2,6)])
  obtain u s2 v3 s3 t2 s4 where p2: "with_persist (tp_persist_delete_retain tp i) s1 = (Inr u, s2)"
    and p3: "(if pub_message msg \<noteq> [] then
           act_bind (with_persist (tp_persist_retain tp i msg)) (\<lambda>_. act_return ())
         else act_return ()) s2 = (Inr v3, s3)"
    and g2: "get_topic tp ?n s3 = (Inr t2, s4)"
    and rest: "(if pub_message msg = [] then
        act_bind (topic_modify t2 (topic_set_message None)) (\<lambda>_.
        act_bind (topic_get t2 (\<lambda>t. t_message t = None \<and> topic_get_num_subscribed t = 0)) (\<lambda>to_delete.
        act_bind (if to_delete then delete_topic_row tp ?n i else act_return ()) (\<lambda>_.
        if t_message tm \<noteq> None then
          act_modify (\<lambda>self. self\<lparr>sb_guage_retained_messages := sb_guage_retained_messages self - 1\<rparr>)
        else act_return ())))
      else
        act_bind (topic_modify t2 (topic_set_message (Some msg))) (\<lambda>_.
        if \<not> t_message tm \<noteq> None then
          act_modify (\<lambda>self. self\<lparr>sb_guage_retained_messages := sb_guage_retained_messages self + 1\<rparr>)
        else act_return ())) s4 = (Inr (), s')"
    using assms(2) g1 1(1,4,5) unfolding retain_def Let_def by (auto simp only: act_bind_Inr topic_get_Inr act_unwrap_Inr)
  obtain q2 where q2: "tp_persist_delete_retain tp (tv_id v) (sb_persist s1) = (Inr u, q2)" "s2 = s1\<lparr>sb_persist := q2\<rparr>"
    using p2 v(2) by (auto simp: with_persist_Inr)
  note D = remove_retained [OF tree_storedD(1) [OF 1(2)] v(1) q2(1)]
  obtain q x where q: "s3 = s1\<lparr>sb_persist := q\<rparr>" "map_option snd x = map_option stored_publish ?m"
    "ok q \<and> who q = who (sb_persist s1) \<and> view q = (view (sb_persist s1))(?n \<mapsto> v\<lparr>tv_retained := x\<rparr>)"
  proof (cases "pub_message msg = []")
    case True
    with p3 q2 D show ?thesis by (intro that [of q2 None]) simp_all
  next
    case False
    then obtain a q where a: "tp_persist_retain tp i msg q2 = (Inr a, q)" "s3 = s1\<lparr>sb_persist := q\<rparr>"
      using p3 q2 by (auto simp: act_bind_Inr with_persist_Inr)
    from D add_retained [of q2 ?n "v\<lparr>tv_retained := None\<rparr>" msg a q] a(1) v(2) obtain mid
      where "ok q \<and> who q = who (sb_persist s1) \<and> view q = (view (sb_persist s1))(?n \<mapsto> v\<lparr>tv_retained := Some (mid, stored_publish msg)\<rparr>)" by auto
    with a False show ?thesis by (intro that [of q "Some (mid, stored_publish msg)"]) simp_all
  qed
  define s5 where "s5 = s4\<lparr>sb_topics := topic_update t2 (topic_set_message ?m) (sb_topics s4)\<rparr>"
  from step_take_retained [OF 1(2,6) [folded v(2)] v(3) q(3,2) g2 [unfolded q(1)] s5_def]
  have s5: "in_step s5" "info_of s5 ?p = (Some i, t_clients tm, ?m)" "t2 = ?p" using v(2) by simp_all
  show ?thesis
  proof (cases "pub_message msg = []")
    case True
    with rest s5(3) show ?thesis
      by (intro step_retain_end [OF s5(1,2), of "t_message tm \<noteq> None"]) (simp add: act_bind_app s5_def)
  next
    case False
    with rest s5(1) show ?thesis by (auto simp: act_bind_app s5_def split: if_splits)
  qed
qed

lemma step_unsubscribe:
  assumes "in_step s" and "named (who (sb_persist s)) (sid_internal_id session) (sid_session session)"
    and "unsubscribe tp session n s = (Inr (), s')"
  shows "in_step s'"
proof -
  let ?p = "topic_levels n" and ?S = "sid_internal_id session" and ?f = "\<lambda>t. snd (topic_set_unsubscribed (sid_session session) t)"
  show ?thesis
  proof (cases "\<exists>tm. topic_at ?p (sb_topics s) = Some tm \<and> map_of (t_clients tm) (sid_session session) \<noteq> None")
    case False
    show ?thesis
    proof (cases "topic_at ?p (sb_topics s)")
      case None
      with assms(1,3) show ?thesis by (simp add: unsubscribe_def Let_def)
    next
      case (Some tm)
      with False obtain entry where "topic_set_unsubscribed (sid_session session) tm = (False, entry)"
        using topic_set_sel(22) [of "sid_session session" tm] by (cases "topic_set_unsubscribed (sid_session session) tm") simp
      with Some assms(1,3) show ?thesis by (simp add: unsubscribe_def Let_def act_bind_app del: topic_set_unsubscribed.simps)
    qed
  next
    case True
    then obtain tm where tm: "topic_at ?p (sb_topics s) = Some tm" "map_of (t_clients tm) (sid_session session) \<noteq> None" by blast
    let ?cs = "hm_remove (sid_session session) (t_clients tm)"
    define entry where "entry = ?f tm"
    have e: "topic_set_unsubscribed (sid_session session) tm = (True, entry)" using tm(2) by (simp add: prod_eq_iff entry_def)
    have entry: "t_internal_id entry = t_internal_id tm" "t_message entry = t_message tm" "t_clients entry = ?cs" by (simp_all add: entry_def)
    define s1 where "s1 = s\<lparr>sb_topics := topic_update ?p ?f (sb_topics s)\<rparr>"
    obtain i b q where i: "t_internal_id tm = Some i" and q: "tp_persist_unsubscribe tp ?S i (sb_persist s) = (Inr b, q)"
      and d: "(if t_message tm = None \<and> ?cs = [] then delete_topic_row tp n i else act_return ())
        (s1\<lparr>sb_guage_subscriptions := sb_guage_subscriptions s1 - 1, sb_persist := q\<rparr>) = (Inr (), s')"
      using assms(3) tm(1)
      by (auto simp: unsubscribe_def Let_def act_bind_Inr e entry with_persist_Inr act_unwrap_Inr topic_get_num_subscribed_def s1_def
          simp del: topic_set_unsubscribed.simps split del: if_split)
    define s2 where "s2 = s1\<lparr>sb_guage_subscriptions := sb_guage_subscriptions s1 - 1, sb_persist := q\<rparr>"
    have info: "info_of s ?p = (Some i, t_clients tm, t_message tm)" using topic_info_at [OF tm(1)] i by simp
    obtain v where v: "view (sb_persist s) n = Some v" "tv_id v = i" "subs_match (who (sb_persist s)) (tv_subs v) (map_of (t_clients tm))"
      "map_option snd (tv_retained v) = map_option stored_publish (t_message tm)"
      by (rule tree_stored_row [OF assms(1) info])
    note ok = tree_storedD(1) [OF assms(1)]
    have "tv_subs v ?S \<noteq> None" using subs_match_at [OF v(3) names_once [OF ok] assms(2)] tm(2) by simp
    note R = remove_subscription [OF ok v(1) this q [folded v(2)]]
    have "subs_match (who (sb_persist s)) ((tv_subs v)(?S := None)) ((map_of (t_clients tm))(sid_session session := None))"
      by (rule subs_match_remove [OF v(3) names_once [OF ok] assms(2)])
    then have "topic_stored (who (sb_persist s)) (Some (v\<lparr>tv_subs := (tv_subs v)(?S := None)\<rparr>)) (Some i, ?cs, t_message tm)"
      using v(2,4) by (simp add: topic_stored_def)
    from tree_stored_upd [OF assms(1) conjunct1 [OF R] conjunct1 [OF conjunct2 [OF R]] conjunct2 [OF conjunct2 [OF R]] this]
    have "in_step s2" and info2: "info_of s2 ?p = (Some i, ?cs, t_message tm)"
      using info_of_modified [of ?f, OF _ tm(1)] i by (simp_all add: s2_def s1_def)
    with d [folded s2_def] step_delete_row [of s2 n i s'] show ?thesis by (auto split: if_splits)
  qed
qed

end

end
