(* ===== verification/Topic_Reload.thy ===== *)
theory Topic_Reload
  imports Topic_Storage
begin

text \<open>
  Loading the topic tree: over any storage that keeps the promises of \<open>topic_storage\<close>, the tree
  that is loaded is the one that was there, whatever was done to it before.
\<close>

section \<open>Loading\<close>

definition entries_of :: "(session_id \<times> u8) list \<Rightarrow> (rstring \<times> topic_entry) list" where
  "entries_of ls = map (\<lambda>(s, q). (sid_session s, \<lparr>te_session = s, te_qos = q\<rparr>)) ls"

lemma update_fresh: "k \<notin> fst ` set cs \<Longrightarrow> AList.update k v cs = cs @ [(k, v)]"
  by (induction cs) auto

lemma entries_keys: "map fst (entries_of ls) = map (\<lambda>x. sid_session (fst x)) ls"
  by (simp add: entries_of_def case_prod_beta)

lemma load_clients_entries:
  assumes "distinct (map (\<lambda>x. sid_session (fst x)) ls)"
  shows "load_clients ls = entries_of ls"
proof -
  have "fold (\<lambda>(s, q). hm_insert (sid_session s) \<lparr>te_session = s, te_qos = q\<rparr>) ls cs = cs @ entries_of ls"
    if "fst ` set cs \<inter> (\<lambda>x. sid_session (fst x)) ` set ls = {}" for cs
    using assms that
  proof (induction ls arbitrary: cs)
    case (Cons x ls)
    obtain s q where x: "x = (s, q)" by (cases x)
    have "hm_insert (sid_session s) \<lparr>te_session = s, te_qos = q\<rparr> cs = cs @ [(sid_session s, \<lparr>te_session = s, te_qos = q\<rparr>)]"
      unfolding hm_insert_def using Cons.prems(2) by (intro update_fresh) (auto simp: x)
    moreover have "fst ` set (cs @ [(sid_session s, \<lparr>te_session = s, te_qos = q\<rparr>)]) \<inter> (\<lambda>x. sid_session (fst x)) ` set ls = {}"
      using Cons.prems by (auto simp: x)
    ultimately show ?case using Cons.IH Cons.prems(1) by (simp add: x entries_of_def)
  qed (simp add: entries_of_def)
  from this [of "[]"] show ?thesis by (simp add: load_clients_def)
qed

lemma lists_subscriptions_names:
  assumes "lists_subscriptions who subs ls" and "\<And>S S' n. named who S n \<Longrightarrow> named who S' n \<Longrightarrow> S = S'"
  shows "distinct (map (\<lambda>x. sid_session (fst x)) ls)"
proof -
  have "fst x = fst y" if "x \<in> set ls" "y \<in> set ls" "sid_session (fst x) = sid_session (fst y)" for x y
  proof -
    have "(fst x, snd x) \<in> set ls \<Longrightarrow> who (sid_internal_id (fst x)) = Some (fst x)" for x
      using assms(1) unfolding lists_subscriptions_def by blast
    then have w: "who (sid_internal_id (fst x)) = Some (fst x)" "who (sid_internal_id (fst y)) = Some (fst y)"
      using that(1,2) by simp_all
    have "sid_internal_id (fst x) = sid_internal_id (fst y)"
    proof (rule assms(2))
      show "named who (sid_internal_id (fst x)) (sid_session (fst x))" by (simp add: named_def w(1))
      show "named who (sid_internal_id (fst y)) (sid_session (fst x))" by (simp add: named_def w(2) that(3))
    qed
    with w have "Some (fst x) = Some (fst y)" by metis
    then show ?thesis by simp
  qed
  then have "inj_on sid_session (fst ` set ls)" by (auto intro: inj_onI)
  moreover have "distinct (map fst ls)" using assms(1) by (simp add: lists_subscriptions_def)
  ultimately have "distinct (map sid_session (map fst ls))" by (simp only: distinct_map [of sid_session] set_map)
  then show ?thesis by (simp add: o_def)
qed

lemma entries_match:
  assumes "lists_subscriptions who subs ls" and "\<And>S S' n. named who S n \<Longrightarrow> named who S' n \<Longrightarrow> S = S'"
    and "\<And>S q. subs S = Some q \<Longrightarrow> who S \<noteq> None" and "\<And>S s. who S = Some s \<Longrightarrow> sid_internal_id s = S"
  shows "subs_match who subs (map_of (entries_of ls))"
proof -
  have d: "distinct (map fst (entries_of ls))" using lists_subscriptions_names [OF assms(1,2)] by (simp add: entries_keys)
  have m: "map_of (entries_of ls) n = Some e \<longleftrightarrow> (\<exists>s q. (s, q) \<in> set ls \<and> n = sid_session s \<and> e = \<lparr>te_session = s, te_qos = q\<rparr>)" for n e
    unfolding map_of_eq_Some_iff [OF d] by (auto simp: entries_of_def)
  show ?thesis
    unfolding subs_match_def
  proof (intro conjI allI impI)
    fix n e assume "map_of (entries_of ls) n = Some e"
    then obtain s q where "(s, q) \<in> set ls" "n = sid_session s" "e = \<lparr>te_session = s, te_qos = q\<rparr>" by (auto simp: m)
    with assms(1) show "named who (sid_internal_id (te_session e)) n" "subs (sid_internal_id (te_session e)) = Some (te_qos e)"
      by (simp_all add: lists_subscriptions_def named_def)
  next
    fix S q assume S: "subs S = Some q"
    with assms(3) obtain s where s: "who S = Some s" by blast
    with assms(4) have "sid_internal_id s = S" by blast
    with s S assms(1) have "(s, q) \<in> set ls" by (simp add: lists_subscriptions_def)
    with \<open>sid_internal_id s = S\<close> show "\<exists>n e. map_of (entries_of ls) n = Some e \<and> sid_internal_id (te_session e) = S"
      by (intro exI [of _ "sid_session s"] exI [of _ "\<lparr>te_session = s, te_qos = q\<rparr>"]) (auto simp: m)
  qed
qed

text \<open>What a topic of the tree shows when it has just been loaded.\<close>

definition topic_loaded :: "stored_sessions \<Rightarrow> topic_view \<Rightarrow> topic_info \<Rightarrow> bool" where
  "topic_loaded who v info \<longleftrightarrow>
     (\<exists>ls. info = (Some (tv_id v), entries_of ls, map_option snd (tv_retained v)) \<and> lists_subscriptions who (tv_subs v) ls)"

text \<open>A new topic adds its subscriptions and its message to what the tree has.\<close>

lemma sets_new_topic:
  assumes "info_of self' = (info_of self)(p := (i, cs, m))" and "info_of self p = (None, [], None)" and "distinct (map fst cs)"
  shows "card (subs_set self') = card (subs_set self) + length cs"
    and "card (retained_set self') = card (retained_set self) + (if m = None then 0 else 1)"
proof -
  have none: "subs_of self p n = None" "retained_of self p = None" for n by (simp_all add: subs_of_def retained_of_def assms(2))
  have dom: "map_of cs n \<noteq> None \<longleftrightarrow> n \<in> fst ` set cs" for n by (simp add: map_of_eq_None_iff)
  have "(q, n) \<in> subs_set self' \<longleftrightarrow> (q, n) \<in> subs_set self \<or> q = p \<and> n \<in> fst ` set cs" for q n
    using none(1) [of n] unfolding dom [symmetric] by (simp add: subs_set_def subs_of_def assms(1))
  then have "subs_set self' = subs_set self \<union> Pair p ` fst ` set cs" by (auto simp del: fst_conv)
  moreover have "subs_set self \<inter> Pair p ` fst ` set cs = {}" using none(1) by (auto simp: subs_set_def)
  moreover have "card (Pair p ` fst ` set cs) = length cs"
    using distinct_card [OF assms(3)] by (simp add: card_image inj_on_def)
  ultimately show "card (subs_set self') = card (subs_set self) + length cs" by (simp add: card_Un_disjoint)
  have "retained_set self' = (if m = None then retained_set self else insert p (retained_set self))"
    using none(2) by (auto simp: retained_set_def retained_of_def assms(1) split: if_splits)
  moreover have "p \<notin> retained_set self" using none(2) by (simp add: retained_set_def)
  ultimately show "card (retained_set self') = card (retained_set self) + (if m = None then 0 else 1)" by simp
qed

context topic_storage
begin

lemma load_row:
  assumes "ok (sb_persist self)" and "view (sb_persist self) (pt_topic_name t) = Some v" and "pt_topic_id t = tv_id v"
    and "pt_retained_message_id t = map_option fst (tv_retained v)"
    and "info_of self (topic_levels (pt_topic_name t)) = (None, [], None)"
  obtains self' i where
    "load_topics_loop tp (t # ts) (int (card (retained_set self))) (int (card (subs_set self))) self =
       load_topics_loop tp ts (int (card (retained_set self'))) (int (card (subs_set self'))) self'"
    and "ok (sb_persist self')" and "view (sb_persist self') = view (sb_persist self)" and "who (sb_persist self') = who (sb_persist self)"
    and "info_of self' = (info_of self)(topic_levels (pt_topic_name t) := i)" and "topic_loaded (who (sb_persist self)) v i"
proof -
  let ?p = "sb_persist self" and ?m = "map_option snd (tv_retained v)"
  obtain p1 where m: "(case pt_retained_message_id t of
           Some message_id \<Rightarrow>
             act_bind (with_persist (tp_load_persistent_message tp message_id)) (\<lambda>message.
             act_return (topic_set_message (Some message) (topic_new (Some (tv_id v))), int (card (retained_set self)) + 1))
         | None \<Rightarrow> act_return (topic_new (Some (tv_id v)), int (card (retained_set self)))) self =
      (Inr (Topic [] (Some (tv_id v)) [] ?m, int (card (retained_set self) + (if ?m = None then 0 else 1))), self\<lparr>sb_persist := p1\<rparr>)"
    and p1: "ok p1" "view p1 = view ?p" "who p1 = who ?p"
  proof (cases "tv_retained v")
    case None
    with assms(1,4) show ?thesis by (intro that [of ?p]) (simp_all add: topic_new_def)
  next
    case (Some x)
    obtain mid msg where x: "x = (mid, msg)" by (cases x)
    from load_message [OF assms(1,2), of mid msg] Some x obtain p1
      where "tp_load_persistent_message tp mid ?p = (Inr msg, p1)" "ok p1" "view p1 = view ?p" "who p1 = who ?p" by blast
    with Some x assms(4) show ?thesis
      by (intro that [of p1]) (simp_all add: topic_new_def act_bind_app with_persist_def)
  qed
  from load_subscriptions [OF p1(1), of "pt_topic_name t" v] assms(2) p1 obtain ls p2
    where ls: "tp_load_persistent_subscriptions tp (tv_id v) p1 = (Inr ls, p2)" "ok p2" "view p2 = view ?p" "who p2 = who ?p"
      "lists_subscriptions (who ?p) (tv_subs v) ls" by auto
  note names = lists_subscriptions_names [OF ls(5) names_once [OF assms(1)]]
  define item where "item = Topic [] (Some (tv_id v)) (entries_of ls) ?m"
  define self' where "self' = insert_topic (pt_topic_name t) item (self\<lparr>sb_persist := p2\<rparr>)"
  have info: "info_of self' = (info_of self)(topic_levels (pt_topic_name t) := (Some (tv_id v), entries_of ls, ?m))"
    using insert_walk_info [of "topic_levels (pt_topic_name t)" item _ "sb_topics self"]
    by (auto simp: self'_def insert_topic_def info_of_def item_def fun_eq_iff)
  have "length (entries_of ls) = length ls" by (simp add: entries_of_def)
  with sets_new_topic [OF info assms(5)] names
  have cards: "card (subs_set self') = card (subs_set self) + length ls"
    "card (retained_set self') = card (retained_set self) + (if ?m = None then 0 else 1)" by (simp_all add: entries_keys)
  show thesis
  proof (rule that [OF _ _ _ _ info])
    show "load_topics_loop tp (t # ts) (int (card (retained_set self))) (int (card (subs_set self))) self =
       load_topics_loop tp ts (int (card (retained_set self'))) (int (card (subs_set self'))) self'"
      unfolding cards using m ls(1)
      by (simp add: assms(3) act_bind_app Let_def with_persist_def load_fold flip: load_clients_def)
        (simp add: load_clients_entries [OF names] self'_def item_def)
    show "topic_loaded (who (sb_persist self)) v (Some (tv_id v), entries_of ls, ?m)"
      using ls(5) by (auto simp: topic_loaded_def)
  qed (simp_all add: self'_def insert_topic_def ls)
qed

lemma load_all:
  assumes "ok (sb_persist self)" and "view (sb_persist self) = rows" and "who (sb_persist self) = sessions"
    and "distinct (map pt_topic_name ts)"
    and "\<And>t. t \<in> set ts \<Longrightarrow> \<exists>v. rows (pt_topic_name t) = Some v \<and> pt_topic_id t = tv_id v \<and>
        pt_retained_message_id t = map_option fst (tv_retained v)"
    and "\<And>t. t \<in> set ts \<Longrightarrow> info_of self (topic_levels (pt_topic_name t)) = (None, [], None)"
  shows "\<exists>self'. load_topics_loop tp ts (int (card (retained_set self))) (int (card (subs_set self))) self =
      (Inr (int (card (retained_set self')), int (card (subs_set self'))), self') \<and>
    ok (sb_persist self') \<and> view (sb_persist self') = rows \<and> who (sb_persist self') = sessions \<and>
    (\<forall>t \<in> set ts. topic_loaded sessions (the (rows (pt_topic_name t))) (info_of self' (topic_levels (pt_topic_name t)))) \<and>
    (\<forall>path. path \<notin> topic_levels ` pt_topic_name ` set ts \<longrightarrow> info_of self' path = info_of self path)"
  using assms
proof (induction ts arbitrary: self)
  case (Cons t ts)
  obtain v where v: "rows (pt_topic_name t) = Some v" "pt_topic_id t = tv_id v" "pt_retained_message_id t = map_option fst (tv_retained v)"
    using Cons.prems(5) [of t] by auto
  obtain self1 i where one: "load_topics_loop tp (t # ts) (int (card (retained_set self))) (int (card (subs_set self))) self =
       load_topics_loop tp ts (int (card (retained_set self1))) (int (card (subs_set self1))) self1"
    "ok (sb_persist self1)" "view (sb_persist self1) = rows" "who (sb_persist self1) = sessions"
    "info_of self1 = (info_of self)(topic_levels (pt_topic_name t) := i)" "topic_loaded sessions v i"
    using load_row [OF Cons.prems(1) _ v(2,3), of ts] v(1) Cons.prems(2,3,6) by (metis list.set_intros(1))
  have rest: "pt_topic_name t \<notin> pt_topic_name ` set ts" "distinct (map pt_topic_name ts)" using Cons.prems(4) by simp_all
  have "info_of self1 (topic_levels (pt_topic_name u)) = (None, [], None)" if "u \<in> set ts" for u
  proof -
    have "pt_topic_name u \<noteq> pt_topic_name t" using that rest(1) by (metis imageI)
    with Cons.prems(6) [of u] that show ?thesis by (simp add: one(5))
  qed
  from Cons.IH [OF one(2-4) rest(2) Cons.prems(5) this] obtain self' where
    "load_topics_loop tp ts (int (card (retained_set self1))) (int (card (subs_set self1))) self1 =
      (Inr (int (card (retained_set self')), int (card (subs_set self'))), self')"
    and self': "ok (sb_persist self')" "view (sb_persist self') = rows" "who (sb_persist self') = sessions"
    "\<forall>t \<in> set ts. topic_loaded sessions (the (rows (pt_topic_name t))) (info_of self' (topic_levels (pt_topic_name t)))"
    "\<forall>path. path \<notin> topic_levels ` pt_topic_name ` set ts \<longrightarrow> info_of self' path = info_of self1 path" by auto
  moreover have "info_of self' (topic_levels (pt_topic_name t)) = i"
    using self'(5) rest(1) by (simp add: one(5))
  ultimately show ?case
    using one(1,5,6) v(1) by (intro exI [of _ self']) (simp add: one(1))
qed simp

lemma loaded_stored:
  assumes "ok p" and "view p n = Some v" and "topic_loaded (who p) v i"
  shows "topic_stored (who p) (Some v) i"
proof -
  obtain ls where i: "i = (Some (tv_id v), entries_of ls, map_option snd (tv_retained v))"
    and ls: "lists_subscriptions (who p) (tv_subs v) ls"
    using assms(3) by (auto simp: topic_loaded_def)
  have "subs_match (who p) (tv_subs v) (map_of (entries_of ls))"
    by (rule entries_match [OF ls names_once [OF assms(1)] subs_known [OF assms(1,2)] who_id [OF assms(1)]])
  moreover have "map_option stored_publish (map_option snd (tv_retained v)) = map_option snd (tv_retained v)"
    using retained_form [OF assms(1,2)] by (cases "tv_retained v") auto
  ultimately show ?thesis by (simp add: topic_stored_def i)
qed

text \<open>Loading builds a tree that is in step with what it was loaded from, gauges included.\<close>

lemma load_in_step:
  assumes "ok p"
  obtains self where "load_persistent_state tp (subscriptions_new p) = (Inr 0, self)" and "in_step self" and "tree_ok self" and "guages_ok self"
    and "view (sb_persist self) = view p" and "who (sb_persist self) = who p"
    and "\<forall>n v. view p n = Some v \<longrightarrow> topic_loaded (who p) v (info_of self (topic_levels n))"
proof -
  obtain ts p1 where ts: "tp_load_persistent_topics tp p = (Inr ts, p1)" "ok p1" "who p1 = who p" "view p1 = view p" "lists_topics (view p) ts"
    using load_topics [OF assms] by blast
  let ?new = "subscriptions_new p1"
  have new: "info_of ?new = (\<lambda>_. (None, [], None))" "sb_persist ?new = p1" "retained_set ?new = {}" "subs_set ?new = {}"
    "(subscriptions_new p)\<lparr>sb_persist := p1\<rparr> = ?new"
    by (simp_all add: info_of_def subscriptions_new_def fun_eq_iff retained_set_def subs_set_def retained_of_def subs_of_def)
  have "\<exists>self'. load_topics_loop tp ts (int (card (retained_set ?new))) (int (card (subs_set ?new))) ?new =
      (Inr (int (card (retained_set self')), int (card (subs_set self'))), self') \<and>
    ok (sb_persist self') \<and> view (sb_persist self') = view p \<and> who (sb_persist self') = who p \<and>
    (\<forall>t \<in> set ts. topic_loaded (who p) (the (view p (pt_topic_name t))) (info_of self' (topic_levels (pt_topic_name t)))) \<and>
    (\<forall>path. path \<notin> topic_levels ` pt_topic_name ` set ts \<longrightarrow> info_of self' path = info_of ?new path)"
    using ts(2-5) by (intro load_all) (auto simp: new(1,2) lists_topics_def)
  then obtain s where s: "load_topics_loop tp ts 0 0 ?new = (Inr (int (card (retained_set s)), int (card (subs_set s))), s)"
    "ok (sb_persist s)" "view (sb_persist s) = view p" "who (sb_persist s) = who p"
    "\<forall>t \<in> set ts. topic_loaded (who p) (the (view p (pt_topic_name t))) (info_of s (topic_levels (pt_topic_name t)))"
    "\<forall>path. path \<notin> topic_levels ` pt_topic_name ` set ts \<longrightarrow> info_of s path = (None, [], None)"
    by (auto simp: new)
  define self where "self = s\<lparr>sb_guage_subscriptions := int (card (subs_set s)), sb_guage_retained_messages := int (card (retained_set s))\<rparr>"
  have same: "info_of self = info_of s" "sb_persist self = sb_persist s" "subs_set self = subs_set s" "retained_set self = retained_set s"
    by (simp_all add: self_def subs_set_def retained_set_def)
  have rows: "topic_loaded (who p) v (info_of s (topic_levels n))" if "view p n = Some v" for n v
    using that s(5) ts(5) unfolding lists_topics_def by (metis domI imageE option.sel subsetD)
  have none: "info_of s (topic_levels n) = (None, [], None)" if "view p n = None" for n
  proof -
    have "n \<notin> pt_topic_name ` set ts" using that ts(5) unfolding lists_topics_def by force
    with s(6) show ?thesis by simp
  qed
  show thesis
  proof (rule that)
    show "load_persistent_state tp (subscriptions_new p) = (Inr 0, self)"
      using ts(1) s(1) by (simp add: load_persistent_state_def act_bind_app with_persist_def new(5) self_def) (simp add: subscriptions_new_def)
    have "topic_stored (who p) (view p n) (info_of s (topic_levels n))" for n
      using loaded_stored [OF assms _ rows] none by (cases "view p n") (simp_all add: topic_stored_def)
    moreover have "info_of s path = (None, [], None)" if "path \<notin> range topic_levels" for path using s(6) that by blast
    ultimately show "in_step self" using s(2-4) by (simp add: tree_stored_def same)
    have "(fst (info_of s path) = None \<longrightarrow> snd (info_of s path) = ([], None)) \<and> entries_ok (fst (snd (info_of s path)))" for path
    proof (cases "\<exists>n v. path = topic_levels n \<and> view p n = Some v")
      case True
      then obtain n v where n: "path = topic_levels n" "view p n = Some v" by blast
      from rows [OF n(2)] obtain ls where "info_of s path = (Some (tv_id v), entries_of ls, map_option snd (tv_retained v))"
        "lists_subscriptions (who p) (tv_subs v) ls" unfolding n(1) topic_loaded_def by blast
      with load_clients_entries [OF lists_subscriptions_names [OF _ names_once [OF assms]]] load_clients_ok [of ls]
      show ?thesis by simp
    next
      case False
      then have "info_of s path = (None, [], None)"
      proof (cases "path \<in> range topic_levels")
        case True
        then obtain n where n: "path = topic_levels n" by blast
        with False have "view p n = None" by (cases "view p n") blast+
        with none n show ?thesis by simp
      next
        case False
        then have "path \<notin> topic_levels ` pt_topic_name ` set ts" by blast
        with s(6) show ?thesis by simp
      qed
      then show ?thesis by simp
    qed
    then show "tree_ok self" by (simp add: tree_ok_def same)
    show "guages_ok self" by (simp add: guages_ok_def same) (simp add: self_def guages_def)
  qed (simp_all add: same s(3,4) rows)
qed

end

section \<open>The life of a tree\<close>

text \<open>The session of a request is one the storage knows, under the same name.\<close>

fun op_known :: "stored_sessions \<Rightarrow> topic_op \<Rightarrow> bool" where
  "op_known who (Op_subscribe session _ _) = named who (sid_internal_id session) (sid_session session)"
| "op_known who (Op_unsubscribe session _) = named who (sid_internal_id session) (sid_session session)"
| "op_known who (Op_retain _) = True"

text \<open>
  A tree is loaded, from an empty storage or from what an earlier one left; the router performs
  operations that succeed; and other tasks use the storage in between, which may add sessions and
  change their generations but leaves the topics alone.
\<close>

inductive tree_life :: "'p topic_persist \<Rightarrow> ('p \<Rightarrow> bool) \<Rightarrow> ('p \<Rightarrow> stored_topics) \<Rightarrow> ('p \<Rightarrow> stored_sessions) \<Rightarrow> 'p subscriptions \<Rightarrow> bool"
  for tp ok view who where
  loaded: "ok p \<Longrightarrow> load_persistent_state tp (subscriptions_new p) = (Inr r, self) \<Longrightarrow> tree_life tp ok view who self"
| performed: "tree_life tp ok view who self \<Longrightarrow> op_known (who (sb_persist self)) op \<Longrightarrow>
    run_topic_op tp op self = (Inr r, self') \<Longrightarrow> tree_life tp ok view who self'"
| elsewhere: "tree_life tp ok view who self \<Longrightarrow> ok p \<Longrightarrow> view p = view (sb_persist self) \<Longrightarrow>
    (\<And>S n. named (who (sb_persist self)) S n \<Longrightarrow> named (who p) S n) \<Longrightarrow> tree_life tp ok view who (self\<lparr>sb_persist := p\<rparr>)"

text \<open>
  The same tree: the same subscriptions with name, internal id and QoS, the same gauges, and the
  same retained messages in the form they are stored in.
\<close>

definition same_tree :: "'p subscriptions \<Rightarrow> 'p subscriptions \<Rightarrow> bool" where
  "same_tree self self' \<longleftrightarrow>
     (\<forall>path n. map_option (\<lambda>e. (sid_session (te_session e), sid_internal_id (te_session e), te_qos e)) (subs_of self' path n) =
        map_option (\<lambda>e. (sid_session (te_session e), sid_internal_id (te_session e), te_qos e)) (subs_of self path n)) \<and>
     (\<forall>path. retained_of self' path = map_option stored_publish (retained_of self path)) \<and>
     guages self' = guages self"

lemma subs_match_same:
  assumes "subs_match who subs tree" and "subs_match who' subs tree'" and "\<And>S n. named who S n \<longleftrightarrow> named who' S n"
    and "tree n = Some e"
  obtains e' where "tree' n = Some e'" and "sid_internal_id (te_session e') = sid_internal_id (te_session e)" and "te_qos e' = te_qos e"
proof -
  have e: "named who (sid_internal_id (te_session e)) n" "subs (sid_internal_id (te_session e)) = Some (te_qos e)"
    using assms(1,4) unfolding subs_match_def by blast+
  obtain n' e' where e': "tree' n' = Some e'" "sid_internal_id (te_session e') = sid_internal_id (te_session e)"
    using assms(2) e(2) unfolding subs_match_def by blast
  then have "named who' (sid_internal_id (te_session e)) n'" "subs (sid_internal_id (te_session e)) = Some (te_qos e')"
    using assms(2) unfolding subs_match_def by metis+
  with e assms(3) have "n' = n" "te_qos e' = te_qos e" by (auto simp: named_def)
  with e' show ?thesis by (intro that [of e']) simp_all
qed

lemma subs_match_names:
  assumes "subs_match who subs tree" and "\<And>S n. named who S n \<Longrightarrow> named who' S n"
  shows "subs_match who' subs tree"
  using assms unfolding subs_match_def by blast

lemma tree_ok_entry:
  assumes "tree_ok self" and "subs_of self path n = Some e"
  shows "sid_session (te_session e) = n"
proof -
  have "entries_ok (fst (snd (info_of self path)))" using assms(1) by (simp add: tree_ok_def)
  with assms(2) show ?thesis by (simp add: entries_ok_def subs_of_def)
qed

context topic_storage
begin

lemma elsewhere_in_step:
  assumes "in_step s" and "ok p" and "view p = view (sb_persist s)" and "\<And>S n. named (who (sb_persist s)) S n \<Longrightarrow> named (who p) S n"
  shows "in_step (s\<lparr>sb_persist := p\<rparr>)"
proof -
  have "topic_stored (who p) (view p n) (info_of s (topic_levels n))" for n
  proof (cases "view (sb_persist s) n")
    case None
    then show ?thesis using tree_storedD(3) [OF assms(1) None] by (simp add: topic_stored_def assms(3))
  next
    case (Some v)
    have "subs_match (who (sb_persist s)) subs tree \<Longrightarrow> subs_match (who p) subs tree" for subs tree
      by (erule subs_match_names) (rule assms(4))
    with tree_storedD(4) [OF assms(1) Some] show ?thesis
      by (simp add: topic_stored_def assms(3) Some)
  qed
  with assms(1,2) show ?thesis by (simp add: tree_stored_def)
qed

lemma op_in_step:
  assumes "in_step s" and "op_known (who (sb_persist s)) op" and "run_topic_op tp op s = (Inr r, s')"
  shows "in_step s'"
  using assms step_subscribe [OF assms(1)] step_unsubscribe [OF assms(1)] step_retain [OF assms(1)]
  by (cases op) (auto simp: act_bind_Inr)

lemma op_keeps_ok:
  assumes "tree_ok s" and "guages_ok s" and "run_topic_op tp op s = (Inr r, s')"
  shows "tree_ok s'" and "guages_ok s'"
  using assms act_hoareD(1) [OF run_topic_op_safe assms(1,3)]
  by (cases op; auto simp: act_bind_Inr intro: subscribe_guages retain_guages unsubscribe_guages)+

lemma life_in_step:
  assumes "tree_life tp ok view who self"
  shows "in_step self \<and> tree_ok self \<and> guages_ok self"
  using assms
proof (induction rule: tree_life.induct)
  case (loaded p r self)
  obtain self' where "load_persistent_state tp (subscriptions_new p) = (Inr 0, self')" "in_step self'" "tree_ok self'" "guages_ok self'"
    by (rule load_in_step [OF loaded(1)])
  with loaded(2) show ?case by simp
next
  case (performed self op r self')
  then show ?case using op_in_step op_keeps_ok by blast
next
  case (elsewhere self p)
  then have "in_step (self\<lparr>sb_persist := p\<rparr>)" using elsewhere_in_step by blast
  then show ?case using elsewhere.IH
    by (simp add: tree_ok_def guages_ok_def subs_set_def retained_set_def)
qed

lemma same_from_storage:
  assumes "in_step s" and "tree_ok s" and "guages_ok s" and "in_step s'" and "tree_ok s'" and "guages_ok s'"
    and "view (sb_persist s') = view (sb_persist s)" and "who (sb_persist s') = who (sb_persist s)"
    and "\<And>path m. retained_of s' path = Some m \<Longrightarrow> stored_publish m = m"
  shows "same_tree s s'"
proof -
  let ?key = "\<lambda>e. (sid_session (te_session e), sid_internal_id (te_session e), te_qos e)"
  have info: "map_option ?key (subs_of s' path n) = map_option ?key (subs_of s path n) \<and>
      retained_of s' path = map_option stored_publish (retained_of s path)" for path n
  proof (cases "\<exists>m v. path = topic_levels m \<and> view (sb_persist s) m = Some v")
    case True
    then obtain m v where v: "path = topic_levels m" "view (sb_persist s) m = Some v" by blast
    from tree_storedD(4) [OF assms(1) v(2)] have 1: "subs_match (who (sb_persist s)) (tv_subs v) (subs_of s path)"
      "map_option snd (tv_retained v) = map_option stored_publish (retained_of s path)"
      by (simp_all add: v(1) topic_stored_def subs_of_def retained_of_def)
    from tree_storedD(4) [OF assms(4) v(2) [folded assms(7)]] have 2: "subs_match (who (sb_persist s)) (tv_subs v) (subs_of s' path)"
      "map_option snd (tv_retained v) = map_option stored_publish (retained_of s' path)"
      by (simp_all add: v(1) topic_stored_def subs_of_def retained_of_def assms(8))
    have "map_option ?key (subs_of s' path n) = map_option ?key (subs_of s path n)"
    proof (cases "subs_of s path n")
      case None
      have "subs_of s' path n \<noteq> Some e" for e using None by (auto elim: subs_match_same [OF 2(1) 1(1) refl])
      with None show ?thesis by (cases "subs_of s' path n") auto
    next
      case (Some e)
      obtain e' where "subs_of s' path n = Some e'" "sid_internal_id (te_session e') = sid_internal_id (te_session e)" "te_qos e' = te_qos e"
        by (rule subs_match_same [OF 1(1) 2(1) refl Some])
      with Some tree_ok_entry [OF assms(2)] tree_ok_entry [OF assms(5)] show ?thesis by simp
    qed
    moreover have "map_option stored_publish (retained_of s' path) = retained_of s' path"
      using assms(9) [of path] by (cases "retained_of s' path") simp_all
    ultimately show ?thesis using 1(2) 2(2) by simp
  next
    case False
    have "info_of s path = (None, [], None) \<and> info_of s' path = (None, [], None)"
    proof (cases "path \<in> range topic_levels")
      case True
      then obtain m where m: "path = topic_levels m" by blast
      with False have "view (sb_persist s) m = None" by (cases "view (sb_persist s) m") blast+
      with tree_storedD(3) [OF assms(1)] tree_storedD(3) [OF assms(4)] m show ?thesis by (simp add: assms(7))
    next
      case False
      with tree_storedD(2) [OF assms(1)] tree_storedD(2) [OF assms(4)] show ?thesis by simp
    qed
    then show ?thesis by (simp add: subs_of_def retained_of_def)
  qed
  have none: "map_option f x = map_option f y \<Longrightarrow> x = None \<longleftrightarrow> y = None" for f :: "topic_entry \<Rightarrow> rstring \<times> int \<times> u8" and x y
    by (cases x; cases y) simp_all
  have "subs_of s' path n \<noteq> None \<longleftrightarrow> subs_of s path n \<noteq> None" for path n
    using none [OF conjunct1 [OF info]] by simp
  moreover have "retained_of s' path \<noteq> None \<longleftrightarrow> retained_of s path \<noteq> None" for path
    using conjunct2 [OF info, of path] by simp
  ultimately have "subs_set s' = subs_set s" "retained_set s' = retained_set s" by (simp_all only: subs_set_def retained_set_def)
  then have "guages s' = guages s" using assms(3,6) by (simp add: guages_ok_def)
  with info show ?thesis by (simp add: same_tree_def)
qed

text \<open>Whenever the broker stops, the next one loads the tree that was there.\<close>

lemma reload:
  assumes L: "in_step self" "tree_ok self" "guages_ok self"
  obtains s where "load_persistent_state tp (subscriptions_new (sb_persist self)) = (Inr 0, s)"
    and "in_step s" and "tree_ok s" and "guages_ok s" and "who (sb_persist s) = who (sb_persist self)" and "same_tree self s"
    and "\<forall>path n e. subs_of s path n = Some e \<longrightarrow> who (sb_persist self) (sid_internal_id (te_session e)) = Some (te_session e)"
proof -
  have ok: "ok (sb_persist self)" using L(1) by (rule tree_storedD(1))
  obtain s where s: "load_persistent_state tp (subscriptions_new (sb_persist self)) = (Inr 0, s)" "in_step s" "tree_ok s" "guages_ok s"
    "view (sb_persist s) = view (sb_persist self)" "who (sb_persist s) = who (sb_persist self)"
    "\<forall>n v. view (sb_persist self) n = Some v \<longrightarrow> topic_loaded (who (sb_persist self)) v (info_of s (topic_levels n))"
    by (rule load_in_step [OF ok])
  have shown: "info_of s path = (None, [], None) \<or> (\<exists>n v. path = topic_levels n \<and> view (sb_persist self) n = Some v)" for path
    using tree_storedD(2) [OF s(2), of path] tree_storedD(3) [OF s(2)] unfolding s(5) by (metis option.exhaust rangeE)
  have form: "stored_publish m = m" if "retained_of s path = Some m" for path m
  proof -
    from shown [of path] that obtain n v where "path = topic_levels n" "view (sb_persist self) n = Some v"
      by (auto simp: retained_of_def)
    with s(7) that have "map_option snd (tv_retained v) = Some m"
      unfolding topic_loaded_def retained_of_def by fastforce
    with retained_form [OF ok, of n v] \<open>view (sb_persist self) n = Some v\<close> show ?thesis by auto
  qed
  have "who (sb_persist self) (sid_internal_id (te_session e)) = Some (te_session e)" if "subs_of s path n = Some e" for path n e
  proof -
    from shown [of path] that obtain m v where v: "path = topic_levels m" "view (sb_persist self) m = Some v"
      by (auto simp: subs_of_def)
    from s(7) v(2) obtain ls where "fst (snd (info_of s path)) = entries_of ls" "lists_subscriptions (who (sb_persist self)) (tv_subs v) ls"
      unfolding topic_loaded_def v(1) by fastforce
    with that show ?thesis
      by (auto simp: subs_of_def entries_of_def lists_subscriptions_def dest!: map_of_SomeD)
  qed
  moreover have "same_tree self s" by (rule same_from_storage [OF L s(2-6) form])
  ultimately show thesis using that s by blast
qed

lemma life_reloads:
  assumes "tree_life tp ok view who self"
  shows "\<exists>self'. load_persistent_state tp (subscriptions_new (sb_persist self)) = (Inr 0, self') \<and> same_tree self self' \<and>
    (\<forall>path n e. subs_of self' path n = Some e \<longrightarrow>
       who (sb_persist self') (sid_internal_id (te_session e)) = Some (te_session e))"
proof -
  from life_in_step [OF assms] have L: "in_step self" "tree_ok self" "guages_ok self" by simp_all
  obtain s where "load_persistent_state tp (subscriptions_new (sb_persist self)) = (Inr 0, s)" "same_tree self s"
    "who (sb_persist s) = who (sb_persist self)"
    "\<forall>path n e. subs_of s path n = Some e \<longrightarrow> who (sb_persist self) (sid_internal_id (te_session e)) = Some (te_session e)"
    by (rule reload [OF L])
  then show ?thesis by auto
qed

end

end
