(* ===== verification/Sql_Topics.thy ===== *)
theory Sql_Topics
  imports Sql_Session Topic_Reload
begin

text \<open>
  What the tables show of the topics and of the sessions that subscribe to them, and what the calls
  for topics and subscriptions do to that, as long as the database works.
\<close>

section \<open>Rows by a key\<close>

definition by_key :: "('a \<Rightarrow> 'k) \<Rightarrow> 'a list \<Rightarrow> 'k \<rightharpoonup> 'a" where
  "by_key f xs = map_of (map (\<lambda>x. (f x, x)) xs)"

lemma by_key_Nil [simp]: "by_key f [] = Map.empty"
  by (simp add: by_key_def)

lemma by_key_Cons [simp]: "by_key f (x # xs) = (by_key f xs)(f x \<mapsto> x)"
  by (simp add: by_key_def)

lemma by_key_None: "by_key f xs k = None \<longleftrightarrow> k \<notin> f ` set xs"
  by (induction xs) auto

lemma by_key_in: "by_key f xs k = Some x \<Longrightarrow> x \<in> set xs \<and> f x = k"
  by (induction xs) (auto split: if_splits)

lemma by_key_Some: "distinct (map f xs) \<Longrightarrow> by_key f xs k = Some x \<longleftrightarrow> x \<in> set xs \<and> f x = k"
  by (induction xs) (auto simp: rev_image_eqI)

lemma by_key_append: "f x \<notin> f ` set xs \<Longrightarrow> by_key f (xs @ [x]) = (by_key f xs)(f x \<mapsto> x)"
  by (induction xs) (auto simp: fun_upd_twist)

lemma by_key_filter: "by_key f (filter (\<lambda>x. f x \<noteq> k) xs) = (by_key f xs)(k := None)"
  by (induction xs) (auto simp: fun_eq_iff)

lemma by_key_map:
  "(\<And>x. f (g x) = f x) \<Longrightarrow>
     by_key f (map (\<lambda>x. if f x = k then g x else x) xs) = (by_key f xs)(k := map_option g (by_key f xs k))"
  by (induction xs) (auto simp: fun_eq_iff)

lemma filter_by_key:
  "distinct (map f xs) \<Longrightarrow> filter (\<lambda>x. f x = k) xs = (case by_key f xs k of None \<Rightarrow> [] | Some x \<Rightarrow> [x])"
proof (induction xs)
  case (Cons x xs)
  then have "f x = k \<Longrightarrow> by_key f xs k = None" by (auto simp: by_key_None)
  with Cons show ?case by (auto split: option.splits)
qed simp

section \<open>What the tables show of the topics\<close>

definition topics_ok :: "database \<Rightarrow> bool" where
  "topics_ok db \<longleftrightarrow>
     distinct (map dt_topic (db_topics db)) \<and> distinct (map ds_name (db_sessions db)) \<and>
     distinct (map (\<lambda>u. (du_session_id u, du_topic_id u)) (db_subscriptions db)) \<and>
     (\<forall>t \<in> set (db_topics db). get_i32 (dt_id t) = Some (dt_id t)) \<and>
     (\<forall>s \<in> set (db_sessions db). get_i32 (ds_id s) = Some (ds_id s)) \<and>
     (\<forall>u \<in> set (db_subscriptions db). 0 \<le> du_qos u \<and> du_qos u < 256) \<and>
     (\<forall>m \<in> set (db_messages db). 0 \<le> dm_qos m \<and> dm_qos m < 256)"

definition topic_store_ok :: "'w sql_store \<Rightarrow> bool" where
  "topic_store_ok p \<longleftrightarrow> db_ok (sq_db p) \<and> topics_ok (sq_db p)"

definition stored_subs :: "database \<Rightarrow> int \<Rightarrow> int \<Rightarrow> u8 option" where
  "stored_subs db i S = map_option (\<lambda>u. word_of_int (du_qos u))
     (by_key (\<lambda>u. (du_session_id u, du_topic_id u)) (db_subscriptions db) (S, i))"

definition stored_retained :: "database \<Rightarrow> int option \<Rightarrow> (int \<times> publish) option" where
  "stored_retained db mi =
     (case mi of
        None \<Rightarrow> None
      | Some i \<Rightarrow> (case message_rows i db of [] \<Rightarrow> None | r # _ \<Rightarrow> map_option (Pair i) (stored_message r)))"

definition topic_of_row :: "database \<Rightarrow> topic_row \<Rightarrow> topic_view" where
  "topic_of_row db t =
     \<lparr>tv_id = dt_id t, tv_subs = stored_subs db (dt_id t), tv_retained = stored_retained db (dt_retained_message_id t)\<rparr>"

definition db_topic_view :: "database \<Rightarrow> stored_topics" where
  "db_topic_view db n = map_option (topic_of_row db) (by_key dt_topic (db_topics db) n)"

definition session_of_row :: "session_row \<Rightarrow> session_id" where
  "session_of_row r = \<lparr>sid_session = ds_name r, sid_internal_id = ds_id r, sid_generation = ds_generation r\<rparr>"

definition db_sessions_known :: "database \<Rightarrow> stored_sessions" where
  "db_sessions_known db S = map_option session_of_row (by_key ds_id (db_sessions db) S)"

definition topic_sql_view :: "'w sql_store \<Rightarrow> stored_topics" where
  "topic_sql_view p = db_topic_view (sq_db p)"

definition sessions_sql_known :: "'w sql_store \<Rightarrow> stored_sessions" where
  "sessions_sql_known p = db_sessions_known (sq_db p)"

lemma topics_okD:
  assumes "topics_ok db"
  shows "distinct (map dt_topic (db_topics db))" and "distinct (map ds_name (db_sessions db))"
    and "distinct (map (\<lambda>u. (du_session_id u, du_topic_id u)) (db_subscriptions db))"
    and "t \<in> set (db_topics db) \<Longrightarrow> get_i32 (dt_id t) = Some (dt_id t)"
    and "s \<in> set (db_sessions db) \<Longrightarrow> get_i32 (ds_id s) = Some (ds_id s)"
    and "u \<in> set (db_subscriptions db) \<Longrightarrow> 0 \<le> du_qos u \<and> du_qos u < 256"
    and "m \<in> set (db_messages db) \<Longrightarrow> 0 \<le> dm_qos m \<and> dm_qos m < 256"
  using assms unfolding topics_ok_def by blast+

lemma topic_viewE:
  assumes "db_topic_view db n = Some v"
  obtains t where "t \<in> set (db_topics db)" and "dt_topic t = n" and "v = topic_of_row db t" and "by_key dt_topic (db_topics db) n = Some t"
  using assms by (auto simp: db_topic_view_def dest: by_key_in)

lemma topic_of_row_sel [simp]:
  "tv_id (topic_of_row db t) = dt_id t" "tv_subs (topic_of_row db t) = stored_subs db (dt_id t)"
  "tv_retained (topic_of_row db t) = stored_retained db (dt_retained_message_id t)"
  by (simp_all add: topic_of_row_def)

text \<open>A row by its id is the row by its name.\<close>

lemma row_by_id:
  assumes "db_ok db" and "topics_ok db" and "t \<in> set (db_topics db)" and "r \<in> set (db_topics db)"
  shows "dt_id r = dt_id t \<longleftrightarrow> dt_topic r = dt_topic t"
  using db_okD(4) [OF assms(1)] topics_okD(1) [OF assms(2)] assms(3,4)
  by (auto simp: distinct_map inj_on_def)

text \<open>When the rows of the topics stay and one of them shows something new.\<close>

lemma topic_view_upd:
  assumes "by_key dt_topic (db_topics db) n = Some t" and "db_topics db' = db_topics db"
    and "\<And>r. r \<in> set (db_topics db) \<Longrightarrow> dt_topic r \<noteq> n \<Longrightarrow> topic_of_row db' r = topic_of_row db r"
  shows "db_topic_view db' = (db_topic_view db)(n \<mapsto> topic_of_row db' t)"
proof
  fix m
  show "db_topic_view db' m = ((db_topic_view db)(n \<mapsto> topic_of_row db' t)) m"
  proof (cases "m = n")
    case True
    with assms(1,2) show ?thesis by (simp add: db_topic_view_def)
  next
    case False
    have "topic_of_row db' r = topic_of_row db r" if "by_key dt_topic (db_topics db) m = Some r" for r
      using by_key_in [OF that] assms(3) False by blast
    with False show ?thesis by (cases "by_key dt_topic (db_topics db) m") (simp_all add: db_topic_view_def assms(2))
  qed
qed

text \<open>A retained message is always there to be read.\<close>

lemma get_i16_qos: "0 \<le> q \<Longrightarrow> q < 256 \<Longrightarrow> get_i16 q = Some q"
  by (simp add: get_i16_def)

lemma stored_retained_Some:
  assumes "db_ok db" and "topics_ok db" and "t \<in> set (db_topics db)" and "dt_retained_message_id t = Some i"
  obtains r m where "message_rows i db = [r]" and "stored_message r = Some m" and "stored_retained db (Some i) = Some (i, m)"
    and "get_i32 i = Some i" and "stored_publish m = m"
proof -
  have owned: "i \<in> set (owned db)" using assms(3,4) by (force simp: owned_def)
  with db_okD(6) [OF assms(1)] have "i \<in> dm_id ` set (db_messages db)" by (auto simp: foreign_keys_owned)
  then obtain r where r: "by_key dm_id (db_messages db) i = Some r"
    by (cases "by_key dm_id (db_messages db) i") (simp_all add: by_key_None)
  then have rows: "message_rows i db = [r]"
    by (simp add: message_rows_def filter_by_key [OF db_okD(3) [OF assms(1)]])
  have "get_i16 (dm_qos r) = Some (dm_qos r)"
    using topics_okD(7) [OF assms(2), of r] by_key_in [OF r] by (intro get_i16_qos) auto
  then show ?thesis using rows db_okD(8) [OF assms(1) owned]
    by (intro that) (auto simp: stored_message_def stored_retained_def stored_publish_def)
qed

section \<open>Calls\<close>

lemma yields_result: "yields now call p r db \<Longrightarrow> call p = (r', p') \<Longrightarrow> r' = r \<and> sq_db p' = db"
  by (auto simp: yields_def)

lemma topic_call:
  assumes works: "sql_works env now" and tables: "set tables \<subseteq> set (db_tables (sq_db p))"
    and f: "f (sq_db p) = (a, db)" and fk: "foreign_keys_ok db"
    and g: "\<And>w. yields now (g a) \<lparr>sq_db = db, sq_world = w\<rparr> r db'"
  shows "yields now (sql_interact env e1 e2 (act_bind (or_error e (sql_execute env tables f)) g)) p (interact_result e2 r) db'"
proof (rule yields_interact [OF works])
  fix w assume "now (sq_world p) \<le> now w"
  show "yields now (act_bind (or_error e (sql_execute env tables f)) g) \<lparr>sq_db = sq_db p, sq_world = w\<rparr> r db'"
    by (rule yields_bind [OF yields_or_error(1) [OF yields_execute [OF works]]]) (use tables f fk g in auto)
qed

lemma all_tables:
  assumes "db_ok db"
  shows "set [Tab_topics] \<subseteq> set (db_tables db)" "set [Tab_messages] \<subseteq> set (db_tables db)"
    "set [Tab_subscriptions] \<subseteq> set (db_tables db)" "set [Tab_subscriptions, Tab_sessions] \<subseteq> set (db_tables db)"
  using db_okD(1) [OF assms] by simp_all

section \<open>Topics\<close>

lemma owned_topics_same:
  "somes (map dt_retained_message_id (db_topics db')) = somes (map dt_retained_message_id (db_topics db)) \<Longrightarrow>
     db_qosout db' = db_qosout db \<Longrightarrow> owned db' = owned db"
  by (simp add: owned_def)

lemma sql_add_topic:
  assumes works: "sql_works env now" and "topic_store_ok p" and "topic_sql_view p n = None"
    and call: "sql_persist_topic env n p = (Inr i, p')"
  shows "topic_store_ok p' \<and> sessions_sql_known p' = sessions_sql_known p \<and>
    topic_sql_view p' = (topic_sql_view p)(n \<mapsto> \<lparr>tv_id = i, tv_subs = Map.empty, tv_retained = None\<rparr>)"
proof -
  let ?db = "sq_db p" and ?i = "next_row_id (map dt_id (db_topics (sq_db p)))"
  let ?t = "\<lparr>dt_id = ?i, dt_topic = n, dt_retained_message_id = None\<rparr>"
  let ?db' = "?db\<lparr>db_topics := db_topics ?db @ [?t]\<rparr>"
  have ok: "db_ok ?db" "topics_ok ?db" using assms(2) by (simp_all add: topic_store_ok_def)
  have fresh: "?i \<notin> dt_id ` set (db_topics ?db)" using next_row_id_fresh [of "map dt_id (db_topics ?db)"] by simp
  have own: "owned ?db' = owned ?db" by (simp add: owned_def)
  have dbok: "db_ok ?db'" using ok(1) fresh unfolding db_ok_def own foreign_keys_owned by auto
  have "yields now (sql_persist_topic env n) p (interact_result broker_no_query
      (case get_i32 ?i of Some a \<Rightarrow> Inr a | None \<Rightarrow> Inl (Failed (Broker_PersistError ''Persist topic failed'')))) ?db'"
    unfolding sql_persist_topic_def Let_def
    by (rule topic_call [OF works all_tables(1) [OF ok(1)]])
      (auto simp: insert_topic_row_def Let_def db_okD(6) [OF dbok] intro: yields_pick_at)
  from yields_result [OF this call] have i: "get_i32 ?i = Some i" "i = ?i" and p': "sq_db p' = ?db'"
    using get_i32_same by (auto split: option.splits)
  have new: "by_key dt_topic (db_topics ?db) n = None"
    using assms(3) by (simp add: topic_sql_view_def db_topic_view_def)
  have "topics_ok ?db'" using ok(2) new i unfolding topics_ok_def by (auto simp: by_key_None)
  moreover have "topic_of_row ?db' = topic_of_row ?db"
    by (simp add: topic_of_row_def stored_subs_def stored_retained_def message_rows_def fun_eq_iff split: option.split)
  moreover have "by_key (\<lambda>u. (du_session_id u, du_topic_id u)) (db_subscriptions ?db) (S, ?i) = None" for S
    using db_okD(6) [OF ok(1)] fresh by (auto simp: by_key_None foreign_keys_owned)
  then have "topic_of_row ?db ?t = \<lparr>tv_id = ?i, tv_subs = Map.empty, tv_retained = None\<rparr>"
    by (simp add: topic_of_row_def stored_subs_def stored_retained_def fun_eq_iff)
  moreover have "by_key dt_topic (db_topics ?db') = (by_key dt_topic (db_topics ?db))(n \<mapsto> ?t)"
    using by_key_append [of dt_topic ?t "db_topics ?db"] new by (simp add: by_key_None)
  ultimately show ?thesis using dbok i(2)
    by (auto simp: topic_store_ok_def p' topic_sql_view_def sessions_sql_known_def db_topic_view_def db_sessions_known_def intro!: ext)
qed

lemma sql_delete_topic:
  assumes works: "sql_works env now" and "topic_store_ok p" and "topic_sql_view p n = Some v"
    and "tv_subs v = Map.empty" and call: "sql_persist_delete_topic env (tv_id v) p = (Inr a, p')"
  shows "topic_store_ok p' \<and> sessions_sql_known p' = sessions_sql_known p \<and> topic_sql_view p' = (topic_sql_view p)(n := None)"
proof -
  let ?db = "sq_db p"
  let ?db' = "?db\<lparr>db_topics := filter (\<lambda>r. dt_id r \<noteq> tv_id v) (db_topics ?db)\<rparr>"
  have ok: "db_ok ?db" "topics_ok ?db" using assms(2) by (simp_all add: topic_store_ok_def)
  obtain t where t: "t \<in> set (db_topics ?db)" "dt_topic t = n" "v = topic_of_row ?db t"
    using assms(3) unfolding topic_sql_view_def by (rule topic_viewE)
  have rows: "filter (\<lambda>r. dt_id r \<noteq> tv_id v) (db_topics ?db) = filter (\<lambda>r. dt_topic r \<noteq> n) (db_topics ?db)"
    using row_by_id [OF ok t(1)] t(2,3) by (auto intro!: filter_cong)
  from db_okD(7) [OF ok(1)] have dist: "distinct (somes (map dt_retained_message_id (db_topics ?db)))"
    "distinct (somes (map do_message_id (db_qosout ?db)))"
    "set (somes (map dt_retained_message_id (db_topics ?db))) \<inter> set (somes (map do_message_id (db_qosout ?db))) = {}"
    by (simp_all add: owned_def)
  have sub: "set (owned ?db') \<subseteq> set (owned ?db)" by (auto simp: owned_def)
  have distinct: "distinct (owned ?db')"
    using dist somes_filter [OF dist(1), of "\<lambda>r. dt_id r \<noteq> tv_id v"] by (auto simp: owned_def)
  have "du_topic_id u \<noteq> tv_id v" if "u \<in> set (db_subscriptions ?db)" for u
  proof
    assume "du_topic_id u = tv_id v"
    with that have "by_key (\<lambda>u. (du_session_id u, du_topic_id u)) (db_subscriptions ?db) (du_session_id u, tv_id v) \<noteq> None"
      by (auto simp: by_key_None)
    with fun_cong [OF assms(4), of "du_session_id u"] show False by (simp add: t(3) stored_subs_def)
  qed
  moreover have "dt_id ` {r \<in> set (db_topics ?db). dt_id r \<noteq> tv_id v} = dt_id ` set (db_topics ?db) - {tv_id v}" by auto
  ultimately have "foreign_keys_ok ?db'"
    using db_okD(6) [OF ok(1)] sub unfolding foreign_keys_owned by (auto simp del: image_Collect)
  with distinct have dbok: "db_ok ?db'" using ok(1) sub by (auto simp: db_ok_def distinct_map inj_on_def)
  have "yields now (sql_persist_delete_topic env (tv_id v)) p (interact_result broker_no_query (Inr (tv_id v))) ?db'"
    unfolding sql_persist_delete_topic_def
    by (rule topic_call [OF works all_tables(1) [OF ok(1)]]) (auto simp: db_okD(6) [OF dbok] intro: yields_return_at)
  from yields_result [OF this call] have p': "sq_db p' = ?db'" by simp
  have "topics_ok ?db'" using ok(2) unfolding topics_ok_def by (auto simp: distinct_map inj_on_def)
  moreover have "topic_of_row ?db' = topic_of_row ?db"
    by (simp add: topic_of_row_def stored_subs_def stored_retained_def message_rows_def fun_eq_iff split: option.split)
  ultimately show ?thesis using dbok
    by (auto simp: topic_store_ok_def p' topic_sql_view_def sessions_sql_known_def db_topic_view_def db_sessions_known_def rows by_key_filter intro!: ext)
qed

section \<open>Subscriptions\<close>

text \<open>Only the subscriptions of one topic change.\<close>

definition subs_change :: "database \<Rightarrow> int \<Rightarrow> (int \<rightharpoonup> u8) \<Rightarrow> database \<Rightarrow> bool" where
  "subs_change db i subs db' \<longleftrightarrow>
     db_ok db' \<and> topics_ok db' \<and> db_topics db' = db_topics db \<and> db_messages db' = db_messages db \<and> db_sessions db' = db_sessions db \<and>
     stored_subs db' i = subs \<and> (\<forall>j. j \<noteq> i \<longrightarrow> stored_subs db' j = stored_subs db j)"

lemma subs_change_shown:
  assumes "topic_store_ok p" and "topic_sql_view p n = Some v" and "subs_change (sq_db p) (tv_id v) subs (sq_db p')"
  shows "topic_store_ok p' \<and> sessions_sql_known p' = sessions_sql_known p \<and>
    topic_sql_view p' = (topic_sql_view p)(n \<mapsto> v\<lparr>tv_subs := subs\<rparr>)"
proof -
  let ?db = "sq_db p" and ?db' = "sq_db p'"
  have ok: "db_ok ?db" "topics_ok ?db" using assms(1) by (simp_all add: topic_store_ok_def)
  note C = assms(3) [unfolded subs_change_def]
  obtain t where t: "t \<in> set (db_topics ?db)" "dt_topic t = n" "v = topic_of_row ?db t" "by_key dt_topic (db_topics ?db) n = Some t"
    using assms(2) unfolding topic_sql_view_def by (rule topic_viewE)
  have "message_rows i ?db' = message_rows i ?db" for i using C by (simp add: message_rows_def)
  then have ret: "stored_retained ?db' mi = stored_retained ?db mi" for mi
    by (simp add: stored_retained_def split: option.split)
  have "topic_of_row ?db' r = topic_of_row ?db r" if "r \<in> set (db_topics ?db)" "dt_topic r \<noteq> n" for r
  proof -
    have "dt_id r \<noteq> tv_id v" using row_by_id [OF ok t(1) that(1)] that(2) t(2,3) by simp
    with C ret show ?thesis by (simp add: topic_of_row_def)
  qed
  from topic_view_upd [OF t(4) _ this] C have "db_topic_view ?db' = (db_topic_view ?db)(n \<mapsto> topic_of_row ?db' t)" by blast
  moreover have "topic_of_row ?db' t = v\<lparr>tv_subs := subs\<rparr>" using C ret t(3) by (simp add: topic_of_row_def)
  ultimately show ?thesis using C
    by (simp add: topic_store_ok_def topic_sql_view_def sessions_sql_known_def db_sessions_known_def fun_eq_iff)
qed

lemma subs_change_rows:
  assumes "db_ok db" and "topics_ok db" and "db' = db\<lparr>db_subscriptions := us\<rparr>"
    and "\<And>u. u \<in> set us \<Longrightarrow> du_session_id u \<in> ds_id ` set (db_sessions db) \<and> du_topic_id u \<in> dt_id ` set (db_topics db) \<and> 0 \<le> du_qos u \<and> du_qos u < 256"
    and "distinct (map (\<lambda>u. (du_session_id u, du_topic_id u)) us)"
    and "by_key (\<lambda>u. (du_session_id u, du_topic_id u)) us = (by_key (\<lambda>u. (du_session_id u, du_topic_id u)) (db_subscriptions db))((S, i) := u)"
  shows "subs_change db i ((stored_subs db i)(S := map_option (\<lambda>u. word_of_int (du_qos u)) u)) db'"
proof -
  have "owned db' = owned db" by (simp add: owned_def assms(3))
  with assms(1,3,4) have "db_ok db'" unfolding db_ok_def foreign_keys_owned by auto
  moreover have "topics_ok db'" using assms(2-5) by (simp add: topics_ok_def)
  ultimately show ?thesis
    by (auto simp: subs_change_def assms(3,6) stored_subs_def fun_eq_iff)
qed

lemma old_subs:
  assumes "db_ok db" and "topics_ok db" and "u \<in> set (db_subscriptions db)"
  shows "du_session_id u \<in> ds_id ` set (db_sessions db) \<and> du_topic_id u \<in> dt_id ` set (db_topics db) \<and> 0 \<le> du_qos u \<and> du_qos u < 256"
  using db_okD(6) [OF assms(1)] topics_okD(6) [OF assms(2,3)] assms(3) by (simp add: foreign_keys_owned)

lemma sql_add_subscription:
  assumes works: "sql_works env now" and "topic_store_ok p" and "topic_sql_view p n = Some v"
    and "sessions_sql_known p S \<noteq> None" and "tv_subs v S = None"
    and call: "sql_persist_subscribe env S (tv_id v) q p = (Inr b, p')"
  shows "topic_store_ok p' \<and> sessions_sql_known p' = sessions_sql_known p \<and>
    topic_sql_view p' = (topic_sql_view p)(n \<mapsto> v\<lparr>tv_subs := (tv_subs v)(S \<mapsto> q)\<rparr>)"
proof (rule subs_change_shown [OF assms(2,3)])
  let ?db = "sq_db p" and ?u = "\<lparr>du_session_id = S, du_topic_id = tv_id v, du_qos = uint q\<rparr>"
  let ?db' = "?db\<lparr>db_subscriptions := db_subscriptions ?db @ [?u]\<rparr>"
  have ok: "db_ok ?db" "topics_ok ?db" using assms(2) by (simp_all add: topic_store_ok_def)
  obtain t where t: "t \<in> set (db_topics ?db)" "v = topic_of_row ?db t"
    using assms(3) unfolding topic_sql_view_def by (rule topic_viewE)
  have new: "(S, tv_id v) \<notin> (\<lambda>u. (du_session_id u, du_topic_id u)) ` set (db_subscriptions ?db)"
    using assms(5) by (simp add: t(2) stored_subs_def by_key_None)
  have S: "S \<in> ds_id ` set (db_sessions ?db)"
    using assms(4) by (auto simp: sessions_sql_known_def db_sessions_known_def by_key_None)
  have "0 \<le> uint q" "uint q < 256" using uint_range_size [of q] by (simp_all add: word_size)
  then have "subs_change ?db (tv_id v) ((stored_subs ?db (tv_id v))(S := map_option (\<lambda>u. word_of_int (du_qos u)) (Some ?u))) ?db'"
    using S t new old_subs [OF ok] topics_okD(3) [OF ok(2)] by (intro subs_change_rows [OF ok refl]) (auto simp: by_key_append)
  then have C: "subs_change ?db (tv_id v) ((tv_subs v)(S \<mapsto> q)) ?db'" by (simp add: t(2))
  then have "foreign_keys_ok ?db'" by (simp add: subs_change_def db_okD(6))
  then have "yields now (sql_persist_subscribe env S (tv_id v) q) p (interact_result broker_no_query (Inr True)) ?db'"
    unfolding sql_persist_subscribe_def
    by (intro topic_call [OF works all_tables(3) [OF ok(1)]]) (auto intro: yields_return_at)
  from yields_result [OF this call] C show "subs_change ?db (tv_id v) ((tv_subs v)(S \<mapsto> q)) (sq_db p')" by simp
qed

lemma sql_update_subscription:
  assumes works: "sql_works env now" and "topic_store_ok p" and "topic_sql_view p n = Some v" and "tv_subs v S \<noteq> None"
    and call: "sql_persist_update_subscribe env S (tv_id v) q p = (r, p')"
  shows "topic_store_ok p' \<and> sessions_sql_known p' = sessions_sql_known p \<and>
    topic_sql_view p' = (case r of Inl _ \<Rightarrow> topic_sql_view p | Inr _ \<Rightarrow> (topic_sql_view p)(n \<mapsto> v\<lparr>tv_subs := (tv_subs v)(S \<mapsto> q)\<rparr>))"
proof -
  let ?db = "sq_db p" and ?f = "\<lambda>u. u\<lparr>du_qos := uint q\<rparr>" and ?k = "\<lambda>u. (du_session_id u, du_topic_id u)"
  let ?us = "map (\<lambda>u. if du_session_id u = S \<and> du_topic_id u = tv_id v then ?f u else u) (db_subscriptions ?db)"
  let ?db' = "?db\<lparr>db_subscriptions := ?us\<rparr>"
  have ok: "db_ok ?db" "topics_ok ?db" using assms(2) by (simp_all add: topic_store_ok_def)
  obtain t where t: "t \<in> set (db_topics ?db)" "v = topic_of_row ?db t"
    using assms(3) unfolding topic_sql_view_def by (rule topic_viewE)
  obtain u where u: "by_key ?k (db_subscriptions ?db) (S, tv_id v) = Some u"
    using assms(4) by (auto simp: t(2) stored_subs_def)
  have "map ?k ?us = map ?k (db_subscriptions ?db)" by simp
  with topics_okD(3) [OF ok(2)] have keys: "distinct (map ?k ?us)" by (simp only:)
  have "by_key ?k ?us = (by_key ?k (db_subscriptions ?db))((S, tv_id v) := map_option ?f (by_key ?k (db_subscriptions ?db) (S, tv_id v)))"
    using by_key_map [of ?k ?f "(S, tv_id v)" "db_subscriptions ?db"] by simp
  moreover have "0 \<le> uint q" "uint q < 256" using uint_range_size [of q] by (simp_all add: word_size)
  ultimately have "subs_change ?db (tv_id v) ((stored_subs ?db (tv_id v))(S := map_option (\<lambda>u. word_of_int (du_qos u)) (Some (?f u)))) ?db'"
    using old_subs [OF ok] keys u t by (intro subs_change_rows [OF ok refl]) auto
  then have C: "subs_change ?db (tv_id v) ((tv_subs v)(S \<mapsto> q)) ?db'" by (simp add: t(2))
  then have "foreign_keys_ok ?db'" by (simp add: subs_change_def db_okD(6))
  then have "yields now (sql_persist_update_subscribe env S (tv_id v) q) p (interact_result broker_no_query (Inr True)) ?db'"
    unfolding sql_persist_update_subscribe_def
    by (intro topic_call [OF works all_tables(3) [OF ok(1)]]) (auto intro: yields_return_at)
  from yields_result [OF this call] subs_change_shown [OF assms(2,3), of "(tv_subs v)(S \<mapsto> q)" p'] C show ?thesis by simp
qed

lemma sql_remove_subscription:
  assumes works: "sql_works env now" and "topic_store_ok p" and "topic_sql_view p n = Some v"
    and call: "sql_persist_unsubscribe env S (tv_id v) p = (Inr b, p')"
  shows "topic_store_ok p' \<and> sessions_sql_known p' = sessions_sql_known p \<and>
    topic_sql_view p' = (topic_sql_view p)(n \<mapsto> v\<lparr>tv_subs := (tv_subs v)(S := None)\<rparr>)"
proof (rule subs_change_shown [OF assms(2,3)])
  let ?db = "sq_db p" and ?k = "\<lambda>u. (du_session_id u, du_topic_id u)"
  let ?us = "filter (\<lambda>u. \<not> (du_session_id u = S \<and> du_topic_id u = tv_id v)) (db_subscriptions ?db)"
  let ?db' = "?db\<lparr>db_subscriptions := ?us\<rparr>"
  have ok: "db_ok ?db" "topics_ok ?db" using assms(2) by (simp_all add: topic_store_ok_def)
  obtain t where t: "t \<in> set (db_topics ?db)" "v = topic_of_row ?db t"
    using assms(3) unfolding topic_sql_view_def by (rule topic_viewE)
  have "by_key ?k ?us = (by_key ?k (db_subscriptions ?db))((S, tv_id v) := None)"
    using by_key_filter [of ?k "(S, tv_id v)" "db_subscriptions ?db"] by simp
  then have "subs_change ?db (tv_id v) ((stored_subs ?db (tv_id v))(S := map_option (\<lambda>u. word_of_int (du_qos u)) (None :: subscription_row option))) ?db'"
    using old_subs [OF ok] topics_okD(3) [OF ok(2)] by (intro subs_change_rows [OF ok refl]) (auto intro: distinct_map_filter)
  then have C: "subs_change ?db (tv_id v) ((tv_subs v)(S := None)) ?db'" by (simp add: t(2))
  then have "foreign_keys_ok ?db'" by (simp add: subs_change_def db_okD(6))
  then have "yields now (sql_persist_unsubscribe env S (tv_id v)) p (interact_result broker_no_query (Inr True)) ?db'"
    unfolding sql_persist_unsubscribe_def
    by (intro topic_call [OF works all_tables(3) [OF ok(1)]]) (auto intro: yields_return_at)
  from yields_result [OF this call] C show "subs_change ?db (tv_id v) ((tv_subs v)(S := None)) (sq_db p')" by simp
qed

end
