(* ===== verification/Sql_Retained.thy ===== *)
theory Sql_Retained
  imports Sql_Topics
begin

text \<open>
  The retained messages and the loading of topics over SQL, and from it all that the SQL storage
  keeps the promises of a topic storage.
\<close>

section \<open>Retained messages\<close>

text \<open>The row of a topic gets the id of another message, or none.\<close>

lemma somes_update:
  assumes "distinct (map key xs)" and "distinct (somes (map f xs))" and "\<And>i. v = Some i \<Longrightarrow> i \<notin> set (somes (map f xs))"
  shows "distinct (somes (map (\<lambda>x. if key x = k then v else f x) xs)) \<and>
    set (somes (map (\<lambda>x. if key x = k then v else f x) xs)) \<subseteq> set (somes (map f (filter (\<lambda>x. key x \<noteq> k) xs))) \<union> set_option v"
  using assms
proof (induction xs)
  case (Cons x xs)
  then have IH: "distinct (somes (map (\<lambda>x. if key x = k then v else f x) xs))"
    "set (somes (map (\<lambda>x. if key x = k then v else f x) xs)) \<subseteq> set (somes (map f (filter (\<lambda>x. key x \<noteq> k) xs))) \<union> set_option v"
    by (cases "f x"; auto)+
  show ?case
  proof (cases "key x = k")
    case True
    then have "map (\<lambda>x. if key x = k then v else f x) xs = map f xs" using Cons.prems(1) by (auto simp: image_iff)
    moreover have "filter (\<lambda>x. key x \<noteq> k) xs = xs" using Cons.prems(1) True by (auto simp: filter_id_conv image_iff)
    ultimately show ?thesis using Cons.prems(2,3) True IH by (cases v; cases "f x") auto
  next
    case False
    then show ?thesis using Cons.prems IH by (cases v; cases "f x") auto
  qed
qed simp

definition retained_set_to :: "database \<Rightarrow> int \<Rightarrow> int option \<Rightarrow> database" where
  "retained_set_to db i mi = snd (set_retained_row i mi db)"

lemma retained_set_to_simps [simp]:
  "db_sessions (retained_set_to db i mi) = db_sessions db" "db_messages (retained_set_to db i mi) = db_messages db"
  "db_subscriptions (retained_set_to db i mi) = db_subscriptions db" "db_qosin (retained_set_to db i mi) = db_qosin db"
  "db_qosout (retained_set_to db i mi) = db_qosout db" "db_tables (retained_set_to db i mi) = db_tables db"
  "map dt_id (db_topics (retained_set_to db i mi)) = map dt_id (db_topics db)"
  "map dt_topic (db_topics (retained_set_to db i mi)) = map dt_topic (db_topics db)"
  by (simp_all add: retained_set_to_def set_retained_row_def)

lemma retained_set_to_ids [simp]: "dt_id ` set (db_topics (retained_set_to db i mi)) = dt_id ` set (db_topics db)"
  by (metis list.set_map retained_set_to_simps(7))

lemma retained_set_to_ok:
  assumes "db_ok db" and "topics_ok db" and "\<And>m. mi = Some m \<Longrightarrow> m \<notin> set (owned db) \<and> m \<in> dm_id ` set (db_messages db) \<and> get_i32 m = Some m"
  shows "db_ok (retained_set_to db i mi)" and "topics_ok (retained_set_to db i mi)"
    and "set (owned (retained_set_to db i mi)) \<subseteq> set (owned db) \<union> set_option mi"
    and "t \<in> set (db_topics db) \<Longrightarrow> dt_id t = i \<Longrightarrow> dt_retained_message_id t = Some m \<Longrightarrow> mi \<noteq> Some m \<Longrightarrow> m \<notin> set (owned (retained_set_to db i mi))"
proof -
  let ?db' = "retained_set_to db i mi"
  from db_okD(7) [OF assms(1)] have dist: "distinct (somes (map dt_retained_message_id (db_topics db)))"
    "distinct (somes (map do_message_id (db_qosout db)))"
    "set (somes (map dt_retained_message_id (db_topics db))) \<inter> set (somes (map do_message_id (db_qosout db))) = {}"
    by (simp_all add: owned_def)
  have rows: "map dt_retained_message_id (db_topics ?db') = map (\<lambda>r. if dt_id r = i then mi else dt_retained_message_id r) (db_topics db)"
    by (simp add: retained_set_to_def set_retained_row_def)
  have "m \<notin> set (somes (map dt_retained_message_id (db_topics db)))" if "mi = Some m" for m
    using assms(3) [OF that] by (simp add: owned_def)
  from somes_update [OF db_okD(4) [OF assms(1)] dist(1) this, where k = i]
  have new: "distinct (somes (map dt_retained_message_id (db_topics ?db')))"
    "set (somes (map dt_retained_message_id (db_topics ?db'))) \<subseteq>
       set (somes (map dt_retained_message_id (filter (\<lambda>r. dt_id r \<noteq> i) (db_topics db)))) \<union> set_option mi"
    unfolding rows by blast+
  have old: "set (somes (map dt_retained_message_id (filter (\<lambda>r. dt_id r \<noteq> i) (db_topics db)))) \<subseteq>
      set (somes (map dt_retained_message_id (db_topics db)))" by auto
  with new(2) have new': "set (somes (map dt_retained_message_id (db_topics ?db'))) \<subseteq>
      set (somes (map dt_retained_message_id (db_topics db))) \<union> set_option mi" by blast
  then show sub: "set (owned ?db') \<subseteq> set (owned db) \<union> set_option mi"
    unfolding owned_def set_append retained_set_to_simps by blast
  have "set_option mi \<inter> set (somes (map do_message_id (db_qosout db))) = {}"
    using assms(3) by (cases mi) (simp_all add: owned_def)
  with new' dist(3) have "set (somes (map dt_retained_message_id (db_topics ?db'))) \<inter> set (somes (map do_message_id (db_qosout db))) = {}"
    by blast
  then have distinct: "distinct (owned ?db')"
    using new(1) dist(2) unfolding owned_def distinct_append retained_set_to_simps by blast
  have "foreign_keys_ok ?db'"
    using db_okD(6) [OF assms(1)] sub assms(3) unfolding foreign_keys_owned by (cases mi) auto
  with distinct sub assms(1,3) show "db_ok ?db'" by (cases mi) (auto simp: db_ok_def)
  have "get_i32 (dt_id t) = Some (dt_id t)" if "t \<in> set (db_topics ?db')" for t
  proof -
    from that have "dt_id t \<in> dt_id ` set (db_topics db)" by (metis imageI retained_set_to_ids)
    with topics_okD(4) [OF assms(2)] show ?thesis by auto
  qed
  with assms(2) show "topics_ok ?db'" by (simp add: topics_ok_def)
  show "m \<notin> set (owned ?db')" if "t \<in> set (db_topics db)" "dt_id t = i" "dt_retained_message_id t = Some m" "mi \<noteq> Some m"
  proof -
    have "Some m \<notin> dt_retained_message_id ` set (filter (\<lambda>r. dt_id r \<noteq> i) (db_topics db))"
      using somes_filter [OF dist(1), of "\<lambda>r. dt_id r \<noteq> i"] that by blast
    then have "m \<notin> set (somes (map dt_retained_message_id (db_topics ?db')))" using new(2) that(4) by auto
    moreover have "m \<notin> set (somes (map do_message_id (db_qosout db)))" using dist(3) that(1,3) by force
    ultimately show ?thesis by (simp add: owned_def)
  qed
qed

lemma retained_shown:
  assumes "topic_store_ok p" and "topic_sql_view p n = Some v"
    and "db_ok db'" and "topics_ok db'" and "db_sessions db' = db_sessions (sq_db p)" and "db_subscriptions db' = db_subscriptions (sq_db p)"
    and "db_topics db' = db_topics (retained_set_to (sq_db p) (tv_id v) mi)"
    and "\<And>r j. r \<in> set (db_topics (sq_db p)) \<Longrightarrow> dt_topic r \<noteq> n \<Longrightarrow> dt_retained_message_id r = Some j \<Longrightarrow>
      message_rows j db' = message_rows j (sq_db p)"
    and "sq_db p' = db'"
  shows "topic_store_ok p' \<and> sessions_sql_known p' = sessions_sql_known p \<and>
    topic_sql_view p' = (topic_sql_view p)(n \<mapsto> v\<lparr>tv_retained := stored_retained db' mi\<rparr>)"
proof -
  let ?db = "sq_db p" and ?f = "\<lambda>r. r\<lparr>dt_retained_message_id := mi\<rparr>"
  have ok: "db_ok ?db" "topics_ok ?db" using assms(1) by (simp_all add: topic_store_ok_def)
  obtain t where t: "t \<in> set (db_topics ?db)" "dt_topic t = n" "v = topic_of_row ?db t" "by_key dt_topic (db_topics ?db) n = Some t"
    using assms(2) unfolding topic_sql_view_def by (rule topic_viewE)
  have "db_topics db' = map (\<lambda>r. if dt_topic r = n then ?f r else r) (db_topics ?db)"
    using row_by_id [OF ok t(1)] t(2,3) by (simp add: assms(7) retained_set_to_def set_retained_row_def cong: map_cong)
  with by_key_map [of dt_topic ?f n "db_topics ?db"] t(4)
  have rows: "by_key dt_topic (db_topics db') = (by_key dt_topic (db_topics ?db))(n \<mapsto> ?f t)" by simp
  have subs: "stored_subs db' = stored_subs ?db" by (simp add: stored_subs_def fun_eq_iff assms(6))
  have "topic_of_row db' r = topic_of_row ?db r" if "by_key dt_topic (db_topics ?db) m = Some r" "m \<noteq> n" for r m
    using assms(8) [of r] by_key_in [OF that(1)] that(2)
    by (auto simp: topic_of_row_def subs stored_retained_def split: option.split)
  then have "db_topic_view db' = (db_topic_view ?db)(n \<mapsto> topic_of_row db' (?f t))"
    by (intro ext) (auto simp: db_topic_view_def rows option.map_comp intro: option.map_cong)
  moreover have "topic_of_row db' (?f t) = v\<lparr>tv_retained := stored_retained db' mi\<rparr>" by (simp add: topic_of_row_def subs t(3))
  ultimately show ?thesis using assms(3-5,9)
    by (simp add: topic_store_ok_def topic_sql_view_def sessions_sql_known_def db_sessions_known_def fun_eq_iff)
qed

text \<open>The two statements of \<open>persist_retain\<close>.\<close>

lemma persist_retain_yields:
  assumes works: "sql_works env now" and "db_ok (sq_db p)"
    and ins: "insert_message_row (pub_qos m) (pub_topic m) (pub_message m) (sq_db p) = (i, db1)"
    and good: "get_i32 i = Some i \<Longrightarrow> db_ok (retained_set_to db1 tid (Some i))"
  shows "yields now (sql_persist_retain env tid m) p
      (case get_i32 i of None \<Rightarrow> Inl (Broker_PersistError ''Message retain failed'') | Some j \<Rightarrow> Inr j)
      (case get_i32 i of None \<Rightarrow> db1 | Some j \<Rightarrow> retained_set_to db1 tid (Some i))"
proof -
  let ?err = "Broker_PersistError ''Message retain failed''" and ?db2 = "retained_set_to db1 tid (Some i)"
  note M = insert_message_effect [OF assms(2) ins]
  have "yields now (sql_persist_retain env tid m) p
      (interact_result broker_no_query (case get_i32 i of None \<Rightarrow> Inl (Failed ?err) | Some j \<Rightarrow> Inr j)) (case get_i32 i of None \<Rightarrow> db1 | Some j \<Rightarrow> ?db2)"
    unfolding sql_persist_retain_def Let_def
  proof (rule topic_call [where f = "insert_message_row (pub_qos m) (pub_topic m) (pub_message m)",
        OF works all_tables(2) [OF assms(2)] ins db_okD(6) [OF conjunct1 [OF M]]])
    fix w
    show "yields now (act_bind (or_error ?err (act_return (get_i32 i))) (\<lambda>retid.
         act_bind (or_error ?err (sql_execute env [Tab_topics] (set_retained_row tid (Some retid)))) (\<lambda>_.
         act_return retid))) \<lparr>sq_db = db1, sq_world = w\<rparr> (case get_i32 i of None \<Rightarrow> Inl (Failed ?err) | Some j \<Rightarrow> Inr j) (case get_i32 i of None \<Rightarrow> db1 | Some j \<Rightarrow> ?db2)"
    proof (cases "get_i32 i")
      case None
      show ?thesis unfolding None option.case
        by (rule yields_bind_error, rule yields_pick_at [where x = None, unfolded option.case])
    next
      case (Some j)
      then have j: "j = i" by (rule get_i32_same)
      have "set [Tab_topics] \<subseteq> set (db_tables db1)" using db_okD(1) [OF conjunct1 [OF M]] by simp
      moreover have "set_retained_row tid (Some i) db1 = ((), ?db2)" by (simp add: retained_set_to_def set_retained_row_def)
      moreover have "foreign_keys_ok ?db2" using good Some j db_okD(6) by blast
      ultimately have "yields now (act_bind (or_error ?err (sql_execute env [Tab_topics] (set_retained_row tid (Some i)))) (\<lambda>_.
         act_return i)) \<lparr>sq_db = db1, sq_world = w\<rparr> (Inr i) ?db2" for w
        by (intro yields_bind [OF yields_or_error(1) [OF yields_execute [OF works]]]) (auto intro: yields_return_at)
      then show ?thesis unfolding Some option.case j
        by (intro yields_bind [OF yields_pick_at [where x = "Some i", unfolded option.case]])
    qed
  qed
  then show ?thesis by (simp split: option.splits)
qed

lemma sql_add_retained:
  assumes works: "sql_works env now" and "topic_store_ok p" and "topic_sql_view p n = Some v"
    and call: "sql_persist_retain env (tv_id v) m p = (Inr a, p')"
  shows "topic_store_ok p' \<and> sessions_sql_known p' = sessions_sql_known p \<and>
    (\<exists>mid. topic_sql_view p' = (topic_sql_view p)(n \<mapsto> v\<lparr>tv_retained := Some (mid, stored_publish m)\<rparr>))"
proof -
  let ?db = "sq_db p"
  have ok: "db_ok ?db" "topics_ok ?db" using assms(2) by (simp_all add: topic_store_ok_def)
  obtain i db1 where ins: "insert_message_row (pub_qos m) (pub_topic m) (pub_message m) ?db = (i, db1)" by fastforce
  note M = insert_message_effect [OF ok(1) ins]
  have db1: "db1 = ?db\<lparr>db_messages := db_messages ?db @ [\<lparr>dm_id = i, dm_qos = uint (pub_qos m), dm_topic = pub_topic m, dm_payload = pub_message m\<rparr>]\<rparr>"
    using ins by (auto simp: insert_message_row_def Let_def)
  have qos: "0 \<le> uint (pub_qos m)" "uint (pub_qos m) < 256" using uint_range_size [of "pub_qos m"] by (simp_all add: word_size)
  then have ok1: "topics_ok db1" using ok(2) by (simp add: topics_ok_def db1)
  let ?db2 = "retained_set_to db1 (tv_id v) (Some i)"
  have good: "db_ok ?db2" "topics_ok ?db2" if "get_i32 i = Some i"
    by (rule retained_set_to_ok [OF conjunct1 [OF M] ok1]; use M that in auto)+
  from yields_result [OF persist_retain_yields [OF works ok(1) ins good(1)] call]
  have i: "get_i32 i = Some i" and p': "sq_db p' = ?db2"
    using get_i32_same by (auto split: option.splits)
  have same: "message_rows j ?db2 = message_rows j ?db"
    if r: "r \<in> set (db_topics ?db)" "dt_retained_message_id r = Some j" for r j
  proof -
    have "j \<in> set (owned ?db)" using r by (force simp: owned_def)
    with M have "j \<noteq> i" by auto
    then show ?thesis by (simp add: message_rows_def db1)
  qed
  have "message_rows i ?db2 = message_rows i db1" by (simp add: message_rows_def)
  with M have "message_rows i ?db2 = [\<lparr>dm_id = i, dm_qos = uint (pub_qos m), dm_topic = pub_topic m, dm_payload = pub_message m\<rparr>]" by simp
  with get_i16_qos [OF qos] have "stored_retained ?db2 (Some i) = Some (i, stored_publish m)"
    by (simp add: stored_retained_def stored_message_def stored_publish_def)
  moreover have "db_topics ?db2 = db_topics (retained_set_to ?db (tv_id v) (Some i))"
    by (simp add: retained_set_to_def set_retained_row_def db1)
  ultimately show ?thesis
    using retained_shown [OF assms(2,3) good [OF i], of "Some i" p'] p' same by (auto simp: db1)
qed

text \<open>The transaction of \<open>persist_delete_retain\<close>.\<close>

lemma delete_retain_yields:
  fixes p :: "'w sql_store" and tid :: int
  defines "db1 \<equiv> retained_set_to (sq_db p) tid None"
  defines "db2 \<equiv> \<lambda>mi. case mi of None \<Rightarrow> db1 | Some i \<Rightarrow> snd (delete_message_row i db1)"
  assumes works: "sql_works env now" and "db_ok (sq_db p)" and "topics_ok (sq_db p)"
    and t: "t \<in> set (db_topics (sq_db p))" "dt_id t = tid"
    and good: "db_ok db1" "db_ok (db2 (dt_retained_message_id t))"
  shows "yields now (sql_persist_delete_retain env tid) p (Inr ()) (db2 (dt_retained_message_id t))"
proof -
  let ?db = "sq_db p" and ?mi = "dt_retained_message_id t"
  have tabs: "set [Tab_topics] \<subseteq> set (db_tables ?db)" "set [Tab_topics] \<subseteq> set (db_tables db1)" "set [Tab_messages] \<subseteq> set (db_tables db1)"
    using all_tables [OF assms(4)] all_tables [OF good(1)] by blast+
  have "by_key dt_id (db_topics ?db) tid = Some t"
    using t db_okD(4) [OF assms(4)] by (simp add: by_key_Some)
  then have rows: "filter (\<lambda>r. dt_id r = tid) (db_topics ?db) = [t]"
    using filter_by_key [OF db_okD(4) [OF assms(4)], of tid] by simp
  have mid: "get_i32_opt ?mi = Some ?mi"
    using t db_okD(8) [OF assms(4)] by (cases ?mi) (force simp: get_i32_opt_def owned_def)+
  have last_step: "yields now (case ?mi of
             Some mid \<Rightarrow> or_error (Broker_PersistError ''Delete retained message failed'')
               (sql_execute env [Tab_messages] (delete_message_row mid))
           | None \<Rightarrow> act_return ()) \<lparr>sq_db = db1, sq_world = w\<rparr> (Inr ()) (db2 ?mi)" for w
  proof (cases ?mi)
    case None
    then show ?thesis by (simp add: db2_def yields_return_at)
  next
    case (Some i)
    then have "delete_message_row i db1 = ((), db2 ?mi)" by (simp add: db2_def delete_message_row_def)
    then show ?thesis unfolding Some option.case
      by (intro yields_or_error(1) yields_execute [OF works]) (use tabs(3) db_okD(6) [OF good(2)] Some in auto)
  qed
  let ?body = "act_bind (sql_execute env [Tab_topics]
             (sql_select (\<lambda>db. map dt_retained_message_id (filter (\<lambda>r. dt_id r = tid) (db_topics db))))) (\<lambda>rows.
           act_bind (or_error (Broker_PersistError ''Delete retained message getting message id failed'')
             (act_return (case rows of Some (v # _) \<Rightarrow> get_i32_opt v | _ \<Rightarrow> None))) (\<lambda>message_id.
           act_bind (or_error (Broker_PersistError ''Delete retained message from topic failed'')
             (sql_execute env [Tab_topics] (set_retained_row tid None))) (\<lambda>_.
           case message_id of
             Some mid \<Rightarrow> or_error (Broker_PersistError ''Delete retained message failed'')
               (sql_execute env [Tab_messages] (delete_message_row mid))
           | None \<Rightarrow> act_return ())))"
  have select: "yields now (sql_execute env [Tab_topics] (sql_select (\<lambda>db. map dt_retained_message_id (filter (\<lambda>r. dt_id r = tid) (db_topics db)))))
      \<lparr>sq_db = ?db, sq_world = w\<rparr> (Inr (Some [?mi])) ?db" for w
    by (rule yields_execute [OF works]) (use tabs(1) in \<open>simp_all add: sql_select_def rows\<close>)
  have unset: "yields now (or_error e (sql_execute env [Tab_topics] (set_retained_row tid None))) \<lparr>sq_db = ?db, sq_world = w\<rparr> (Inr ()) db1" for w e
    by (intro yields_or_error(1) yields_execute [OF works])
      (use tabs(1) db_okD(6) [OF good(1)] in \<open>simp_all add: db1_def retained_set_to_def set_retained_row_def\<close>)
  have body: "yields now ?body \<lparr>sq_db = ?db, sq_world = w\<rparr> (Inr ()) (db2 ?mi)" for w
    by (rule yields_bind [OF select], unfold option.case list.case mid,
        rule yields_bind [OF yields_pick_at [where x = "Some ?mi", unfolded option.case]],
        rule yields_bind [OF unset], rule last_step)
  have "yields now (sql_transaction env e1 e2 ?body) \<lparr>sq_db = ?db, sq_world = w\<rparr> (Inr ()) (db2 ?mi)" for w e1 e2
    using yields_transaction [OF works, of "\<lparr>sq_db = ?db, sq_world = w\<rparr>" ?body "Inr ()" "db2 ?mi" e1 e2] body by simp
  then have "yields now (sql_persist_delete_retain env tid) p (interact_result broker_no_query (Inr ())) (db2 ?mi)"
    unfolding sql_persist_delete_retain_def by (intro yields_interact [OF works])
  then show ?thesis by simp
qed

lemma sql_remove_retained:
  assumes works: "sql_works env now" and "topic_store_ok p" and "topic_sql_view p n = Some v"
    and call: "sql_persist_delete_retain env (tv_id v) p = (Inr u, p')"
  shows "topic_store_ok p' \<and> sessions_sql_known p' = sessions_sql_known p \<and>
    topic_sql_view p' = (topic_sql_view p)(n \<mapsto> v\<lparr>tv_retained := None\<rparr>)"
proof -
  let ?db = "sq_db p"
  let ?db1 = "retained_set_to ?db (tv_id v) None"
  have ok: "db_ok ?db" "topics_ok ?db" using assms(2) by (simp_all add: topic_store_ok_def)
  obtain t where t: "t \<in> set (db_topics ?db)" "dt_topic t = n" "v = topic_of_row ?db t"
    using assms(3) unfolding topic_sql_view_def by (rule topic_viewE)
  let ?db2 = "case dt_retained_message_id t of None \<Rightarrow> ?db1 | Some i \<Rightarrow> snd (delete_message_row i ?db1)"
  have ok1: "db_ok ?db1" "topics_ok ?db1" by (rule retained_set_to_ok [OF ok]; simp)+
  have ok2: "db_ok ?db2 \<and> topics_ok ?db2 \<and> db_topics ?db2 = db_topics ?db1 \<and> db_sessions ?db2 = db_sessions ?db \<and>
      db_subscriptions ?db2 = db_subscriptions ?db"
  proof (cases "dt_retained_message_id t")
    case None
    with ok1 show ?thesis by simp
  next
    case (Some i)
    have "i \<notin> set (owned ?db1)"
      using retained_set_to_ok(4) [OF ok, of None t "tv_id v" i] t Some by simp
    from delete_message_effect [OF ok1(1) this, of "()" "snd (delete_message_row i ?db1)"] Some
    have "db_ok ?db2" by (simp add: prod_eq_iff)
    moreover have "topics_ok ?db2" using ok1(2) by (simp add: Some delete_message_row_def topics_ok_def)
    ultimately show ?thesis by (simp add: Some delete_message_row_def)
  qed
  have "yields now (sql_persist_delete_retain env (tv_id v)) p (Inr ()) ?db2"
    by (rule delete_retain_yields [OF works ok t(1)]) (use t(3) ok1 ok2 in simp_all)
  from yields_result [OF this call] have p': "sq_db p' = ?db2" by simp
  have "message_rows j ?db2 = message_rows j ?db"
    if r: "r \<in> set (db_topics ?db)" "dt_topic r \<noteq> n" "dt_retained_message_id r = Some j" for r j
  proof (cases "dt_retained_message_id t")
    case (Some i)
    have "i \<noteq> j"
    proof
      assume "i = j"
      have "dt_id r \<noteq> tv_id v" using row_by_id [OF ok t(1) r(1)] r(2) t(2,3) by simp
      then have "Some j \<in> dt_retained_message_id ` set (filter (\<lambda>r. dt_id r \<noteq> tv_id v) (db_topics ?db))"
        using r(1,3) by (intro image_eqI [of _ _ r]) simp_all
      moreover have "distinct (somes (map dt_retained_message_id (db_topics ?db)))"
        using db_okD(7) [OF ok(1)] by (simp add: owned_def)
      ultimately show False
        using somes_filter [of dt_retained_message_id "db_topics ?db" "\<lambda>r. dt_id r \<noteq> tv_id v"] t(1,3) Some \<open>i = j\<close> by auto
    qed
    then show ?thesis by (simp add: Some delete_message_row_def message_rows_def conj_commute) (auto intro!: filter_cong)
  qed (simp add: message_rows_def)
  then show ?thesis
    using retained_shown [OF assms(2,3), of ?db2 None p'] ok2 p' by (simp add: stored_retained_def)
qed

section \<open>Loading\<close>

lemma those_map_Some: "(\<And>x. x \<in> set xs \<Longrightarrow> f x = Some (g x)) \<Longrightarrow> those (map f xs) = Some (map g xs)"
  by (induction xs) auto

lemma yields_unwrap: "x = Some a \<Longrightarrow> yields now (act_unwrap x) \<lparr>sq_db = db, sq_world = w\<rparr> (Inr a) db"
  by (rule yieldsI [of _ _ _ _ w]) simp_all

lemma yields_state:
  assumes "yields now call p (Inr a) (sq_db p)" and "topic_store_ok p"
  shows "\<exists>p'. call p = (Inr a, p') \<and> topic_store_ok p' \<and> sessions_sql_known p' = sessions_sql_known p \<and> topic_sql_view p' = topic_sql_view p"
  using assms by (auto simp: yields_def topic_store_ok_def sessions_sql_known_def topic_sql_view_def)

lemma load_call:
  assumes works: "sql_works env now" and ok: "db_ok (sq_db p)" and tables: "set tables \<subseteq> set (db_tables (sq_db p))" and x: "f (sq_db p) = rows"
    and g: "\<And>w. yields now (g rows) \<lparr>sq_db = sq_db p, sq_world = w\<rparr> (Inr a) (sq_db p)"
  shows "yields now (sql_interact env e1 e2 (act_bind (or_error e (sql_execute env tables (sql_select f))) g)) p (Inr a) (sq_db p)"
  using topic_call [OF works tables, of "sql_select f" rows "sq_db p" g "Inr a" "sq_db p" e1 e2 e] x db_okD(6) [OF ok] g
  by (simp add: sql_select_def)

lemma sql_load_topics:
  assumes works: "sql_works env now" and "topic_store_ok p"
  shows "\<exists>ts p'. sql_load_persistent_topics env p = (Inr ts, p') \<and>
    topic_store_ok p' \<and> sessions_sql_known p' = sessions_sql_known p \<and> topic_sql_view p' = topic_sql_view p \<and> lists_topics (topic_sql_view p) ts"
proof -
  let ?db = "sq_db p" and ?g = "\<lambda>r. \<lparr>pt_topic_id = dt_id r, pt_topic_name = dt_topic r, pt_retained_message_id = dt_retained_message_id r\<rparr>"
  have ok: "db_ok ?db" "topics_ok ?db" using assms(2) by (simp_all add: topic_store_ok_def)
  have opt: "get_i32_opt (dt_retained_message_id r) = Some (dt_retained_message_id r)" if "r \<in> set (db_topics ?db)" for r
    using db_okD(8) [OF ok(1)] that by (cases "dt_retained_message_id r") (force simp: get_i32_opt_def owned_def)+
  have "yields now (sql_load_persistent_topics env) p (Inr (map ?g (db_topics ?db))) ?db"
    unfolding sql_load_persistent_topics_def
    by (rule load_call [OF works ok(1) all_tables(1) [OF ok(1)] refl], rule yields_unwrap, rule those_map_Some)
      (simp add: topics_okD(4) [OF ok(2)] opt)
  from yields_state [OF this assms(2)] obtain p' where "sql_load_persistent_topics env p = (Inr (map ?g (db_topics ?db)), p')"
    "topic_store_ok p'" "sessions_sql_known p' = sessions_sql_known p" "topic_sql_view p' = topic_sql_view p" by blast
  moreover have "lists_topics (topic_sql_view p) (map ?g (db_topics ?db))"
    unfolding lists_topics_def
  proof (intro conjI ballI)
    show "distinct (map pt_topic_name (map ?g (db_topics ?db)))" using topics_okD(1) [OF ok(2)] by (simp add: o_def)
    show "dom (topic_sql_view p) \<subseteq> pt_topic_name ` set (map ?g (db_topics ?db))"
      by (force simp: topic_sql_view_def elim: topic_viewE)
    fix t assume "t \<in> set (map ?g (db_topics ?db))"
    then obtain r where r: "r \<in> set (db_topics ?db)" "t = ?g r" by auto
    have "by_key dt_topic (db_topics ?db) (dt_topic r) = Some r" using r(1) topics_okD(1) [OF ok(2)] by (simp add: by_key_Some)
    moreover have "dt_retained_message_id r = map_option fst (stored_retained ?db (dt_retained_message_id r))"
    proof (cases "dt_retained_message_id r")
      case (Some i)
      from stored_retained_Some [OF ok r(1) Some] Some show ?thesis by force
    qed (simp add: stored_retained_def)
    ultimately show "\<exists>v. topic_sql_view p (pt_topic_name t) = Some v \<and> pt_topic_id t = tv_id v \<and> pt_retained_message_id t = map_option fst (tv_retained v)"
      by (simp add: r(2) topic_sql_view_def db_topic_view_def)
  qed
  ultimately show ?thesis by blast
qed

lemma sql_load_message:
  assumes works: "sql_works env now" and "topic_store_ok p" and "topic_sql_view p n = Some v" and "tv_retained v = Some (mid, m)"
  shows "\<exists>p'. sql_load_persistent_message env mid p = (Inr m, p') \<and> topic_store_ok p' \<and>
    sessions_sql_known p' = sessions_sql_known p \<and> topic_sql_view p' = topic_sql_view p"
proof -
  let ?db = "sq_db p"
  have ok: "db_ok ?db" "topics_ok ?db" using assms(2) by (simp_all add: topic_store_ok_def)
  obtain t where t: "t \<in> set (db_topics ?db)" "v = topic_of_row ?db t"
    using assms(3) unfolding topic_sql_view_def by (rule topic_viewE)
  obtain i where i: "dt_retained_message_id t = Some i"
    using assms(4) by (cases "dt_retained_message_id t") (auto simp: t(2) stored_retained_def)
  obtain r m' where r: "message_rows i ?db = [r]" "stored_message r = Some m'" "stored_retained ?db (Some i) = Some (i, m')"
    using stored_retained_Some [OF ok t(1) i] by blast
  with assms(4) have "i = mid" "m' = m" by (simp_all add: t(2) i)
  with r have r: "message_rows mid ?db = [r]" "stored_message r = Some m" by simp_all
  have "yields now (sql_load_persistent_message env mid) p (interact_result broker_no_query (Inr m)) ?db"
    unfolding sql_load_persistent_message_def
  proof (rule yields_interact [OF works], rule yields_bind)
    fix w w'
    show "yields now (sql_execute env [Tab_messages] (sql_select (message_rows mid))) \<lparr>sq_db = ?db, sq_world = w\<rparr> (Inr (Some [r])) ?db"
      by (rule yields_execute [OF works]) (use all_tables(2) [OF ok(1)] r in \<open>simp_all add: sql_select_def\<close>)
    show "yields now (case Some [r] of
          Some (row # _) \<Rightarrow> act_unwrap (stored_message row)
        | _ \<Rightarrow> act_fail (Failed (Broker_PersistError ''Could not load persistent messages''))) \<lparr>sq_db = ?db, sq_world = w'\<rparr> (Inr m) ?db"
      unfolding option.case list.case by (rule yields_unwrap) (rule r(2))
  qed
  then show ?thesis using yields_state assms(2) by simp
qed

lemma subscription_rows_map:
  assumes "db_ok db"
  shows "subscription_rows i db = map (\<lambda>u. (the (by_key ds_id (db_sessions db) (du_session_id u)), u))
    (filter (\<lambda>u. du_topic_id u = i) (db_subscriptions db))"
proof -
  have "map (\<lambda>s. (s, u)) (filter (\<lambda>s. ds_id s = du_session_id u) (db_sessions db)) =
      [(the (by_key ds_id (db_sessions db) (du_session_id u)), u)]" if "u \<in> set (db_subscriptions db)" for u
  proof -
    have "by_key ds_id (db_sessions db) (du_session_id u) \<noteq> None"
      using db_okD(6) [OF assms] that by (simp add: by_key_None foreign_keys_owned)
    then show ?thesis by (auto simp: filter_by_key [OF db_okD(2) [OF assms]])
  qed
  then have "concat (map (\<lambda>u. map (\<lambda>s. (s, u)) (filter (\<lambda>s. ds_id s = du_session_id u) (db_sessions db))) us) =
      map (\<lambda>u. (the (by_key ds_id (db_sessions db) (du_session_id u)), u)) us" if "set us \<subseteq> set (db_subscriptions db)" for us
    using that by (induction us) auto
  then show ?thesis by (simp add: subscription_rows_def)
qed

text \<open>The session row that goes with a subscription, and the list of both.\<close>

definition session_row_for :: "database \<Rightarrow> subscription_row \<Rightarrow> session_row" where
  "session_row_for db u = the (by_key ds_id (db_sessions db) (du_session_id u))"

definition listed_subscriptions :: "database \<Rightarrow> int \<Rightarrow> (session_id \<times> u8) list" where
  "listed_subscriptions db i = map (\<lambda>u. (session_of_row (session_row_for db u), word_of_int (du_qos u)))
     (filter (\<lambda>u. du_topic_id u = i) (db_subscriptions db))"

lemma session_row_for_there:
  assumes "db_ok db" and "u \<in> set (db_subscriptions db)"
  shows "by_key ds_id (db_sessions db) (du_session_id u) = Some (session_row_for db u)" and "ds_id (session_row_for db u) = du_session_id u"
proof -
  have "by_key ds_id (db_sessions db) (du_session_id u) \<noteq> None"
    using db_okD(6) [OF assms(1)] assms(2) by (simp add: by_key_None foreign_keys_owned)
  then show "by_key ds_id (db_sessions db) (du_session_id u) = Some (session_row_for db u)" by (simp add: session_row_for_def)
  from by_key_in [OF this] show "ds_id (session_row_for db u) = du_session_id u" by simp
qed

lemma lists_listed:
  assumes "db_ok db" and "topics_ok db"
  shows "lists_subscriptions (db_sessions_known db) (stored_subs db i) (listed_subscriptions db i)"
  unfolding lists_subscriptions_def
proof (intro conjI allI)
  let ?k = "\<lambda>u :: subscription_row. (du_session_id u, du_topic_id u)"
  let ?us = "filter (\<lambda>u. du_topic_id u = i) (db_subscriptions db)"
  have "distinct (map du_session_id ?us)"
    using topics_okD(3) [OF assms(2)] by (auto simp: distinct_map inj_on_def)
  moreover have "map sid_internal_id (map fst (listed_subscriptions db i)) = map du_session_id ?us"
    by (simp add: listed_subscriptions_def session_of_row_def session_row_for_there(2) [OF assms(1)])
  ultimately show "distinct (map fst (listed_subscriptions db i))" by (metis distinct_map)
  fix s q
  have subs: "stored_subs db i S = Some q \<longleftrightarrow> (\<exists>u \<in> set ?us. du_session_id u = S \<and> q = word_of_int (du_qos u))" for S
    using topics_okD(3) [OF assms(2)] by (auto simp: stored_subs_def by_key_Some)
  have known: "db_sessions_known db (du_session_id u) = Some s \<longleftrightarrow> s = session_of_row (session_row_for db u)" if "u \<in> set ?us" for u
    using session_row_for_there(1) [OF assms(1), of u] that by (auto simp: db_sessions_known_def)
  have "(s, q) \<in> set (listed_subscriptions db i) \<longleftrightarrow> (\<exists>u \<in> set ?us. s = session_of_row (session_row_for db u) \<and> q = word_of_int (du_qos u))"
    by (auto simp: listed_subscriptions_def)
  also have "\<dots> \<longleftrightarrow> (\<exists>u \<in> set ?us. du_session_id u = sid_internal_id s \<and>
      db_sessions_known db (sid_internal_id s) = Some s \<and> q = word_of_int (du_qos u))" (is "(\<exists>u \<in> _. ?A u) \<longleftrightarrow> (\<exists>u \<in> _. ?B u)")
  proof (rule bex_cong [OF refl])
    fix u assume u: "u \<in> set ?us"
    then have "sid_internal_id (session_of_row (session_row_for db u)) = du_session_id u"
      using session_row_for_there(2) [OF assms(1), of u] by (simp add: session_of_row_def)
    with known [OF u] show "?A u \<longleftrightarrow> ?B u" by (cases "du_session_id u = sid_internal_id s") auto
  qed
  finally show "(s, q) \<in> set (listed_subscriptions db i) \<longleftrightarrow> db_sessions_known db (sid_internal_id s) = Some s \<and> stored_subs db i (sid_internal_id s) = Some q"
    unfolding subs by blast
qed

lemma sql_load_subscriptions:
  assumes works: "sql_works env now" and "topic_store_ok p" and "topic_sql_view p n = Some v"
  shows "\<exists>ls p'. sql_load_persistent_subscriptions env (tv_id v) p = (Inr ls, p') \<and> topic_store_ok p' \<and>
    sessions_sql_known p' = sessions_sql_known p \<and> topic_sql_view p' = topic_sql_view p \<and>
    lists_subscriptions (sessions_sql_known p) (tv_subs v) ls"
proof -
  let ?db = "sq_db p" and ?ls = "listed_subscriptions (sq_db p) (tv_id v)"
  have ok: "db_ok ?db" "topics_ok ?db" using assms(2) by (simp_all add: topic_store_ok_def)
  obtain t where t: "t \<in> set (db_topics ?db)" "v = topic_of_row ?db t"
    using assms(3) unfolding topic_sql_view_def by (rule topic_viewE)
  have rows: "subscription_rows (tv_id v) ?db = map (\<lambda>u. (session_row_for ?db u, u)) (filter (\<lambda>u. du_topic_id u = tv_id v) (db_subscriptions ?db))"
    by (simp add: subscription_rows_map [OF ok(1)] session_row_for_def)
  have "get_i32 (ds_id (session_row_for ?db u)) = Some (ds_id (session_row_for ?db u))" if "u \<in> set (db_subscriptions ?db)" for u
    using topics_okD(5) [OF ok(2)] by_key_in [OF session_row_for_there(1) [OF ok(1) that]] by blast
  moreover have "get_i16 (du_qos u) = Some (du_qos u)" if "u \<in> set (db_subscriptions ?db)" for u
    using topics_okD(6) [OF ok(2) that] by (simp add: get_i16_qos)
  ultimately have "those (map (\<lambda>(s, u).
          Option.bind (get_i32 (ds_id s)) (\<lambda>session_internal_id.
          Option.bind (get_i16 (du_qos u)) (\<lambda>qos.
          Some (\<lparr>sid_session = ds_name s, sid_internal_id = session_internal_id, sid_generation = ds_generation s\<rparr>,
                word_of_int qos :: u8)))) (subscription_rows (tv_id v) ?db)) = Some ?ls"
    unfolding rows listed_subscriptions_def map_map by (intro those_map_Some) (simp add: session_of_row_def)
  then have "yields now (sql_load_persistent_subscriptions env (tv_id v)) p (Inr ?ls) ?db"
    unfolding sql_load_persistent_subscriptions_def
    by (intro load_call [OF works ok(1) all_tables(4) [OF ok(1)] refl] yields_unwrap)
  from yields_state [OF this assms(2)] obtain p' where "sql_load_persistent_subscriptions env (tv_id v) p = (Inr ?ls, p')"
    "topic_store_ok p'" "sessions_sql_known p' = sessions_sql_known p" "topic_sql_view p' = topic_sql_view p" by blast
  moreover have "lists_subscriptions (sessions_sql_known p) (tv_subs v) ?ls"
    using lists_listed [OF ok, of "tv_id v"] by (simp add: sessions_sql_known_def [abs_def] t(2))
  ultimately show ?thesis by blast
qed

section \<open>The storage keeps its promises\<close>

lemma sql_subs_known:
  assumes "topic_store_ok p" and "topic_sql_view p n = Some v" and "tv_subs v S = Some q"
  shows "sessions_sql_known p S \<noteq> None"
proof -
  have ok: "db_ok (sq_db p)" using assms(1) by (simp add: topic_store_ok_def)
  obtain t where "v = topic_of_row (sq_db p) t" using assms(2) unfolding topic_sql_view_def by (rule topic_viewE)
  with assms(3) obtain u where "u \<in> set (db_subscriptions (sq_db p))" "du_session_id u = S"
    by (auto simp: stored_subs_def dest: by_key_in)
  with db_okD(6) [OF ok] have "S \<in> ds_id ` set (db_sessions (sq_db p))" by (auto simp: foreign_keys_owned)
  then have "by_key ds_id (db_sessions (sq_db p)) S \<noteq> None" by (simp add: by_key_None)
  then show ?thesis by (simp add: sessions_sql_known_def db_sessions_known_def)
qed

lemma sql_who_names:
  assumes "topic_store_ok p" and "named (sessions_sql_known p) S n" and "named (sessions_sql_known p) S' n"
  shows "S = S'"
proof -
  obtain r r' where r: "by_key ds_id (db_sessions (sq_db p)) S = Some r" "by_key ds_id (db_sessions (sq_db p)) S' = Some r'"
    and names: "ds_name r = n" "ds_name r' = n"
    using assms(2,3) by (auto simp: named_def sessions_sql_known_def db_sessions_known_def session_of_row_def)
  note by_key_in [OF r(1)] by_key_in [OF r(2)] names
  moreover have "distinct (map ds_name (db_sessions (sq_db p)))" using assms(1) topics_okD(2) by (auto simp: topic_store_ok_def)
  ultimately show ?thesis by (auto simp: distinct_map inj_on_def)
qed

lemma sql_retained_form:
  assumes "topic_store_ok p" and "topic_sql_view p n = Some v" and "tv_retained v = Some (mid, m)"
  shows "stored_publish m = m"
proof -
  have ok: "db_ok (sq_db p)" "topics_ok (sq_db p)" using assms(1) by (simp_all add: topic_store_ok_def)
  obtain t where t: "t \<in> set (db_topics (sq_db p))" "v = topic_of_row (sq_db p) t"
    using assms(2) unfolding topic_sql_view_def by (rule topic_viewE)
  obtain i where i: "dt_retained_message_id t = Some i"
    using assms(3) by (cases "dt_retained_message_id t") (auto simp: t(2) stored_retained_def)
  from stored_retained_Some [OF ok t(1) i] assms(3) i show ?thesis unfolding t(2) by auto
qed

theorem sql_topic_storage:
  assumes works: "sql_works env now"
  shows "topic_storage (persist_topic_sql env) topic_store_ok topic_sql_view sessions_sql_known"
proof
  fix p :: "'w sql_store" and S s assume "sessions_sql_known p S = Some s"
  then show "sid_internal_id s = S"
    by (auto simp: sessions_sql_known_def db_sessions_known_def session_of_row_def dest: by_key_in)
qed (simp_all only: persist_topic_sql_def topic_persist.select_convs,
  rule sql_who_names, assumption+, rule sql_subs_known, assumption+, rule sql_retained_form, assumption+,
  rule sql_add_topic [OF works], assumption+, rule sql_delete_topic [OF works], assumption+,
  rule sql_add_subscription [OF works], assumption+, rule sql_update_subscription [OF works], assumption+,
  rule sql_remove_subscription [OF works], assumption+, rule sql_add_retained [OF works], assumption+,
  rule sql_remove_retained [OF works], assumption+, rule sql_load_topics [OF works], assumption+,
  rule sql_load_message [OF works], assumption+, rule sql_load_subscriptions [OF works], assumption+)

end
