(* ===== verification/Sql_Frames.thy ===== *)
theory Sql_Frames
  imports Sql_Retained
begin

text \<open>
  What the calls of one task leave alone in the common database: a session's calls keep the topics,
  the subscriptions and every other session, and the router's calls keep every session.
\<close>

section \<open>What a body may do to the tables\<close>

text \<open>From the tables \<open>db\<close>, if it succeeds, the body ends with a value and tables as \<open>Q\<close> says, not before \<open>t\<close>.\<close>

definition leads :: "('w \<Rightarrow> int) \<Rightarrow> int \<Rightarrow> database \<Rightarrow> ('w, 'e, 'a) sql_act \<Rightarrow> ('a \<Rightarrow> database \<Rightarrow> bool) \<Rightarrow> bool" where
  "leads now t db m Q \<longleftrightarrow> (\<forall>s a s'. sq_db s = db \<longrightarrow> t \<le> now (sq_world s) \<longrightarrow> m s = (Inr a, s') \<longrightarrow>
     Q a (sq_db s') \<and> t \<le> now (sq_world s'))"

lemma leadsI:
  "(\<And>s a s'. sq_db s = db \<Longrightarrow> t \<le> now (sq_world s) \<Longrightarrow> m s = (Inr a, s') \<Longrightarrow> Q a (sq_db s') \<and> t \<le> now (sq_world s')) \<Longrightarrow>
   leads now t db m Q"
  by (auto simp: leads_def)

lemma leadsD:
  "leads now t db m Q \<Longrightarrow> sq_db s = db \<Longrightarrow> t \<le> now (sq_world s) \<Longrightarrow> m s = (Inr a, s') \<Longrightarrow> Q a (sq_db s') \<and> t \<le> now (sq_world s')"
  unfolding leads_def by blast

lemma leads_mono: "leads now t db m R \<Longrightarrow> (\<And>a db'. R a db' \<Longrightarrow> Q a db') \<Longrightarrow> leads now t db m Q"
  unfolding leads_def by blast

lemma leads_bind:
  assumes "leads now t db m R" and "\<And>a db'. R a db' \<Longrightarrow> leads now t db' (f a) Q"
  shows "leads now t db (act_bind m f) Q"
proof (rule leadsI)
  fix s b s' assume s: "sq_db s = db" "t \<le> now (sq_world s)" "act_bind m f s = (Inr b, s')"
  then obtain a s1 where 1: "m s = (Inr a, s1)" "f a s1 = (Inr b, s')" by (auto simp: act_bind_Inr)
  from leadsD [OF assms(1) s(1,2) 1(1)] have "R a (sq_db s1)" "t \<le> now (sq_world s1)" by simp_all
  from leadsD [OF assms(2) [OF this(1)] refl this(2) 1(2)] show "Q b (sq_db s') \<and> t \<le> now (sq_world s')" .
qed

text \<open>What only looks, and then more.\<close>

lemma leads_look: "leads now t db m (\<lambda>_ db'. db' = db) \<Longrightarrow> (\<And>a. leads now t db (f a) Q) \<Longrightarrow> leads now t db (act_bind m f) Q"
  by (erule leads_bind) simp

lemma leads_return: "Q a db \<Longrightarrow> leads now t db (act_return a) Q"
  by (rule leadsI) auto

lemma leads_fail: "leads now t db (act_fail e) Q"
  by (rule leadsI) auto

lemma leads_unwrap: "(\<And>a. x = Some a \<Longrightarrow> Q a db) \<Longrightarrow> leads now t db (act_unwrap x) Q"
  by (rule leadsI) (auto simp: act_unwrap_Inr)

lemma leads_pick: "(\<And>a. x = Some a \<Longrightarrow> Q a db) \<Longrightarrow> leads now t db (or_error e (act_return x)) Q"
  by (rule leadsI) (auto simp: or_error_def act_bind_Inr split: option.splits)

lemma leads_or_error:
  "leads now t db m (\<lambda>r db'. case r of None \<Rightarrow> True | Some a \<Rightarrow> Q a db') \<Longrightarrow> leads now t db (or_error e m) Q"
  unfolding or_error_def by (erule leads_bind) (auto split: option.splits intro!: leads_return leads_fail)

lemma leads_ask_one:
  fixes f :: "'w \<Rightarrow> 'b \<times> 'w"
  assumes "\<And>w. now w \<le> now (snd (f w))"
  shows "leads now t db (sql_ask f) (\<lambda>_ db'. db' = db)"
proof (rule leadsI)
  fix s and b :: 'b and s'
  assume s: "sq_db s = db" "t \<le> now (sq_world s)" "sql_ask f s = (Inr b, s')"
  then have "sq_db s' = sq_db s" "sq_world s' = snd (f (sq_world s))" by (auto simp: sql_ask_def split: prod.splits)
  with s assms [of "sq_world s"] show "sq_db s' = db \<and> t \<le> now (sq_world s')" by auto
qed

lemma leads_ask:
  assumes "sql_works env now"
  shows "leads now t db (sql_ask (qe_pool env)) (\<lambda>_ db'. db' = db)" and "leads now t db (sql_ask (qe_interact env)) (\<lambda>_ db'. db' = db)"
    and "leads now t db (sql_ask (qe_statement env)) (\<lambda>_ db'. db' = db)" and "leads now t db (sql_now env) (\<lambda>_ db'. db' = db)"
proof -
  have later: "now w \<le> now (snd (qe_pool env w))" "now w \<le> now (snd (qe_interact env w))" "now w \<le> now (snd (qe_statement env w))"
    "now w \<le> now (snd (qe_clock env w))" for w
    using assms unfolding sql_works_def by (auto intro: order_trans)
  show "leads now t db (sql_ask (qe_pool env)) (\<lambda>_ db'. db' = db)" "leads now t db (sql_ask (qe_interact env)) (\<lambda>_ db'. db' = db)"
    "leads now t db (sql_ask (qe_statement env)) (\<lambda>_ db'. db' = db)" "leads now t db (sql_now env) (\<lambda>_ db'. db' = db)"
    unfolding sql_now_def by (rule leads_ask_one, rule later)+
qed

lemma leads_prepare: "sql_works env now \<Longrightarrow> leads now t db (sql_prepare env tables) (\<lambda>_ db'. db' = db)"
  unfolding sql_prepare_def by (rule leads_bind [OF leads_ask(3)], assumption, rule leadsI) auto

lemma leads_step:
  "sql_works env now \<Longrightarrow> leads now t db (sql_step env f) (\<lambda>r db'. case r of None \<Rightarrow> db' = db | Some a \<Rightarrow> f db = (a, db'))"
  unfolding sql_step_def by (rule leads_bind [OF leads_ask(3)], assumption, rule leadsI) (auto split: prod.splits if_splits)

lemma leads_run:
  "sql_works env now \<Longrightarrow> leads now t db (sql_execute env tables f) (\<lambda>r db'. case r of None \<Rightarrow> db' = db | Some a \<Rightarrow> f db = (a, db'))"
  unfolding sql_execute_def by (rule leads_bind [OF leads_prepare], assumption) (auto intro: leads_step leads_return)

lemma leads_some:
  assumes "leads now t db m (\<lambda>r db'. case r of None \<Rightarrow> db' = db | Some a \<Rightarrow> f db = (a, db'))"
  shows "leads now t db (or_error e m) (\<lambda>a db'. f db = (a, db'))"
  by (rule leads_or_error, rule leads_mono [OF assms]) (simp split: option.splits)

lemma leads_execute:
  "sql_works env now \<Longrightarrow> leads now t db (or_error e (sql_execute env tables f)) (\<lambda>a db'. f db = (a, db'))"
  by (rule leads_some) (rule leads_run)

lemma leads_statement:
  "sql_works env now \<Longrightarrow> leads now t db (session_statement env tables e f) (\<lambda>a db'. f db = (a, db'))"
  unfolding session_statement_def
  by (rule leads_bind [OF leads_prepare], assumption) (auto intro: leads_some leads_step leads_fail)

lemma leads_transaction:
  assumes works: "sql_works env now" and body: "leads now t db body Q"
  shows "leads now t db (sql_transaction env e1 e2 body) Q"
proof -
  let ?m = "act_bind body (\<lambda>a. act_bind (sql_ask (qe_statement env)) (\<lambda>ok. if ok then act_return a else act_fail (Failed e2)))"
  have "leads now t db ?m Q"
    by (rule leads_bind [OF body], rule leads_bind [OF leads_ask(3) [OF works]]) (auto intro: leads_return leads_fail)
  then have "leads now t db (\<lambda>s. case ?m s of (Inr a, s') \<Rightarrow> (Inr a, s') | (Inl e, s') \<Rightarrow> (Inl e, s'\<lparr>sq_db := sq_db s\<rparr>)) Q"
    by (intro leadsI) (auto split: prod.splits sum.splits dest: leadsD)
  then show ?thesis unfolding sql_transaction_def
    by (intro leads_bind [OF leads_ask(3) [OF works]]) (auto intro: leads_fail)
qed

lemma leads_for:
  assumes "\<And>x db. x \<in> set xs \<Longrightarrow> I db \<Longrightarrow> leads now t db (f x) (\<lambda>_. I)" and "I db"
  shows "leads now t db (act_for xs f) (\<lambda>_. I)"
  using assms
proof (induction xs arbitrary: db)
  case (Cons x xs)
  show ?case unfolding act_for.simps
    by (rule leads_bind [OF Cons.prems(1) [OF _ Cons.prems(2)]], simp, rule Cons.IH, rule Cons.prems(1)) simp_all
qed (simp add: leads_return)

text \<open>And a whole call.\<close>

lemma interact_leads:
  assumes works: "sql_works env now" and body: "leads now (now (sq_world p)) (sq_db p) body Q"
    and call: "sql_interact env e1 e2 body p = (Inr a, p')"
  shows "Q a (sq_db p') \<and> now (sq_world p) \<le> now (sq_world p')"
proof -
  let ?m = "act_bind (sql_ask (qe_pool env)) (\<lambda>ok.
           if ok then
             act_bind (sql_ask (qe_interact env)) (\<lambda>ok. if ok then body else act_fail (Failed e2))
           else act_fail (Failed e1))"
  have "leads now (now (sq_world p)) (sq_db p) ?m Q"
  proof (rule leads_bind [OF leads_ask(1) [OF works]])
    fix ok db' assume "db' = sq_db p"
    moreover have "leads now (now (sq_world p)) (sq_db p) (act_bind (sql_ask (qe_interact env)) (\<lambda>ok. if ok then body else act_fail (Failed e2))) Q"
      by (rule leads_bind [OF leads_ask(2) [OF works]]) (use body in \<open>auto intro: leads_fail\<close>)
    ultimately show "leads now (now (sq_world p)) db' (if ok then act_bind (sql_ask (qe_interact env)) (\<lambda>ok.
        if ok then body else act_fail (Failed e2)) else act_fail (Failed e1)) Q"
      by (auto intro: leads_fail)
  qed
  note lead = leadsD [OF this refl order_refl]
  have "?m p = (Inr a, p')"
    using call by (auto simp: sql_interact_def split: prod.splits sum.splits failure.splits)
  then show ?thesis by (rule lead)
qed

section \<open>Sessions leave the rest alone\<close>

text \<open>The messages of the topics and of the other sessions.\<close>

definition kept_messages :: "int \<Rightarrow> database \<Rightarrow> int set" where
  "kept_messages S db = {i. Some i \<in> dt_retained_message_id ` set (db_topics db)} \<union>
     {i. Some i \<in> do_message_id ` set (filter (\<lambda>r. do_session_id r \<noteq> S) (db_qosout db))}"

text \<open>
  The schema, the topics and the subscriptions stay, and so do the other sessions with their rows and
  messages, and the name of this one.
\<close>

definition session_frame :: "int \<Rightarrow> database \<Rightarrow> database \<Rightarrow> bool" where
  "session_frame S db db' \<longleftrightarrow>
     db_tables db' = db_tables db \<and> db_version db' = db_version db \<and>
     db_topics db' = db_topics db \<and> db_subscriptions db' = db_subscriptions db \<and>
     filter (\<lambda>r. ds_id r \<noteq> S) (db_sessions db') = filter (\<lambda>r. ds_id r \<noteq> S) (db_sessions db) \<and>
     filter (\<lambda>r. di_session_id r \<noteq> S) (db_qosin db') = filter (\<lambda>r. di_session_id r \<noteq> S) (db_qosin db) \<and>
     filter (\<lambda>r. do_session_id r \<noteq> S) (db_qosout db') = filter (\<lambda>r. do_session_id r \<noteq> S) (db_qosout db) \<and>
     (\<forall>i \<in> kept_messages S db. message_rows i db' = message_rows i db) \<and>
     (\<forall>n. named (db_sessions_known db) S n \<longrightarrow> named (db_sessions_known db') S n) \<and>
     (topics_ok db \<longrightarrow> topics_ok db')"

lemma frame_refl [simp]: "session_frame S db db"
  by (simp add: session_frame_def)

lemma frame_trans: "session_frame S db db1 \<Longrightarrow> session_frame S db1 db2 \<Longrightarrow> session_frame S db db2"
  by (auto simp: session_frame_def kept_messages_def)

lemma frame_kept: "session_frame S db db1 \<Longrightarrow> kept_messages S db1 = kept_messages S db"
  by (simp add: session_frame_def kept_messages_def)

lemma known_row: "named (db_sessions_known db) S n \<longleftrightarrow> (\<exists>r. by_key ds_id (db_sessions db) S = Some r \<and> ds_name r = n)"
  by (auto simp: named_def db_sessions_known_def session_of_row_def)

lemma filter_weaker: "(\<And>x. Q x \<Longrightarrow> P x) \<Longrightarrow> filter Q (filter P xs) = filter Q xs"
  by (induction xs) auto

lemma frame_qosin:
  "filter (\<lambda>r. di_session_id r \<noteq> S) rows = filter (\<lambda>r. di_session_id r \<noteq> S) (db_qosin db) \<Longrightarrow> session_frame S db (db\<lparr>db_qosin := rows\<rparr>)"
  by (simp add: session_frame_def known_row topics_ok_def)

lemma frame_qosout:
  "filter (\<lambda>r. do_session_id r \<noteq> S) rows = filter (\<lambda>r. do_session_id r \<noteq> S) (db_qosout db) \<Longrightarrow> session_frame S db (db\<lparr>db_qosout := rows\<rparr>)"
  by (simp add: session_frame_def known_row topics_ok_def)

lemma frame_messages:
  assumes "\<And>i. i \<in> kept_messages S db \<Longrightarrow> filter (\<lambda>r. dm_id r = i) rows = filter (\<lambda>r. dm_id r = i) (db_messages db)"
    and "\<And>m. m \<in> set rows \<Longrightarrow> m \<in> set (db_messages db) \<or> 0 \<le> dm_qos m \<and> dm_qos m < 256"
  shows "session_frame S db (db\<lparr>db_messages := rows\<rparr>)"
proof -
  have "0 \<le> dm_qos m \<and> dm_qos m < 256" if "topics_ok db" "m \<in> set rows" for m
    by (rule disjE [OF assms(2) [OF that(2)]], erule topics_okD(7) [OF that(1)], assumption)
  then have ok: "topics_ok db \<longrightarrow> topics_ok (db\<lparr>db_messages := rows\<rparr>)"
    unfolding topics_ok_def [of "db\<lparr>db_messages := rows\<rparr>"] by (intro impI conjI ballI) (simp_all add: topics_okD)
  show ?thesis unfolding session_frame_def
    by (intro conjI ok ballI) (simp_all add: known_row message_rows_def assms(1))
qed

lemma frame_update_session:
  assumes "update_session_row S f db = (rows, db')" and "\<And>r. ds_id (f r) = ds_id r" and "\<And>r. ds_name (f r) = ds_name r"
  shows "session_frame S db db'"
proof -
  let ?rows = "map (\<lambda>r. if ds_id r = S then f r else r) (db_sessions db)"
  have db': "db' = db\<lparr>db_sessions := ?rows\<rparr>" using assms(1) by (simp add: update_session_row_def)
  have "by_key ds_id ?rows = (by_key ds_id (db_sessions db))(S := map_option f (by_key ds_id (db_sessions db) S))"
    by (rule by_key_map) (rule assms(2))
  then have "named (db_sessions_known db) S n \<Longrightarrow> named (db_sessions_known db') S n" for n
    by (auto simp: known_row db' assms(3))
  moreover have "filter (\<lambda>r. ds_id r \<noteq> S) (map (\<lambda>r. if ds_id r = S then f r else r) xs) = filter (\<lambda>r. ds_id r \<noteq> S) xs" for xs
    by (induction xs) (auto simp: assms(2))
  moreover have "topics_ok db \<Longrightarrow> topics_ok db'"
  proof -
    have names: "map ds_name ?rows = map ds_name (db_sessions db)" by (simp add: assms(3))
    assume ok: "topics_ok db"
    then have "distinct (map ds_name ?rows)" unfolding names by (rule topics_okD(2))
    moreover have "\<forall>s \<in> set ?rows. get_i32 (ds_id s) = Some (ds_id s)" using topics_okD(5) [OF ok] by (auto simp: assms(2))
    ultimately show "topics_ok db'" using ok unfolding topics_ok_def db' by (simp del: map_map)
  qed
  ultimately show ?thesis by (simp add: session_frame_def db' message_rows_def)
qed

lemma frame_insert_session:
  assumes "insert_session_row name g db = (S, db')" and "filter (\<lambda>r. ds_name r = name) (db_sessions db) = []" and "get_i32 S = Some S"
  shows "session_frame S db db'" and "S \<notin> ds_id ` set (db_sessions db)"
proof -
  let ?r = "\<lparr>ds_id = S, ds_name = name, ds_generation = g, ds_next_mid = 1\<rparr>"
  have db': "db' = db\<lparr>db_sessions := db_sessions db @ [?r]\<rparr>" and S: "S = next_row_id (map ds_id (db_sessions db))"
    using assms(1) by (auto simp: insert_session_row_def Let_def)
  show fresh: "S \<notin> ds_id ` set (db_sessions db)" using next_row_id_fresh [of "map ds_id (db_sessions db)"] S by simp
  then have "\<not> named (db_sessions_known db) S n" for n by (auto simp: known_row dest: by_key_in)
  moreover have "topics_ok db \<Longrightarrow> topics_ok db'"
    using assms(2,3) unfolding topics_ok_def by (auto simp: db' filter_empty_conv)
  ultimately show "session_frame S db db'" by (auto simp: session_frame_def message_rows_def db')
qed

lemma kept_owned: "kept_messages S db \<subseteq> set (owned db)"
  by (auto simp: kept_messages_def owned_def)

lemma kept_not_own:
  assumes "db_ok db" and "r \<in> set (db_qosout db)" and "do_session_id r = S" and "do_message_id r = Some i"
  shows "i \<notin> kept_messages S db"
proof -
  from db_okD(7) [OF assms(1)] have dist: "distinct (somes (map do_message_id (db_qosout db)))"
    "set (somes (map dt_retained_message_id (db_topics db))) \<inter> set (somes (map do_message_id (db_qosout db))) = {}"
    by (simp_all add: owned_def)
  from somes_filter [OF dist(1), of "\<lambda>r. do_session_id r \<noteq> S"] assms(2-4)
  have "Some i \<notin> do_message_id ` set (filter (\<lambda>r. do_session_id r \<noteq> S) (db_qosout db))" by blast
  moreover have "Some i \<notin> dt_retained_message_id ` set (db_topics db)"
    using dist(2) assms(2,4) by (metis disjoint_iff image_eqI list.set_map mem_Collect_eq set_somes)
  ultimately show ?thesis by (simp add: kept_messages_def)
qed

lemma frame_insert_message:
  assumes "db_ok db" and "insert_message_row q topic payload db = (i, db')"
  shows "session_frame S db db'"
proof -
  let ?r = "\<lparr>dm_id = i, dm_qos = uint q, dm_topic = topic, dm_payload = payload\<rparr>"
  have db': "db' = db\<lparr>db_messages := db_messages db @ [?r]\<rparr>" and i: "i = next_row_id (map dm_id (db_messages db))"
    using assms(2) by (auto simp: insert_message_row_def Let_def)
  have "i \<notin> dm_id ` set (db_messages db)" using next_row_id_fresh [of "map dm_id (db_messages db)"] i by simp
  with db_okD(6) [OF assms(1)] kept_owned [of S db] have "i \<notin> kept_messages S db" by (auto simp: foreign_keys_owned)
  moreover have "0 \<le> uint q" "uint q < 256" using uint_range_size [of q] by (simp_all add: word_size)
  ultimately show ?thesis unfolding db' by (intro frame_messages) auto
qed

lemma frame_delete_message:
  assumes "i \<notin> kept_messages S db" and "delete_message_row i db = (u, db')"
  shows "session_frame S db db'"
proof -
  have "db' = db\<lparr>db_messages := filter (\<lambda>r. dm_id r \<noteq> i) (db_messages db)\<rparr>" using assms(2) by (simp add: delete_message_row_def)
  moreover have "filter (\<lambda>r. dm_id r = j) (filter (\<lambda>r. dm_id r \<noteq> i) (db_messages db)) = filter (\<lambda>r. dm_id r = j) (db_messages db)"
    if "j \<in> kept_messages S db" for j
    using that assms(1) by (intro filter_weaker) auto
  ultimately show ?thesis by (auto intro: frame_messages)
qed

text \<open>What others see of the database is the same.\<close>

lemma frame_sessions:
  assumes "session_frame S db db'" and "S' \<noteq> S"
  shows "db_view db' S' = db_view db S'" and "db_sessions_known db' S' = db_sessions_known db S'"
proof -
  note F = assms(1) [unfolded session_frame_def]
  have row: "find (\<lambda>r. ds_id r = S') xs = find (\<lambda>r. ds_id r = S') (filter (\<lambda>r. ds_id r \<noteq> S) xs)" for xs
    using assms(2) by (induction xs) auto
  have "session_row_of db' S' = session_row_of db S'"
    unfolding session_row_of_def row [of "db_sessions db"] row [of "db_sessions db'"] using F by simp
  moreover have "stored_received db0 S' = di_mid ` {r \<in> set (filter (\<lambda>r. di_session_id r \<noteq> S) (db_qosin db0)). di_session_id r = S'}" for db0
    using assms(2) by (auto simp: stored_received_def)
  then have "stored_received db' S' = stored_received db S'" using F by metis
  moreover have own: "own_rows db0 S' = filter (\<lambda>r. do_session_id r = S') (filter (\<lambda>r. do_session_id r \<noteq> S) (db_qosout db0))" for db0
    using assms(2) by (auto simp: own_rows_def intro!: filter_cong)
  then have own': "own_rows db' S' = own_rows db S'" using F by metis
  have "row_message db' r = row_message db r" if "r \<in> set (own_rows db S')" for r
  proof (rule row_message_cong)
    fix i assume "do_message_id r = Some i"
    with that assms(2) have "i \<in> kept_messages S db" by (force simp: kept_messages_def own_rows_def)
    with F show "message_rows i db' = message_rows i db" by blast
  qed
  with own' have "stored_queue db' S' = stored_queue db S'" by (simp add: stored_queue_def)
  ultimately show "db_view db' S' = db_view db S'" by (simp add: db_view_def)
  have "by_key ds_id xs S' = by_key ds_id (filter (\<lambda>r. ds_id r \<noteq> S) xs) S'" for xs
    using assms(2) by (simp add: by_key_filter)
  with F show "db_sessions_known db' S' = db_sessions_known db S'" unfolding db_sessions_known_def by metis
qed

lemma frame_topics:
  assumes "session_frame S db db'"
  shows "db_topic_view db' = db_topic_view db"
proof -
  note F = assms [unfolded session_frame_def]
  have "topic_of_row db' t = topic_of_row db t" if "t \<in> set (db_topics db)" for t
  proof -
    have "message_rows i db' = message_rows i db" if "dt_retained_message_id t = Some i" for i
    proof -
      have "i \<in> kept_messages S db" using that \<open>t \<in> set (db_topics db)\<close> by (force simp: kept_messages_def)
      with F show ?thesis by blast
    qed
    with F show ?thesis by (auto simp: topic_of_row_def stored_subs_def stored_retained_def fun_eq_iff split: option.split)
  qed
  then show ?thesis using F
    by (auto simp: db_topic_view_def fun_eq_iff intro!: option.map_cong dest: by_key_in)
qed

lemma frame_names:
  assumes "session_frame S db db'" and "named (db_sessions_known db) S' n"
  shows "named (db_sessions_known db') S' n"
proof (cases "S' = S")
  case True
  with assms show ?thesis by (simp add: session_frame_def)
next
  case False
  from frame_sessions(2) [OF assms(1) False] assms(2) show ?thesis by (simp add: named_def)
qed

section \<open>The calls of a session\<close>

lemma frame_call:
  assumes "sql_works env now" and "leads now (now (sq_world p)) (sq_db p) body (\<lambda>_. session_frame S (sq_db p))"
    and "session_interact env body p = (Inr a, p')"
  shows "session_frame S (sq_db p) (sq_db p')"
  using interact_leads [OF assms(1,2) assms(3) [unfolded session_interact_def]] by blast

lemma leads_select:
  "sql_works env now \<Longrightarrow> leads now t db (session_statement env tables e (sql_select q)) (\<lambda>a db'. a = q db \<and> db' = db)"
  by (rule leads_mono [OF leads_statement]) (auto simp: sql_select_def)

text \<open>A statement and then what only looks at its result.\<close>

lemma frame_statement:
  assumes works: "sql_works env now" and "\<And>a db'. f (sq_db p) = (a, db') \<Longrightarrow> session_frame S (sq_db p) db'"
    and "\<And>a db'. leads now (now (sq_world p)) db' (g a) (\<lambda>_ db''. db'' = db')"
    and "session_interact env (act_bind (session_statement env tables e f) g) p = (Inr a, p')"
  shows "session_frame S (sq_db p) (sq_db p')"
proof (rule frame_call [OF works _ assms(4)], rule leads_bind [OF leads_statement [OF works]])
  fix a db' assume "f (sq_db p) = (a, db')"
  from assms(2) [OF this] show "leads now (now (sq_world p)) db' (g a) (\<lambda>_. session_frame S (sq_db p))"
    by (rule_tac leads_mono [OF assms(3)]) simp
qed

lemma leads_message:
  "sql_works env now \<Longrightarrow> leads now t db (client_load_persistent_message env i) (\<lambda>_ db'. db' = db)"
  unfolding client_load_persistent_message_def Let_def by (rule leads_bind [OF leads_select], assumption) (auto intro: leads_pick)

lemma leads_queue:
  assumes "sql_works env now"
  shows "leads now t db (load_queue env ms acc) (\<lambda>_ db'. db' = db)"
proof (induction ms arbitrary: acc)
  case (Cons m ms)
  let ?one = "case message_type_try_from (mm_message_type m) of
          Inr Type_Publish \<Rightarrow>
            (case mm_message_id m of
               Some i \<Rightarrow>
                 act_bind (client_load_persistent_message env i) (\<lambda>pubmsg.
                 act_return (Publish (pubmsg\<lparr>pub_identifier := word_of_int (mm_message_mid m), pub_dup := mm_message_dup m\<rparr>)))
             | None \<Rightarrow> act_fail (Failed (Session_Persist ''Error loading qosout messages, no id for publish message'')))
        | Inr Type_PubRec \<Rightarrow> act_return (PubRec \<lparr>pr_identifier = word_of_int (mm_message_mid m)\<rparr>)
        | _ \<Rightarrow> act_fail (Failed (Session_Persist ''Error loading qosout messages, unkown message type''))"
  have "leads now t db (act_bind (client_load_persistent_message env i) (\<lambda>x. act_return (f x))) (\<lambda>_ db'. db' = db)" for i f
    by (rule leads_bind [OF leads_message [OF assms]]) (simp add: leads_return)
  then have "leads now t db ?one (\<lambda>_ db'. db' = db)"
    by (auto intro: leads_return leads_fail split: sum.split mqtt_message_type.split option.split)
  then show ?case unfolding load_queue.simps by (rule leads_bind) (simp add: Cons.IH)
qed (simp add: leads_return)

lemma frame_loads:
  assumes works: "sql_works env now"
  shows "sql_session_subscriptions env S p = (Inr a, p') \<Longrightarrow> session_frame S' (sq_db p) (sq_db p')"
    and "sql_qos_incoming_load env S p = (Inr b, p') \<Longrightarrow> session_frame S' (sq_db p) (sq_db p')"
    and "sql_qosout_load env S p = (Inr c, p') \<Longrightarrow> session_frame S' (sq_db p) (sq_db p')"
proof -
  assume "sql_session_subscriptions env S p = (Inr a, p')"
  from this [unfolded sql_session_subscriptions_def] show "session_frame S' (sq_db p) (sq_db p')"
    by (rule frame_call [OF works, rotated -1]) (rule leads_mono [OF leads_select [OF works]], simp)
next
  assume "sql_qos_incoming_load env S p = (Inr b, p')"
  from this [unfolded sql_qos_incoming_load_def] show "session_frame S' (sq_db p) (sq_db p')"
    by (rule frame_statement [OF works, rotated -1]) (auto simp: sql_select_def intro!: leads_look leads_unwrap leads_return)
next
  assume "sql_qosout_load env S p = (Inr c, p')"
  from this [unfolded sql_qosout_load_def] show "session_frame S' (sq_db p) (sq_db p')"
    by (rule frame_statement [OF works, rotated -1]) (auto simp: sql_select_def intro!: leads_look leads_pick leads_queue [OF works])
qed

lemma frame_updates:
  assumes works: "sql_works env now"
  shows "sql_update_session_generation env S g p = (Inr a, p') \<Longrightarrow> session_frame S (sq_db p) (sq_db p')"
    and "sql_update_session_mid env S mid p = (Inr b, p') \<Longrightarrow> session_frame S (sq_db p) (sq_db p')"
    and "sql_qos_outgoing_update_dup env S mid dup p = (Inr c, p') \<Longrightarrow> session_frame S (sq_db p) (sq_db p')"
proof -
  assume "sql_update_session_generation env S g p = (Inr a, p')"
  from this [unfolded sql_update_session_generation_def Let_def] show "session_frame S (sq_db p) (sq_db p')"
    by (rule frame_statement [OF works, rotated -1]) (auto intro: frame_update_session leads_pick)
next
  assume "sql_update_session_mid env S mid p = (Inr b, p')"
  from this [unfolded sql_update_session_mid_def Let_def] show "session_frame S (sq_db p) (sq_db p')"
    by (rule frame_statement [OF works, rotated -1]) (auto intro: frame_update_session leads_pick)
next
  assume "sql_qos_outgoing_update_dup env S mid dup p = (Inr c, p')"
  moreover have "filter (\<lambda>r. do_session_id r \<noteq> S) (map (\<lambda>r. if do_session_id r = S \<and> do_mid r = m then r\<lparr>do_dup := dup\<rparr> else r) rs) =
      filter (\<lambda>r. do_session_id r \<noteq> S) rs" for m and rs :: "qosout_row list" by (induction rs) auto
  ultimately show "session_frame S (sq_db p) (sq_db p')"
    by (intro frame_statement [OF works _ _ _ [unfolded sql_qos_outgoing_update_dup_def Let_def]])
      (auto simp: update_dup_rows_def sql_qos_outgoing_update_dup_def Let_def intro: frame_qosout leads_pick)
qed

lemma frame_received:
  assumes works: "sql_works env now"
  shows "sql_qos_incoming_store env S mid p = (Inr a, p') \<Longrightarrow> session_frame S (sq_db p) (sq_db p')"
    and "sql_qos_incoming_delete env S mid p = (Inr b, p') \<Longrightarrow> session_frame S (sq_db p) (sq_db p')"
    and "sql_qos_incoming_clear env S p = (Inr c, p') \<Longrightarrow> session_frame S (sq_db p) (sq_db p')"
proof -
  assume "sql_qos_incoming_store env S mid p = (Inr a, p')"
  from this [unfolded sql_qos_incoming_store_def Let_def] show "session_frame S (sq_db p) (sq_db p')"
    by (rule frame_call [OF works, rotated -1])
      (rule leads_look [OF leads_ask(4) [OF works]], rule leads_bind [OF leads_statement [OF works]],
       auto intro!: leads_pick frame_qosin)
next
  assume "sql_qos_incoming_delete env S mid p = (Inr b, p')"
  from this [unfolded sql_qos_incoming_delete_def] show "session_frame S (sq_db p) (sq_db p')"
    by (rule frame_statement [OF works, rotated -1])
      (auto intro!: leads_return frame_qosin filter_weaker simp del: filter_filter)
next
  assume "sql_qos_incoming_clear env S p = (Inr c, p')"
  from this [unfolded sql_qos_incoming_clear_def] show "session_frame S (sq_db p) (sq_db p')"
    by (rule frame_statement [OF works, rotated -1]) (auto intro!: leads_return frame_qosin)
qed

lemma frame_store_message:
  fixes env :: "'w sql_env"
  assumes works: "sql_works env now" and "db_ok (sq_db p)" and call: "sql_qos_outgoing_store env S mid m p = (Inr a, p')"
  shows "session_frame S (sq_db p) (sq_db p')"
proof (rule frame_call [OF works _ call [unfolded sql_qos_outgoing_store_def Let_def]], rule leads_bind [OF leads_transaction [OF works]])
  let ?db = "sq_db p" and ?t = "now (sq_world p)" and ?F = "\<lambda>_. session_frame S (sq_db p)"
  have add: "leads now ?t ?db (act_bind (session_statement env [Tab_messages] e (insert_message_row q topic payload)) g) ?F"
    if "\<And>i db'. leads now ?t db' (g i) (\<lambda>_ db''. db'' = db')" for e q topic payload
      and g :: "int \<Rightarrow> ('w, session_error, int \<times> int option) sql_act"
    by (rule leads_bind [OF leads_statement [OF works]], drule frame_insert_message [OF assms(2), where S = S], rule leads_mono [OF that]) simp
  have rest: "leads now ?t db' (act_bind (or_error e (act_return x)) (\<lambda>i. act_return (f i))) (\<lambda>_ db''. db'' = db')"
    for db' e x and f :: "int \<Rightarrow> int \<times> int option" by (intro leads_look leads_pick leads_return) simp_all
  have message: "leads now ?t ?db (store_message_row env m) ?F"
    unfolding store_message_row_def Let_def by (cases m) (auto intro: leads_return leads_fail add [OF rest])
  have row: "leads now ?t db1 (or_error e (sql_execute env [Tab_qosout] (insert_qosout_row t S mtype k mi))) ?F"
    if "session_frame S ?db db1" for db1 e t mtype k mi
    by (rule leads_mono [OF leads_execute [OF works]], rule frame_trans [OF that])
      (auto simp: insert_qosout_row_def Let_def intro!: frame_qosout)
  show "leads now ?t ?db (act_bind (store_message_row env m) (\<lambda>(mtype, message_id).
            act_bind (sql_now env) (\<lambda>time.
            act_bind (or_error (Session_Persist ''Message retain failed'') (sql_execute env [Tab_qosout]
              (insert_qosout_row time S mtype (uint mid) message_id))) (\<lambda>i.
            or_error (Session_Persist ''Message retain failed'') (act_return (get_i32 i)))))) ?F"
    by (rule leads_bind [OF message])
      (auto intro!: leads_look [OF leads_ask(4) [OF works]] leads_bind [OF row] leads_pick)
  show "leads now ?t db' (act_return mid) ?F" if "session_frame S ?db db'" for db' using that by (rule leads_return)
qed

text \<open>Deleting the messages of rows that the session has.\<close>

lemma leads_delete_message:
  assumes works: "sql_works env now" and "session_frame S db db1" and "i \<notin> kept_messages S db"
  shows "leads now t db1 (or_error e (sql_execute env [Tab_messages] (delete_message_row i))) (\<lambda>_. session_frame S db)"
  by (rule leads_mono [OF leads_execute [OF works]], rule frame_trans [OF assms(2)], rule frame_delete_message)
    (use assms(3) frame_kept [OF assms(2)] in auto)

lemma leads_delete_rows:
  assumes "sql_works env now" and "\<And>r. do_session_id r \<noteq> S \<Longrightarrow> P r"
  shows "leads now t db (or_error e (sql_execute env [Tab_qosout] (\<lambda>db. ((), db\<lparr>db_qosout := filter P (db_qosout db)\<rparr>)))) (\<lambda>_. session_frame S db)"
  by (rule leads_mono [OF leads_execute [OF assms(1)]])
    (use assms(2) in \<open>auto intro!: frame_qosout filter_weaker simp del: filter_filter\<close>)

lemma get_i32_opt_Some: "get_i32_opt v = Some w \<Longrightarrow> w = v"
  by (auto simp: get_i32_opt_def get_i32_def split: option.splits if_splits)

lemma frame_delete_message_call:
  assumes works: "sql_works env now" and ok: "db_ok (sq_db p)" and call: "sql_qos_outgoing_delete env S mid p = (Inr a, p')"
  shows "session_frame S (sq_db p) (sq_db p')"
proof (rule frame_call [OF works _ call [unfolded sql_qos_outgoing_delete_def Let_def]], rule leads_bind [OF leads_transaction [OF works]],
    rule leads_bind [OF leads_select [OF works]])
  let ?db = "sq_db p" and ?t = "now (sq_world p)" and ?F = "\<lambda>_. session_frame S (sq_db p)" and ?e = "Session_Persist ''Delete qosout message getting message id failed''"
  fix rows db' assume "rows = map do_message_id (filter (\<lambda>r. do_session_id r = S \<and> do_mid r = uint mid) (db_qosout ?db)) \<and> db' = ?db"
  then have rows: "rows = map do_message_id (filter (\<lambda>r. do_session_id r = S \<and> do_mid r = uint mid) (db_qosout ?db))" "db' = ?db" by simp_all
  have own: "i \<notin> kept_messages S ?db" if "Some i \<in> set rows" for i
    using that kept_not_own [OF ok] unfolding rows(1) by auto
  show "leads now ?t db' (act_bind (or_error ?e (act_return (case rows of v # _ \<Rightarrow> get_i32_opt v | [] \<Rightarrow> None))) (\<lambda>message_id.
            act_bind (or_error (Session_Persist ''Error deleting qosout mid'') (sql_execute env [Tab_qosout]
              (\<lambda>db. ((), db\<lparr>db_qosout := filter (\<lambda>r. \<not> (do_session_id r = S \<and> do_mid r = uint mid)) (db_qosout db)\<rparr>)))) (\<lambda>_.
            case message_id of
              Some table_message_id \<Rightarrow>
                or_error (Session_Persist ''Qosout delete message failed'')
                  (sql_execute env [Tab_messages] (delete_message_row table_message_id))
            | None \<Rightarrow> act_return ()))) ?F"
    unfolding rows(2)
  proof (rule leads_bind [OF leads_pick [where Q = "\<lambda>v db'. db' = ?db \<and> (\<forall>i. v = Some i \<longrightarrow> Some i \<in> set rows)"]])
    show "?db = ?db \<and> (\<forall>i. v = Some i \<longrightarrow> Some i \<in> set rows)"
      if "(case rows of v # _ \<Rightarrow> get_i32_opt v | [] \<Rightarrow> None) = Some v" for v
      using that by (auto split: list.splits dest!: get_i32_opt_Some)
    fix v db1 assume v: "db1 = ?db \<and> (\<forall>i. v = Some i \<longrightarrow> Some i \<in> set rows)"
    show "leads now ?t db1 (act_bind (or_error (Session_Persist ''Error deleting qosout mid'') (sql_execute env [Tab_qosout]
              (\<lambda>db. ((), db\<lparr>db_qosout := filter (\<lambda>r. \<not> (do_session_id r = S \<and> do_mid r = uint mid)) (db_qosout db)\<rparr>)))) (\<lambda>_.
            case v of
              Some table_message_id \<Rightarrow>
                or_error (Session_Persist ''Qosout delete message failed'')
                  (sql_execute env [Tab_messages] (delete_message_row table_message_id))
            | None \<Rightarrow> act_return ())) ?F"
      using v own by (intro leads_bind [OF leads_delete_rows [OF works, where S = S]])
        (auto intro: leads_return leads_delete_message [OF works] split: option.split)
  qed
next
  show "leads now (now (sq_world p)) db' (act_return mid) (\<lambda>_. session_frame S (sq_db p))" if "session_frame S (sq_db p) db'" for db'
    using that by (rule leads_return)
qed

lemma frame_clear_queue:
  assumes works: "sql_works env now" and ok: "db_ok (sq_db p)" and call: "sql_qos_outgoing_clear env S p = (Inr a, p')"
  shows "session_frame S (sq_db p) (sq_db p')"
proof (rule frame_call [OF works _ call [unfolded sql_qos_outgoing_clear_def Let_def]], rule leads_bind [OF leads_transaction [OF works]],
    rule leads_bind [OF leads_select [OF works]])
  let ?db = "sq_db p" and ?t = "now (sq_world p)" and ?F = "\<lambda>_. session_frame S (sq_db p)"
  let ?ids = "\<lambda>mids. concat (map (\<lambda>mid. case mid of Some i \<Rightarrow> [i] | None \<Rightarrow> []) mids)"
  fix rows db' assume "rows = map do_message_id (filter (\<lambda>r. do_session_id r = S) (db_qosout ?db)) \<and> db' = ?db"
  then have rows: "rows = map do_message_id (filter (\<lambda>r. do_session_id r = S) (db_qosout ?db))" "db' = ?db" by simp_all
  have own: "i \<notin> kept_messages S ?db" if "Some i \<in> set rows" for i
    using that kept_not_own [OF ok] unfolding rows(1) by auto
  have mids: "set mids = set rows" if "those (map get_i32_opt rows) = Some mids" for mids
  proof -
    have "those (map get_i32_opt xs) = Some ys \<Longrightarrow> ys = xs" for xs ys
      by (induction xs arbitrary: ys) (auto split: option.splits dest: get_i32_opt_Some)
    with that show ?thesis by blast
  qed
  show "leads now ?t db' (act_bind (or_error session_value_error (act_return (those (map get_i32_opt rows)))) (\<lambda>mids.
           act_bind (or_error (Session_Persist ''Error clearing qosout'') (sql_execute env [Tab_qosout]
             (\<lambda>db. ((), db\<lparr>db_qosout := filter (\<lambda>r. do_session_id r \<noteq> S) (db_qosout db)\<rparr>)))) (\<lambda>_.
           act_for (?ids mids) (\<lambda>message_id.
             or_error (Session_Persist ''Qosout clear delete message failed'')
               (sql_execute env [Tab_messages] (delete_message_row message_id)))))) ?F"
    unfolding rows(2)
  proof (rule leads_bind [OF leads_pick [where Q = "\<lambda>mids db'. db' = ?db \<and> set mids = set rows"]])
    fix mids db1 assume v: "db1 = ?db \<and> set mids = set rows"
    have i: "i \<notin> kept_messages S ?db" if "i \<in> set (?ids mids)" for i
      using that v by (intro own) (auto split: option.splits)
    show "leads now ?t db1 (act_bind (or_error (Session_Persist ''Error clearing qosout'') (sql_execute env [Tab_qosout]
             (\<lambda>db. ((), db\<lparr>db_qosout := filter (\<lambda>r. do_session_id r \<noteq> S) (db_qosout db)\<rparr>)))) (\<lambda>_.
           act_for (?ids mids) (\<lambda>message_id.
             or_error (Session_Persist ''Qosout clear delete message failed'')
               (sql_execute env [Tab_messages] (delete_message_row message_id))))) ?F"
      unfolding conjunct1 [OF v]
      by (rule leads_bind [OF leads_delete_rows [OF works, where S = S]], assumption)
        (rule leads_for, rule leads_delete_message [OF works], assumption, erule i)
  qed (simp add: mids)
next
  show "leads now (now (sq_world p)) db' (act_return 0) (\<lambda>_. session_frame S (sq_db p))" if "session_frame S (sq_db p) db'" for db'
    using that by (rule leads_return)
qed

text \<open>Opening a session finds it, and nothing changes, or adds it under a new id.\<close>

lemma frame_open:
  assumes works: "sql_works env now" and call: "sql_persist_session env name p = (Inr (S, g, new, mid), p')"
  shows "session_frame S (sq_db p) (sq_db p')" and "new \<Longrightarrow> S \<notin> ds_id ` set (db_sessions (sq_db p))"
proof -
  let ?db = "sq_db p" and ?t = "now (sq_world p)"
  let ?Q = "\<lambda>(S, g, new, mid) db'. session_frame S ?db db' \<and> (new \<longrightarrow> S \<notin> ds_id ` set (db_sessions ?db))"
  have insert: "leads now ?t ?db (act_bind (session_statement env [Tab_sessions] e (insert_session_row name 0)) (\<lambda>i.
            act_bind (or_error e' (act_return (get_i32 i))) (\<lambda>internal_id.
            act_return (internal_id, 0, True, 1)))) ?Q"
    if "filter (\<lambda>r. ds_name r = name) (db_sessions ?db) = []" for e e'
  proof (rule leads_bind [OF leads_statement [OF works]])
    fix i db' assume i: "insert_session_row name 0 ?db = (i, db')"
    show "leads now ?t db' (act_bind (or_error e' (act_return (get_i32 i))) (\<lambda>internal_id.
            act_return (internal_id, 0, True, 1))) ?Q"
      by (rule leads_bind [OF leads_pick [where Q = "\<lambda>j db''. db'' = db' \<and> get_i32 i = Some j"]])
        (use frame_insert_session [OF i that] get_i32_same in \<open>fastforce intro: leads_return\<close>)+
  qed
  have "leads now ?t ?db (act_bind (session_statement env [Tab_sessions] (Session_Persist ''Error checking session'')
          (sql_select (\<lambda>db. filter (\<lambda>r. ds_name r = name) (db_sessions db)))) (\<lambda>rows.
        case rows of
          row # _ \<Rightarrow>
            act_bind (or_error session_value_error (act_return (get_i32 (ds_id row)))) (\<lambda>internal_id.
            act_bind (or_error session_value_error (act_return (get_i32 (ds_next_mid row)))) (\<lambda>next_mid.
            act_return (internal_id, ds_generation row, False, word_of_int next_mid)))
        | [] \<Rightarrow>
            act_bind (session_statement env [Tab_sessions] (Session_Persist ''Error persisting session'') (insert_session_row name 0)) (\<lambda>i.
            act_bind (or_error (Session_Persist ''Error persisting session'') (act_return (get_i32 i))) (\<lambda>internal_id.
            act_return (internal_id, 0, True, 1))))) ?Q"
    by (rule leads_bind [OF leads_select [OF works]])
      (auto split: list.split intro!: insert leads_look leads_pick leads_return)
  from interact_leads [OF works this call [unfolded sql_persist_session_def session_interact_def]]
  show "session_frame S ?db (sq_db p')" "new \<Longrightarrow> S \<notin> ds_id ` set (db_sessions ?db)" by simp_all
qed

end
