(* ===== verification/Sql_Shared.thy ===== *)
theory Sql_Shared
  imports Sql_Frames
begin

text \<open>
  One database that the router's tree and all sessions share: the storage of a session keeps its
  promises and leaves everybody else's part alone, and so does the storage of the tree.
\<close>

section \<open>One session\<close>

text \<open>
  A worker that runs opens no session. With a storage that only opens what it knows, all that a worker
  does concerns its own session.
\<close>

definition known_session :: "'w sql_env \<Rightarrow> rstring \<Rightarrow> 'w sql_store \<Rightarrow> (session_error + int \<times> int \<times> bool \<times> u16) \<times> 'w sql_store" where
  "known_session env name p =
     (case sql_persist_session env name p of
        (Inr (S, g, new, mid), p') \<Rightarrow> if new then (Inl session_no_query, p') else (Inr (S, g, False, mid), p')
      | (Inl e, p') \<Rightarrow> (Inl e, p'))"

definition session_persist_known :: "'w sql_env \<Rightarrow> 'w sql_store session_persist" where
  "session_persist_known env = (session_persist_sql env)\<lparr>sp_persist_session := known_session env\<rparr>"

lemma handle_known: "session_handle senv (session_persist_known env) = session_handle senv (session_persist_sql env)"
  unfolding session_handle_def internal_publish_message_def publish_message_def puback_message_def pubrel_message_def
    pubrec_message_def pubcomp_message_def new_client_connected_def qos_incoming_store_def qos_incoming_remove_def
    qos_outgoing_remove_def qos_outgoing_insert_def qos_outgoing_next_mid_def qos_outgoing_set_dup_def
    clean_session_def send_queued_messages_def send_queued_message_def session_persist_known_def
    session_persist_sql_def session_persist.update_convs session_persist.select_convs
  by (rule refl)

lemma start_known:
  assumes "session_start (session_persist_known env) (mqtt_session_new name p w) = (Inr (), s)"
  shows "session_start (session_persist_sql env) (mqtt_session_new name p w) = (Inr (), s)"
proof -
  obtain r p' where c: "sql_persist_session env name p = (r, p')" by force
  show ?thesis
  proof (cases r)
    case (Inl e)
    with assms c show ?thesis
      by (simp add: session_start_def init_persist_session_def mqtt_session_new_def act_bind_persist session_persist_known_def
          session_persist_sql_def known_session_def)
  next
    case (Inr q)
    obtain S g new mid where q: "q = (S, g, new, mid)" by (cases q)
    show ?thesis
    proof (cases new)
      case True
      with assms c Inr q show ?thesis
        by (simp add: session_start_def init_persist_session_def mqtt_session_new_def act_bind_persist session_persist_known_def
            session_persist_sql_def known_session_def)
    next
      case False
      with assms c Inr q show ?thesis
        by (simp add: session_start_def init_persist_session_def mqtt_session_new_def act_bind_persist session_persist_known_def
            session_persist_sql_def known_session_def)
    qed
  qed
qed

definition alone_ok :: "('w \<Rightarrow> int) \<Rightarrow> int \<Rightarrow> database \<Rightarrow> 'w sql_store \<Rightarrow> bool" where
  "alone_ok now S db p \<longleftrightarrow> store_ok now p \<and> session_frame S db (sq_db p)"

definition alone_view :: "int \<Rightarrow> 'w sql_store \<Rightarrow> int \<Rightarrow> session_view option" where
  "alone_view S p S' = (if S' = S then sql_view p S else None)"

lemma alone_shows:
  assumes "alone_ok now S db p" and "shows_or_fails (store_ok now) sql_view S v c"
    and "\<And>a p'. c = (Inr a, p') \<Longrightarrow> session_frame S (sq_db p) (sq_db p')"
  shows "shows_or_fails (alone_ok now S db) (alone_view S) S v c"
  using assms by (auto simp: shows_or_fails_def alone_ok_def alone_view_def split: prod.splits sum.splits intro: frame_trans)

lemma alone_now:
  assumes "alone_ok now S db p" and "shows_now (store_ok now) sql_view S v a c"
    and "\<And>a p'. c = (Inr a, p') \<Longrightarrow> session_frame S (sq_db p) (sq_db p')"
  shows "shows_now (alone_ok now S db) (alone_view S) S v a c"
  using assms by (auto simp: shows_now_def alone_ok_def alone_view_def intro: frame_trans)

lemma alone_at:
  assumes "alone_ok now S db p" and "alone_view S p S' = Some v"
  shows "S' = S" and "sql_view p S = Some v" and "store_ok now p"
  using assms by (auto simp: alone_ok_def alone_view_def split: if_splits)

theorem alone_storage:
  assumes works: "sql_works env now"
  shows "session_storage (session_persist_known env) (alone_ok now S db) (alone_view S)"
proof (unfold_locales, goal_cases)
  case (1 p)
  then show ?case by (simp add: session_persist_known_def session_persist_sql_def)
next
  case (2 p S' v)
  note S = alone_at [OF 2(1,2)]
  have "shows_now (alone_ok now S db) (alone_view S) S v (S, sv_generation v, False, sv_next_mid v) (sql_persist_session env (sv_name v) p)"
    using shows_open_known [OF works S(3,2)] by (rule alone_now [OF 2(1)]) (use shows_open_known [OF works S(3,2)] in \<open>auto simp: shows_now_def dest: frame_open(1) [OF works]\<close>)
  then show ?case by (auto simp: S(1) shows_now_def session_persist_known_def known_session_def)
next
  case (3 p name S' g mid p')
  then show ?case
    by (auto simp: session_persist_known_def known_session_def split: prod.splits sum.splits if_splits)
next
  case (4 p S')
  then have ok: "store_ok now p" by (simp add: alone_ok_def)
  obtain a p' where "sql_session_subscriptions env S' p = (Inr a, p')" "store_ok now p'" "sql_view p' = sql_view p"
    using shows_subscriptions [OF works ok] by blast
  with 4 frame_loads(1) [OF works this(1), of S] show ?case
    by (auto simp: session_persist_known_def session_persist_sql_def alone_ok_def alone_view_def fun_eq_iff intro: frame_trans)
next
  case (5 p S' v)
  note S = alone_at [OF 5(1,2)]
  from alone_now [OF 5(1) shows_load_received [OF works S(3,2)] frame_loads(2) [OF works]]
  show ?case by (simp add: S(1) session_persist_known_def session_persist_sql_def)
next
  case (6 p S' v)
  note S = alone_at [OF 6(1,2)]
  from alone_now [OF 6(1) shows_load_queue [OF works S(3,2)] frame_loads(3) [OF works]]
  show ?case by (simp add: S(1) session_persist_known_def session_persist_sql_def)
next
  case (7 p S' v g)
  note S = alone_at [OF 7(1,2)]
  from alone_now [OF 7(1) shows_update_generation [OF works S(3,2)] frame_updates(1) [OF works]]
  show ?case by (simp add: S(1) session_persist_known_def session_persist_sql_def)
next
  case (8 p S' v mid)
  note S = alone_at [OF 8(1,2)]
  from alone_shows [OF 8(1) shows_now_or_fails [OF shows_update_mid [OF works S(3,2)]] frame_updates(2) [OF works]]
  show ?case by (simp add: S(1) session_persist_known_def session_persist_sql_def)
next
  case (9 p S' v mid)
  note S = alone_at [OF 9(1,2)]
  from alone_shows [OF 9(1) shows_store_received [OF works S(3,2)] frame_received(1) [OF works]]
  show ?case by (simp add: S(1) session_persist_known_def session_persist_sql_def)
next
  case (10 p S' v mid)
  note S = alone_at [OF 10(1,2)]
  from alone_shows [OF 10(1) shows_now_or_fails [OF shows_delete_received [OF works S(3,2)]] frame_received(2) [OF works]]
  show ?case by (simp add: S(1) session_persist_known_def session_persist_sql_def)
next
  case (11 p S' v)
  note S = alone_at [OF 11(1,2)]
  from alone_now [OF 11(1) shows_clear_received [OF works S(3,2)] frame_received(3) [OF works]]
  show ?case by (simp add: S(1) session_persist_known_def session_persist_sql_def)
next
  case (12 p S' v m mid)
  note S = alone_at [OF 12(1,2)]
  from alone_shows [OF 12(1) shows_store_message [OF works S(3,2) 12(3,4)] frame_store_message [OF works store_okD(1) [OF S(3)]]]
  show ?case by (simp add: S(1) session_persist_known_def session_persist_sql_def)
next
  case (13 p S' v mid)
  note S = alone_at [OF 13(1,2)]
  from alone_shows [OF 13(1) shows_delete_message [OF works S(3,2) 13(3,4)] frame_delete_message_call [OF works store_okD(1) [OF S(3)]]]
  show ?case by (simp add: S(1) session_persist_known_def session_persist_sql_def)
next
  case (14 p S' v mid)
  note S = alone_at [OF 14(1,2)]
  from alone_shows [OF 14(1) shows_update_dup [OF works S(3,2)] frame_updates(3) [OF works]]
  show ?case by (simp add: S(1) session_persist_known_def session_persist_sql_def)
next
  case (15 p S' v)
  note S = alone_at [OF 15(1,2)]
  from alone_now [OF 15(1) shows_clear_queue [OF works S(3,2)] frame_clear_queue [OF works store_okD(1) [OF S(3)]]]
  show ?case by (simp add: S(1) session_persist_known_def session_persist_sql_def)
qed

text \<open>What the worker does with a message, and a restart, concern its own session only.\<close>

lemma handle_alone:
  assumes works: "sql_works env now" and step: "in_step (store_ok now) sql_view s"
    and call: "session_handle senv (session_persist_sql env) v s = (r, s')" and "\<forall>m. r \<noteq> Inl (Failed (Session_Persist m))"
  shows "in_step (store_ok now) sql_view s' \<and> ss_internal_id s' = ss_internal_id s \<and>
    session_frame (ss_internal_id s) (sq_db (ss_persist s)) (sq_db (ss_persist s'))"
proof -
  let ?S = "ss_internal_id s"
  let ?ok = "alone_ok now ?S (sq_db (ss_persist s))"
  have "in_step ?ok (alone_view ?S) s" using step by (simp add: in_step_def alone_ok_def alone_view_def)
  moreover have "act_hoare (in_step ?ok (alone_view ?S)) (session_handle senv (session_persist_known env) v)
      (\<lambda>_. in_step ?ok (alone_view ?S)) (step_error ?ok (alone_view ?S))"
    by (rule session_contract.handle [OF session_storage.step_contract [OF alone_storage [OF works]]]) simp
  ultimately have "case r of Inl e \<Rightarrow> step_error ?ok (alone_view ?S) e s' | Inr _ \<Rightarrow> in_step ?ok (alone_view ?S) s'"
    using call unfolding handle_known act_hoare_def by (metis (mono_tags, lifting) case_prod_conv)
  with assms(4) have "in_step ?ok (alone_view ?S) s'" by (cases r) (auto simp: step_error_def)
  then show ?thesis by (auto simp: in_step_def alone_ok_def alone_view_def split: if_splits)
qed

lemma restart_alone:
  assumes works: "sql_works env now" and step: "in_step (store_ok now) sql_view s"
  obtains s' where "session_start (session_persist_sql env) (mqtt_session_new (ss_id s) (ss_persist s) w) = (Inr (), s')"
    and "in_step (store_ok now) sql_view s'" and "continues s s'"
    and "session_frame (ss_internal_id s) (sq_db (ss_persist s)) (sq_db (ss_persist s'))"
proof -
  let ?S = "ss_internal_id s"
  let ?ok = "alone_ok now ?S (sq_db (ss_persist s))"
  have "in_step ?ok (alone_view ?S) s" using step by (simp add: in_step_def alone_ok_def alone_view_def)
  then obtain s' where "session_start (session_persist_known env) (mqtt_session_new (ss_id s) (ss_persist s) w) = (Inr (), s')"
    "in_step ?ok (alone_view ?S) s'" "continues s s'"
    by (rule session_storage.restart [OF alone_storage [OF works]])
  then show ?thesis using start_known
    by (intro that [of s']) (auto simp: in_step_def alone_ok_def alone_view_def split: if_splits)
qed

lemma open_alone:
  assumes works: "sql_works env now" and ok: "store_ok now p"
    and start: "session_start (session_persist_sql env) (mqtt_session_new name p w) = (Inr (), s)" and clean: "ss_clean s"
  shows "in_step (store_ok now) sql_view s" and "session_frame (ss_internal_id s) (sq_db p) (sq_db (ss_persist s))"
    and "ss_internal_id s \<notin> ds_id ` set (db_sessions (sq_db p))"
proof -
  show "in_step (store_ok now) sql_view s"
    by (rule session_storage.start_new [OF sql_session_storage [OF works] ok start clean])
  obtain r p' where c: "sql_persist_session env name p = (r, p')" by force
  have conn: "sp_create_persistent_connection (session_persist_sql env) p = (Inr 0, p)"
    "sp_persist_session (session_persist_sql env) = sql_persist_session env" by (simp_all add: session_persist_sql_def)
  obtain S g new mid where r: "r = Inr (S, g, new, mid)"
    using start c by (cases r) (auto simp: session_start_def init_persist_session_def mqtt_session_new_def act_bind_persist conn)
  have new using start clean c r
    by (auto simp: session_start_def init_persist_session_def mqtt_session_new_def act_bind_persist bind_subscriptions conn
        act_bind_app [of "act_for _ load_qos_message"] simp del: act_for.simps
        split: prod.splits sum.splits if_splits dest: load_messages)
  with start c r have "ss_persist s = p'" "ss_internal_id s = S"
    by (auto simp: session_start_def init_persist_session_def mqtt_session_new_def act_bind_persist conn)
  with frame_open [OF works c [unfolded r]] \<open>new\<close>
  show "session_frame (ss_internal_id s) (sq_db p) (sq_db (ss_persist s))" "ss_internal_id s \<notin> ds_id ` set (db_sessions (sq_db p))"
    by simp_all
qed

section \<open>The router\<close>

text \<open>The router's calls leave the sessions and their rows and messages alone.\<close>

definition queued_messages :: "database \<Rightarrow> int set" where
  "queued_messages db = {i. Some i \<in> do_message_id ` set (db_qosout db)}"

definition router_frame :: "database \<Rightarrow> database \<Rightarrow> bool" where
  "router_frame db db' \<longleftrightarrow>
     db_tables db' = db_tables db \<and> db_version db' = db_version db \<and> db_sessions db' = db_sessions db \<and> db_qosin db' = db_qosin db \<and> db_qosout db' = db_qosout db \<and>
     (\<forall>i \<in> queued_messages db. message_rows i db' = message_rows i db)"

lemma router_refl [simp]: "router_frame db db"
  by (simp add: router_frame_def)

lemma router_trans: "router_frame db db1 \<Longrightarrow> router_frame db1 db2 \<Longrightarrow> router_frame db db2"
  by (auto simp: router_frame_def queued_messages_def)

lemma router_view:
  assumes "router_frame db db'"
  shows "db_view db' = db_view db"
proof -
  note F = assms [unfolded router_frame_def]
  have "row_message db' r = row_message db r" if "r \<in> set (db_qosout db)" for r
  proof (rule row_message_cong)
    fix i assume "do_message_id r = Some i"
    with that have "i \<in> queued_messages db" by (force simp: queued_messages_def)
    with F show "message_rows i db' = message_rows i db" by blast
  qed
  with F have "stored_queue db' = stored_queue db" by (auto simp: fun_eq_iff stored_queue_def own_rows_def)
  with F show ?thesis by (intro db_view_same) (simp_all add: session_row_of_def stored_received_def fun_eq_iff)
qed

text \<open>The tree's storage with the sessions' part of it.\<close>

definition shared_ok :: "('w \<Rightarrow> int) \<Rightarrow> database \<Rightarrow> 'w sql_store \<Rightarrow> bool" where
  "shared_ok now db p \<longleftrightarrow> topic_store_ok p \<and> store_ok now p \<and> router_frame db (sq_db p)"

definition router_later :: "('w \<Rightarrow> int) \<Rightarrow> 'w sql_store \<Rightarrow> 'w sql_store \<Rightarrow> bool" where
  "router_later now p p' \<longleftrightarrow> router_frame (sq_db p) (sq_db p') \<and> now (sq_world p) \<le> now (sq_world p')"

lemma shared_later:
  assumes "shared_ok now db p" and "topic_store_ok p'" and "router_later now p p'"
  shows "shared_ok now db p'"
proof -
  have "store_ok now \<lparr>sq_db = sq_db p', sq_world = sq_world p'\<rparr>"
    by (rule store_ok_later [where p = p]) (use assms in \<open>simp_all add: shared_ok_def router_later_def router_frame_def topic_store_ok_def\<close>)
  then have "store_ok now p'" unfolding store_eq .
  with assms show ?thesis by (auto simp: shared_ok_def router_later_def intro: router_trans)
qed

lemma router_call:
  assumes "sql_works env now" and "leads now (now (sq_world p)) (sq_db p) body (\<lambda>_. router_frame (sq_db p))"
    and "sql_interact env e1 e2 body p = (Inr a, p')"
  shows "router_later now p p'"
  using interact_leads [OF assms] by (simp add: router_later_def)

lemma router_statement:
  assumes works: "sql_works env now" and "\<And>a db'. f (sq_db p) = (a, db') \<Longrightarrow> router_frame (sq_db p) db'"
    and "\<And>a db'. leads now (now (sq_world p)) db' (g a) (\<lambda>_ db''. db'' = db')"
    and "sql_interact env e1 e2 (act_bind (or_error e (sql_execute env tables f)) g) p = (Inr a, p')"
  shows "router_later now p p'"
proof (rule router_call [OF works _ assms(4)], rule leads_bind [OF leads_execute [OF works]])
  fix a db' assume "f (sq_db p) = (a, db')"
  from assms(2) [OF this] show "leads now (now (sq_world p)) db' (g a) (\<lambda>_. router_frame (sq_db p))"
    by (rule_tac leads_mono [OF assms(3)]) simp
qed

lemma router_loads:
  assumes works: "sql_works env now"
  shows "sql_load_persistent_topics env p = (Inr a, p') \<Longrightarrow> router_later now p p'"
    and "sql_load_persistent_message env mid p = (Inr b, p') \<Longrightarrow> router_later now p p'"
    and "sql_load_persistent_subscriptions env tid p = (Inr c, p') \<Longrightarrow> router_later now p p'"
proof -
  assume "sql_load_persistent_topics env p = (Inr a, p')"
  from this [unfolded sql_load_persistent_topics_def] show "router_later now p p'"
    by (rule router_statement [OF works, rotated -1]) (auto simp: sql_select_def intro: leads_unwrap)
next
  assume call: "sql_load_persistent_message env mid p = (Inr b, p')"
  have "leads now (now (sq_world p)) (sq_db p) (act_bind (sql_execute env [Tab_messages] (sql_select (message_rows mid))) (\<lambda>rows.
        case rows of
          Some (row # _) \<Rightarrow> act_unwrap (stored_message row)
        | _ \<Rightarrow> act_fail (Failed (Broker_PersistError ''Could not load persistent messages'')))) (\<lambda>_. router_frame (sq_db p))"
    by (rule leads_bind [OF leads_run [OF works]])
      (auto simp: sql_select_def split: option.splits list.split intro: leads_unwrap leads_fail)
  from router_call [OF works this call [unfolded sql_load_persistent_message_def]] show "router_later now p p'" .
next
  assume "sql_load_persistent_subscriptions env tid p = (Inr c, p')"
  from this [unfolded sql_load_persistent_subscriptions_def] show "router_later now p p'"
    by (rule router_statement [OF works, rotated -1]) (auto simp: sql_select_def intro: leads_unwrap)
qed

lemma router_topics:
  assumes works: "sql_works env now"
  shows "sql_persist_topic env n p = (Inr a, p') \<Longrightarrow> router_later now p p'"
    and "sql_persist_delete_topic env tid p = (Inr b, p') \<Longrightarrow> router_later now p p'"
proof -
  assume "sql_persist_topic env n p = (Inr a, p')"
  from this [unfolded sql_persist_topic_def Let_def] show "router_later now p p'"
    by (rule router_statement [OF works, rotated -1])
      (auto simp: insert_topic_row_def Let_def router_frame_def intro: leads_pick)
next
  assume "sql_persist_delete_topic env tid p = (Inr b, p')"
  from this [unfolded sql_persist_delete_topic_def] show "router_later now p p'"
    by (rule router_statement [OF works, rotated -1]) (auto simp: router_frame_def intro: leads_return)
qed

lemma router_subscriptions:
  assumes works: "sql_works env now"
  shows "sql_persist_subscribe env S tid q p = (Inr a, p') \<Longrightarrow> router_later now p p'"
    and "sql_persist_update_subscribe env S tid q p = (Inr b, p') \<Longrightarrow> router_later now p p'"
    and "sql_persist_unsubscribe env S tid p = (Inr c, p') \<Longrightarrow> router_later now p p'"
proof -
  assume "sql_persist_subscribe env S tid q p = (Inr a, p')"
  from this [unfolded sql_persist_subscribe_def] show "router_later now p p'"
    by (rule router_statement [OF works, rotated -1]) (auto simp: router_frame_def intro: leads_return)
next
  assume "sql_persist_update_subscribe env S tid q p = (Inr b, p')"
  from this [unfolded sql_persist_update_subscribe_def] show "router_later now p p'"
    by (rule router_statement [OF works, rotated -1]) (auto simp: router_frame_def intro: leads_return)
next
  assume "sql_persist_unsubscribe env S tid p = (Inr c, p')"
  from this [unfolded sql_persist_unsubscribe_def] show "router_later now p p'"
    by (rule router_statement [OF works, rotated -1]) (auto simp: router_frame_def intro: leads_return)
qed

lemma queued_owned: "queued_messages db \<subseteq> set (owned db)"
  by (auto simp: queued_messages_def owned_def)

lemma router_insert_message:
  assumes "db_ok db" and "insert_message_row q topic payload db = (i, db')"
  shows "router_frame db db'"
proof -
  have "i \<notin> queued_messages db"
    using insert_message_effect [OF assms] queued_owned [of db] by auto
  moreover have "db' = db\<lparr>db_messages := db_messages db @ [\<lparr>dm_id = i, dm_qos = uint q, dm_topic = topic, dm_payload = payload\<rparr>]\<rparr>"
    using assms(2) by (auto simp: insert_message_row_def Let_def)
  ultimately show ?thesis by (auto simp: router_frame_def message_rows_def)
qed

lemma router_set_retained: "router_frame db (snd (set_retained_row i mi db))"
  by (simp add: router_frame_def set_retained_row_def)

lemma router_retain:
  assumes works: "sql_works env now" and ok: "db_ok (sq_db p)" and call: "sql_persist_retain env tid m p = (Inr a, p')"
  shows "router_later now p p'"
proof (rule router_call [OF works _ call [unfolded sql_persist_retain_def Let_def]], rule leads_bind [OF leads_execute [OF works]])
  let ?t = "now (sq_world p)" and ?F = "\<lambda>_. router_frame (sq_db p)" and ?e = "Broker_PersistError ''Message retain failed''"
  fix i db' assume "insert_message_row (pub_qos m) (pub_topic m) (pub_message m) (sq_db p) = (i, db')"
  then have F: "router_frame (sq_db p) db'" by (rule router_insert_message [OF ok])
  have set: "leads now ?t db' (or_error ?e (sql_execute env [Tab_topics] (set_retained_row tid mi))) ?F" for mi
    by (rule leads_mono [OF leads_execute [OF works]], rule router_trans [OF F])
      (use router_set_retained [of db' tid mi] in auto)
  show "leads now ?t db' (act_bind (or_error ?e (act_return (get_i32 i))) (\<lambda>retid.
         act_bind (or_error ?e (sql_execute env [Tab_topics] (set_retained_row tid (Some retid)))) (\<lambda>_.
         act_return retid))) ?F"
    by (rule leads_look [OF leads_pick], rule refl, rule leads_bind [OF set], erule leads_return)
qed

lemma router_delete_retain:
  assumes works: "sql_works env now" and ok: "db_ok (sq_db p)" and call: "sql_persist_delete_retain env tid p = (Inr a, p')"
  shows "router_later now p p'"
proof (rule router_call [OF works _ call [unfolded sql_persist_delete_retain_def]], rule leads_transaction [OF works],
    rule leads_bind [OF leads_run [OF works]])
  let ?db = "sq_db p" and ?t = "now (sq_world p)" and ?F = "\<lambda>_. router_frame (sq_db p)"
  let ?ids = "map dt_retained_message_id (filter (\<lambda>r. dt_id r = tid) (db_topics ?db))"
  let ?e = "Broker_PersistError ''Delete retained message getting message id failed''"
  fix rows db' assume "case rows of None \<Rightarrow> db' = ?db
    | Some a \<Rightarrow> sql_select (\<lambda>db. map dt_retained_message_id (filter (\<lambda>r. dt_id r = tid) (db_topics db))) ?db = (a, db')"
  then have rows: "rows = None \<or> rows = Some ?ids" "db' = ?db" by (auto simp: sql_select_def split: option.splits)
  have own: "i \<notin> queued_messages ?db" if "Some i \<in> set ?ids" for i
    using that db_okD(7) [OF ok] by (auto simp: owned_def queued_messages_def)
  have delete: "leads now ?t db1 (or_error e (sql_execute env [Tab_messages] (delete_message_row i))) ?F"
    if "router_frame ?db db1" "Some i \<in> set ?ids" for i db1 e
  proof (rule leads_mono [OF leads_execute [OF works]])
    fix u db2 assume "delete_message_row i db1 = (u, db2)"
    moreover have "i \<notin> queued_messages db1" using own [OF that(2)] that(1) by (simp add: router_frame_def queued_messages_def)
    ultimately have "router_frame db1 db2"
      by (auto simp: router_frame_def delete_message_row_def message_rows_def simp del: filter_filter intro!: filter_weaker)
    with that(1) show "router_frame ?db db2" by (rule router_trans)
  qed
  have unset: "leads now ?t ?db (or_error e (sql_execute env [Tab_topics] (set_retained_row tid None))) ?F" for e
    by (rule leads_mono [OF leads_execute [OF works]]) (use router_set_retained [of ?db tid None] in auto)
  show "leads now ?t db' (act_bind (or_error ?e (act_return (case rows of Some (v # _) \<Rightarrow> get_i32_opt v | _ \<Rightarrow> None))) (\<lambda>message_id.
           act_bind (or_error (Broker_PersistError ''Delete retained message from topic failed'')
             (sql_execute env [Tab_topics] (set_retained_row tid None))) (\<lambda>_.
           case message_id of
             Some mid \<Rightarrow> or_error (Broker_PersistError ''Delete retained message failed'')
               (sql_execute env [Tab_messages] (delete_message_row mid))
           | None \<Rightarrow> act_return ()))) ?F"
    unfolding rows(2)
  proof (rule leads_bind [OF leads_pick [where Q = "\<lambda>v db'. db' = ?db \<and> (\<forall>i. v = Some i \<longrightarrow> Some i \<in> set ?ids)"]])
    show "?db = ?db \<and> (\<forall>i. v = Some i \<longrightarrow> Some i \<in> set ?ids)"
      if "(case rows of Some (v # _) \<Rightarrow> get_i32_opt v | _ \<Rightarrow> None) = Some v" for v
    proof -
      from that rows(1) obtain x xs where "?ids = x # xs" "get_i32_opt x = Some v" by (auto split: option.splits list.splits)
      then show ?thesis by (metis get_i32_opt_Some list.set_intros(1))
    qed
    fix v db1 assume v: "db1 = ?db \<and> (\<forall>i. v = Some i \<longrightarrow> Some i \<in> set ?ids)"
    show "leads now ?t db1 (act_bind (or_error (Broker_PersistError ''Delete retained message from topic failed'')
             (sql_execute env [Tab_topics] (set_retained_row tid None))) (\<lambda>_.
           case v of
             Some mid \<Rightarrow> or_error (Broker_PersistError ''Delete retained message failed'')
               (sql_execute env [Tab_messages] (delete_message_row mid))
           | None \<Rightarrow> act_return ())) ?F"
      unfolding conjunct1 [OF v]
      by (rule leads_bind [OF unset]) (use v in \<open>auto intro: leads_return delete split: option.split\<close>)
  qed
qed

text \<open>A change of a QoS does not fail as long as the database works.\<close>

lemma update_subscribe_works:
  assumes works: "sql_works env now" and ok: "db_ok (sq_db p)"
  shows "\<exists>p'. sql_persist_update_subscribe env S tid q p = (Inr True, p')"
proof -
  let ?f = "\<lambda>u. if du_session_id u = S \<and> du_topic_id u = tid then u\<lparr>du_qos := uint q\<rparr> else u"
  let ?db' = "(sq_db p)\<lparr>db_subscriptions := map ?f (db_subscriptions (sq_db p))\<rparr>"
  have "owned ?db' = owned (sq_db p)" by (simp add: owned_def)
  then have "foreign_keys_ok ?db'" using db_okD(6) [OF ok] unfolding foreign_keys_owned by auto
  then have "yields now (sql_persist_update_subscribe env S tid q) p (interact_result broker_no_query (Inr True)) ?db'"
    unfolding sql_persist_update_subscribe_def
    by (intro topic_call [OF works all_tables(3) [OF ok]]) (auto intro: yields_return_at)
  then show ?thesis by (auto simp: yields_def)
qed

theorem shared_storage:
  assumes works: "sql_works env now"
  shows "topic_storage (persist_topic_sql env) (shared_ok now db) topic_sql_view sessions_sql_known"
proof (unfold_locales, goal_cases)
  case (1 p S s)
  then show ?case by (auto simp: shared_ok_def dest: topic_storage.who_id [OF sql_topic_storage [OF works]])
next
  case (2 p S n S')
  then show ?case by (auto simp: shared_ok_def intro: sql_who_names)
next
  case (3 p n v S q)
  then show ?case by (auto simp: shared_ok_def dest: sql_subs_known)
next
  case (4 p n v mid m)
  then show ?case by (auto simp: shared_ok_def dest: sql_retained_form)
next
  case (5 p n i p')
  then have T: "topic_store_ok p" and c: "sql_persist_topic env n p = (Inr i, p')" by (simp_all add: shared_ok_def persist_topic_sql_def)
  from sql_add_topic [OF works T 5(2) c] shared_later [OF 5(1) _ router_topics(1) [OF works c]] show ?case by blast
next
  case (6 p n v a p')
  then have T: "topic_store_ok p" and c: "sql_persist_delete_topic env (tv_id v) p = (Inr a, p')" by (simp_all add: shared_ok_def persist_topic_sql_def)
  from sql_delete_topic [OF works T 6(2,3) c] shared_later [OF 6(1) _ router_topics(2) [OF works c]] show ?case by blast
next
  case (7 p n v S q b p')
  then have T: "topic_store_ok p" and c: "sql_persist_subscribe env S (tv_id v) q p = (Inr b, p')" by (simp_all add: shared_ok_def persist_topic_sql_def)
  from sql_add_subscription [OF works T 7(2-4) c] shared_later [OF 7(1) _ router_subscriptions(1) [OF works c]] show ?case by blast
next
  case (8 p n v S q r p')
  then have T: "topic_store_ok p" "db_ok (sq_db p)" and c: "sql_persist_update_subscribe env S (tv_id v) q p = (r, p')"
    by (simp_all add: shared_ok_def topic_store_ok_def persist_topic_sql_def)
  from update_subscribe_works [OF works T(2), of S "tv_id v" q] c have r: "r = Inr True" by auto
  from sql_update_subscription [OF works T(1) 8(2,3) c] shared_later [OF 8(1) _ router_subscriptions(2) [OF works c [unfolded r]]]
  show ?case by blast
next
  case (9 p n v S b p')
  then have T: "topic_store_ok p" and c: "sql_persist_unsubscribe env S (tv_id v) p = (Inr b, p')" by (simp_all add: shared_ok_def persist_topic_sql_def)
  from sql_remove_subscription [OF works T 9(2) c] shared_later [OF 9(1) _ router_subscriptions(3) [OF works c]] show ?case by blast
next
  case (10 p n v m a p')
  then have T: "topic_store_ok p" "db_ok (sq_db p)" and c: "sql_persist_retain env (tv_id v) m p = (Inr a, p')"
    by (simp_all add: shared_ok_def topic_store_ok_def persist_topic_sql_def)
  from sql_add_retained [OF works T(1) 10(2) c] shared_later [OF 10(1) _ router_retain [OF works T(2) c]] show ?case by blast
next
  case (11 p n v u p')
  then have T: "topic_store_ok p" "db_ok (sq_db p)" and c: "sql_persist_delete_retain env (tv_id v) p = (Inr u, p')"
    by (simp_all add: shared_ok_def topic_store_ok_def persist_topic_sql_def)
  from sql_remove_retained [OF works T(1) 11(2) c] shared_later [OF 11(1) _ router_delete_retain [OF works T(2) c]] show ?case by blast
next
  case (12 p)
  then have T: "topic_store_ok p" by (simp add: shared_ok_def)
  from sql_load_topics [OF works T] obtain ts p' where c: "sql_load_persistent_topics env p = (Inr ts, p')"
    "topic_store_ok p'" "sessions_sql_known p' = sessions_sql_known p" "topic_sql_view p' = topic_sql_view p" "lists_topics (topic_sql_view p) ts"
    by blast
  with shared_later [OF 12 c(2) router_loads(1) [OF works c(1)]] show ?case by (simp add: persist_topic_sql_def)
next
  case (13 p n v mid m)
  then have T: "topic_store_ok p" by (simp add: shared_ok_def)
  from sql_load_message [OF works T 13(2,3)] obtain p' where c: "sql_load_persistent_message env mid p = (Inr m, p')"
    "topic_store_ok p'" "sessions_sql_known p' = sessions_sql_known p" "topic_sql_view p' = topic_sql_view p" by blast
  with shared_later [OF 13(1) c(2) router_loads(2) [OF works c(1)]] show ?case by (simp add: persist_topic_sql_def)
next
  case (14 p n v)
  then have T: "topic_store_ok p" by (simp add: shared_ok_def)
  from sql_load_subscriptions [OF works T 14(2)] obtain ls p' where c: "sql_load_persistent_subscriptions env (tv_id v) p = (Inr ls, p')"
    "topic_store_ok p'" "sessions_sql_known p' = sessions_sql_known p" "topic_sql_view p' = topic_sql_view p"
    "lists_subscriptions (sessions_sql_known p) (tv_subs v) ls" by blast
  with shared_later [OF 14(1) c(2) router_loads(3) [OF works c(1)]] show ?case by (simp add: persist_topic_sql_def)
qed

end
