(* ===== verification/Sess_Props.thy ===== *)
theory Sess_Props
  imports Sess_Redelivery
begin

text \<open>
  The properties of the session worker: what its handlers do on a session whose queue is in
  order, and what holds along whole runs.
\<close>

section \<open>Properties\<close>

text \<open>C3: Whatever a session receives, while it runs its queue of outgoing QoS messages holds
  one PUBLISH or PUBREC for each registered identifier and nothing else.\<close>

theorem session_queue_in_order:
  assumes "reports_failures sp" and "session_start sp (mqtt_session_new name p w) = (Inr (), s)"
    and "distinct (map outgoing_id (ss_qos_outgoing_messages s))"
    and "session_loop env sp vs s = (Waiting, s')"
  shows "outgoing_id ` set (ss_qos_outgoing_messages s') = Some ` ss_qos_outgoing s' \<and>
    distinct (map outgoing_id (ss_qos_outgoing_messages s'))"
proof -
  from start_ok [OF assms(2,3)] have "sess_ok s" .
  then have "sess_ok s'"
    by (rule session_contract.loop_waiting [OF queue_contract [OF assms(1)] _ _ assms(4)]) simp
  then show ?thesis by (simp add: sess_ok_def queue_ok_def)
qed

definition sample_env :: "unit session_env" where
  "sample_env = \<lparr>se_client_send = (\<lambda>_ _ w. (True, w)), se_router_send = (\<lambda>_ w. (True, w)),
     se_oneshot_channel = (\<lambda>w. (0, w)),
     se_oneshot_recv = (\<lambda>_ w. (Some \<lparr>rr_session = \<lparr>sid_session = [], sid_internal_id = 1, sid_generation = 1\<rparr>,
       rr_ret = 1, rr_retained_messages = []\<rparr>, w)),
     se_overflow_checks = True\<rparr>"

definition sample_connect :: "bool \<Rightarrow> session_message" where
  "sample_connect clean = New_Client \<lparr>nc_msg = connect_new\<lparr>con_clean_session := clean\<rparr>, nc_client = 7\<rparr>"

definition sample_internal :: "u8 \<Rightarrow> session_message" where
  "sample_internal qos = Internal \<lparr>im_session = \<lparr>sid_session = [], sid_internal_id = 1, sid_generation = 1\<rparr>,
     im_message = Publish (publish_new\<lparr>pub_topic := ascii ''a'', pub_qos := qos\<rparr>)\<rparr>"

definition sample_started :: "(unit, unit) mqtt_session" where
  "sample_started = (mqtt_session_new [] () ())\<lparr>ss_internal_id := 1, ss_generation := 1\<rparr>"

lemma sample_start: "session_start persist_session_test (mqtt_session_new [] () ()) = (Inr (), sample_started)"
  by (simp add: session_start_def init_persist_session_def act_bind_persist persist_session_test_def
      mqtt_session_new_def sample_started_def Let_def)

lemma sample_ok: "sess_ok sample_started"
  by (simp add: sample_started_def mqtt_session_new_def sess_ok_def)

lemmas sample_reports = storage_works_reports [OF persist_session_test_works]

text \<open>One message to a connected client, that waits for its acknowledgement.\<close>

definition sample_run :: "session_message list \<Rightarrow> task_end \<times> (unit, unit) mqtt_session" where
  "sample_run vs = session_loop sample_env persist_session_test vs sample_started"

lemma sample_runI: "fst (sample_run vs) = e \<Longrightarrow> session_loop sample_env persist_session_test vs sample_started = (e, snd (sample_run vs))"
  by (simp add: sample_run_def prod_eq_iff)

lemma session_queue_in_order_witness:
  "outgoing_id ` set (ss_qos_outgoing_messages (snd (sample_run [sample_connect False, sample_internal 1]))) = {Some 1}"
proof -
  have run: "fst (sample_run [sample_connect False, sample_internal 1]) = Waiting"
    and ids: "ss_qos_outgoing (snd (sample_run [sample_connect False, sample_internal 1])) = {1}" by code_simp+
  from session_queue_in_order [OF sample_reports sample_start _ sample_runI [OF run]] show ?thesis
    by (simp add: ids) (simp add: sample_started_def mqtt_session_new_def)
qed

text \<open>C4: A QoS 2 PUBLISH from the client goes to the router exactly once: until its PUBREL or a
  clean start, no further copy of it is forwarded, however the run goes on.\<close>

theorem qos2_forwarded_once:
  assumes "reports_failures sp" and "sess_ok s"
    and "pub_qos m = 2" and "pub_identifier m \<notin> ss_qos_incoming s"
    and "session_handle env sp (Client_Message (Publish m)) s = (Inr (), s1)"
    and "\<forall>v\<in>set vs. no_release (pub_identifier m) v"
    and "session_loop env sp vs s1 = (Waiting, s2)"
  shows "qos2_forwards (pub_identifier m) s2 = Suc (qos2_forwards (pub_identifier m) s)"
proof -
  let ?mid = "pub_identifier m"
  from assms(5) have step: "publish_message env sp m s = (Inr (), s1)" by (simp add: session_handle_def)
  from publish_ok [OF step] assms(2-4) have "received_inv ?mid (Suc (qos2_forwards ?mid s)) s1"
    by (auto simp: received_inv_def qos2_forwards_def sess_ok_def)
  then have "received_inv ?mid (Suc (qos2_forwards ?mid s)) s2"
    using assms(6,7) by (rule session_contract.loop_waiting [OF received_contract [OF assms(1)]])
  then show ?thesis by (simp add: received_inv_def)
qed

definition sample_publish2 :: publish where
  "sample_publish2 = publish_new\<lparr>pub_topic := ascii ''a'', pub_qos := 2, pub_identifier := 5\<rparr>"

lemma qos2_forwarded_once_witness:
  "qos2_forwards 5 (snd (sample_run [Client_Message (Publish sample_publish2), sample_connect False,
     Client_Message (Publish sample_publish2)])) = 1"
proof -
  let ?m = "Client_Message (Publish sample_publish2)"
  let ?s1 = "snd (session_handle sample_env persist_session_test ?m sample_started)"
  have step: "session_handle sample_env persist_session_test ?m sample_started = (Inr (), ?s1)"
    by (simp add: prod_eq_iff) code_simp
  have "fst (session_loop sample_env persist_session_test [sample_connect False, ?m] ?s1) = Waiting" by code_simp
  then have run: "session_loop sample_env persist_session_test [sample_connect False, ?m] ?s1 =
      (Waiting, snd (session_loop sample_env persist_session_test [sample_connect False, ?m] ?s1))"
    by (simp add: prod_eq_iff)
  have "qos2_forwards (pub_identifier sample_publish2) (snd (session_loop sample_env persist_session_test [sample_connect False, ?m] ?s1)) =
      Suc (qos2_forwards (pub_identifier sample_publish2) sample_started)"
    by (rule qos2_forwarded_once [OF sample_reports sample_ok _ _ step _ run])
      (simp_all add: sample_publish2_def sample_started_def mqtt_session_new_def no_release_def sample_connect_def publish_new_def)
  moreover have "snd (sample_run [?m, sample_connect False, ?m]) =
      snd (session_loop sample_env persist_session_test [sample_connect False, ?m] ?s1)"
    unfolding sample_run_def by (subst session_loop.simps, subst step) simp
  ultimately show ?thesis
    by (simp add: sample_publish2_def sample_started_def mqtt_session_new_def qos2_forwards_def)
qed

lemma publish_update_swap: "m\<lparr>pub_dup := d, pub_identifier := i\<rparr> = m\<lparr>pub_identifier := i, pub_dup := (d :: bool)\<rparr>"
  by (cases m) simp

lemma internal_publish_queued:
  assumes rf: "reports_failures sp" and ok: "sess_ok s" and q: "pub_qos m = 1 \<or> pub_qos m = 2"
    and r: "internal_publish_message env sp m s = (r, s1)" and r': "r = Inr () \<or> r = Inl (Failed Session_Client)"
  shows "ss_next_message_id s \<notin> ss_qos_outgoing s \<and> queued (m\<lparr>pub_identifier := ss_next_message_id s\<rparr>) s1"
proof -
  let ?m = "m\<lparr>pub_dup := False\<rparr>" and ?s = "s\<lparr>ss_counter_publish_sent := ss_counter_publish_sent s + 1\<rparr>"
  obtain q t where t: "qos_outgoing_insert env sp (Publish ?m) ?s = (q, t)" by force
  from ok have ok': "sess_ok ?s" by simp
  show ?thesis
  proof (cases q)
    case (Inl e)
    from t Inl have "e = Panicked \<or> fatal e"
      by (auto simp: insert_publish_eq next_mid_eq split: if_splits prod.splits sum.splits dest: reports_failuresD [OF rf])
    then have f: "fatal e" by auto
    from r q t Inl have "r = Inl e"
      by (auto simp: internal_publish_message_def Let_def act_bind_app [of "act_bind _ _"] act_bind_app [of "qos_outgoing_insert _ _ _"])
    with r' f show ?thesis by auto
  next
    case (Inr mid)
    let ?x = "m\<lparr>pub_dup := False, pub_identifier := mid\<rparr>"
    from t Inr have mid: "mid = ss_next_message_id s"
      by (auto simp: insert_publish_eq next_mid_eq split: if_splits prod.splits sum.splits)
    from insert_publish_ok [OF ok' t] Inr have new: "mid \<notin> ss_qos_outgoing s" and okt: "sess_ok t"
      and inq: "Publish ?x \<in> set (ss_qos_outgoing_messages t)" by simp_all
    from okt inq have queued: "queued ?x t" by (auto simp: queued_def publish_update_swap intro!: exI [of _ False])
    have "queued ?x s1"
    proof (cases "ss_client t")
      case None
      with r q t Inr have "s1 = t"
        by (auto simp: internal_publish_message_def Let_def act_bind_app [of "act_bind _ _"] act_bind_app [of "qos_outgoing_insert _ _ _"])
      with queued show ?thesis by simp
    next
      case (Some tx)
      obtain rr u where u: "send_client_message env (Publish ?x) t = (rr, u)" by force
      then have qu: "queued ?x u" and same: "ss_qos_outgoing_messages u = ss_qos_outgoing_messages t"
        using queued by (auto simp: send_client_cases Some split: prod.splits bool.splits)
      obtain dr dv where d: "qos_outgoing_set_dup sp mid u = (dr, dv)" by force
      from queued_set_dup [OF qu, of ?x sp dr dv] d inq same have qd: "queued ?x dv" by simp
      from r q t Inr Some u d have "s1 = u \<or> s1 = dv"
        by (auto simp: internal_publish_message_def Let_def act_bind_app [of "act_bind _ _"]
            act_bind_app [of "qos_outgoing_insert _ _ _"] act_bind_app [of "send_client_message _ _"]
            act_bind_app [of "qos_outgoing_set_dup _ _"] split: sum.splits)
      with qu qd show ?thesis by auto
    qed
    then have "queued (m\<lparr>pub_identifier := ss_next_message_id s\<rparr>) s1" by (simp add: queued_def mid)
    with new mid show ?thesis by simp
  qed
qed

text \<open>C5: A QoS 1 or 2 message for the session, whether its client is connected or not, is kept
  under a fresh identifier until the client acknowledges it or starts clean, whatever else
  the session receives.\<close>

theorem queued_until_acknowledged:
  assumes "reports_failures sp" and "sess_ok s" and "pub_qos m = 1 \<or> pub_qos m = 2"
    and "session_handle env sp (Internal \<lparr>im_session = sid, im_message = Publish m\<rparr>) s = (r, s1)"
    and "sid_generation sid = ss_generation s" and "r = Inr () \<or> r = Inl (Failed Session_Client)"
    and "\<forall>v\<in>set vs. no_acknowledgement (ss_next_message_id s) v"
    and "session_loop env sp vs s1 = (Waiting, s2)"
  shows "ss_next_message_id s \<notin> ss_qos_outgoing s \<and>
    (\<exists>d. Publish (m\<lparr>pub_identifier := ss_next_message_id s, pub_dup := d\<rparr>) \<in> set (ss_qos_outgoing_messages s2))"
proof -
  from assms(4,5) have "internal_publish_message env sp m s = (r, s1)" by (simp add: session_handle_def)
  from internal_publish_queued [OF assms(1-3) this assms(6)]
  have new: "ss_next_message_id s \<notin> ss_qos_outgoing s"
    and q: "queued (m\<lparr>pub_identifier := ss_next_message_id s\<rparr>) s1" by blast+
  from q have "queued (m\<lparr>pub_identifier := ss_next_message_id s\<rparr>) s2"
    by (rule session_contract.loop_waiting [OF queued_contract [OF assms(1)] _ _ assms(8)]) (simp add: assms(7))
  with new show ?thesis by (auto simp: queued_def)
qed

lemma queued_until_acknowledged_witness:
  "\<exists>d. Publish (publish_new\<lparr>pub_topic := ascii ''a'', pub_qos := 1, pub_identifier := 1, pub_dup := d\<rparr>) \<in>
     set (ss_qos_outgoing_messages (snd (sample_run [sample_internal 1, sample_connect False,
       Client_Message (PubAck \<lparr>pa_identifier = 2\<rparr>)])))"
proof -
  let ?vs = "[sample_connect False, Client_Message (PubAck \<lparr>pa_identifier = 2\<rparr>)]"
  let ?s1 = "snd (session_handle sample_env persist_session_test (sample_internal 1) sample_started)"
  have step: "session_handle sample_env persist_session_test (sample_internal 1) sample_started = (Inr (), ?s1)"
    by (simp add: prod_eq_iff) code_simp
  have "fst (session_loop sample_env persist_session_test ?vs ?s1) = Waiting" by code_simp
  then have run: "session_loop sample_env persist_session_test ?vs ?s1 =
      (Waiting, snd (session_loop sample_env persist_session_test ?vs ?s1))"
    by (simp add: prod_eq_iff)
  have "\<exists>d. Publish ((publish_new\<lparr>pub_topic := ascii ''a'', pub_qos := 1\<rparr>)\<lparr>pub_identifier := ss_next_message_id sample_started, pub_dup := d\<rparr>)
      \<in> set (ss_qos_outgoing_messages (snd (session_loop sample_env persist_session_test ?vs ?s1)))"
    using queued_until_acknowledged [OF sample_reports sample_ok _ step [unfolded sample_internal_def] _ _ _
        run [unfolded sample_internal_def]]
    by (simp add: sample_started_def mqtt_session_new_def no_acknowledgement_def sample_connect_def sample_internal_def)
  moreover have "snd (sample_run (sample_internal 1 # ?vs)) = snd (session_loop sample_env persist_session_test ?vs ?s1)"
    unfolding sample_run_def by (subst session_loop.simps, subst step) simp
  ultimately show ?thesis by (simp add: sample_started_def mqtt_session_new_def)
qed


lemma sample_alive: "client_alive sample_env tx"
  by (simp add: client_alive_def sample_env_def)


definition router_alive :: "'w session_env \<Rightarrow> bool" where
  "router_alive env \<longleftrightarrow> (\<forall>m w. fst (se_router_send env m w))"

lemma route_alive:
  assumes "router_alive env"
  shows "\<exists>w. send_message_router env m s = (Inr (), s\<lparr>ss_world := w, ss_router_log := ss_router_log s @ [m]\<rparr>)"
proof -
  obtain ok w where w: "se_router_send env m (ss_world s) = (ok, w)" by force
  with assms have ok by (metis router_alive_def fst_conv)
  with w show ?thesis by (auto simp: send_router_cases)
qed

text \<open>A PUBLISH from the client is forwarded with the DUP flag cleared and answered by its QoS: not
  at all, with PUBACK, or with PUBREC and an entry in the received identifiers; a QoS 2 message
  whose identifier is on record is answered again and not forwarded.\<close>

theorem publish_message_effect:
  assumes "storage_works sp" and "router_alive env" and "client_alive env tx" and "ss_client s = Some tx"
  shows "\<exists>w p. session_handle env sp (Client_Message (Publish m)) s =
    (Inr (), s\<lparr>ss_world := w, ss_persist := p,
       ss_counter_publish_received := ss_counter_publish_received s + 1,
       ss_router_log := ss_router_log s
         @ (if pub_qos m = 2 \<and> pub_identifier m \<in> ss_qos_incoming s then []
            else [Router_Publish \<lparr>rp_session = own_session_id s, rp_message = m\<lparr>pub_dup := False\<rparr>\<rparr>]),
       ss_client_log := ss_client_log s
         @ (if pub_qos m = 1 then [(tx, PubAck \<lparr>pa_identifier = pub_identifier m\<rparr>)]
            else if pub_qos m = 2 then [(tx, PubRec \<lparr>pr_identifier = pub_identifier m\<rparr>)]
            else []),
       ss_qos_incoming := (if pub_qos m = 2 then insert (pub_identifier m) (ss_qos_incoming s)
         else ss_qos_incoming s)\<rparr>)"
proof -
  let ?mid = "pub_identifier m"
  let ?s = "s\<lparr>ss_counter_publish_received := ss_counter_publish_received s + 1\<rparr>"
  let ?fwd = "Router_Publish \<lparr>rp_session = own_session_id ?s, rp_message = m\<lparr>pub_dup := False\<rparr>\<rparr>"
  have own: "own_session_id ?s = own_session_id s" by (simp add: own_session_id_def)
  have tx: "ss_client ?s = Some tx" using assms(4) by simp
  show ?thesis
  proof (cases "pub_qos m = 2 \<and> ?mid \<in> ss_qos_incoming s")
    case True
    then have ins: "insert ?mid (ss_qos_incoming s) = ss_qos_incoming s" by (simp add: insert_absorb)
    from send_alive [OF assms(3) tx, of "PubRec \<lparr>pr_identifier = ?mid\<rparr>"] obtain w where
      w: "send_client_message env (PubRec \<lparr>pr_identifier = ?mid\<rparr>) ?s =
        (Inr (), ?s\<lparr>ss_world := w, ss_client_log := ss_client_log ?s @ [(tx, PubRec \<lparr>pr_identifier = ?mid\<rparr>)]\<rparr>)" by blast
    show ?thesis
      using True w ins by (intro exI [of _ w] exI [of _ "ss_persist s"])
        (simp add: session_handle_def publish_message_def qos_incoming_received_def pubrec_new_def Let_def)
  next
    case False
    from route_alive [OF assms(2), of ?fwd ?s] obtain w where
      w: "send_message_router env ?fwd ?s = (Inr (), ?s\<lparr>ss_world := w, ss_router_log := ss_router_log ?s @ [?fwd]\<rparr>)"
      (is "_ = (_, ?t)") by blast
    have ctx: "ss_client ?t = Some tx" using assms(4) by simp
    consider (q1) "pub_qos m = 1" | (q2) "pub_qos m = 2" "?mid \<notin> ss_qos_incoming s" | (q0) "pub_qos m \<noteq> 1" "pub_qos m \<noteq> 2"
      using False by blast
    then show ?thesis
    proof cases
      case q1
      from send_alive [OF assms(3) ctx, of "PubAck \<lparr>pa_identifier = ?mid\<rparr>"] obtain w' where
        "send_client_message env (PubAck \<lparr>pa_identifier = ?mid\<rparr>) ?t =
          (Inr (), ?t\<lparr>ss_world := w', ss_client_log := ss_client_log ?t @ [(tx, PubAck \<lparr>pa_identifier = ?mid\<rparr>)]\<rparr>)" by blast
      then show ?thesis
        using q1 w own by (intro exI [of _ w'] exI [of _ "ss_persist s"])
          (simp add: session_handle_def publish_message_def qos_incoming_received_def puback_new_def
            send_or_log_cases Let_def)
    next
      case q2
      obtain r p where p: "sp_persist_qos_incoming_store sp (ss_internal_id s) ?mid (ss_persist s) = (r, p)" by force
      with storage_worksD(6) [OF assms(1)] obtain a where r: "r = Inr a" by (cases r) auto
      let ?u = "?t\<lparr>ss_persist := p, ss_qos_incoming := insert ?mid (ss_qos_incoming s)\<rparr>"
      have st: "qos_incoming_store sp ?mid ?t = (Inr ?mid, ?u)" using p r by (simp add: incoming_store_eq)
      have cux: "ss_client ?u = Some tx" using assms(4) by simp
      from send_alive [OF assms(3) cux, of "PubRec \<lparr>pr_identifier = ?mid\<rparr>"] obtain w' where
        "send_client_message env (PubRec \<lparr>pr_identifier = ?mid\<rparr>) ?u =
          (Inr (), ?u\<lparr>ss_world := w', ss_client_log := ss_client_log ?u @ [(tx, PubRec \<lparr>pr_identifier = ?mid\<rparr>)]\<rparr>)" by blast
      then show ?thesis
        using q2 w st own by (intro exI [of _ w'] exI [of _ p])
          (simp add: session_handle_def publish_message_def qos_incoming_received_def pubrec_new_def
            send_or_log_cases Let_def)
    next
      case q0
      then show ?thesis
        using w own by (intro exI [of _ w] exI [of _ "ss_persist s"])
          (simp add: session_handle_def publish_message_def qos_incoming_received_def Let_def)
    qed
  qed
qed

lemma sample_router: "router_alive sample_env"
  by (simp add: router_alive_def sample_env_def)

lemma publish_message_effect_witness:
  "ss_client_log (snd (session_handle sample_env persist_session_test (Client_Message (Publish sample_publish2))
     (sample_started\<lparr>ss_client := Some 7\<rparr>))) = [(7, PubRec \<lparr>pr_identifier = 5\<rparr>)]"
proof -
  let ?s = "sample_started\<lparr>ss_client := Some 7\<rparr>"
  have "ss_client ?s = Some 7" by simp
  from publish_message_effect [OF persist_session_test_works sample_router sample_alive this, of sample_publish2]
  show ?thesis by (auto simp: sample_publish2_def publish_new_def sample_started_def mqtt_session_new_def)
qed







text \<open>C29: The sender's half of a QoS 2 handshake: a PUBREC puts itself in the place of the PUBLISH at
  the end of the queue and is answered with PUBREL; the PUBCOMP then frees the identifier.\<close>

theorem qos2_sender_handshake:
  assumes "storage_works sp" and "sess_ok s" and "client_alive env tx" and "ss_client s = Some tx"
    and "Publish m \<in> set (ss_qos_outgoing_messages s)"
  shows "let mid = pub_identifier m; rest = filter (\<lambda>x. \<not> has_outgoing_id mid x) (ss_qos_outgoing_messages s) in
    \<exists>s1 s2. session_handle env sp (Client_Message (PubRec \<lparr>pr_identifier = mid\<rparr>)) s = (Inr (), s1) \<and>
      ss_qos_outgoing_messages s1 = rest @ [PubRec \<lparr>pr_identifier = mid\<rparr>] \<and>
      ss_client_log s1 = ss_client_log s @ [(tx, PubRel \<lparr>pl_identifier = mid\<rparr>)] \<and>
      session_handle env sp (Client_Message (PubComp \<lparr>pc_identifier = mid\<rparr>)) s1 = (Inr (), s2) \<and>
      ss_qos_outgoing_messages s2 = rest \<and> ss_qos_outgoing s2 = ss_qos_outgoing s - {mid} \<and>
      ss_client_log s2 = ss_client_log s1"
proof -
  let ?mid = "pub_identifier m" and ?r = "\<lparr>pr_identifier = pub_identifier m\<rparr>"
  let ?rest = "filter (\<lambda>x. \<not> has_outgoing_id ?mid x) (ss_qos_outgoing_messages s)"
  have "outgoing_id (Publish m) = Some ?mid" by simp
  from queue_element [OF assms(2,5) this] have mid: "?mid \<in> ss_qos_outgoing s" by blast
  obtain r1 p1 where p1: "sp_persist_qos_outgoing_delete sp (ss_internal_id s) ?mid (ss_persist s) = (r1, p1)" by force
  with storage_worksD(1) [OF assms(1)] obtain a1 where r1: "r1 = Inr a1" by (cases r1) auto
  obtain r2 p2 where p2: "sp_persist_qos_outgoing_store sp (ss_internal_id s) ?mid (PubRec ?r) p1 = (r2, p2)" by force
  with storage_worksD(2) [OF assms(1)] obtain a2 where r2: "r2 = Inr a2" by (cases r2) auto
  let ?t = "s\<lparr>ss_persist := p2, ss_qos_outgoing_messages := ?rest @ [PubRec ?r]\<rparr>"
  have ins: "qos_outgoing_insert env sp (PubRec ?r) s = (Inr ?mid, ?t)"
    using insert_pubrec_publish [OF assms(2,5), of ?r env sp] by (simp add: p1 p2 r1 r2)
  have tx: "ss_client ?t = Some tx" using assms(4) by simp
  from send_alive [OF assms(3) tx, of "PubRel \<lparr>pl_identifier = ?mid\<rparr>"] obtain w where
    w: "send_client_message env (PubRel \<lparr>pl_identifier = ?mid\<rparr>) ?t =
      (Inr (), ?t\<lparr>ss_world := w, ss_client_log := ss_client_log ?t @ [(tx, PubRel \<lparr>pl_identifier = ?mid\<rparr>)]\<rparr>)"
    (is "_ = (_, ?u)") by blast
  have step1: "session_handle env sp (Client_Message (PubRec ?r)) s = (Inr (), ?u)"
    by (simp add: session_handle_def pubrec_message_def act_bind_app [of "qos_outgoing_insert _ _ _"] ins pubrel_new_def w)
  have "queue_ok (ss_qos_outgoing s) (?rest @ [PubRec ?r])"
    by (rule queue_ok_replace) (use assms(2) mid in \<open>simp_all add: sess_ok_def\<close>)
  then have oku: "sess_ok ?u" by (simp add: sess_ok_def)
  obtain r3 p3 where p3: "sp_persist_qos_outgoing_delete sp (ss_internal_id s) ?mid p2 = (r3, p3)" by force
  with storage_worksD(1) [OF assms(1)] obtain a3 where r3: "r3 = Inr a3" by (cases r3) auto
  have step2: "session_handle env sp (Client_Message (PubComp \<lparr>pc_identifier = ?mid\<rparr>)) ?u =
      (Inr (), ?u\<lparr>ss_persist := p3, ss_qos_outgoing := ss_qos_outgoing s - {?mid}, ss_qos_outgoing_messages := ?rest\<rparr>)"
    using outgoing_remove_eq [OF oku, of sp ?mid] mid
    by (simp add: session_handle_def pubcomp_message_def act_bind_app [of "qos_outgoing_remove _ _"] p3 r3 has_outgoing_id_iff)
  let ?v = "?u\<lparr>ss_persist := p3, ss_qos_outgoing := ss_qos_outgoing s - {?mid}, ss_qos_outgoing_messages := ?rest\<rparr>"
  show ?thesis
    unfolding Let_def by (intro exI [of _ ?u] exI [of _ ?v] conjI, rule step1) (simp, simp, rule step2, simp_all)
qed

lemma qos2_sender_handshake_witness:
  "\<exists>s1 s2. session_handle sample_env persist_session_test (Client_Message (PubRec \<lparr>pr_identifier = 3\<rparr>))
      (sample_started\<lparr>ss_client := Some 7, ss_qos_outgoing := {3}, ss_qos_outgoing_messages := [Publish (publish_new\<lparr>pub_identifier := 3\<rparr>)]\<rparr>) =
      (Inr (), s1) \<and> ss_client_log s1 = [(7, PubRel \<lparr>pl_identifier = 3\<rparr>)] \<and>
    session_handle sample_env persist_session_test (Client_Message (PubComp \<lparr>pc_identifier = 3\<rparr>)) s1 = (Inr (), s2) \<and>
    ss_qos_outgoing s2 = {}"
proof -
  let ?m = "publish_new\<lparr>pub_identifier := 3\<rparr>"
  let ?s = "sample_started\<lparr>ss_client := Some 7, ss_qos_outgoing := {3}, ss_qos_outgoing_messages := [Publish ?m]\<rparr>"
  have "sess_ok ?s" and "ss_client ?s = Some 7" and "Publish ?m \<in> set (ss_qos_outgoing_messages ?s)"
    by (simp_all add: sess_ok_def queue_ok_def)
  from qos2_sender_handshake [OF persist_session_test_works this(1) sample_alive this(2,3)] show ?thesis
    by (simp add: Let_def) (auto simp: sample_started_def mqtt_session_new_def)
qed

text \<open>A subscription request and its answer, on a live router.\<close>

definition requests :: "('p, 'w) mqtt_session \<Rightarrow> rstring \<times> u8 \<Rightarrow> router_message \<Rightarrow> bool" where
  "requests s t m \<longleftrightarrow> (\<exists>c. m = Router_Subscribe \<lparr>rs_session = own_session_id s, rs_topic = fst t, rs_qos = snd t, rs_response_tx = c\<rparr>)"

definition same_client :: "('p, 'w) mqtt_session \<Rightarrow> ('p, 'w) mqtt_session \<Rightarrow> bool" where
  "same_client s s' \<longleftrightarrow> ss_client s' = ss_client s \<and> ss_client_log s' = ss_client_log s \<and> own_session_id s' = own_session_id s"

lemma subscribe_alive:
  assumes "router_alive env"
  shows "\<exists>r s' m. session_subscribe env topic qos s = (r, s') \<and> same_client s s' \<and> requests s (topic, qos) m \<and>
    ss_router_log s' = ss_router_log s @ [m] \<and> r \<noteq> Inl Panicked \<and>
    map_of (ss_subscriptions s') = (map_of (ss_subscriptions s))(topic \<mapsto> True)"
proof -
  let ?s = "s\<lparr>ss_subscriptions := hm_insert topic True (ss_subscriptions s)\<rparr>"
  obtain c w where c: "se_oneshot_channel env (ss_world s) = (c, w)" by force
  let ?t = "?s\<lparr>ss_world := w\<rparr>"
  let ?m = "Router_Subscribe \<lparr>rs_session = own_session_id ?t, rs_topic = topic, rs_qos = qos, rs_response_tx = c\<rparr>"
  have own: "own_session_id ?t = own_session_id s" by (simp add: own_session_id_def)
  from route_alive [OF assms, of ?m ?t] obtain w' where
    w': "send_message_router env ?m ?t = (Inr (), ?t\<lparr>ss_world := w', ss_router_log := ss_router_log ?t @ [?m]\<rparr>)"
    (is "_ = (_, ?u)") by blast
  obtain a w'' where a: "se_oneshot_recv env c w' = (a, w'')" by force
  have ch: "with_world (se_oneshot_channel env) ?s = (Inr c :: session_error failure + _, ?t)" by (simp add: with_world_def c)
  have rc: "with_world (se_oneshot_recv env c) ?u = (Inr a :: session_error failure + _, ?u\<lparr>ss_world := w''\<rparr>)"
    by (simp add: with_world_def a)
  have "session_subscribe env topic qos s =
      (case a of Some r \<Rightarrow> (Inr r, ?u\<lparr>ss_world := w''\<rparr>) | None \<Rightarrow> (Inl (Failed Session_Router), ?u\<lparr>ss_world := w''\<rparr>))"
    using ch w' rc by (simp add: session_subscribe_def Let_def act_bind_app [of "with_world _"]
      act_bind_app [of "send_message_router _ _"] split: option.split)
  then show ?thesis
    by (intro exI [of _ "case a of Some r \<Rightarrow> Inr r | None \<Rightarrow> Inl (Failed Session_Router)"] exI [of _ "?u\<lparr>ss_world := w''\<rparr>"] exI [of _ ?m])
      (auto simp: same_client_def requests_def own own_session_id_def split: option.split)
qed

lemma subscribe_loop_alive:
  assumes "router_alive env"
  shows "\<exists>re' codes rs' s' rms. subscribe_loop env topics re ack rs s =
      (Inr (re', ack\<lparr>sack_response := sack_response ack @ codes\<rparr>, rs'), s') \<and>
    list_all2 (\<lambda>t c. c = snd t \<or> c = 0x80) topics codes \<and> same_client s s' \<and>
    ss_router_log s' = ss_router_log s @ rms \<and> list_all2 (requests s) topics rms"
proof (induction topics arbitrary: re ack rs s)
  case Nil
  show ?case by (intro exI [of _ re] exI [of _ "[]"] exI [of _ rs] exI [of _ s]) (simp add: same_client_def)
next
  case (Cons t topics)
  obtain topic qos where t: "t = (topic, qos)" by force
  from subscribe_alive [OF assms, of topic qos s] obtain r s1 m where
    one: "session_subscribe env topic qos s = (r, s1)" "same_client s s1" "requests s t m"
      "ss_router_log s1 = ss_router_log s @ [m]" "r \<noteq> Inl Panicked" unfolding t by blast
  define res where "res = (case r of Inl (Failed e) \<Rightarrow> Inl e | Inr a \<Rightarrow> Inr a | _ \<Rightarrow> Inl Session_Router)"
  have tried: "act_try (session_subscribe env topic qos) s = (Inr res :: session_error failure + _, s1)"
    using one(1,5) by (auto simp: act_try_def res_def split: sum.split failure.split)
  define re1 rs1 code where "re1 = (case res of Inl _ \<Rightarrow> True | Inr _ \<Rightarrow> re)"
    and "rs1 = (case res of Inl _ \<Rightarrow> rs | Inr resp \<Rightarrow> if rr_ret resp \<noteq> 0x80 then rs @ rr_retained_messages resp else rs)"
    and "code = (case res of Inl _ \<Rightarrow> 0x80 | Inr resp \<Rightarrow> if rr_ret resp \<noteq> 0x80 then qos else (0x80 :: u8))"
  have step: "subscribe_loop env (t # topics) re ack rs s =
      subscribe_loop env topics re1 (suback_add_response code ack) rs1 s1"
    unfolding t by (simp add: act_bind_app tried re1_def rs1_def code_def Let_def split: sum.split)
  from Cons.IH [of re1 "suback_add_response code ack" rs1 s1] obtain re' codes rs' s' rms where
    IH: "subscribe_loop env topics re1 (suback_add_response code ack) rs1 s1 =
      (Inr (re', (suback_add_response code ack)\<lparr>sack_response := sack_response (suback_add_response code ack) @ codes\<rparr>, rs'), s')"
      "list_all2 (\<lambda>t c. c = snd t \<or> c = 0x80) topics codes" "same_client s1 s'"
      "ss_router_log s' = ss_router_log s1 @ rms" "list_all2 (requests s1) topics rms" by blast
  have rq: "requests s1 = requests s" using one(2) by (simp add: requests_def [abs_def] same_client_def)
  have code: "code = snd t \<or> code = 0x80" by (auto simp: code_def t split: sum.split)
  show ?case
    by (rule exI [of _ re'], rule exI [of _ "code # codes"], rule exI [of _ rs'], rule exI [of _ s'], rule exI [of _ "m # rms"])
      (use IH one rq code in \<open>simp add: step suback_add_response_def same_client_def\<close>)
qed

lemma send_retained_alive:
  assumes "client_alive env tx" and "ss_client s = Some tx"
  shows "\<exists>w. send_retained_loop env ms s = (Inr False, s\<lparr>ss_world := w, ss_client_log := ss_client_log s @ map (\<lambda>m. (tx, Publish m)) ms\<rparr>)"
  using assms(2)
proof (induction ms arbitrary: s)
  case Nil
  then show ?case by (intro exI [of _ "ss_world s"]) simp
next
  case (Cons m ms)
  from send_alive [OF assms(1) Cons.prems, of "Publish m"] obtain w where
    w: "send_client_message env (Publish m) s = (Inr (), s\<lparr>ss_world := w, ss_client_log := ss_client_log s @ [(tx, Publish m)]\<rparr>)"
    (is "_ = (_, ?t)") by blast
  from Cons.IH [of ?t] Cons.prems obtain w' where
    "send_retained_loop env ms ?t = (Inr False, ?t\<lparr>ss_world := w', ss_client_log := ss_client_log ?t @ map (\<lambda>m. (tx, Publish m)) ms\<rparr>)"
    by auto
  then show ?case by (intro exI [of _ w']) (simp add: act_bind_app w)
qed

text \<open>C30: A SUBSCRIBE asks the router for each of its filters in order and is answered by one SUBACK, that
  has a code for each filter, the QoS it asked for or 0x80, before any retained message.\<close>

theorem suback_answers_each_filter:
  assumes "router_alive env" and "client_alive env tx" and "ss_client s = Some tx"
  shows "\<exists>r s' codes rms retained.
    session_handle env sp (Client_Message (Subscribe m)) s = (r, s') \<and> (r = Inr () \<or> r = Inl (Failed Session_Router)) \<and>
    list_all2 (\<lambda>t c. c = snd t \<or> c = 0x80) (sub_topics m) codes \<and>
    ss_client_log s' = ss_client_log s
      @ [(tx, SubAck \<lparr>sack_identifier = sub_identifier m, sack_response = codes\<rparr>)]
      @ map (\<lambda>p. (tx, Publish p)) retained \<and>
    ss_router_log s' = ss_router_log s @ rms \<and> list_all2 (requests s) (sub_topics m) rms"
proof -
  let ?ack = "\<lparr>sack_identifier = sub_identifier m, sack_response = []\<rparr>"
  from subscribe_loop_alive [OF assms(1), of "sub_topics m" False ?ack "[]" s] obtain re codes rs t rms where
    l: "subscribe_loop env (sub_topics m) False ?ack [] s = (Inr (re, \<lparr>sack_identifier = sub_identifier m, sack_response = codes\<rparr>, rs), t)"
      "list_all2 (\<lambda>t c. c = snd t \<or> c = 0x80) (sub_topics m) codes" "same_client s t"
      "ss_router_log t = ss_router_log s @ rms" "list_all2 (requests s) (sub_topics m) rms" by auto
  let ?sa = "SubAck \<lparr>sack_identifier = sub_identifier m, sack_response = codes\<rparr>"
  from l(3) assms(3) have tx: "ss_client t = Some tx" by (simp add: same_client_def)
  from send_alive [OF assms(2) tx, of ?sa] obtain w where
    w: "send_client_message env ?sa t = (Inr (), t\<lparr>ss_world := w, ss_client_log := ss_client_log t @ [(tx, ?sa)]\<rparr>)"
    (is "_ = (_, ?u)") by blast
  have txu: "ss_client ?u = Some tx" using tx by simp
  from send_retained_alive [OF assms(2) txu, of rs] obtain w' where
    r: "send_retained_loop env rs ?u = (Inr False, ?u\<lparr>ss_world := w', ss_client_log := ss_client_log ?u @ map (\<lambda>m. (tx, Publish m)) rs\<rparr>)"
    (is "_ = (_, ?v)") by blast
  have "session_handle env sp (Client_Message (Subscribe m)) s = (if re then Inl (Failed Session_Router) else Inr (), ?v)"
    using l(1) w r by (simp add: session_handle_def subscribe_message_def Let_def suback_new_def
      act_bind_app [of "subscribe_loop _ _ _ _ _"] act_bind_app [of "act_try _"] act_bind_app [of "send_retained_loop _ _"])
  then show ?thesis
    by (intro exI [of _ "if re then Inl (Failed Session_Router) else Inr ()"] exI [of _ ?v] exI [of _ codes] exI [of _ rms] exI [of _ rs])
      (use l in \<open>simp add: same_client_def\<close>)
qed

lemma suback_answers_each_filter_witness:
  "\<exists>r s' codes. session_handle sample_env persist_session_test
      (Client_Message (Subscribe \<lparr>sub_identifier = 9, sub_topics = [(ascii ''a/#'', 1)]\<rparr>)) (sample_started\<lparr>ss_client := Some 7\<rparr>) = (r, s') \<and>
    list_all2 (\<lambda>t c. c = snd t \<or> c = 0x80) [(ascii ''a/#'', 1)] codes \<and>
    (7, SubAck \<lparr>sack_identifier = 9, sack_response = codes\<rparr>) \<in> set (ss_client_log s')"
proof -
  have "ss_client (sample_started\<lparr>ss_client := Some 7\<rparr>) = Some 7" by simp
  from suback_answers_each_filter [OF sample_router sample_alive this, of persist_session_test
      "\<lparr>sub_identifier = 9, sub_topics = [(ascii ''a/#'', 1)]\<rparr>"]
  obtain r s' codes where "session_handle sample_env persist_session_test
      (Client_Message (Subscribe \<lparr>sub_identifier = 9, sub_topics = [(ascii ''a/#'', 1)]\<rparr>)) (sample_started\<lparr>ss_client := Some 7\<rparr>) = (r, s')"
    "list_all2 (\<lambda>t c. c = snd t \<or> c = 0x80) [(ascii ''a/#'', 1)] codes"
    "(7, SubAck \<lparr>sack_identifier = 9, sack_response = codes\<rparr>) \<in> set (ss_client_log s')" by fastforce
  then show ?thesis by blast
qed

text \<open>C31: With a storage that works, nothing but a lost router, a used identifier or the overflow of the
  identifiers ends a session: no message makes it fail on its own queue.\<close>

theorem working_storage_stops:
  assumes "storage_works sp" and "sess_ok s" and "session_handle env sp v s = (Inl e, s')"
  shows "(e = Failed Session_Client \<and> sess_ok s') \<or> e = Failed Session_Router \<or>
    e = Failed (Session_Persist ''QoS outgoing mid duplicate found'') \<or> (e = Panicked \<and> se_overflow_checks env)"
  using act_hoareD(2) [OF session_contract.handle [OF stop_contract [OF assms(1), of env], of v] assms(2,3)]
  by (simp add: stop_error_def)

lemma working_storage_stops_witness:
  "\<exists>e s'. session_handle sample_env persist_session_test (Client_Message (PubRel \<lparr>pl_identifier = 1\<rparr>)) sample_started = (Inl e, s') \<and>
    e = Failed Session_Client"
proof -
  let ?r = "session_handle sample_env persist_session_test (Client_Message (PubRel \<lparr>pl_identifier = 1\<rparr>)) sample_started"
  have r: "?r = (Inl (Failed Session_Client), snd ?r)" by (simp add: prod_eq_iff) code_simp
  from working_storage_stops [OF persist_session_test_works sample_ok r] r show ?thesis by blast
qed

section \<open>Where sessions end\<close>



end
