(* ===== verification/Sql_Props.thy ===== *)
theory Sql_Props
  imports Sql_Retained Sess_Props
begin

text \<open>
  Session worker and SQL storage together: a session goes on after a restart where it was; and topic
  tree and SQL storage together: the tree that is loaded is the one that was there.
\<close>

section \<open>A working database\<close>

locale working_database =
  fixes env :: "'w sql_env" and now :: "'w \<Rightarrow> int"
  assumes works: "sql_works env now"

sublocale working_database \<subseteq> sessions: session_storage "session_persist_sql env" "store_ok now" sql_view
  by (rule sql_session_storage [OF works])

sublocale working_database \<subseteq> topics: topic_storage "persist_topic_sql env" topic_store_ok topic_sql_view sessions_sql_known
  by (rule sql_topic_storage [OF works])

definition sample_sql_env :: "int sql_env" where
  "sample_sql_env = \<lparr>qe_pool = (\<lambda>t. (True, t)), qe_interact = (\<lambda>t. (True, t)), qe_statement = (\<lambda>t. (True, t)),
     qe_clock = (\<lambda>t. (t, t + 1)), qe_foreign_keys = True, qe_tie = (\<lambda>i. i)\<rparr>"

lemma sample_sql_works: "sql_works sample_sql_env (\<lambda>t. t)"
  by (simp add: sql_works_def sample_sql_env_def mono_def)

interpretation sample_database: working_database sample_sql_env "\<lambda>t. t"
  by unfold_locales (rule sample_sql_works)


definition sample_store :: "int sql_store" where
  "sample_store = \<lparr>sq_db = database_new\<lparr>db_tables := [Tab_sessions, Tab_messages, Tab_topics, Tab_subscriptions, Tab_qosin, Tab_qosout, Tab_version],
     db_version := [1]\<rparr>, sq_world = 0\<rparr>"


definition sample_opened :: "(int sql_store, unit) mqtt_session" where
  "sample_opened = snd (session_start (session_persist_sql sample_sql_env) (mqtt_session_new [] sample_store ()))"







section \<open>The topic tree\<close>

text \<open>C8: As long as the database works and no call to it fails, the router's tree can be loaded again at any
  time from what it stored: the new tree has the same subscriptions with session, internal id and
  QoS, the same gauges, and the retained messages with topic, QoS and payload; each subscription
  comes back with the generation its session has in the database.\<close>

theorem tree_survives_restart:
  assumes "sql_works env now" and "tree_life (persist_topic_sql env) topic_store_ok topic_sql_view sessions_sql_known self"
  shows "\<exists>self'. load_persistent_state (persist_topic_sql env) (subscriptions_new (sb_persist self)) = (Inr 0, self') \<and>
    same_tree self self' \<and>
    (\<forall>path n e. subs_of self' path n = Some e \<longrightarrow>
       sessions_sql_known (sb_persist self') (sid_internal_id (te_session e)) = Some (te_session e))"
  by (rule topic_storage.life_reloads [OF sql_topic_storage [OF assms(1)] assms(2)])

definition sample_tree_loaded :: "int sql_store subscriptions" where
  "sample_tree_loaded = snd (load_persistent_state (persist_topic_sql sample_sql_env) (subscriptions_new (ss_persist sample_opened)))"

definition sample_subscribe_op :: topic_op where
  "sample_subscribe_op = Op_subscribe \<lparr>sid_session = [], sid_internal_id = 1, sid_generation = 0\<rparr> sample_topic 1"

definition sample_tree_subscribed :: "int sql_store subscriptions" where
  "sample_tree_subscribed = snd (run_topic_op (persist_topic_sql sample_sql_env) sample_subscribe_op sample_tree_loaded)"

definition sample_tree_retained :: "int sql_store subscriptions" where
  "sample_tree_retained = snd (run_topic_op (persist_topic_sql sample_sql_env) (Op_retain sample_publish) sample_tree_subscribed)"

lemma sample_tree_life:
  "tree_life (persist_topic_sql sample_sql_env) topic_store_ok topic_sql_view sessions_sql_known sample_tree_retained"
proof (rule tree_life.performed)
  have "fst (load_persistent_state (persist_topic_sql sample_sql_env) (subscriptions_new (ss_persist sample_opened))) = Inr 0" by code_simp
  then have load: "load_persistent_state (persist_topic_sql sample_sql_env) (subscriptions_new (ss_persist sample_opened)) = (Inr 0, sample_tree_loaded)"
    by (simp add: sample_tree_loaded_def prod_eq_iff)
  have "fst (run_topic_op (persist_topic_sql sample_sql_env) sample_subscribe_op sample_tree_loaded) = Inr 1" by code_simp
  then have run: "run_topic_op (persist_topic_sql sample_sql_env) sample_subscribe_op sample_tree_loaded = (Inr 1, sample_tree_subscribed)"
    by (simp add: sample_tree_subscribed_def prod_eq_iff)
  have "topic_store_ok (ss_persist sample_opened)" by code_simp
  then show "tree_life (persist_topic_sql sample_sql_env) topic_store_ok topic_sql_view sessions_sql_known sample_tree_subscribed"
    by (rule tree_life.performed [OF tree_life.loaded [OF _ load] _ run]) code_simp
  show "op_known (sessions_sql_known (sb_persist sample_tree_subscribed)) (Op_retain sample_publish)" by simp
  have "fst (run_topic_op (persist_topic_sql sample_sql_env) (Op_retain sample_publish) sample_tree_subscribed) = Inr 0" by code_simp
  then show "run_topic_op (persist_topic_sql sample_sql_env) (Op_retain sample_publish) sample_tree_subscribed = (Inr 0, sample_tree_retained)"
    by (simp add: sample_tree_retained_def prod_eq_iff)
qed

lemma tree_survives_restart_witness:
  "\<exists>self'. load_persistent_state (persist_topic_sql sample_sql_env) (subscriptions_new (sb_persist sample_tree_retained)) = (Inr 0, self') \<and>
     map_option te_qos (subs_of self' [[0x61], [0x62]] []) = Some 1 \<and> retained_of self' [[0x61], [0x62]] = Some (sample_publish\<lparr>pub_retain := False\<rparr>) \<and>
     guages self' = (1, 1)"
proof -
  obtain self' where s: "load_persistent_state (persist_topic_sql sample_sql_env) (subscriptions_new (sb_persist sample_tree_retained)) = (Inr 0, self')"
    "same_tree sample_tree_retained self'"
    using tree_survives_restart [OF sample_sql_works sample_tree_life] by blast
  have "map_option (\<lambda>e. (sid_session (te_session e), sid_internal_id (te_session e), te_qos e)) (subs_of sample_tree_retained [[0x61], [0x62]] []) = Some ([], 1, 1)"
    and "map_option stored_publish (retained_of sample_tree_retained [[0x61], [0x62]]) = Some (sample_publish\<lparr>pub_retain := False\<rparr>)"
    and "guages sample_tree_retained = (1, 1)" by code_simp+
  with s(2) have "map_option (\<lambda>e. (sid_session (te_session e), sid_internal_id (te_session e), te_qos e)) (subs_of self' [[0x61], [0x62]] []) = Some ([], 1, 1)"
    "retained_of self' [[0x61], [0x62]] = Some (sample_publish\<lparr>pub_retain := False\<rparr>)" "guages self' = (1, 1)"
    by (simp_all add: same_tree_def)
  with s(1) show ?thesis by (intro exI [of _ self']) (auto simp: map_option_case split: option.splits)
qed

end
