(* ===== verification/Sess_Registry.thy ===== *)
theory Sess_Registry
  imports Sess_Worker
begin

text \<open>
  \<open>src/sessions/mod.rs\<close>: the sessions of a tenant by name. An \<open>Arc<Mutex<SessionState>>\<close> is
  a place in the store \<open>sn_states\<close>, which the registry and the worker of the session share.
  A channel is its number, and a started worker is an entry of the list of live workers.
\<close>

section \<open>Definitions\<close>

record broker_id =
  bi_tenant_id :: "rstring option"
  bi_broker_id :: rstring

type_synonym session_tx = nat

record session_state =
  st_running :: bool

definition session_state_new :: session_state where
  "session_state_new = \<lparr>st_running = True\<rparr>"

record session_entry =
  en_broker_id :: broker_id
  en_id :: rstring
  en_session_tx :: session_tx
  en_state :: nat

text \<open>A worker: the channel it receives from, its session and the place of its state.\<close>

record worker =
  wk_session_tx :: session_tx
  wk_id :: rstring
  wk_state :: nat

record sessions =
  sn_broker_id :: broker_id
  sn_sessions :: "(rstring, session_entry) hmap"
  sn_states :: "session_state list"
  sn_next_tx :: session_tx
  sn_workers :: "worker list"

definition sessions_new :: "broker_id \<Rightarrow> sessions" where
  "sessions_new broker = \<lparr>sn_broker_id = broker, sn_sessions = [], sn_states = [], sn_next_tx = 0, sn_workers = []\<rparr>"

text \<open>\<open>session.state.lock().unwrap().running\<close>\<close>

definition state_running :: "nat \<Rightarrow> sessions \<Rightarrow> bool" where
  "state_running place self = st_running (sn_states self ! place)"

definition set_running :: "nat \<Rightarrow> bool \<Rightarrow> sessions \<Rightarrow> sessions" where
  "set_running place b self = self\<lparr>sn_states := (sn_states self)[place := (sn_states self ! place)\<lparr>st_running := b\<rparr>]\<rparr>"

definition get_session_tx :: "rstring \<Rightarrow> sessions \<Rightarrow> session_tx option" where
  "get_session_tx key self =
     (case map_of (sn_sessions self) key of
        Some session \<Rightarrow> if state_running (en_state session) self then Some (en_session_tx session) else None
      | None \<Rightarrow> None)"

text \<open>A new channel and a worker on its receiving end; the state is set to running.\<close>

definition start_session :: "rstring \<Rightarrow> nat \<Rightarrow> sessions \<Rightarrow> (string + session_tx) \<times> sessions" where
  "start_session name place self =
     (let tx = sn_next_tx self;
          self = set_running place True (self\<lparr>sn_next_tx := tx + 1\<rparr>);
          session_worker = \<lparr>wk_session_tx = tx, wk_id = name, wk_state = place\<rparr>
      in (Inr tx, self\<lparr>sn_workers := sn_workers self @ [session_worker]\<rparr>))"

definition get_session :: "rstring \<Rightarrow> sessions \<Rightarrow> (string + session_tx) \<times> sessions" where
  "get_session name self =
     (case map_of (sn_sessions self) name of
        None \<Rightarrow>
          let place = length (sn_states self);
              self = self\<lparr>sn_states := sn_states self @ [session_state_new]\<rparr>
          in (case start_session name place self of
                (Inl e, self) \<Rightarrow> (Inl e, self)
              | (Inr tx, self) \<Rightarrow>
                  let session = \<lparr>en_broker_id = sn_broker_id self, en_id = name, en_session_tx = tx, en_state = place\<rparr>
                  in (Inr tx, self\<lparr>sn_sessions := hm_insert name session (sn_sessions self)\<rparr>))
      | Some e \<Rightarrow>
          if \<not> state_running (en_state e) self then
            (case start_session name (en_state e) self of
               (Inl err, self) \<Rightarrow> (Inl err, self)
             | (Inr tx, self) \<Rightarrow>
                 (Inr tx, self\<lparr>sn_sessions := hm_insert name (e\<lparr>en_session_tx := tx\<rparr>) (sn_sessions self)\<rparr>))
          else (Inr (en_session_tx e), self))"

text \<open>A worker that ends is dropped, which clears its state.\<close>

definition end_worker :: "worker \<Rightarrow> sessions \<Rightarrow> sessions" where
  "end_worker w self = (set_running (wk_state w) False self)\<lparr>sn_workers := remove1 w (sn_workers self)\<rparr>"

inductive registry_step :: "sessions \<Rightarrow> sessions \<Rightarrow> bool" where
  lookup: "get_session name self = (r, self') \<Longrightarrow> registry_step self self'"
| ended: "w \<in> set (sn_workers self) \<Longrightarrow> registry_step self (end_worker w self)"

inductive registry_reach :: "sessions \<Rightarrow> bool" where
  init: "registry_reach (sessions_new broker)"
| step: "registry_reach self \<Longrightarrow> registry_step self self' \<Longrightarrow> registry_reach self'"

inductive_cases registry_stepE: "registry_step self self'"

section \<open>One worker for a session\<close>

text \<open>
  Places are in range and no two sessions share one; a state is running exactly when the
  worker that its session's channel leads to is alive.
\<close>

definition registry_ok :: "sessions \<Rightarrow> bool" where
  "registry_ok self \<longleftrightarrow>
     (\<forall>name e. map_of (sn_sessions self) name = Some e \<longrightarrow>
        en_id e = name \<and> en_state e < length (sn_states self) \<and> en_session_tx e < sn_next_tx self) \<and>
     (\<forall>n1 n2 e1 e2. map_of (sn_sessions self) n1 = Some e1 \<longrightarrow> map_of (sn_sessions self) n2 = Some e2 \<longrightarrow>
        en_state e1 = en_state e2 \<longrightarrow> n1 = n2) \<and>
     distinct (sn_workers self) \<and>
     (\<forall>w. w \<in> set (sn_workers self) \<longleftrightarrow>
        (\<exists>e. map_of (sn_sessions self) (wk_id w) = Some e \<and> en_session_tx e = wk_session_tx w \<and> en_state e = wk_state w \<and>
           state_running (en_state e) self))"

lemma registry_ok_new: "registry_ok (sessions_new broker)"
  by (simp add: registry_ok_def sessions_new_def)

lemma worker_eq_iff:
  "v = (w :: worker) \<longleftrightarrow> wk_session_tx v = wk_session_tx w \<and> wk_id v = wk_id w \<and> wk_state v = wk_state w"
  by (cases v; cases w) auto

lemma state_running_set [simp]:
  "place < length (sn_states self) \<Longrightarrow>
   state_running p (set_running place b self) = (if p = place then b else state_running p self)"
  by (simp add: state_running_def set_running_def)

lemma set_running_fields [simp]:
  "sn_sessions (set_running place b self) = sn_sessions self"
  "sn_workers (set_running place b self) = sn_workers self"
  "sn_next_tx (set_running place b self) = sn_next_tx self"
  "sn_broker_id (set_running place b self) = sn_broker_id self"
  "length (sn_states (set_running place b self)) = length (sn_states self)"
  by (simp_all add: set_running_def)

lemma state_running_fields [simp]:
  "state_running p (self\<lparr>sn_sessions := m\<rparr>) = state_running p self"
  "state_running p (self\<lparr>sn_workers := ws\<rparr>) = state_running p self"
  "state_running p (self\<lparr>sn_next_tx := n\<rparr>) = state_running p self"
  by (simp_all add: state_running_def)

lemma registry_okI:
  assumes "map_of (sn_sessions s) = M"
    and "\<And>n e. M n = Some e \<Longrightarrow> en_id e = n \<and> en_state e < length (sn_states s) \<and> en_session_tx e < sn_next_tx s"
    and "\<And>n1 n2 e1 e2. M n1 = Some e1 \<Longrightarrow> M n2 = Some e2 \<Longrightarrow> en_state e1 = en_state e2 \<Longrightarrow> n1 = n2"
    and "distinct (sn_workers s)"
    and "\<And>w. w \<in> set (sn_workers s) \<longleftrightarrow>
        (\<exists>e. M (wk_id w) = Some e \<and> en_session_tx e = wk_session_tx w \<and> en_state e = wk_state w \<and>
           state_running (en_state e) s)"
  shows "registry_ok s"
  unfolding registry_ok_def assms(1) using assms(2-5) by blast

lemma registry_okD:
  assumes "registry_ok s"
  shows "map_of (sn_sessions s) n = Some e \<Longrightarrow> en_id e = n \<and> en_state e < length (sn_states s) \<and> en_session_tx e < sn_next_tx s"
    and "map_of (sn_sessions s) n1 = Some e1 \<Longrightarrow> map_of (sn_sessions s) n2 = Some e2 \<Longrightarrow> en_state e1 = en_state e2 \<Longrightarrow> n1 = n2"
    and "distinct (sn_workers s)"
    and "w \<in> set (sn_workers s) \<longleftrightarrow>
        (\<exists>e. map_of (sn_sessions s) (wk_id w) = Some e \<and> en_session_tx e = wk_session_tx w \<and> en_state e = wk_state w \<and>
           state_running (en_state e) s)"
  using assms unfolding registry_ok_def by blast+

text \<open>A worker of a session that is started, where no live worker has its place.\<close>

lemma registry_ok_start:
  assumes ok: "registry_ok self" and fresh: "\<And>e. map_of (sn_sessions self) name = Some e \<Longrightarrow> en_state e = place \<and> \<not> state_running place self"
    and other: "\<And>n e. map_of (sn_sessions self) n = Some e \<Longrightarrow> n \<noteq> name \<Longrightarrow> en_state e \<noteq> place"
    and len: "place < length (sn_states self)"
    and start: "start_session name place self = (r, self')"
    and e': "e' = \<lparr>en_broker_id = b, en_id = name, en_session_tx = sn_next_tx self, en_state = place\<rparr>"
  shows "registry_ok (self'\<lparr>sn_sessions := hm_insert name e' (sn_sessions self')\<rparr>)"
proof -
  let ?w = "\<lparr>wk_session_tx = sn_next_tx self, wk_id = name, wk_state = place\<rparr>"
  let ?t = "(set_running place True (self\<lparr>sn_next_tx := sn_next_tx self + 1\<rparr>))\<lparr>sn_workers := sn_workers self @ [?w]\<rparr>"
  let ?M = "(map_of (sn_sessions self))(name \<mapsto> e')"
  have self': "self' = ?t" using start by (simp add: start_session_def Let_def)
  have run: "state_running q ?t \<longleftrightarrow> q = place \<or> state_running q self" for q
    using len by simp
  have old: "wk_id v \<noteq> name" if "v \<in> set (sn_workers self)" for v
    using that fresh by (auto simp: registry_okD(4) [OF ok])
  show ?thesis
    unfolding self'
  proof (rule registry_okI [where M = ?M], goal_cases)
    case (2 n e)
    then show ?case using registry_okD(1) [OF ok, of n e] len by (auto simp: e' split: if_splits)
  next
    case (3 n1 n2 e1 e2)
    show ?case
    proof (cases "n1 = name \<or> n2 = name")
      case True
      with 3 other [of n1 e1] other [of n2 e2] show ?thesis by (auto simp: e' split: if_splits)
    next
      case False
      with 3 registry_okD(2) [OF ok, of n1 e1 n2 e2] show ?thesis by simp
    qed
  next
    case 4
    have "?w \<notin> set (sn_workers self)" using old by fastforce
    then show ?case using registry_okD(3) [OF ok] by simp
  next
    case (5 v)
    show ?case
    proof (cases "wk_id v = name")
      case True
      then show ?thesis using old [of v] len by (auto simp: e' worker_eq_iff [of v])
    next
      case False
      then have "v \<noteq> ?w" by auto
      with False other [of "wk_id v"] len show ?thesis by (auto simp: registry_okD(4) [OF ok, of v])
    qed
  qed simp
qed

lemma get_session_ok:
  assumes ok: "registry_ok self" and get: "get_session name self = (r, self')"
  shows "registry_ok self'"
proof (cases "map_of (sn_sessions self) name")
  case None
  let ?s = "self\<lparr>sn_states := sn_states self @ [session_state_new]\<rparr>"
  have st: "state_running (en_state e) ?s = state_running (en_state e) self" if "map_of (sn_sessions self) n = Some e" for n e
    using registry_okD(1) [OF ok that] by (simp add: state_running_def nth_append)
  have ok': "registry_ok ?s"
  proof (rule registry_okI [OF refl], goal_cases)
    case (1 n e)
    then show ?case using registry_okD(1) [OF ok, of n e] by simp
  next
    case (2 n1 n2 e1 e2)
    then show ?case using registry_okD(2) [OF ok, of n1 e1 n2 e2] by simp
  next
    case 3
    show ?case using registry_okD(3) [OF ok] by simp
  next
    case (4 w)
    show ?case using st [of "wk_id w"] by (auto simp: registry_okD(4) [OF ok, of w])
  qed
  obtain r1 t where t: "start_session name (length (sn_states self)) ?s = (r1, t)" by force
  then have r1: "r1 = Inr (sn_next_tx self)" "sn_broker_id t = sn_broker_id self"
    by (auto simp: start_session_def Let_def)
  have "registry_ok (t\<lparr>sn_sessions := hm_insert name \<lparr>en_broker_id = sn_broker_id self, en_id = name,
      en_session_tx = sn_next_tx self, en_state = length (sn_states self)\<rparr> (sn_sessions t)\<rparr>)"
    by (rule registry_ok_start [OF ok' _ _ _ t]) (use None in \<open>auto dest: registry_okD(1) [OF ok]\<close>)
  then show ?thesis using get None t r1 by (auto simp: get_session_def Let_def)
next
  case (Some e)
  show ?thesis
  proof (cases "state_running (en_state e) self")
    case True
    with get Some ok show ?thesis by (auto simp: get_session_def)
  next
    case False
    from registry_okD(1) [OF ok Some] have e: "en_id e = name" "en_state e < length (sn_states self)" by auto
    obtain r1 t where t: "start_session name (en_state e) self = (r1, t)" by force
    then have r1: "r1 = Inr (sn_next_tx self)" by (auto simp: start_session_def Let_def)
    have eq: "e\<lparr>en_session_tx := sn_next_tx self\<rparr> = \<lparr>en_broker_id = en_broker_id e, en_id = name,
        en_session_tx = sn_next_tx self, en_state = en_state e\<rparr>" using e(1) by (cases e) simp
    have "registry_ok (t\<lparr>sn_sessions := hm_insert name (e\<lparr>en_session_tx := sn_next_tx self\<rparr>) (sn_sessions t)\<rparr>)"
      by (rule registry_ok_start [OF ok _ _ e(2) t eq])
        (use Some False in \<open>auto dest: registry_okD(2) [OF ok, OF _ Some]\<close>)
    then show ?thesis using get Some False t r1 by (auto simp: get_session_def)
  qed
qed

lemma end_worker_ok:
  assumes ok: "registry_ok self" and w: "w \<in> set (sn_workers self)"
  shows "registry_ok (end_worker w self)"
proof -
  from w obtain e where e: "map_of (sn_sessions self) (wk_id w) = Some e" "en_session_tx e = wk_session_tx w" "en_state e = wk_state w"
    by (auto simp: registry_okD(4) [OF ok])
  with registry_okD(1) [OF ok e(1)] have len: "wk_state w < length (sn_states self)" by simp
  show ?thesis
    unfolding end_worker_def
  proof (rule registry_okI [where M = "map_of (sn_sessions self)"], goal_cases)
    case (2 n e)
    then show ?case using registry_okD(1) [OF ok, of n e] by simp
  next
    case (3 n1 n2 e1 e2)
    then show ?case by (rule registry_okD(2) [OF ok])
  next
    case 4
    show ?case using registry_okD(3) [OF ok] by simp
  next
    case (5 v)
    have "v = w" if "map_of (sn_sessions self) (wk_id v) = Some e'" "en_session_tx e' = wk_session_tx v"
      "en_state e' = wk_state v" "wk_state v = wk_state w" for e'
    proof -
      from that e registry_okD(2) [OF ok that(1) e(1)] have "wk_id v = wk_id w" by simp
      with that e show ?thesis by (simp add: worker_eq_iff [of v w])
    qed
    then show ?case
      using len registry_okD(3) [OF ok] by (auto simp: set_remove1_eq registry_okD(4) [OF ok, of v]) force
  qed simp
qed

lemma registry_reach_ok: "registry_reach self \<Longrightarrow> registry_ok self"
proof (induction rule: registry_reach.induct)
  case (step self self')
  then show ?case by (auto elim!: registry_stepE intro: get_session_ok end_worker_ok)
qed (rule registry_ok_new)

text \<open>What a lookup returns.\<close>

lemma get_session_tx_get_session:
  assumes "registry_ok self" and "get_session name self = (r, self')"
  shows "\<exists>tx. r = Inr tx \<and> get_session_tx name self' = Some tx"
    and "n \<noteq> name \<Longrightarrow> get_session_tx n self' = get_session_tx n self"
    and "get_session_tx name self = Some tx \<Longrightarrow> r = Inr tx \<and> self' = self"
proof -
  have st: "q < length (sn_states self) \<Longrightarrow>
      state_running q (self\<lparr>sn_states := sn_states self @ [session_state_new]\<rparr>) = state_running q self" for q
    by (simp add: state_running_def nth_append)
  have sep: "en_state e1 \<noteq> en_state e2" if "map_of (sn_sessions self) n1 = Some e1" "map_of (sn_sessions self) n2 = Some e2" "n1 \<noteq> n2"
    for n1 n2 e1 e2
    using registry_okD(2) [OF assms(1) that(1,2)] that(3) by blast
  show "\<exists>tx. r = Inr tx \<and> get_session_tx name self' = Some tx"
    using assms(2) registry_okD(1) [OF assms(1), of name]
    by (auto simp: get_session_def start_session_def Let_def get_session_tx_def split: option.splits if_splits)
  show "get_session_tx n self' = get_session_tx n self" if "n \<noteq> name"
    using assms(2) that registry_okD(1) [OF assms(1), of name] registry_okD(1) [OF assms(1), of n] sep [of n _ name]
    by (auto simp: get_session_def start_session_def Let_def get_session_tx_def st split: option.splits if_splits)
  show "r = Inr tx \<and> self' = self" if "get_session_tx name self = Some tx"
    using assms(2) that by (auto simp: get_session_def get_session_tx_def split: option.splits if_splits)
qed

section \<open>Properties\<close>

text \<open>C27: In every state of the registry a session has at most one live worker, its channel is the one
  that lookups return, and sessions without a live worker have no channel.\<close>

theorem one_worker_per_session:
  assumes "registry_reach self"
  shows "(get_session_tx name self = Some tx \<longleftrightarrow>
      (\<exists>place. \<lparr>wk_session_tx = tx, wk_id = name, wk_state = place\<rparr> \<in> set (sn_workers self))) \<and>
    distinct (map wk_id (sn_workers self))"
proof
  note ok = registry_reach_ok [OF assms]
  show "get_session_tx name self = Some tx \<longleftrightarrow> (\<exists>place. \<lparr>wk_session_tx = tx, wk_id = name, wk_state = place\<rparr> \<in> set (sn_workers self))"
    by (auto simp: registry_okD(4) [OF ok] get_session_tx_def split: option.splits)
  have "v = w" if "v \<in> set (sn_workers self)" "w \<in> set (sn_workers self)" "wk_id v = wk_id w" for v w
    using that by (auto simp: registry_okD(4) [OF ok] worker_eq_iff [of v w])
  then show "distinct (map wk_id (sn_workers self))"
    using registry_okD(3) [OF ok] by (auto simp: distinct_map inj_on_def)
qed

lemma one_worker_per_session_witness:
  "get_session_tx (ascii ''a'') (snd (get_session (ascii ''a'') (sessions_new \<lparr>bi_tenant_id = None, bi_broker_id = []\<rparr>))) = Some 0"
proof -
  let ?s = "sessions_new \<lparr>bi_tenant_id = None, bi_broker_id = []\<rparr>"
  let ?t = "snd (get_session (ascii ''a'') ?s)"
  have "registry_step ?s ?t" by (rule registry_step.lookup [of _ _ "fst (get_session (ascii ''a'') ?s)"]) simp
  then have "registry_reach ?t" by (rule registry_reach.step [OF registry_reach.init])
  from one_worker_per_session [OF this, of "ascii ''a''" 0] show ?thesis
    by (simp add: get_session_def start_session_def sessions_new_def Let_def set_running_def)
qed

end
