(* ===== verification/Broker_Router.thy ===== *)
theory Broker_Router
  imports Topics_Match Sess_Registry
begin

text \<open>
  \<open>src/broker/router.rs\<close> and the broker task of \<open>src/broker/mod.rs\<close>. The two tasks of a
  tenant share its session registry and the router's running flag, so that one record holds
  the state of both; what is sent is logged, and an environment says what a channel takes.
\<close>

section \<open>State and environment\<close>

type_synonym router_tx = nat

record ('p, 'w) tenant =
  tn_broker_id :: broker_id
  tn_topics :: "'p subscriptions"
  tn_sessions :: sessions
  tn_router_running :: bool
  tn_router_tx :: "router_tx option"
  tn_next_router_tx :: router_tx
  tn_session_log :: "(session_tx \<times> session_message) list"
  tn_response_log :: "(oneshot \<times> router_subscribe_response) list"
  tn_request_log :: "(oneshot \<times> session_tx option) list"
  tn_world :: 'w

record 'w router_env =
  re_session_send :: "session_tx \<Rightarrow> session_message \<Rightarrow> 'w \<Rightarrow> bool \<times> 'w"
  re_response_send :: "oneshot \<Rightarrow> router_subscribe_response \<Rightarrow> 'w \<Rightarrow> bool \<times> 'w"
  re_request_send :: "oneshot \<Rightarrow> session_tx option \<Rightarrow> 'w \<Rightarrow> bool \<times> 'w"

type_synonym ('p, 'w, 'a) router_act = "(('p, 'w) tenant, broker_error, 'a) act"

text \<open>An operation of the router's topic tree, and a step of the environment.\<close>

definition on_topics :: "('p, 'a) sub_act \<Rightarrow> ('p, 'w, 'a) router_act" where
  "on_topics m self = (case m (tn_topics self) of (r, topics) \<Rightarrow> (r, self\<lparr>tn_topics := topics\<rparr>))"

definition tenant_world :: "('w \<Rightarrow> 'a \<times> 'w) \<Rightarrow> ('p, 'w, 'a) router_act" where
  "tenant_world f self = (case f (tn_world self) of (a, w) \<Rightarrow> (Inr a, self\<lparr>tn_world := w\<rparr>))"

section \<open>The router\<close>

text \<open>\<open>tx.unbounded_send(..)\<close>, whose failure is only logged.\<close>

definition send_session :: "'w router_env \<Rightarrow> session_tx \<Rightarrow> session_message \<Rightarrow> ('p, 'w, unit) router_act" where
  "send_session env tx msg =
     act_bind (tenant_world (re_session_send env tx msg)) (\<lambda>sent.
     if sent then act_modify (\<lambda>self. self\<lparr>tn_session_log := tn_session_log self @ [(tx, msg)]\<rparr>) else act_return ())"

definition shared_get_session :: "rstring \<Rightarrow> ('p, 'w, string + session_tx) router_act" where
  "shared_get_session name self =
     (case get_session name (tn_sessions self) of (r, sns) \<Rightarrow> (Inr r, self\<lparr>tn_sessions := sns\<rparr>))"

text \<open>The message for one of the subscribed sessions.\<close>

definition forward_message :: "'w router_env \<Rightarrow> publish \<Rightarrow> session_id \<times> u8 \<Rightarrow> ('p, 'w, unit) router_act" where
  "forward_message env msg = (\<lambda>(session, qos).
     act_bind (act_get (\<lambda>self. get_session_tx (sid_session session) (tn_sessions self))) (\<lambda>session_tx.
     act_bind
       (if session_tx = None \<and> 0 < qos then
          act_bind (shared_get_session (sid_session session)) (\<lambda>stx.
          act_return (case stx of Inr tx \<Rightarrow> Some tx | Inl _ \<Rightarrow> session_tx))
        else act_return session_tx) (\<lambda>session_tx.
     case session_tx of
       Some tx \<Rightarrow>
         let cmsg = (if qos < pub_qos msg then msg\<lparr>pub_qos := qos\<rparr> else msg);
             imsg = \<lparr>im_session = session, im_message = Publish cmsg\<rparr>
         in send_session env tx (Internal imsg)
     | None \<Rightarrow> act_return ())))"

definition router_publish :: "'w router_env \<Rightarrow> 'p topic_persist \<Rightarrow> publish \<Rightarrow> ('p, 'w, unit) router_act" where
  "router_publish env tp msg =
     act_bind (if pub_retain msg then on_topics (retain tp msg) else act_return ()) (\<lambda>_.
     act_bind (act_get (\<lambda>self. get_subscribed (pub_topic msg) (tn_topics self))) (\<lambda>subscribed.
     act_for subscribed (forward_message env msg)))"

definition router_subscribe :: "'w router_env \<Rightarrow> 'p topic_persist \<Rightarrow> router_publish_subscribe \<Rightarrow> ('p, 'w, unit) router_act" where
  "router_subscribe env tp msg =
     (let response = \<lparr>rr_session = rs_session msg, rr_ret = 0x80, rr_retained_messages = []\<rparr> in
      act_bind (on_topics (Broker_Topics.subscribe tp (rs_session msg) (rs_topic msg) (rs_qos msg))) (\<lambda>qos.
      act_bind
        (if qos = 0x80 then act_return (response\<lparr>rr_ret := 0x80\<rparr>)
         else
           act_bind (act_get (\<lambda>self. get_retained_messages (rs_topic msg) (tn_topics self))) (\<lambda>retained_messages.
           let retained_messages =
             map (\<lambda>cmsg. if qos < pub_qos cmsg then cmsg\<lparr>pub_qos := qos\<rparr> else cmsg) retained_messages
           in act_return (response\<lparr>rr_retained_messages := rr_retained_messages response @ retained_messages, rr_ret := qos\<rparr>)))
        (\<lambda>response.
      act_bind (tenant_world (re_response_send env (rs_response_tx msg) response)) (\<lambda>sent.
      if sent then act_modify (\<lambda>self. self\<lparr>tn_response_log := tn_response_log self @ [(rs_response_tx msg, response)]\<rparr>)
      else act_return ()))))"

definition router_unsubscribe :: "'p topic_persist \<Rightarrow> router_publish_unsubscribe \<Rightarrow> ('p, 'w, unit) router_act" where
  "router_unsubscribe tp msg =
     act_for (ru_topics msg) (\<lambda>topic. on_topics (Broker_Topics.unsubscribe tp (ru_session msg) topic))"

definition router_init_persistent_store :: "'p topic_persist \<Rightarrow> ('p, 'w, u8) router_act" where
  "router_init_persistent_store tp =
     act_bind (on_topics (create_persistent_connection tp)) (\<lambda>_.
     act_bind (on_topics (init_persistent_store tp)) (\<lambda>_.
     act_bind (on_topics (load_persistent_state tp)) (\<lambda>_.
     act_return 0)))"

definition router_handle :: "'w router_env \<Rightarrow> 'p topic_persist \<Rightarrow> router_message \<Rightarrow> ('p, 'w, unit) router_act" where
  "router_handle env tp message =
     (case message of
        Router_Publish msg \<Rightarrow> router_publish env tp (rp_message msg)
      | Router_Subscribe msg \<Rightarrow> router_subscribe env tp msg
      | Router_Unsubscribe msg \<Rightarrow> router_unsubscribe tp msg)"

text \<open>\<open>drop\<close> of the router clears the flag that the broker task looks at.\<close>

definition router_drop :: "('p, 'w) tenant \<Rightarrow> ('p, 'w) tenant" where
  "router_drop self = self\<lparr>tn_router_running := False\<rparr>"

fun router_start :: "'w router_env \<Rightarrow> 'p topic_persist \<Rightarrow> router_message list \<Rightarrow> ('p, 'w) tenant \<Rightarrow> task_end \<times> ('p, 'w) tenant" where
  "router_start env tp [] self = (Waiting, self)"
| "router_start env tp (message # messages) self =
     (case router_handle env tp message self of
        (Inr _, self) \<Rightarrow> router_start env tp messages self
      | (Inl (Failed (Broker_PersistError _)), self) \<Rightarrow> (Stopped, router_drop self)
      | (Inl Panicked, self) \<Rightarrow> (Crashed, router_drop self))"

section \<open>The broker task\<close>

definition tenant_new :: "broker_id \<Rightarrow> 'p \<Rightarrow> 'w \<Rightarrow> ('p, 'w) tenant" where
  "tenant_new broker p w =
     \<lparr>tn_broker_id = broker, tn_topics = subscriptions_new p, tn_sessions = sessions_new broker,
      tn_router_running = False, tn_router_tx = None, tn_next_router_tx = 0,
      tn_session_log = [], tn_response_log = [], tn_request_log = [], tn_world = w\<rparr>"

text \<open>\<open>MessageRouter::new\<close>: a new channel and an empty topic tree over the same storage.\<close>

definition router_new :: "('p, 'w) tenant \<Rightarrow> router_tx \<times> ('p, 'w) tenant" where
  "router_new self =
     (tn_next_router_tx self,
      self\<lparr>tn_next_router_tx := tn_next_router_tx self + 1,
           tn_topics := subscriptions_new (sb_persist (tn_topics self))\<rparr>)"

definition start_router :: "'p topic_persist \<Rightarrow> ('p, 'w, unit) router_act" where
  "start_router tp =
     act_bind (act_get (\<lambda>self. fst (router_new self))) (\<lambda>tx.
     act_bind (act_modify (\<lambda>self. snd (router_new self))) (\<lambda>_.
     act_bind (act_modify (\<lambda>self. self\<lparr>tn_router_tx := Some tx\<rparr>)) (\<lambda>_.
     act_bind (act_try (router_init_persistent_store tp)) (\<lambda>result.
     case result of
       Inl _ \<Rightarrow> act_bind (act_modify (\<lambda>self. self\<lparr>tn_router_tx := None\<rparr>)) (\<lambda>_. act_modify router_drop)
     | Inr _ \<Rightarrow> act_modify (\<lambda>self. self\<lparr>tn_router_running := True\<rparr>)))))"

text \<open>A request: the name of the session and the one-shot channel for the response.\<close>

record session_request =
  sr_response_channel :: oneshot
  sr_session :: rstring

datatype broker_message = GetSessionTx session_request

definition handle_session_request :: "'w router_env \<Rightarrow> 'p topic_persist \<Rightarrow> session_request \<Rightarrow> ('p, 'w, unit) router_act" where
  "handle_session_request env tp request =
     act_bind (act_get tn_router_running) (\<lambda>running.
     act_bind (if \<not> running then start_router tp else act_return ()) (\<lambda>_.
     act_bind (act_get tn_router_tx) (\<lambda>router_tx.
     act_bind
       (case router_tx of
          Some message_router_tx \<Rightarrow>
            act_bind (shared_get_session (sr_session request)) (\<lambda>session.
            act_return (case session of Inr session_tx \<Rightarrow> Some session_tx | Inl _ \<Rightarrow> None))
        | None \<Rightarrow> act_return None) (\<lambda>sessiontx.
     act_bind (tenant_world (re_request_send env (sr_response_channel request) sessiontx)) (\<lambda>sent.
     if sent then
       act_modify (\<lambda>self. self\<lparr>tn_request_log := tn_request_log self @ [(sr_response_channel request, sessiontx)]\<rparr>)
     else act_return ())))))"

definition broker_handle :: "'w router_env \<Rightarrow> 'p topic_persist \<Rightarrow> broker_message \<Rightarrow> ('p, 'w, unit) router_act" where
  "broker_handle env tp v = (case v of GetSessionTx request \<Rightarrow> handle_session_request env tp request)"

text \<open>\<open>run_loop\<close> of the broker starts the router and then serves its requests for ever.\<close>

definition broker_run_loop :: "'w router_env \<Rightarrow> 'p topic_persist \<Rightarrow> broker_message list \<Rightarrow> ('p, 'w, unit) router_act" where
  "broker_run_loop env tp requests =
     act_bind (start_router tp) (\<lambda>_. act_for requests (broker_handle env tp))"

end
