(* ===== verification/Router_Props.thy ===== *)
theory Router_Props
  imports Broker_Router
begin

text \<open>
  The router and the broker task of a tenant: loading the topic tree at the start, the state
  of a tenant along all interleavings of requests, routed messages and ending workers, and
  what a message that is published or subscribed to leads to.
\<close>

section \<open>Loading keeps the tree in order\<close>

lemma load_topic_fold:
  assumes "topic = Topic [] i cs m" and "entries_ok cs"
  shows "\<exists>cs' n'. fold (\<lambda>(session, qos) (topic, n). (snd (topic_set_subscribed session qos topic), n + 1)) subs (topic, n :: int) =
      (Topic [] i cs' m, n') \<and> entries_ok cs'"
  using assms by (induction subs arbitrary: topic cs n) (auto simp: Let_def)

lemma insert_topic_tree_ok:
  assumes "entries_ok cs" and "tree_ok self"
  shows "tree_ok (insert_topic name (Topic [] (Some i) cs m) self)"
  using assms insert_walk_info [of "topic_levels name" "Topic [] (Some i) cs m" _ "sb_topics self"]
  by (auto simp: tree_ok_def insert_topic_def info_of_def)

lemma load_loop_safe: "act_hoare tree_ok (load_topics_loop tp ts r n) (\<lambda>_. tree_ok) no_panic"
proof (induction ts arbitrary: r n)
  case (Cons t ts)
  have step: "act_hoare tree_ok (case fold (\<lambda>(session, qos) (topic, n). (snd (topic_set_subscribed session qos topic), n + 1)) subs
        (Topic [] (Some (pt_topic_id t)) [] m, k) of (topic, n) \<Rightarrow>
        act_bind (act_modify (insert_topic (pt_topic_name t) topic)) (\<lambda>_. load_topics_loop tp ts r' n)) (\<lambda>_. tree_ok) no_panic"
    for subs m k r'
  proof -
    obtain cs' n' where fold: "fold (\<lambda>(session, qos) (topic, n). (snd (topic_set_subscribed session qos topic), n + 1)) subs
        (Topic [] (Some (pt_topic_id t)) [] m, k) = (Topic [] (Some (pt_topic_id t)) cs' m, n')" "entries_ok cs'"
      using load_topic_fold [OF refl entries_ok_simps(1)] by blast
    show ?thesis unfolding fold(1) prod.case
      by (rule act_hoare_bind [OF act_hoare_modify Cons.IH]) (rule insert_topic_tree_ok [OF fold(2)])
  qed
  have look: "act_hoare tree_ok
      (case pt_retained_message_id t of
         Some message_id \<Rightarrow>
           act_bind (with_persist (tp_load_persistent_message tp message_id)) (\<lambda>message.
           act_return (topic_set_message (Some message) (topic_new (Some (pt_topic_id t))), r + 1))
       | None \<Rightarrow> act_return (topic_new (Some (pt_topic_id t)), r))
      (\<lambda>x s. (\<exists>m. fst x = Topic [] (Some (pt_topic_id t)) [] m) \<and> tree_ok s) no_panic"
    by (cases "pt_retained_message_id t")
      (auto simp: topic_new_def intro!: act_hoare_return act_hoare_bind [OF hoare_persist_ids])
  show ?case
    unfolding load_topics_loop.simps Let_def
  proof (rule act_hoare_bind [OF look], rule act_hoare_pure)
    fix x :: "topic \<times> int"
    assume "\<exists>m. fst x = Topic [] (Some (pt_topic_id t)) [] m"
    then obtain m k where x: "x = (Topic [] (Some (pt_topic_id t)) [] m, k)" by (cases x) auto
    show "act_hoare tree_ok (case x of (topic, retained_count) \<Rightarrow>
       act_bind (with_persist (tp_load_persistent_subscriptions tp (pt_topic_id t))) (\<lambda>subscriptions.
       case fold (\<lambda>(session, qos) (topic, n). (snd (topic_set_subscribed session qos topic), n + 1))
              subscriptions (topic, n) of
         (topic, subscription_count) \<Rightarrow>
           act_bind (act_modify (insert_topic (pt_topic_name t) topic)) (\<lambda>_.
           load_topics_loop tp ts retained_count subscription_count))) (\<lambda>_. tree_ok) no_panic"
      unfolding x prod.case by (rule act_hoare_bind [OF hoare_persist_ids step])
  qed
qed (simp add: act_hoare_return)

lemma load_safe: "act_hoare tree_ok (load_persistent_state tp) (\<lambda>_. tree_ok) no_panic"
  unfolding load_persistent_state_def
  by (rule act_hoare_bind [OF hoare_persist_ids act_hoare_bind [OF load_loop_safe]])
    (auto intro!: act_hoare_bind [where R = "\<lambda>_. tree_ok"] act_hoare_modify act_hoare_return)


section \<open>The state of a tenant\<close>

text \<open>While the router runs its tree is in order and its channel is known; the registry always is.\<close>

definition tenant_ok :: "('p, 'w) tenant \<Rightarrow> bool" where
  "tenant_ok self \<longleftrightarrow> registry_ok (tn_sessions self) \<and>
     (tn_router_running self \<longrightarrow> tree_ok (tn_topics self) \<and> tn_router_tx self \<noteq> None)"

definition routing :: "('p, 'w) tenant \<Rightarrow> ('p, 'w) tenant \<Rightarrow> bool" where
  "routing s0 self \<longleftrightarrow> registry_ok (tn_sessions self) \<and> tree_ok (tn_topics self) \<and>
     tn_router_tx self = tn_router_tx s0 \<and> tn_router_running self = tn_router_running s0"

definition routing_error :: "('p, 'w) tenant \<Rightarrow> broker_error failure \<Rightarrow> ('p, 'w) tenant \<Rightarrow> bool" where
  "routing_error s0 e self \<longleftrightarrow> e \<noteq> Panicked \<and> routing s0 self"

lemma routing_updates [simp]:
  "routing s0 (self\<lparr>tn_world := w\<rparr>) = routing s0 self"
  "routing s0 (self\<lparr>tn_session_log := sl\<rparr>) = routing s0 self"
  "routing s0 (self\<lparr>tn_response_log := rl\<rparr>) = routing s0 self"
  "routing s0 (self\<lparr>tn_request_log := ql\<rparr>) = routing s0 self"
  by (simp_all add: routing_def)

lemma routing_topics:
  assumes "act_hoare tree_ok m (\<lambda>_. tree_ok) no_panic"
  shows "act_hoare (routing s0) (on_topics m) (\<lambda>_. routing s0) (routing_error s0)"
  using assms by (fastforce simp: act_hoare_def on_topics_def routing_def routing_error_def no_panic_def
      split: prod.splits sum.splits)

lemma routing_get: "act_hoare (routing s0) (act_get f) (\<lambda>_. routing s0) E"
  by (simp add: act_hoare_get)

lemma routing_world: "act_hoare (routing s0) (tenant_world f) (\<lambda>_. routing s0) E"
  by (auto simp: act_hoare_def tenant_world_def split: prod.splits)

lemma routing_get_session: "act_hoare (routing s0) (shared_get_session name) (\<lambda>_. routing s0) E"
  by (auto simp: act_hoare_def shared_get_session_def routing_def intro: get_session_ok split: prod.splits)

lemma routing_send: "act_hoare (routing s0) (send_session env tx msg) (\<lambda>_. routing s0) E"
  unfolding send_session_def
  by (rule act_hoare_bind [OF routing_world]) (auto intro: act_hoare_modify act_hoare_return)

lemma routing_forward: "act_hoare (routing s0) (forward_message env msg x) (\<lambda>_. routing s0) E"
proof -
  obtain sid q where x: "x = (sid, q)" by force
  show ?thesis
    unfolding forward_message_def x prod.case
    by (rule act_hoare_bind [OF routing_get act_hoare_bind [where R = "\<lambda>_. routing s0"]])
      (auto simp: Let_def intro!: act_hoare_if act_hoare_bind [OF routing_get_session] act_hoare_return routing_send
        split: option.splits)
qed

lemma routing_handle: "act_hoare (routing s0) (router_handle env tp message) (\<lambda>_. routing s0) (routing_error s0)"
proof (cases message)
  case (Router_Publish m)
  show ?thesis
    unfolding router_handle_def Router_Publish router_message.case router_publish_def
    by (rule act_hoare_bind [where R = "\<lambda>_. routing s0"])
      (auto intro!: act_hoare_if routing_topics retain_safe act_hoare_return act_hoare_for routing_forward
        act_hoare_bind [OF routing_get])
next
  case (Router_Subscribe m)
  show ?thesis
    unfolding router_handle_def Router_Subscribe router_message.case router_subscribe_def Let_def
    by (rule act_hoare_bind [OF routing_topics [OF subscribe_safe] act_hoare_bind [where R = "\<lambda>_. routing s0"]])
      (auto intro!: act_hoare_if act_hoare_return act_hoare_bind [OF routing_get] act_hoare_bind [OF routing_world]
        act_hoare_modify)
next
  case (Router_Unsubscribe m)
  show ?thesis
    unfolding router_handle_def Router_Unsubscribe router_message.case router_unsubscribe_def
    by (intro act_hoare_for routing_topics unsubscribe_safe)
qed

section \<open>Reachable tenants\<close>

text \<open>
  The broker task starts the router once and then answers requests; the router, while it
  runs, handles messages until one fails; a session worker may end at any time. A handler is
  one step.
\<close>

inductive tenant_step :: "'w router_env \<Rightarrow> 'p topic_persist \<Rightarrow> ('p, 'w) tenant \<Rightarrow> ('p, 'w) tenant \<Rightarrow> bool" for env tp where
  request: "broker_handle env tp v self = (Inr (), self') \<Longrightarrow> tenant_step env tp self self'"
| routed: "tn_router_running self \<Longrightarrow> router_handle env tp message self = (Inr (), self') \<Longrightarrow> tenant_step env tp self self'"
| stopped: "tn_router_running self \<Longrightarrow> router_handle env tp message self = (Inl e, self') \<Longrightarrow>
    tenant_step env tp self (router_drop self')"
| ended: "w \<in> set (sn_workers (tn_sessions self)) \<Longrightarrow>
    tenant_step env tp self (self\<lparr>tn_sessions := end_worker w (tn_sessions self)\<rparr>)"

inductive tenant_reach :: "'w router_env \<Rightarrow> 'p topic_persist \<Rightarrow> ('p, 'w) tenant \<Rightarrow> bool" for env tp where
  start: "start_router tp (tenant_new broker p w) = (Inr (), self) \<Longrightarrow> tenant_reach env tp self"
| step: "tenant_reach env tp self \<Longrightarrow> tenant_step env tp self self' \<Longrightarrow> tenant_reach env tp self'"

text \<open>Starting the router never fails as an operation; it runs afterwards or has no channel.\<close>

lemma start_router_ok:
  assumes "registry_ok (tn_sessions self)" and "\<not> tn_router_running self"
  shows "\<exists>self'. start_router tp self = (Inr (), self') \<and> tenant_ok self' \<and>
    (tn_router_tx self' \<noteq> None \<longleftrightarrow> tn_router_running self') \<and> tn_sessions self' = tn_sessions self \<and>
    tn_session_log self' = tn_session_log self \<and> tn_request_log self' = tn_request_log self \<and> tn_world self' = tn_world self"
proof -
  define s0 where "s0 = (snd (router_new self))\<lparr>tn_router_tx := Some (fst (router_new self))\<rparr>"
  have s0: "tree_ok (tn_topics s0)" "tn_sessions s0 = tn_sessions self" "tn_router_running s0 = tn_router_running self"
    "tn_session_log s0 = tn_session_log self" "tn_request_log s0 = tn_request_log self" "tn_world s0 = tn_world self"
    "tn_router_tx s0 \<noteq> None"
    by (simp_all add: s0_def router_new_def new_tree_ok)
  let ?same = "\<lambda>s. tn_sessions s = tn_sessions self \<and> tn_router_running s = tn_router_running self \<and>
    tn_session_log s = tn_session_log self \<and> tn_request_log s = tn_request_log self \<and> tn_world s = tn_world self \<and>
    tn_router_tx s \<noteq> None"
  have "act_hoare (\<lambda>s. tree_ok (tn_topics s) \<and> ?same s) (on_topics m) (\<lambda>_ s. tree_ok (tn_topics s) \<and> ?same s)
      (\<lambda>e s. e \<noteq> Panicked \<and> ?same s)" if "act_hoare tree_ok m (\<lambda>_. tree_ok) no_panic" for m
    using that by (fastforce simp: act_hoare_def on_topics_def no_panic_def split: prod.splits sum.splits)
  note on = this
  have hoare: "act_hoare (\<lambda>s. tree_ok (tn_topics s) \<and> ?same s) (router_init_persistent_store tp)
      (\<lambda>_ s. tree_ok (tn_topics s) \<and> ?same s) (\<lambda>e s. e \<noteq> Panicked \<and> ?same s)"
    unfolding router_init_persistent_store_def create_persistent_connection_def init_persistent_store_def
    by (intro act_hoare_bind [OF on] act_hoare_return) (auto intro: hoare_persist_ids load_safe)
  have init: "case router_init_persistent_store tp s0 of
      (Inl e, s) \<Rightarrow> e \<noteq> Panicked \<and> ?same s | (Inr _, s) \<Rightarrow> tree_ok (tn_topics s) \<and> ?same s"
    using hoare [unfolded act_hoare_def, rule_format, of s0] s0 by (simp only: simp_thms)
  obtain r s1 where r: "router_init_persistent_store tp s0 = (r, s1)" by force
  have start: "start_router tp self = act_bind (act_try (router_init_persistent_store tp)) (\<lambda>result.
     case result of
       Inl _ \<Rightarrow> act_bind (act_modify (\<lambda>self. self\<lparr>tn_router_tx := None\<rparr>)) (\<lambda>_. act_modify router_drop)
     | Inr _ \<Rightarrow> act_modify (\<lambda>self. self\<lparr>tn_router_running := True\<rparr>)) s0"
    by (simp add: start_router_def s0_def act_bind_app)
  show ?thesis
  proof (cases r)
    case (Inl e)
    with init r have e: "e \<noteq> Panicked" "?same s1" by simp_all
    then obtain x where x: "e = Failed x" by (cases e) auto
    have "act_try (router_init_persistent_store tp) s0 = (Inr (Inl x) :: broker_error failure + broker_error + u8, s1)"
      using r Inl x by simp
    then have "start_router tp self = (Inr (), router_drop (s1\<lparr>tn_router_tx := None\<rparr>))"
      unfolding start by (simp add: act_bind_app)
    then show ?thesis using e(2) assms by (simp add: router_drop_def tenant_ok_def)
  next
    case (Inr a)
    with init r have e: "tree_ok (tn_topics s1)" "?same s1" by simp_all
    have "act_try (router_init_persistent_store tp) s0 = (Inr (Inr a) :: broker_error failure + broker_error + u8, s1)"
      using r Inr by simp
    then have "start_router tp self = (Inr (), s1\<lparr>tn_router_running := True\<rparr>)"
      unfolding start by (simp add: act_bind_app)
    then show ?thesis using e assms by (simp add: tenant_ok_def)
  qed
qed

text \<open>A request is answered, whatever the state of the router.\<close>

lemma handle_session_request_ok:
  assumes ok: "tenant_ok self"
  shows "\<exists>self' answer. handle_session_request env tp request self = (Inr (), self') \<and> tenant_ok self' \<and>
    (tn_router_running self \<longrightarrow> tn_router_running self') \<and>
    (answer = None \<longleftrightarrow> \<not> tn_router_running self') \<and>
    (\<forall>tx. answer = Some tx \<longrightarrow> get_session_tx (sr_session request) (tn_sessions self') = Some tx) \<and>
    (\<exists>w. tn_request_log self' = tn_request_log self @
      (if fst (re_request_send env (sr_response_channel request) answer w) then [(sr_response_channel request, answer)] else []))"
proof -
  obtain s1 where s1: "(if \<not> tn_router_running self then start_router tp else act_return ()) self = (Inr (), s1)"
    "tenant_ok s1" "tn_router_running self \<longrightarrow> tn_router_running s1" "tn_router_tx s1 \<noteq> None \<longleftrightarrow> tn_router_running s1"
    "tn_request_log s1 = tn_request_log self"
  proof (cases "tn_router_running self")
    case True
    with ok that [of self] show thesis by (simp add: tenant_ok_def)
  next
    case False
    with ok start_router_ok [of self tp] that show thesis by (auto simp: tenant_ok_def)
  qed
  define s2 where "s2 = (if tn_router_tx s1 = None then s1
    else s1\<lparr>tn_sessions := snd (get_session (sr_session request) (tn_sessions s1))\<rparr>)"
  define answer where "answer = (if tn_router_tx s1 = None then None
    else get_session_tx (sr_session request) (tn_sessions s2))"
  have reg: "registry_ok (tn_sessions s1)" using s1(2) by (simp add: tenant_ok_def)
  obtain r sns where get: "get_session (sr_session request) (tn_sessions s1) = (r, sns)" by force
  from get_session_tx_get_session(1) [OF reg get] obtain tx where tx: "r = Inr tx" "get_session_tx (sr_session request) sns = Some tx"
    by blast
  have look: "(case tn_router_tx s1 of
          Some message_router_tx \<Rightarrow>
            act_bind (shared_get_session (sr_session request)) (\<lambda>session.
            act_return (case session of Inr session_tx \<Rightarrow> Some session_tx | Inl _ \<Rightarrow> None))
        | None \<Rightarrow> act_return None) s1 = (Inr answer :: broker_error failure + session_tx option, s2)"
    using get tx by (cases "tn_router_tx s1") (simp_all add: act_bind_app shared_get_session_def s2_def answer_def)
  have s2: "tenant_ok s2" "tn_router_running s2 = tn_router_running s1" "tn_request_log s2 = tn_request_log self"
    using s1(2,4,5) get_session_ok [OF reg get] get by (auto simp: s2_def tenant_ok_def)
  have ans: "answer = None \<longleftrightarrow> \<not> tn_router_running s2" "answer = Some t \<Longrightarrow> get_session_tx (sr_session request) (tn_sessions s2) = Some t" for t
    using s1(4) get tx s2(2) by (auto simp: answer_def s2_def split: if_splits)
  obtain sent w where w: "re_request_send env (sr_response_channel request) answer (tn_world s2) = (sent, w)" by force
  define s3 where "s3 = (if sent then s2\<lparr>tn_world := w, tn_request_log := tn_request_log s2 @ [(sr_response_channel request, answer)]\<rparr>
    else s2\<lparr>tn_world := w\<rparr>)"
  have "handle_session_request env tp request self = (Inr (), s3)"
    using s1(1) look w by (simp add: handle_session_request_def act_bind_app tenant_world_def s3_def)
  moreover have "tenant_ok s3" using s2(1) by (simp add: s3_def tenant_ok_def)
  moreover have "tn_router_running s3 = tn_router_running s1" "tn_sessions s3 = tn_sessions s2"
    "tn_request_log s3 = tn_request_log self @ (if sent then [(sr_response_channel request, answer)] else [])"
    using s2 by (simp_all add: s3_def)
  ultimately show ?thesis
    using s1(3) ans s2(2) w by (intro exI [of _ s3] exI [of _ answer]) (auto intro!: exI [of _ "tn_world s2"])
qed

lemma tenant_reach_ok: "tenant_reach env tp self \<Longrightarrow> tenant_ok self"
proof (induction rule: tenant_reach.induct)
  case (start broker p w self)
  have "registry_ok (tn_sessions (tenant_new broker p w))" "\<not> tn_router_running (tenant_new broker p w)"
    by (simp_all add: tenant_new_def registry_ok_new)
  from start_router_ok [OF this, of tp] start show ?case by auto
next
  case (step self self')
  from step(2) show ?case
  proof cases
    case (request v)
    then obtain r where v: "handle_session_request env tp r self = (Inr (), self')"
      by (cases v) (auto simp: broker_handle_def)
    with handle_session_request_ok [OF step(3), of env tp r] show ?thesis by auto
  next
    case (routed message)
    from step(3) routed(1) have "routing self self" by (simp add: tenant_ok_def routing_def)
    from act_hoareD(1) [OF routing_handle this routed(2)] routed(1) step(3) show ?thesis
      by (simp add: routing_def tenant_ok_def)
  next
    case (stopped message e s)
    from step(3) stopped(2) have "routing self self" by (simp add: tenant_ok_def routing_def)
    from act_hoareD(2) [OF routing_handle this stopped(3)] show ?thesis
      by (simp add: routing_error_def routing_def tenant_ok_def router_drop_def stopped(1))
  next
    case (ended w)
    with step(3) end_worker_ok [of "tn_sessions self" w] show ?thesis by (simp add: tenant_ok_def)
  qed
qed

section \<open>Forwarding\<close>


text \<open>The message a subscription with QoS \<open>q\<close> leads to.\<close>

definition capped :: "u8 \<Rightarrow> publish \<Rightarrow> publish" where
  "capped q m = (if q < pub_qos m then m\<lparr>pub_qos := q\<rparr> else m)"










text \<open>What a SUBSCRIBE does: the tree's operation, and the response to the worker.\<close>

definition sub_response :: "router_publish_subscribe \<Rightarrow> u8 \<Rightarrow> publish option \<Rightarrow> router_subscribe_response" where
  "sub_response sub q retained =
     \<lparr>rr_session = rs_session sub, rr_ret = q,
      rr_retained_messages = (if q = 0x80 then [] else case retained of None \<Rightarrow> [] | Some m \<Rightarrow> [capped q m])\<rparr>"

lemma retained_messages_eq:
  "get_retained_messages topic self = (case retained_of self (topic_levels topic) of None \<Rightarrow> [] | Some m \<Rightarrow> [m])"
  by (simp add: get_retained_messages_def retained_of_def info_of_def info_at_def split: option.splits)

lemma router_subscribe_eq:
  assumes "subscribe tp (rs_session sub) (rs_topic sub) (rs_qos sub) (tn_topics self) = (Inr q, topics)"
    and "re_response_send env (rs_response_tx sub)
      (sub_response sub q (retained_of topics (topic_levels (rs_topic sub)))) (tn_world self) = (sent, w)"
  shows "router_subscribe env tp sub self = (Inr (), self\<lparr>tn_topics := topics, tn_world := w,
    tn_response_log := tn_response_log self @
      (if sent then [(rs_response_tx sub, sub_response sub q (retained_of topics (topic_levels (rs_topic sub))))] else [])\<rparr>)"
proof -
  have r: "act_bind
        (if q = 0x80 then act_return (response\<lparr>rr_ret := 0x80\<rparr>)
         else
           act_bind (act_get (\<lambda>self. get_retained_messages (rs_topic sub) (tn_topics self))) (\<lambda>retained_messages.
           let retained_messages =
             map (\<lambda>cmsg. if q < pub_qos cmsg then cmsg\<lparr>pub_qos := q\<rparr> else cmsg) retained_messages
           in act_return (response\<lparr>rr_retained_messages := rr_retained_messages response @ retained_messages, rr_ret := q\<rparr>))) f s =
      f (sub_response sub q (retained_of (tn_topics s) (topic_levels (rs_topic sub)))) s"
    if "response = \<lparr>rr_session = rs_session sub, rr_ret = 0x80, rr_retained_messages = []\<rparr>" for response f s
    using that by (simp add: act_bind_app retained_messages_eq sub_response_def capped_def split: option.splits)
  show ?thesis
    unfolding router_subscribe_def Let_def [of "\<lparr>rr_session = rs_session sub, rr_ret = 0x80, rr_retained_messages = []\<rparr>"]
    using assms by (simp add: act_bind_app [of "on_topics _"] on_topics_def r act_bind_app [of "tenant_world _"] tenant_world_def)
qed

lemma router_subscribe_steps:
  assumes "router_subscribe env tp sub self = (Inr (), self')"
  obtains q topics where "subscribe tp (rs_session sub) (rs_topic sub) (rs_qos sub) (tn_topics self) = (Inr q, topics)"
    and "tn_topics self' = topics"
proof -
  obtain r topics where sub: "subscribe tp (rs_session sub) (rs_topic sub) (rs_qos sub) (tn_topics self) = (r, topics)" by force
  show thesis
  proof (cases r)
    case (Inl e)
    then have "on_topics (subscribe tp (rs_session sub) (rs_topic sub) (rs_qos sub)) self = (Inl e, self\<lparr>tn_topics := topics\<rparr>)"
      using sub by (simp add: on_topics_def)
    with assms show thesis by (simp add: router_subscribe_def Let_def act_bind_app [of "on_topics _"])
  next
    case (Inr q)
    obtain sent w where "re_response_send env (rs_response_tx sub)
      (sub_response sub q (retained_of topics (topic_levels (rs_topic sub)))) (tn_world self) = (sent, w)" by force
    from router_subscribe_eq [OF sub [unfolded Inr] this] assms that [OF sub [unfolded Inr]] show thesis by auto
  qed
qed

section \<open>Properties\<close>



text \<open>C25: A subscription is answered once, with the QoS that its entry in the tree now has and the
  retained message of the filter, if it has one, its QoS lowered to that; a new subscription
  gets the QoS it asks for, and no session is sent anything.\<close>

theorem subscribe_answered:
  assumes "\<And>ch r w. fst (re_response_send env ch r w)" and "router_subscribe env tp sub self = (Inr (), self')"
  shows "\<exists>q e. tn_response_log self' = tn_response_log self @
      [(rs_response_tx sub, sub_response sub q (retained_of (tn_topics self) (topic_levels (rs_topic sub))))] \<and>
    subs_of (tn_topics self') (topic_levels (rs_topic sub)) (sid_session (rs_session sub)) = Some e \<and> te_qos e = q \<and>
    (subs_of (tn_topics self) (topic_levels (rs_topic sub)) (sid_session (rs_session sub)) = None \<longrightarrow>
      q = rs_qos sub \<and> te_session e = rs_session sub) \<and>
    retained_of (tn_topics self') = retained_of (tn_topics self) \<and> tn_session_log self' = tn_session_log self"
proof -
  let ?p = "topic_levels (rs_topic sub)" and ?n = "sid_session (rs_session sub)"
  obtain q topics where sub: "subscribe tp (rs_session sub) (rs_topic sub) (rs_qos sub) (tn_topics self) = (Inr q, topics)"
    by (rule router_subscribe_steps [OF assms(2)])
  obtain sent w where w: "re_response_send env (rs_response_tx sub) (sub_response sub q (retained_of topics ?p)) (tn_world self) = (sent, w)"
    by force
  with assms(1) have sent by (metis fst_conv)
  from router_subscribe_eq [OF sub w] assms(2) this have self': "self' = self\<lparr>tn_topics := topics, tn_world := w,
      tn_response_log := tn_response_log self @ [(rs_response_tx sub, sub_response sub q (retained_of topics ?p))]\<rparr>" by simp
  show ?thesis
  proof (cases "subs_of (tn_topics self) ?p ?n")
    case None
    from subscribe_new [OF sub None] None show ?thesis by (simp add: self')
  next
    case (Some e)
    from subscribe_known [OF sub Some] Some show ?thesis by (auto simp: self' split: if_splits)
  qed
qed

text \<open>C14: Every request for a session is answered: with the channel of the session's live worker when
  the router runs, which is started again if it had stopped, and with nothing when it cannot be
  started. A running router stays.\<close>

theorem request_answered:
  assumes "tenant_reach env tp self" and "\<And>ch x w. fst (re_request_send env ch x w)"
  shows "\<exists>self' answer. handle_session_request env tp request self = (Inr (), self') \<and>
    tn_request_log self' = tn_request_log self @ [(sr_response_channel request, answer)] \<and>
    (answer = None \<longleftrightarrow> \<not> tn_router_running self') \<and>
    (\<forall>tx. answer = Some tx \<longrightarrow> get_session_tx (sr_session request) (tn_sessions self') = Some tx) \<and>
    (tn_router_running self \<longrightarrow> tn_router_running self')"
  using handle_session_request_ok [OF tenant_reach_ok [OF assms(1)], of env tp request] assms(2) by fastforce


section \<open>Witnesses\<close>

text \<open>A tenant over the storage that keeps nothing, whose channels take everything.\<close>

definition sample_router_env :: "unit router_env" where
  "sample_router_env = \<lparr>re_session_send = (\<lambda>_ _ w. (True, w)), re_response_send = (\<lambda>_ _ w. (True, w)),
     re_request_send = (\<lambda>_ _ w. (True, w))\<rparr>"

definition sample_tenant :: "(unit, unit) tenant" where
  "sample_tenant = snd (start_router persist_topic_test (tenant_new \<lparr>bi_tenant_id = None, bi_broker_id = []\<rparr> () ()))"

definition sample_sub :: router_publish_subscribe where
  "sample_sub = \<lparr>rs_session = sample_session, rs_topic = [0x61, 0x2f, 0x2b], rs_qos = 1, rs_response_tx = 7\<rparr>"

definition sample_request :: session_request where
  "sample_request = \<lparr>sr_response_channel = 9, sr_session = [0x73]\<rparr>"

lemma sample_reach: "tenant_reach sample_router_env persist_topic_test sample_tenant"
proof (rule tenant_reach.start)
  let ?run = "start_router persist_topic_test (tenant_new \<lparr>bi_tenant_id = None, bi_broker_id = []\<rparr> () ())"
  have "fst ?run = (Inr () :: broker_error failure + unit)" by code_simp
  then show "?run = (Inr (), sample_tenant)" by (simp add: sample_tenant_def prod_eq_iff)
qed



text \<open>The tenant after a request for the session and its subscription.\<close>

definition sample_requested :: "(unit, unit) tenant" where
  "sample_requested = snd (handle_session_request sample_router_env persist_topic_test sample_request sample_tenant)"

definition sample_subscribed :: "(unit, unit) tenant" where
  "sample_subscribed = snd (router_subscribe sample_router_env persist_topic_test sample_sub sample_requested)"

lemma sample_request_runs:
  "handle_session_request sample_router_env persist_topic_test sample_request sample_tenant = (Inr (), sample_requested)"
proof -
  have "fst (handle_session_request sample_router_env persist_topic_test sample_request sample_tenant) =
    (Inr () :: broker_error failure + unit)" by code_simp
  then show ?thesis by (simp add: sample_requested_def prod_eq_iff)
qed

lemma sample_subscribe_runs:
  "router_subscribe sample_router_env persist_topic_test sample_sub sample_requested = (Inr (), sample_subscribed)"
proof -
  have "fst (router_subscribe sample_router_env persist_topic_test sample_sub sample_requested) =
    (Inr () :: broker_error failure + unit)" by code_simp
  then show ?thesis by (simp add: sample_subscribed_def prod_eq_iff)
qed





lemma subscribe_answered_witness:
  "tn_response_log sample_subscribed = [(7, \<lparr>rr_session = sample_session, rr_ret = 1, rr_retained_messages = []\<rparr>)]"
proof -
  have n: "subs_of (tn_topics sample_requested) (topic_levels (rs_topic sample_sub)) (sid_session (rs_session sample_sub)) = None"
    "retained_of (tn_topics sample_requested) (topic_levels (rs_topic sample_sub)) = None"
    "tn_response_log sample_requested = []"
    by code_simp+
  have "\<And>ch r w. fst (re_response_send sample_router_env ch r w)" by (simp add: sample_router_env_def)
  from subscribe_answered [OF this sample_subscribe_runs] n show ?thesis
    by (auto simp: sub_response_def sample_sub_def)
qed

lemma request_answered_witness:
  "\<exists>tx. tn_request_log sample_requested = [(9, Some tx)] \<and> get_session_tx [0x73] (tn_sessions sample_requested) = Some tx"
proof -
  have "\<And>ch r w. fst (re_request_send sample_router_env ch r w)" by (simp add: sample_router_env_def)
  moreover have "tn_request_log sample_tenant = []" "tn_router_running sample_tenant" by code_simp+
  ultimately show ?thesis
    using request_answered [OF sample_reach, of sample_request] sample_request_runs
    by (fastforce simp: sample_request_def)
qed


end
