(* ===== verification/Sql_Tenant.thy ===== *)
theory Sql_Tenant
  imports Sql_Shared Sql_Props Router_Props
begin

text \<open>
  A whole tenant over one database: the broker task creates the schema and starts the router, sessions
  are opened and handle messages, the router handles what they send, and whatever has happened, router and
  sessions can be started again and go on where they were.
\<close>

section \<open>The schema\<close>



lemma foreign_keys_tables [simp]: "foreign_keys_ok (db\<lparr>db_tables := ts\<rparr>) = foreign_keys_ok db" "foreign_keys_ok (db\<lparr>db_version := vs\<rparr>) = foreign_keys_ok db"
  by (simp_all add: foreign_keys_owned owned_def)








section \<open>The router over the common database\<close>




text \<open>The tree in order and in step with the tables, whose sessions are those of \<open>db\<close>.\<close>

definition tree_inv :: "('w \<Rightarrow> int) \<Rightarrow> database \<Rightarrow> 'w sql_store subscriptions \<Rightarrow> bool" where
  "tree_inv now db tree \<longleftrightarrow> tree_stored (shared_ok now db) topic_sql_view sessions_sql_known (info_of tree) (sb_persist tree) \<and>
     tree_ok tree \<and> guages_ok tree"

abbreviation "any_error \<equiv> \<lambda>_ _. True"



definition router_inv :: "('w \<Rightarrow> int) \<Rightarrow> database \<Rightarrow> ('w sql_store, 'r) tenant \<Rightarrow> bool" where
  "router_inv now db t \<longleftrightarrow> tree_inv now db (tn_topics t)"


lemma router_inv_updates [simp]:
  "router_inv now db (t\<lparr>tn_world := w\<rparr>) = router_inv now db t"
  "router_inv now db (t\<lparr>tn_session_log := sl\<rparr>) = router_inv now db t"
  "router_inv now db (t\<lparr>tn_response_log := rl\<rparr>) = router_inv now db t"
  "router_inv now db (t\<lparr>tn_sessions := sns\<rparr>) = router_inv now db t"
  by (simp_all add: router_inv_def)







section \<open>The life of a tenant\<close>















lemma continues_persist [simp]: "continues (s\<lparr>ss_persist := p\<rparr>) s' = continues s s'"
  by (simp add: continues_def)


text \<open>A broker that has just created its database, one session, a subscription and a queued message.\<close>

abbreviation "sample_sql_persist \<equiv> session_persist_sql sample_sql_env"
abbreviation "sample_new_tenant \<equiv> tenant_new \<lparr>bi_tenant_id = None, bi_broker_id = []\<rparr>"









end
