(* ===== verification/Server_Config.thy ===== *)
theory Server_Config
  imports Rust_Utf8
begin

text \<open>
  \<open>src/config/mod.rs\<close>: the configuration, the process's readiness and the reading of secrets,
  and what \<open>src/broker/persist.rs\<close> and \<open>src/sessions/persist.rs\<close> choose by the configuration.
  The file system, YAML, HTTP and JSON are parameters. The health and metrics endpoints of
  \<open>src/metrics/mod.rs\<close> are here too.
\<close>

section \<open>The configuration\<close>

record users_config =
  uc_username :: rstring
  uc_password :: rstring
  uc_tenant :: "rstring option"

record listener_config =
  lc_port :: u16
  lc_websocket :: bool
  lc_tlscrt :: "rstring option"
  lc_tlskey :: "rstring option"

record system_config =
  sc_mqtt_database_host :: rstring
  sc_mqtt_database_db :: rstring
  sc_mqtt_database_username :: rstring
  sc_mqtt_database_password :: rstring
  sc_logging_remote :: bool
  sc_logging_endpoint :: rstring
  sc_auth_method :: rstring
  sc_password_file :: rstring
  sc_persist_method :: rstring
  sc_persist_data_store :: rstring
  sc_max_packet_size_unauthenticated :: nat
  sc_max_packet_size :: nat
  sc_connect_timeout :: nat
  sc_listeners :: "listener_config list"
  sc_users :: "users_config list"

text \<open>\<open>SystemConfig::default()\<close>, the value before a file is loaded.\<close>

definition system_config_default :: system_config where
  "system_config_default =
     \<lparr>sc_mqtt_database_host = [], sc_mqtt_database_db = [], sc_mqtt_database_username = [], sc_mqtt_database_password = [],
      sc_logging_remote = False, sc_logging_endpoint = [], sc_auth_method = [], sc_password_file = [],
      sc_persist_method = [], sc_persist_data_store = [], sc_max_packet_size_unauthenticated = 0,
      sc_max_packet_size = 0, sc_connect_timeout = 0, sc_listeners = [], sc_users = []\<rparr>"

definition default_resource :: rstring where
  "default_resource = []"

definition default_bool_false :: bool where
  "default_bool_false = False"

definition default_max_packet_size_unauthenticated :: nat where
  "default_max_packet_size_unauthenticated = 65536"

definition default_max_packet_size :: nat where
  "default_max_packet_size = 1048576"

definition default_connect_timeout :: nat where
  "default_connect_timeout = 10"

text \<open>The fields a YAML document has, and the configuration that is read from it: a missing field
  takes its default or, where it has none, is an error.\<close>

record listener_document =
  ld_port :: "u16 option"
  ld_websocket :: "bool option"
  ld_tlscrt :: "rstring option"
  ld_tlskey :: "rstring option"

record config_document =
  cd_mqtt_database_host :: "rstring option"
  cd_mqtt_database_db :: "rstring option"
  cd_mqtt_database_username :: "rstring option"
  cd_mqtt_database_password :: "rstring option"
  cd_logging_remote :: "bool option"
  cd_logging_endpoint :: "rstring option"
  cd_auth_method :: "rstring option"
  cd_password_file :: "rstring option"
  cd_persist_method :: "rstring option"
  cd_persist_data_store :: "rstring option"
  cd_max_packet_size_unauthenticated :: "nat option"
  cd_max_packet_size :: "nat option"
  cd_connect_timeout :: "nat option"
  cd_listeners :: "listener_document list option"
  cd_users :: "users_config list option"

definition or_default :: "'a option \<Rightarrow> 'a \<Rightarrow> 'a" where
  "or_default v d = (case v of Some a \<Rightarrow> a | None \<Rightarrow> d)"

definition required :: "'a option \<Rightarrow> string + 'a" where
  "required v = (case v of Some a \<Rightarrow> Inr a | None \<Rightarrow> Inl ''missing field'')"

definition read_listener :: "listener_document \<Rightarrow> string + listener_config" where
  "read_listener d =
     ebind (required (ld_port d)) (\<lambda>port.
     Inr \<lparr>lc_port = port, lc_websocket = or_default (ld_websocket d) default_bool_false,
          lc_tlscrt = ld_tlscrt d, lc_tlskey = ld_tlskey d\<rparr>)"

fun read_listeners :: "listener_document list \<Rightarrow> string + listener_config list" where
  "read_listeners [] = Inr []"
| "read_listeners (d # ds) = ebind (read_listener d) (\<lambda>l. ebind (read_listeners ds) (\<lambda>ls. Inr (l # ls)))"

definition read_config :: "config_document \<Rightarrow> string + system_config" where
  "read_config d =
     ebind (required (cd_auth_method d)) (\<lambda>auth_method.
     ebind (required (cd_persist_method d)) (\<lambda>persist_method.
     ebind (required (cd_listeners d)) (\<lambda>listeners.
     ebind (read_listeners listeners) (\<lambda>listeners.
     ebind (required (cd_users d)) (\<lambda>users.
     Inr \<lparr>sc_mqtt_database_host = or_default (cd_mqtt_database_host d) default_resource,
          sc_mqtt_database_db = or_default (cd_mqtt_database_db d) default_resource,
          sc_mqtt_database_username = or_default (cd_mqtt_database_username d) default_resource,
          sc_mqtt_database_password = or_default (cd_mqtt_database_password d) default_resource,
          sc_logging_remote = or_default (cd_logging_remote d) default_bool_false,
          sc_logging_endpoint = or_default (cd_logging_endpoint d) default_resource,
          sc_auth_method = auth_method,
          sc_password_file = or_default (cd_password_file d) default_resource,
          sc_persist_method = persist_method,
          sc_persist_data_store = or_default (cd_persist_data_store d) default_resource,
          sc_max_packet_size_unauthenticated = or_default (cd_max_packet_size_unauthenticated d) default_max_packet_size_unauthenticated,
          sc_max_packet_size = or_default (cd_max_packet_size d) default_max_packet_size,
          sc_connect_timeout = or_default (cd_connect_timeout d) default_connect_timeout,
          sc_listeners = listeners,
          sc_users = users\<rparr>)))))"

section \<open>The global state\<close>

record global_state =
  gc_uuid :: rstring
  gc_hostname :: rstring
  gc_config :: system_config
  gs_livez :: bool
  gs_readyz :: bool

text \<open>\<open>GlobalConfig::new\<close> and \<open>GlobalState::new\<close>, with the random name and the host's name given.\<close>

definition global_new :: "rstring \<Rightarrow> rstring \<Rightarrow> global_state" where
  "global_new uuid hostname =
     \<lparr>gc_uuid = uuid, gc_hostname = hostname, gc_config = system_config_default, gs_livez = False, gs_readyz = False\<rparr>"

text \<open>\<open>open\<close> opens a file and reads it as YAML, or fails.\<close>

definition load_config :: "(rstring \<Rightarrow> string + config_document) \<Rightarrow> rstring \<Rightarrow> global_state \<Rightarrow> (string + unit) \<times> global_state" where
  "load_config open file g =
     (case ebind (open file) read_config of
        Inl e \<Rightarrow> (Inl e, g)
      | Inr d \<Rightarrow> (Inr (), g\<lparr>gc_config := d\<rparr>))"

definition get_listeners :: "global_state \<Rightarrow> listener_config list" where
  "get_listeners g = sc_listeners (gc_config g)"

definition get_users :: "global_state \<Rightarrow> users_config list" where
  "get_users g = sc_users (gc_config g)"

definition get_string :: "string \<Rightarrow> global_state \<Rightarrow> rstring option" where
  "get_string key g =
     (let c = gc_config g in
      if key = ''auth_method'' then Some (sc_auth_method c)
      else if key = ''persist_method'' then Some (sc_persist_method c)
      else if key = ''logging_endpoint'' then Some (sc_logging_endpoint c)
      else if key = ''mqtt_database_host'' then Some (sc_mqtt_database_host c)
      else if key = ''mqtt_database_db'' then Some (sc_mqtt_database_db c)
      else if key = ''mqtt_database_username'' then Some (sc_mqtt_database_username c)
      else if key = ''mqtt_database_password'' then Some (sc_mqtt_database_password c)
      else if key = ''password_file'' then Some (sc_password_file c)
      else if key = ''persist_data_store'' then Some (sc_persist_data_store c)
      else None)"

definition get_bool :: "string \<Rightarrow> global_state \<Rightarrow> bool option" where
  "get_bool key g =
     (if key = ''logging_remote'' then Some (sc_logging_remote (gc_config g))
      else if key = ''enable_validation'' \<or> key = ''enable_policy'' then Some False
      else None)"

definition get_max_packet_size_unauthenticated :: "global_state \<Rightarrow> nat" where
  "get_max_packet_size_unauthenticated g = sc_max_packet_size_unauthenticated (gc_config g)"

definition get_max_packet_size :: "global_state \<Rightarrow> nat" where
  "get_max_packet_size g = sc_max_packet_size (gc_config g)"

definition get_connect_timeout :: "global_state \<Rightarrow> nat" where
  "get_connect_timeout g = sc_connect_timeout (gc_config g)"

definition get_livez :: "global_state \<Rightarrow> bool" where
  "get_livez g = gs_livez g"

definition get_readyz :: "global_state \<Rightarrow> bool" where
  "get_readyz g = gs_readyz g"

definition set_readyz :: "global_state \<Rightarrow> global_state" where
  "set_readyz g = g\<lparr>gs_livez := True, gs_readyz := True\<rparr>"

section \<open>Secrets\<close>

text \<open>Prefixes, suffixes and quotes of strings.\<close>

definition strip_prefix :: "rstring \<Rightarrow> rstring \<Rightarrow> rstring option" where
  "strip_prefix p s = (if take (length p) s = p then Some (drop (length p) s) else None)"

definition strip_suffix :: "rstring \<Rightarrow> rstring \<Rightarrow> rstring option" where
  "strip_suffix p s = map_option rev (strip_prefix (rev p) (rev s))"

definition trim_matches :: "u8 \<Rightarrow> rstring \<Rightarrow> rstring" where
  "trim_matches c s = rev (dropWhile (\<lambda>b. b = c) (rev (dropWhile (\<lambda>b. b = c) s)))"

text \<open>The environment's variables, the two requests (nothing when the request or its JSON body
  fails), the members of a JSON value and its text.\<close>

record ('j, 'w) vault_env =
  ve_var :: "string \<Rightarrow> rstring option"
  ve_post :: "rstring \<Rightarrow> rstring \<Rightarrow> 'w \<Rightarrow> 'j option \<times> 'w"
  ve_get :: "rstring \<Rightarrow> rstring \<Rightarrow> 'w \<Rightarrow> 'j option \<times> 'w"
  ve_member :: "rstring \<Rightarrow> 'j \<Rightarrow> 'j option"
  ve_text :: "'j \<Rightarrow> rstring"

type_synonym ('w, 'a) vault_act = "('w, rstring, 'a) act"

definition vault_request :: "('w \<Rightarrow> 'a \<times> 'w) \<Rightarrow> ('w, 'a) vault_act" where
  "vault_request f w = (case f w of (a, w) \<Rightarrow> (Inr a, w))"

definition vault_login :: "('j, 'w) vault_env \<Rightarrow> rstring \<Rightarrow> rstring \<Rightarrow> ('w, rstring) vault_act" where
  "vault_login env vault_addr vault_roleid =
     (let body = ascii ''{\"role_id\":\"'' @ vault_roleid @ ascii ''\"}'';
          request_url = vault_addr @ ascii ''/v1/auth/approle/login'' in
      act_bind (vault_request (ve_post env request_url body)) (\<lambda>response.
      case Option.bind response (\<lambda>v. Option.bind (ve_member env (ascii ''auth'') v) (ve_member env (ascii ''client_token''))) of
        Some client_token \<Rightarrow> act_return (ve_text env client_token)
      | None \<Rightarrow> act_fail (Failed (ascii ''Error logging into vault''))))"

definition vault_get_kv :: "('j, 'w) vault_env \<Rightarrow> rstring \<Rightarrow> rstring \<Rightarrow> rstring \<Rightarrow> rstring \<Rightarrow> ('w, rstring) vault_act" where
  "vault_get_kv env vault_addr vault_token secret key =
     (let request_url = vault_addr @ ascii ''/v1/secret/data/'' @ secret in
      act_bind (vault_request (ve_get env request_url vault_token)) (\<lambda>response.
      case Option.bind response (\<lambda>v. Option.bind (ve_member env (ascii ''data'') v) (\<lambda>response.
             Option.bind (ve_member env (ascii ''data'') response) (ve_member env key))) of
        Some value \<Rightarrow>
          act_bind (act_unwrap (strip_prefix [0x22] (ve_text env value))) (\<lambda>unqoute.
          act_unwrap (strip_suffix [0x22] unqoute))
      | None \<Rightarrow> act_fail (Failed (ascii ''Error fetching secret '' @ secret @ ascii '' key '' @ key))))"

definition get_secret :: "('j, 'w) vault_env \<Rightarrow> rstring \<Rightarrow> ('w, rstring) vault_act" where
  "get_secret env secret =
     (case ve_var env ''VAULT_ADDR'' of
        None \<Rightarrow> act_fail (Failed (ascii ''VAULT_ADDR not set''))
      | Some vault_addr \<Rightarrow>
          (case ve_var env ''VAULT_ROLEID'' of
             None \<Rightarrow> act_fail (Failed (ascii ''VAULT_ROLEID not set''))
           | Some vault_roleid \<Rightarrow>
               act_bind (act_try (vault_login env vault_addr vault_roleid)) (\<lambda>login.
               case login of
                 Inl _ \<Rightarrow> act_fail (Failed (ascii ''Error logging into vault''))
               | Inr token \<Rightarrow>
                   let token = trim_matches 0x22 token;
                       items = split_at 0x2F secret;
                       key = last items;
                       path = join_with 0x2F (butlast items) in
                   vault_get_kv env vault_addr token path key)))"

text \<open>The loop over the values of a map, in the order of its keys.\<close>

fun load_secrets :: "('j, 'w) vault_env \<Rightarrow> (rstring \<times> rstring) list \<Rightarrow> 'w \<Rightarrow> (rstring failure + unit) \<times> (rstring \<times> rstring) list \<times> 'w" where
  "load_secrets env [] w = (Inr (), [], w)"
| "load_secrets env ((k, value) # settings) w =
     (case strip_prefix (ascii ''secret:'') value of
        None \<Rightarrow> (case load_secrets env settings w of (r, settings, w) \<Rightarrow> (r, (k, value) # settings, w))
      | Some secret \<Rightarrow>
          (case get_secret env secret w of
             (Inr secret_value, w) \<Rightarrow>
               (case load_secrets env settings w of (r, settings, w) \<Rightarrow> (r, (k, secret_value) # settings, w))
           | (Inl e, w) \<Rightarrow> (Inl e, (k, value) # settings, w)))"

section \<open>The storage\<close>

text \<open>Which provider is made; the one over SQL needs a pool.\<close>

datatype 'pool persist_choice = Choose_Sql 'pool | Choose_Test

definition get_persist_provider :: "global_state \<Rightarrow> 'pool option \<Rightarrow> unit failure + 'pool persist_choice" where
  "get_persist_provider g database_pool =
     (case get_string ''persist_method'' g of
        None \<Rightarrow> Inl Panicked
      | Some persist_method \<Rightarrow>
          if persist_method = ascii ''test'' then Inr Choose_Test
          else case database_pool of Some pool \<Rightarrow> Inr (Choose_Sql pool) | None \<Rightarrow> Inl Panicked)"

definition get_session_persist_provider :: "global_state \<Rightarrow> 'pool option \<Rightarrow> unit failure + 'pool persist_choice" where
  "get_session_persist_provider g database_pool =
     (case get_string ''persist_method'' g of
        None \<Rightarrow> Inl Panicked
      | Some persist_method \<Rightarrow>
          if persist_method = ascii ''test'' then Inr Choose_Test
          else case database_pool of Some pool \<Rightarrow> Inr (Choose_Sql pool) | None \<Rightarrow> Inl Panicked)"

text \<open>\<open>Path::join\<close>: an absolute path replaces what it is joined to.\<close>

definition path_join :: "rstring \<Rightarrow> rstring \<Rightarrow> rstring" where
  "path_join path p =
     (if p \<noteq> [] \<and> hd p = 0x2F then p
      else if path = [] \<or> last path = 0x2F then path @ p
      else path @ 0x2F # p)"

text \<open>The pool over the database file of a tenant: \<open>create_dir_all\<close> makes its directory and
  \<open>create_pool\<close> the pool, and the failure of one of them is a panic.\<close>

definition persist_dir :: "rstring \<Rightarrow> rstring option \<Rightarrow> rstring" where
  "persist_dir path tenant =
     (case tenant of
        Some tenant_id \<Rightarrow> path_join (path_join path (ascii ''tenants'')) tenant_id
      | None \<Rightarrow> path_join path (ascii ''none''))"

definition get_persist_pool :: "(rstring \<Rightarrow> 'w \<Rightarrow> bool \<times> 'w) \<Rightarrow> (rstring \<Rightarrow> 'w \<Rightarrow> 'pool option \<times> 'w) \<Rightarrow> global_state \<Rightarrow>
    rstring option \<Rightarrow> ('w, unit, 'pool) act" where
  "get_persist_pool create_dir_all create_pool g tenant =
     act_bind (act_unwrap (get_string ''persist_data_store'' g)) (\<lambda>persist_path.
     let path = persist_dir persist_path tenant in
     act_bind (\<lambda>w. case create_dir_all path w of (made, w) \<Rightarrow> (Inr made, w)) (\<lambda>made.
     if \<not> made then act_fail Panicked
     else
       let path = path_join path (ascii ''database.sqlite3'') in
       act_bind (\<lambda>w. case create_pool path w of (pool, w) \<Rightarrow> (Inr pool, w)) act_unwrap))"

text \<open>A tenant whose name is an absolute path leaves the data directory.\<close>

lemma absolute_tenant_escapes:
  "persist_dir path (Some (0x2F # tenant)) = 0x2F # tenant"
  by (simp add: persist_dir_def path_join_def)

section \<open>Health and metrics\<close>

text \<open>\<open>src/metrics/mod.rs\<close>: the responses by the path; \<open>gathered\<close> is what the encoder writes of the
  metrics.\<close>

record http_response =
  hr_status :: nat
  hr_body :: rstring

definition metrics_handler :: "rstring \<Rightarrow> http_response" where
  "metrics_handler gathered = \<lparr>hr_status = 200, hr_body = gathered\<rparr>"

definition livez_handler :: "global_state \<Rightarrow> http_response" where
  "livez_handler g = \<lparr>hr_status = (if get_livez g then 200 else 500), hr_body = ascii ''livez''\<rparr>"

definition readyz_handler :: "global_state \<Rightarrow> http_response" where
  "readyz_handler g = \<lparr>hr_status = (if get_readyz g then 200 else 500), hr_body = ascii ''readyz''\<rparr>"

definition not_found_handler :: http_response where
  "not_found_handler = \<lparr>hr_status = 404, hr_body = ascii ''NOT FOUND''\<rparr>"

definition http_route :: "rstring \<Rightarrow> global_state \<Rightarrow> rstring \<Rightarrow> http_response" where
  "http_route gathered g uri =
     (if uri = ascii ''/metrics'' then metrics_handler gathered
      else if uri = ascii ''/livez'' then livez_handler g
      else if uri = ascii ''/healthz'' then livez_handler g
      else if uri = ascii ''/readyz'' then readyz_handler g
      else not_found_handler)"

end
