(* ===== verification/Client_Worker.thy ===== *)
theory Client_Worker
  imports Server_Config Sess_Registry
begin

text \<open>
  \<open>src/client/mod.rs\<close> and \<open>src/client/clientworker.rs\<close>: the connection of a client and the task
  that passes messages between it and the session. What it sends is logged in its record. The
  channels, the framed stream and the \<open>DelayQueue\<close> are an environment.
\<close>

section \<open>Clients\<close>

record will_message =
  wm_topic :: rstring
  wm_qos :: u8
  wm_retain :: bool
  wm_message :: "u8 list"

definition will_message_new :: "rstring \<Rightarrow> u8 list \<Rightarrow> u8 \<Rightarrow> bool \<Rightarrow> will_message" where
  "will_message_new topic message qos retain =
     \<lparr>wm_topic = topic, wm_qos = qos, wm_retain = retain, wm_message = message\<rparr>"

text \<open>A framed stream: its codec and the messages written to it.\<close>

record framed =
  fr_codec :: mqtt_codec
  fr_sent :: "mqtt_message list"

definition framed_new :: "mqtt_codec \<Rightarrow> framed" where
  "framed_new codec = \<lparr>fr_codec = codec, fr_sent = []\<rparr>"

record client =
  cl_broker_id :: broker_id
  cl_id :: rstring
  cl_src_address :: rstring
  cl_stream :: framed
  cl_keep_alive :: u16
  cl_will :: "will_message option"

definition client_new :: "framed \<Rightarrow> rstring \<Rightarrow> broker_id \<Rightarrow> rstring \<Rightarrow> u16 \<Rightarrow> will_message option \<Rightarrow> client" where
  "client_new stream src_address broker_id client_id keep_alive will =
     \<lparr>cl_broker_id = broker_id, cl_id = client_id, cl_src_address = src_address, cl_stream = stream,
      cl_keep_alive = keep_alive, cl_will = will\<rparr>"

definition has_will :: "client \<Rightarrow> bool" where
  "has_will self \<longleftrightarrow> cl_will self \<noteq> None"

section \<open>State and environment\<close>

datatype connection_status = Connected | Disconnecting

datatype client_timers = KeepAlive

datatype client_result = Finished

record settings =
  st_validation :: bool
  st_policy :: bool

text \<open>
  What the worker uses of \<open>DelayQueue\<close>, at a time in milliseconds: \<open>insert\<close> returns a key, an
  unknown key is a panic of \<open>reset\<close> and \<open>remove\<close>, and \<open>next\<close> is ready with an expired value,
  ready with nothing, or pending.
\<close>

type_synonym timer_key = nat

record 'q delay_queue =
  dq_new :: 'q
  dq_insert :: "nat \<Rightarrow> client_timers \<Rightarrow> nat \<Rightarrow> 'q \<Rightarrow> timer_key \<times> 'q"
  dq_reset :: "nat \<Rightarrow> timer_key \<Rightarrow> nat \<Rightarrow> 'q \<Rightarrow> 'q option"
  dq_remove :: "timer_key \<Rightarrow> 'q \<Rightarrow> 'q option"
  dq_is_empty :: "'q \<Rightarrow> bool"
  dq_next :: "nat \<Rightarrow> 'q \<Rightarrow> client_timers option option \<times> 'q"

text \<open>Sending over the stream and to the session: the error, if it fails.\<close>

record ('q, 'w) client_env = "'q delay_queue" +
  ce_stream_send :: "mqtt_message \<Rightarrow> 'w \<Rightarrow> string option \<times> 'w"
  ce_session_send :: "session_tx \<Rightarrow> session_message \<Rightarrow> 'w \<Rightarrow> string option \<times> 'w"

record ('q, 'w) client_worker =
  cw_id :: rstring
  cw_client_tx :: client_tx
  cw_session_tx :: session_tx
  cw_client :: client
  cw_status :: connection_status
  cw_timers :: 'q
  cw_timer_keys :: "(client_timers, nat \<times> timer_key) hmap"
  cw_settings :: settings
  cw_session_log :: "(session_tx \<times> session_message) list"
  cw_world :: 'w

text \<open>\<open>new\<close> makes the channel the session sends to, here given.\<close>

definition client_worker_new :: "('q, 'w) client_env \<Rightarrow> client \<Rightarrow> session_tx \<Rightarrow> client_tx \<Rightarrow> 'w \<Rightarrow> ('q, 'w) client_worker" where
  "client_worker_new env client session_tx client_tx w =
     \<lparr>cw_id = cl_id client, cw_client_tx = client_tx, cw_session_tx = session_tx, cw_client = client, cw_status = Connected,
      cw_timers = dq_new env, cw_timer_keys = [], cw_settings = \<lparr>st_validation = False, st_policy = False\<rparr>,
      cw_session_log = [], cw_world = w\<rparr>"

definition client_get_tx :: "('q, 'w) client_worker \<Rightarrow> client_tx" where
  "client_get_tx self = cw_client_tx self"

type_synonym ('q, 'w, 'a) client_act = "(('q, 'w) client_worker, string, 'a) act"

definition load_settings :: "global_state \<Rightarrow> ('q, 'w, unit) client_act" where
  "load_settings g =
     act_bind (act_modify (\<lambda>self. self\<lparr>cw_settings := (cw_settings self)\<lparr>st_validation := or_default (get_bool ''enable_validation'' g) False\<rparr>\<rparr>)) (\<lambda>_.
     act_modify (\<lambda>self. self\<lparr>cw_settings := (cw_settings self)\<lparr>st_policy := or_default (get_bool ''enable_policy'' g) False\<rparr>\<rparr>))"

section \<open>Sending\<close>

definition client_stream_send :: "('q, 'w) client_env \<Rightarrow> mqtt_message \<Rightarrow> ('q, 'w, unit) client_act" where
  "client_stream_send env message self =
     (case ce_stream_send env message (cw_world self) of
        (Some e, w) \<Rightarrow> (Inl (Failed (''Unable to send to client: '' @ e)), self\<lparr>cw_world := w\<rparr>)
      | (None, w) \<Rightarrow>
          let client = cw_client self; stream = cl_stream client in
          (Inr (), self\<lparr>cw_client := client\<lparr>cl_stream := stream\<lparr>fr_sent := fr_sent stream @ [message]\<rparr>\<rparr>, cw_world := w\<rparr>))"

definition send_message_session :: "('q, 'w) client_env \<Rightarrow> mqtt_message \<Rightarrow> ('q, 'w, unit) client_act" where
  "send_message_session env message self =
     (case ce_session_send env (cw_session_tx self) (Client_Message message) (cw_world self) of
        (Some e, w) \<Rightarrow> (Inl (Failed (''Unable to send to session: '' @ e)), self\<lparr>cw_world := w\<rparr>)
      | (None, w) \<Rightarrow>
          (Inr (), self\<lparr>cw_session_log := cw_session_log self @ [(cw_session_tx self, Client_Message message)], cw_world := w\<rparr>))"

section \<open>Timers\<close>

definition add_timer :: "('q, 'w) client_env \<Rightarrow> nat \<Rightarrow> client_timers \<Rightarrow> nat \<Rightarrow> ('q, 'w, unit) client_act" where
  "add_timer env now key ms =
     act_modify (\<lambda>self. case dq_insert env now key ms (cw_timers self) of
       (delay, q) \<Rightarrow> self\<lparr>cw_timers := q, cw_timer_keys := hm_insert key (ms, delay) (cw_timer_keys self)\<rparr>)"

definition reset_timer :: "('q, 'w) client_env \<Rightarrow> nat \<Rightarrow> client_timers \<Rightarrow> ('q, 'w, unit) client_act" where
  "reset_timer env now key =
     act_bind (act_get (\<lambda>self. map_of (cw_timer_keys self) key)) (\<lambda>entry.
     case entry of
       Some (ms, cache_key) \<Rightarrow>
         act_bind (act_get (\<lambda>self. dq_reset env now cache_key ms (cw_timers self))) (\<lambda>timers.
         act_bind (act_unwrap timers) (\<lambda>q. act_modify (\<lambda>self. self\<lparr>cw_timers := q\<rparr>)))
     | None \<Rightarrow> act_return ())"

definition remove_timer :: "('q, 'w) client_env \<Rightarrow> client_timers \<Rightarrow> ('q, 'w, unit) client_act" where
  "remove_timer env key =
     act_bind (act_get (\<lambda>self. map_of (cw_timer_keys self) key)) (\<lambda>entry.
     case entry of
       Some (ms, cache_key) \<Rightarrow>
         act_bind (act_get (\<lambda>self. dq_remove env cache_key (cw_timers self))) (\<lambda>timers.
         act_bind (act_unwrap timers) (\<lambda>q.
         act_modify (\<lambda>self. self\<lparr>cw_timers := q, cw_timer_keys := hm_remove key (cw_timer_keys self)\<rparr>)))
     | None \<Rightarrow> act_return ())"

definition reset_keepalive :: "('q, 'w) client_env \<Rightarrow> nat \<Rightarrow> ('q, 'w, unit) client_act" where
  "reset_keepalive env now =
     act_bind (act_get (\<lambda>self. 0 < cl_keep_alive (cw_client self))) (\<lambda>b.
     if b then reset_timer env now KeepAlive else act_return ())"

definition set_keepalive_timer :: "('q, 'w) client_env \<Rightarrow> nat \<Rightarrow> ('q, 'w, unit) client_act" where
  "set_keepalive_timer env now =
     act_bind (act_get (\<lambda>self. unat (cl_keep_alive (cw_client self)))) (\<lambda>ka.
     if 0 < ka then
       let ka = (ka + drop_bit 2 ka) * 1000 in add_timer env now KeepAlive ka
     else act_return ())"

definition timer_fired :: "client_timers \<Rightarrow> string + client_result" where
  "timer_fired key = (case key of KeepAlive \<Rightarrow> Inr Finished)"

definition timer_event :: "client_timers \<Rightarrow> ('q, 'w, unit) client_act" where
  "timer_event timer =
     act_bind (act_modify (\<lambda>self. self\<lparr>cw_timer_keys := hm_remove timer (cw_timer_keys self)\<rparr>)) (\<lambda>_.
     case timer_fired timer of
       Inr Finished \<Rightarrow> act_fail (Failed ''Client Timeout'')
     | Inl _ \<Rightarrow> act_fail (Failed ''Client Timer Error''))"

section \<open>Messages of the client\<close>

text \<open>\<open>publish_message\<close>, \<open>puback_message\<close> and the others, which differ in what they log.\<close>

definition forward_to_session :: "('q, 'w) client_env \<Rightarrow> nat \<Rightarrow> mqtt_message \<Rightarrow> ('q, 'w, unit) client_act" where
  "forward_to_session env now message =
     act_bind (reset_keepalive env now) (\<lambda>_. send_message_session env message)"

definition ping_request_message :: "('q, 'w) client_env \<Rightarrow> nat \<Rightarrow> ('q, 'w, unit) client_act" where
  "ping_request_message env now =
     act_bind (reset_keepalive env now) (\<lambda>_. client_stream_send env PingResp)"

definition disconnect_message :: "('q, 'w) client_env \<Rightarrow> ('q, 'w, unit) client_act" where
  "disconnect_message env =
     act_bind (remove_timer env KeepAlive) (\<lambda>_. act_modify (\<lambda>self. self\<lparr>cw_status := Disconnecting\<rparr>))"

definition client_recv_event :: "('q, 'w) client_env \<Rightarrow> nat \<Rightarrow> mqtt_message \<Rightarrow> ('q, 'w, unit) client_act" where
  "client_recv_event env now message =
     (case message of
        Publish msg \<Rightarrow> forward_to_session env now (Publish msg)
      | PubAck msg \<Rightarrow> forward_to_session env now (PubAck msg)
      | PubRec msg \<Rightarrow> forward_to_session env now (PubRec msg)
      | PubRel msg \<Rightarrow> forward_to_session env now (PubRel msg)
      | PubComp msg \<Rightarrow> forward_to_session env now (PubComp msg)
      | Subscribe msg \<Rightarrow> forward_to_session env now (Subscribe msg)
      | Unsubscribe msg \<Rightarrow> forward_to_session env now (Unsubscribe msg)
      | PingReq \<Rightarrow> ping_request_message env now
      | Disconnect \<Rightarrow>
          act_bind (act_try (disconnect_message env)) (\<lambda>_. act_fail (Failed ''Client Disconnect''))
      | _ \<Rightarrow> act_fail (Failed ''Unknown message from client recevied''))"

text \<open>Messages of the session.\<close>

definition client_rx_recv_event :: "('q, 'w) client_env \<Rightarrow> mqtt_message \<Rightarrow> ('q, 'w, unit) client_act" where
  "client_rx_recv_event env message =
     (case message of
        ConnAck msg \<Rightarrow>
          act_bind (if cack_return_code msg \<noteq> Accepted then act_modify (\<lambda>self. self\<lparr>cw_status := Disconnecting\<rparr>) else act_return ()) (\<lambda>_.
          client_stream_send env (ConnAck msg))
      | Publish msg \<Rightarrow> client_stream_send env (Publish msg)
      | PubAck msg \<Rightarrow> client_stream_send env (PubAck msg)
      | PubRec msg \<Rightarrow> client_stream_send env (PubRec msg)
      | PubRel msg \<Rightarrow> client_stream_send env (PubRel msg)
      | PubComp msg \<Rightarrow> client_stream_send env (PubComp msg)
      | SubAck msg \<Rightarrow> client_stream_send env (SubAck msg)
      | UnsubAck msg \<Rightarrow> client_stream_send env (UnsubAck msg)
      | Disconnect \<Rightarrow> act_fail (Failed ''Session Disconnect'')
      | _ \<Rightarrow> act_fail (Failed ''Unknown msg over internal channel''))"

definition send_will :: "('q, 'w) client_env \<Rightarrow> ('q, 'w, unit) client_act" where
  "send_will env =
     act_bind (act_get (\<lambda>self. cl_will (cw_client self))) (\<lambda>will.
     let willmsg = map_option (\<lambda>will. publish_new\<lparr>pub_topic := wm_topic will, pub_message := wm_message will,
           pub_retain := wm_retain will, pub_qos := wm_qos will\<rparr>) will
     in case willmsg of
          Some msg \<Rightarrow> act_bind (act_try (send_message_session env (Publish msg))) (\<lambda>_. act_return ())
        | None \<Rightarrow> act_return ())"

section \<open>The loop\<close>

text \<open>What \<open>select!\<close> takes: a message of the session or its closed channel, a frame, an error or the
  end of the stream, or the timers, if the queue is not empty and its \<open>next\<close> is ready.\<close>

datatype client_event =
    Client_Rx "mqtt_message option"
  | Stream_Next "(io_error + mqtt_message) option"
  | Timers_Next

definition client_select :: "('q, 'w) client_env \<Rightarrow> nat \<Rightarrow> client_event \<Rightarrow> ('q, 'w, unit) client_act" where
  "client_select env now event =
     (case event of
        Client_Rx client_rx_event \<Rightarrow>
          (case client_rx_event of
             Some e \<Rightarrow> client_rx_recv_event env e
           | None \<Rightarrow> act_fail (Failed ''Session rx closed''))
      | Stream_Next client \<Rightarrow>
          (case client of
             Some (Inr e) \<Rightarrow> client_recv_event env now e
           | Some (Inl _) \<Rightarrow> act_fail (Failed ''Client recv error event'')
           | None \<Rightarrow> act_fail (Failed ''Client closed''))
      | Timers_Next \<Rightarrow>
          act_bind (act_get (\<lambda>self. dq_is_empty env (cw_timers self))) (\<lambda>empty.
          if empty then act_return ()
          else
            act_bind (act_get (\<lambda>self. dq_next env now (cw_timers self))) (\<lambda>(ready, q).
            act_bind (act_modify (\<lambda>self. self\<lparr>cw_timers := q\<rparr>)) (\<lambda>_.
            case ready of
              Some (Some timer) \<Rightarrow> timer_event timer
            | Some None \<Rightarrow> act_fail (Failed ''Timer error event'')
            | None \<Rightarrow> act_return ()))))"

text \<open>The events with their times; the loop waits at their end.\<close>

fun client_loop :: "('q, 'w) client_env \<Rightarrow> (nat \<times> client_event) list \<Rightarrow> ('q, 'w) client_worker \<Rightarrow> task_end \<times> ('q, 'w) client_worker" where
  "client_loop env [] self = (Waiting, self)"
| "client_loop env ((now, event) # events) self =
     (case client_select env now event self of
        (Inr _, self) \<Rightarrow> if cw_status self = Disconnecting then (Stopped, self) else client_loop env events self
      | (Inl (Failed _), self) \<Rightarrow> (Stopped, self)
      | (Inl Panicked, self) \<Rightarrow> (Crashed, self))"

definition client_run_loop :: "('q, 'w) client_env \<Rightarrow> global_state \<Rightarrow> nat \<Rightarrow> (nat \<times> client_event) list \<Rightarrow> ('q, 'w) client_worker \<Rightarrow>
    task_end \<times> ('q, 'w) client_worker" where
  "client_run_loop env g now events self =
     (let self = snd (act_bind (load_settings g) (\<lambda>_. set_keepalive_timer env now) self);
          (e, self) = client_loop env events self
      in case e of
           Waiting \<Rightarrow> (Waiting, self)
         | Stopped \<Rightarrow>
             (Stopped, if cw_status self \<noteq> Disconnecting \<and> has_will (cw_client self) then snd (send_will env self) else self)
         | Crashed \<Rightarrow> (Crashed, self))"

end
