(* ===== verification/Client_Props.thy ===== *)
theory Client_Props
  imports Client_Worker
begin

text \<open>
  What the client worker does, as a machine without a timer queue: which messages an event sends
  to the client and to the session, which event ends the connection, and whether that is an
  orderly end. The worker is shown to follow it.
\<close>

section \<open>The abstract connection\<close>

definition keep_alive_limit :: "u16 \<Rightarrow> nat" where
  "keep_alive_limit ka = (unat ka + unat ka div 4) * 1000"

fun client_packet :: "mqtt_message \<Rightarrow> bool" where
  "client_packet (Publish _) = True"
| "client_packet (PubAck _) = True"
| "client_packet (PubRec _) = True"
| "client_packet (PubRel _) = True"
| "client_packet (PubComp _) = True"
| "client_packet (Subscribe _) = True"
| "client_packet (Unsubscribe _) = True"
| "client_packet _ = False"

fun server_packet :: "mqtt_message \<Rightarrow> bool" where
  "server_packet (ConnAck _) = True"
| "server_packet (Publish _) = True"
| "server_packet (PubAck _) = True"
| "server_packet (PubRec _) = True"
| "server_packet (PubRel _) = True"
| "server_packet (PubComp _) = True"
| "server_packet (SubAck _) = True"
| "server_packet (UnsubAck _) = True"
| "server_packet _ = False"

fun to_session :: "client_event \<Rightarrow> mqtt_message list" where
  "to_session (Stream_Next (Some (Inr m))) = (if client_packet m then [m] else [])"
| "to_session _ = []"

fun to_client :: "client_event \<Rightarrow> mqtt_message list" where
  "to_client (Client_Rx (Some m)) = (if server_packet m then [m] else [])"
| "to_client (Stream_Next (Some (Inr PingReq))) = [PingResp]"
| "to_client _ = []"

text \<open>A packet of the client that restarts the keep-alive time.\<close>

fun client_active :: "client_event \<Rightarrow> bool" where
  "client_active (Stream_Next (Some (Inr m))) = (client_packet m \<or> m = PingReq)"
| "client_active _ = False"

datatype verdict = Goes_On | Orderly | Lost

fun event_verdict :: "nat \<Rightarrow> nat \<Rightarrow> nat \<Rightarrow> client_event \<Rightarrow> verdict" where
  "event_verdict limit since now (Client_Rx (Some (ConnAck m))) = (if cack_return_code m = Accepted then Goes_On else Orderly)"
| "event_verdict limit since now (Client_Rx (Some m)) = (if server_packet m then Goes_On else Lost)"
| "event_verdict limit since now (Client_Rx None) = Lost"
| "event_verdict limit since now (Stream_Next (Some (Inr Disconnect))) = Orderly"
| "event_verdict limit since now (Stream_Next (Some (Inr m))) = (if client_packet m \<or> m = PingReq then Goes_On else Lost)"
| "event_verdict limit since now (Stream_Next (Some (Inl e))) = Lost"
| "event_verdict limit since now (Stream_Next None) = Lost"
| "event_verdict limit since now Timers_Next = (if 0 < limit \<and> since + limit \<le> now then Lost else Goes_On)"

fun client_spec :: "nat \<Rightarrow> nat \<Rightarrow> (nat \<times> client_event) list \<Rightarrow> verdict \<times> mqtt_message list \<times> mqtt_message list" where
  "client_spec limit since [] = (Goes_On, [], [])"
| "client_spec limit since ((now, e) # es) =
     (case event_verdict limit since now e of
        Goes_On \<Rightarrow>
          (case client_spec limit (if client_active e then now else since) es of
             (v, c, s) \<Rightarrow> (v, to_client e @ c, to_session e @ s))
      | v \<Rightarrow> (v, to_client e, to_session e))"

definition will_publish :: "client \<Rightarrow> mqtt_message list" where
  "will_publish client =
     (case cl_will client of
        Some w \<Rightarrow> [Publish \<lparr>pub_identifier = 0, pub_topic = wm_topic w, pub_message = wm_message w, pub_retain = wm_retain w,
                     pub_dup = False, pub_qos = wm_qos w\<rparr>]
      | None \<Rightarrow> [])"

section \<open>What the environment does\<close>

text \<open>The documented behaviour of the timer queue: the values by key with their deadlines, and a
  value is ready when its deadline has come.\<close>

definition delay_queue_works :: "('q, 'z) delay_queue_scheme \<Rightarrow> ('q \<Rightarrow> timer_key \<Rightarrow> (client_timers \<times> nat) option) \<Rightarrow> bool" where
  "delay_queue_works dq view \<longleftrightarrow>
     view (dq_new dq) = Map.empty \<and>
     (\<forall>now v ms q k q'. dq_insert dq now v ms q = (k, q') \<longrightarrow> view q k = None \<and> view q' = (view q)(k \<mapsto> (v, now + ms))) \<and>
     (\<forall>now k ms q v d. view q k = Some (v, d) \<longrightarrow>
        (\<exists>q'. dq_reset dq now k ms q = Some q' \<and> view q' = (view q)(k \<mapsto> (v, now + ms)))) \<and>
     (\<forall>k q v d. view q k = Some (v, d) \<longrightarrow> (\<exists>q'. dq_remove dq k q = Some q' \<and> view q' = (view q)(k := None))) \<and>
     (\<forall>q. dq_is_empty dq q \<longleftrightarrow> view q = Map.empty) \<and>
     (\<forall>now q. view q \<noteq> Map.empty \<longrightarrow>
        (if \<exists>k v d. view q k = Some (v, d) \<and> d \<le> now
         then \<exists>k v d q'. view q k = Some (v, d) \<and> d \<le> now \<and> dq_next dq now q = (Some (Some v), q') \<and> view q' = (view q)(k := None)
         else \<exists>q'. dq_next dq now q = (None, q') \<and> view q' = view q))"

text \<open>Both receivers are alive.\<close>

definition client_channels_work :: "('q, 'w) client_env \<Rightarrow> bool" where
  "client_channels_work env \<longleftrightarrow>
     (\<forall>m w. fst (ce_stream_send env m w) = None) \<and> (\<forall>tx m w. fst (ce_session_send env tx m w) = None)"

section \<open>One event\<close>

definition client_logs :: "mqtt_message list \<Rightarrow> mqtt_message list \<Rightarrow> ('q, 'w) client_worker \<Rightarrow> ('q, 'w) client_worker \<Rightarrow> bool" where
  "client_logs c s self self' \<longleftrightarrow>
     cw_session_tx self' = cw_session_tx self \<and>
     cw_client self' = (cw_client self)\<lparr>cl_stream := (cl_stream (cw_client self))\<lparr>fr_sent := fr_sent (cl_stream (cw_client self)) @ c\<rparr>\<rparr> \<and>
     cw_session_log self' = cw_session_log self @ map (\<lambda>m. (cw_session_tx self, Client_Message m)) s"

definition client_limit :: "('q, 'w) client_worker \<Rightarrow> nat" where
  "client_limit self = keep_alive_limit (cl_keep_alive (cw_client self))"

definition client_ok :: "('q \<Rightarrow> timer_key \<Rightarrow> (client_timers \<times> nat) option) \<Rightarrow> nat \<Rightarrow> ('q, 'w) client_worker \<Rightarrow> bool" where
  "client_ok view since self \<longleftrightarrow> cw_status self = Connected \<and>
     (if client_limit self = 0 then cw_timer_keys self = [] \<and> view (cw_timers self) = Map.empty
      else \<exists>k. cw_timer_keys self = [(KeepAlive, (client_limit self, k))] \<and>
        view (cw_timers self) = [k \<mapsto> (KeepAlive, since + client_limit self)])"

lemma delay_queueD:
  assumes "delay_queue_works dq view"
  shows "view (dq_new dq) = Map.empty"
    and "dq_insert dq now v ms q = (k, q') \<Longrightarrow> view q k = None \<and> view q' = (view q)(k \<mapsto> (v, now + ms))"
    and "view q k = Some (v, d) \<Longrightarrow> \<exists>q'. dq_reset dq now k ms q = Some q' \<and> view q' = (view q)(k \<mapsto> (v, now + ms))"
    and "view q k = Some (v, d) \<Longrightarrow> \<exists>q'. dq_remove dq k q = Some q' \<and> view q' = (view q)(k := None)"
    and "dq_is_empty dq q \<longleftrightarrow> view q = Map.empty"
    and "view q \<noteq> Map.empty \<Longrightarrow> if \<exists>k v d. view q k = Some (v, d) \<and> d \<le> now
      then \<exists>k v d q'. view q k = Some (v, d) \<and> d \<le> now \<and> dq_next dq now q = (Some (Some v), q') \<and> view q' = (view q)(k := None)
      else \<exists>q'. dq_next dq now q = (None, q') \<and> view q' = view q"
proof -
  note laws = assms [unfolded delay_queue_works_def]
  show "view (dq_new dq) = Map.empty" by (rule conjunct1 [OF laws])
  note laws = conjunct2 [OF laws]
  show "dq_insert dq now v ms q = (k, q') \<Longrightarrow> view q k = None \<and> view q' = (view q)(k \<mapsto> (v, now + ms))"
    by (rule conjunct1 [OF laws, rule_format])
  note laws = conjunct2 [OF laws]
  show "view q k = Some (v, d) \<Longrightarrow> \<exists>q'. dq_reset dq now k ms q = Some q' \<and> view q' = (view q)(k \<mapsto> (v, now + ms))"
    by (rule conjunct1 [OF laws, rule_format])
  note laws = conjunct2 [OF laws]
  show "view q k = Some (v, d) \<Longrightarrow> \<exists>q'. dq_remove dq k q = Some q' \<and> view q' = (view q)(k := None)"
    by (rule conjunct1 [OF laws, rule_format])
  note laws = conjunct2 [OF laws]
  show "dq_is_empty dq q \<longleftrightarrow> view q = Map.empty" by (rule conjunct1 [OF laws, rule_format])
  show "view q \<noteq> Map.empty \<Longrightarrow> if \<exists>k v d. view q k = Some (v, d) \<and> d \<le> now
      then \<exists>k v d q'. view q k = Some (v, d) \<and> d \<le> now \<and> dq_next dq now q = (Some (Some v), q') \<and> view q' = (view q)(k := None)
      else \<exists>q'. dq_next dq now q = (None, q') \<and> view q' = view q"
    by (rule conjunct2 [OF laws, rule_format])
qed

lemma client_logs_refl: "client_logs [] [] self self"
  by (simp add: client_logs_def)

lemma client_logs_trans:
  "client_logs c s self self' \<Longrightarrow> client_logs c' s' self' self'' \<Longrightarrow> client_logs (c @ c') (s @ s') self self''"
  by (simp add: client_logs_def)

lemma keep_alive_limit_0 [simp]: "keep_alive_limit ka = 0 \<longleftrightarrow> ka = 0"
  by (auto simp: keep_alive_limit_def unat_eq_zero)

lemma keep_alive_limit_pos [simp]: "0 < keep_alive_limit ka \<longleftrightarrow> 0 < ka"
  by (metis keep_alive_limit_0 neq0_conv word_neq_0_conv)

lemma keep_alive_code: "unat ka * 1000 + drop_bit 2 (unat ka) * 1000 = keep_alive_limit ka"
  by (simp add: keep_alive_limit_def drop_bit_eq_div)

text \<open>Sending over a channel that works.\<close>

lemma stream_send_works:
  assumes "client_channels_work env"
  shows "\<exists>self'. client_stream_send env m self = (Inr (), self') \<and> client_logs [m] [] self self' \<and>
    cw_status self' = cw_status self \<and> cw_timers self' = cw_timers self \<and> cw_timer_keys self' = cw_timer_keys self"
proof -
  obtain w where "ce_stream_send env m (cw_world self) = (None, w)"
    using assms by (metis client_channels_work_def prod.collapse)
  then show ?thesis by (simp add: client_stream_send_def client_logs_def Let_def)
qed

lemma session_send_works:
  assumes "client_channels_work env"
  shows "\<exists>self'. send_message_session env m self = (Inr (), self') \<and> client_logs [] [m] self self' \<and>
    cw_status self' = cw_status self \<and> cw_timers self' = cw_timers self \<and> cw_timer_keys self' = cw_timer_keys self"
proof -
  obtain w where "ce_session_send env (cw_session_tx self) (Client_Message m) (cw_world self) = (None, w)"
    using assms by (metis client_channels_work_def prod.collapse)
  then show ?thesis by (simp add: send_message_session_def client_logs_def)
qed

lemma client_ok_sent:
  "client_ok view since self \<Longrightarrow> client_logs c s self self' \<Longrightarrow> cw_status self' = cw_status self \<Longrightarrow>
   cw_timers self' = cw_timers self \<Longrightarrow> cw_timer_keys self' = cw_timer_keys self \<Longrightarrow> client_ok view since self'"
  by (auto simp: client_ok_def client_limit_def client_logs_def split: if_splits)

text \<open>Without a keep-alive time there is no timer, with one there is exactly its timer.\<close>

lemma client_okE:
  assumes "client_ok view since self"
  obtains (off) "cl_keep_alive (cw_client self) = 0" "client_limit self = 0" "cw_timer_keys self = []" "view (cw_timers self) = Map.empty"
  | (on) k where "0 < cl_keep_alive (cw_client self)" "0 < client_limit self" "cw_timer_keys self = [(KeepAlive, (client_limit self, k))]"
      "view (cw_timers self) = [k \<mapsto> (KeepAlive, since + client_limit self)]"
  using assms by (auto simp: client_ok_def client_limit_def word_neq_0_conv split: if_splits)

lemma reset_keepalive_works:
  assumes "delay_queue_works env view" and "client_ok view since self"
  shows "\<exists>self'. reset_keepalive env now self = (Inr (), self') \<and> client_ok view now self' \<and> client_logs [] [] self self'"
  using assms(2)
proof (cases rule: client_okE)
  case off
  with assms(2) show ?thesis
    by (intro exI [of _ self]) (simp add: reset_keepalive_def act_bind_app client_ok_def client_logs_refl)
next
  case (on k)
  then obtain q where q: "dq_reset env now k (client_limit self) (cw_timers self) = Some q"
      "view q = [k \<mapsto> (KeepAlive, now + client_limit self)]"
    using delay_queueD(3) [OF assms(1), of "cw_timers self" k] by fastforce
  have "reset_keepalive env now self = (Inr (), self\<lparr>cw_timers := q\<rparr>)"
    by (simp add: reset_keepalive_def reset_timer_def act_bind_app on q(1))
  then show ?thesis using assms(2) on q(2) by (simp add: client_ok_def client_limit_def client_logs_def)
qed

lemma remove_timer_works:
  assumes "delay_queue_works env view" and "client_ok view since self"
  shows "\<exists>self'. remove_timer env KeepAlive self = (Inr (), self') \<and> client_logs [] [] self self'"
  using assms(2)
proof (cases rule: client_okE)
  case off
  then show ?thesis by (intro exI [of _ self]) (simp add: remove_timer_def act_bind_app client_logs_refl)
next
  case (on k)
  then obtain q where "dq_remove env k (cw_timers self) = Some q"
    using delay_queueD(4) [OF assms(1), of "cw_timers self" k] by fastforce
  then show ?thesis by (simp add: remove_timer_def act_bind_app on client_logs_def)
qed

text \<open>The timers, when they are taken.\<close>

lemma timers_next_works:
  assumes "delay_queue_works env view" and "client_ok view since self"
  shows "0 < client_limit self \<Longrightarrow> since + client_limit self \<le> now \<Longrightarrow>
      \<exists>e self'. client_select env now Timers_Next self = (Inl (Failed e), self') \<and> cw_status self' = Connected \<and> client_logs [] [] self self'"
    and "\<not> (0 < client_limit self \<and> since + client_limit self \<le> now) \<Longrightarrow>
      \<exists>self'. client_select env now Timers_Next self = (Inr (), self') \<and> client_ok view since self' \<and> client_logs [] [] self self'"
proof -
  assume late: "0 < client_limit self" "since + client_limit self \<le> now"
  with assms(2) obtain k where k: "view (cw_timers self) = [k \<mapsto> (KeepAlive, since + client_limit self)]"
    by (auto elim: client_okE)
  then obtain v q where q: "dq_next env now (cw_timers self) = (Some (Some v), q)"
    using delay_queueD(6) [OF assms(1), of "cw_timers self" now] late by (auto split: if_splits)
  have "\<not> dq_is_empty env (cw_timers self)" using k by (simp add: delay_queueD(5) [OF assms(1)])
  moreover have "v = KeepAlive" by (cases v)
  ultimately show "\<exists>e self'. client_select env now Timers_Next self = (Inl (Failed e), self') \<and> cw_status self' = Connected \<and> client_logs [] [] self self'"
    using assms(2) by (simp add: client_select_def act_bind_app q timer_event_def timer_fired_def client_logs_def client_ok_def)
next
  assume early: "\<not> (0 < client_limit self \<and> since + client_limit self \<le> now)"
  show "\<exists>self'. client_select env now Timers_Next self = (Inr (), self') \<and> client_ok view since self' \<and> client_logs [] [] self self'"
    using assms(2)
  proof (cases rule: client_okE)
    case off
    then have "dq_is_empty env (cw_timers self)" by (simp add: delay_queueD(5) [OF assms(1)])
    then show ?thesis using assms(2) by (simp add: client_select_def act_bind_app client_logs_refl)
  next
    case (on k)
    then have ne: "\<not> dq_is_empty env (cw_timers self)" by (simp add: delay_queueD(5) [OF assms(1)])
    from on early obtain q where q: "dq_next env now (cw_timers self) = (None, q)" "view q = view (cw_timers self)"
      using delay_queueD(6) [OF assms(1), of "cw_timers self" now] by (auto split: if_splits)
    show ?thesis using assms(2) on ne q(2)
      by (simp add: client_select_def act_bind_app q(1) client_ok_def client_limit_def client_logs_def)
  qed
qed


lemma forward_works:
  assumes "delay_queue_works env view" and "client_channels_work env" and "client_ok view since self"
  shows "\<exists>self'. forward_to_session env now m self = (Inr (), self') \<and> client_ok view now self' \<and> client_logs [] [m] self self'"
proof -
  obtain self1 where 1: "reset_keepalive env now self = (Inr (), self1)" "client_ok view now self1" "client_logs [] [] self self1"
    using reset_keepalive_works [OF assms(1,3)] by blast
  obtain self2 where 2: "send_message_session env m self1 = (Inr (), self2)" "client_logs [] [m] self1 self2" "cw_status self2 = cw_status self1"
      "cw_timers self2 = cw_timers self1" "cw_timer_keys self2 = cw_timer_keys self1"
    using session_send_works [OF assms(2)] by blast
  show ?thesis
    using 1(1) 2(1) client_ok_sent [OF 1(2) 2(2-5)] client_logs_trans [OF 1(3) 2(2)]
    by (intro exI [of _ self2]) (simp add: forward_to_session_def)
qed

lemma ping_works:
  assumes "delay_queue_works env view" and "client_channels_work env" and "client_ok view since self"
  shows "\<exists>self'. ping_request_message env now self = (Inr (), self') \<and> client_ok view now self' \<and> client_logs [PingResp] [] self self'"
proof -
  obtain self1 where 1: "reset_keepalive env now self = (Inr (), self1)" "client_ok view now self1" "client_logs [] [] self self1"
    using reset_keepalive_works [OF assms(1,3)] by blast
  obtain self2 where 2: "client_stream_send env PingResp self1 = (Inr (), self2)" "client_logs [PingResp] [] self1 self2" "cw_status self2 = cw_status self1"
      "cw_timers self2 = cw_timers self1" "cw_timer_keys self2 = cw_timer_keys self1"
    using stream_send_works [OF assms(2)] by blast
  show ?thesis
    using 1(1) 2(1) client_ok_sent [OF 1(2) 2(2-5)] client_logs_trans [OF 1(3) 2(2)]
    by (intro exI [of _ self2]) (simp add: ping_request_message_def)
qed

lemma disconnect_works:
  assumes "delay_queue_works env view" and "client_ok view since self"
  shows "\<exists>self'. client_recv_event env now Disconnect self = (Inl (Failed ''Client Disconnect''), self') \<and>
    cw_status self' = Disconnecting \<and> client_logs [] [] self self'"
proof -
  obtain self1 where "remove_timer env KeepAlive self = (Inr (), self1)" "client_logs [] [] self self1"
    using remove_timer_works [OF assms] by blast
  then show ?thesis
    by (simp add: client_recv_event_def disconnect_message_def act_bind_app act_try_def client_logs_def)
qed

lemma pass_works:
  assumes "client_channels_work env" and "client_ok view since self"
  shows "\<exists>self'. client_stream_send env m self = (Inr (), self') \<and> client_ok view since self' \<and> client_logs [m] [] self self'"
  using stream_send_works [OF assms(1), of m self] client_ok_sent [OF assms(2)] by blast

text \<open>What an event comes to, by the verdict on it.\<close>

definition follows_verdict :: "('q \<Rightarrow> timer_key \<Rightarrow> (client_timers \<times> nat) option) \<Rightarrow> verdict \<Rightarrow> nat \<Rightarrow> string failure + unit \<Rightarrow> ('q, 'w) client_worker \<Rightarrow> bool" where
  "follows_verdict view v since r self \<longleftrightarrow>
     (case v of
        Goes_On \<Rightarrow> r = Inr () \<and> client_ok view since self
      | Orderly \<Rightarrow> r \<noteq> Inl Panicked \<and> cw_status self = Disconnecting
      | Lost \<Rightarrow> (\<exists>e. r = Inl (Failed e)) \<and> cw_status self = Connected)"

lemma client_select_follows:
  assumes "delay_queue_works env view" and "client_channels_work env" and "client_ok view since self"
  shows "\<exists>r self'. client_select env now e self = (r, self') \<and> client_logs (to_client e) (to_session e) self self' \<and>
    follows_verdict view (event_verdict (client_limit self) since now e) (if client_active e then now else since) r self'"
proof (cases e)
  case (Client_Rx m)
  show ?thesis
  proof (cases m)
    case None
    then show ?thesis using Client_Rx assms(3) by (simp add: client_select_def follows_verdict_def client_logs_refl client_ok_def)
  next
    case (Some a)
    obtain self' where self': "client_stream_send env a self = (Inr (), self')" "client_ok view since self'" "client_logs [a] [] self self'"
      using pass_works [OF assms(2,3)] by blast
    show ?thesis
    proof (cases "\<exists>c. a = ConnAck c \<and> cack_return_code c \<noteq> Accepted")
      case True
      then obtain c where c: "a = ConnAck c" "cack_return_code c \<noteq> Accepted" by blast
      obtain self2 where "client_stream_send env a (self\<lparr>cw_status := Disconnecting\<rparr>) = (Inr (), self2)" "cw_status self2 = Disconnecting"
          "client_logs [a] [] (self\<lparr>cw_status := Disconnecting\<rparr>) self2"
        using stream_send_works [OF assms(2), of a "self\<lparr>cw_status := Disconnecting\<rparr>"] by auto
      then show ?thesis using c Client_Rx Some
        by (simp add: client_select_def client_rx_recv_event_def act_bind_app follows_verdict_def client_logs_def)
    next
      case False
      then show ?thesis using Client_Rx Some self' assms(3)
        by (cases a) (auto simp: client_select_def client_rx_recv_event_def follows_verdict_def client_logs_refl client_ok_def [of _ _ self] act_bind_app)
    qed
  qed
next
  case (Stream_Next m)
  consider "m = None" | x where "m = Some (Inl x)" | a where "m = Some (Inr a)" by (metis option.exhaust sum.exhaust)
  then show ?thesis
  proof cases
    case 3
    consider (disc) "a = Disconnect" | (ping) "a = PingReq" | (fwd) "client_packet a" | (bad) "a \<noteq> Disconnect" "a \<noteq> PingReq" "\<not> client_packet a"
      by blast
    then show ?thesis
    proof cases
      case disc
      then show ?thesis using disconnect_works [OF assms(1,3), of now] Stream_Next 3
        by (auto simp: client_select_def follows_verdict_def)
    next
      case ping
      then show ?thesis using ping_works [OF assms, of now] Stream_Next 3
        by (auto simp: client_select_def client_recv_event_def follows_verdict_def)
    next
      case fwd
      then have "client_recv_event env now a = forward_to_session env now a" by (cases a) (simp_all add: client_recv_event_def)
      then show ?thesis using forward_works [OF assms, of now a] Stream_Next 3 fwd
        by (cases a) (auto simp: client_select_def follows_verdict_def)
    next
      case bad
      then show ?thesis using Stream_Next 3 assms(3)
        by (cases a) (simp_all add: client_select_def client_recv_event_def follows_verdict_def client_logs_refl client_ok_def)
    qed
  qed (use Stream_Next assms(3) in \<open>simp_all add: client_select_def follows_verdict_def client_logs_refl client_ok_def\<close>)
next
  case Timers_Next
  then show ?thesis using timers_next_works [OF assms(1,3), of now]
    by (cases "0 < client_limit self \<and> since + client_limit self \<le> now") (auto simp: follows_verdict_def)
qed

section \<open>The loop\<close>

lemma client_logs_limit: "client_logs c s self self' \<Longrightarrow> client_limit self' = client_limit self"
  by (simp add: client_logs_def client_limit_def)

lemma client_loop_follows:
  assumes "delay_queue_works env view" and "client_channels_work env" and "client_ok view since self"
    and "client_spec (client_limit self) since events = (v, c, s)"
  shows "\<exists>self'. client_loop env events self = (if v = Goes_On then Waiting else Stopped, self') \<and> client_logs c s self self' \<and>
    (cw_status self' = Disconnecting \<longleftrightarrow> v = Orderly)"
  using assms(3,4)
proof (induction events arbitrary: since self v c s)
  case Nil
  then show ?case by (simp add: client_ok_def client_logs_refl)
next
  case (Cons ev events)
  obtain now e where ev: "ev = (now, e)" by (cases ev)
  let ?v = "event_verdict (client_limit self) since now e"
  obtain r self1 where step: "client_select env now e self = (r, self1)" and logs: "client_logs (to_client e) (to_session e) self self1"
    and follows: "follows_verdict view ?v (if client_active e then now else since) r self1"
    using client_select_follows [OF assms(1,2) Cons.prems(1)] by blast
  show ?case
  proof (cases ?v)
    case Goes_On
    obtain c1 s1 where spec: "client_spec (client_limit self1) (if client_active e then now else since) events = (v, c1, s1)"
      and cs: "c = to_client e @ c1" "s = to_session e @ s1"
      using Cons.prems(2) Goes_On client_logs_limit [OF logs] by (auto simp: ev split: prod.splits)
    from follows Goes_On have r: "r = Inr ()" and ok: "client_ok view (if client_active e then now else since) self1"
      by (simp_all add: follows_verdict_def)
    from Cons.IH [OF ok spec] obtain self' where "client_loop env events self1 = (if v = Goes_On then Waiting else Stopped, self')"
      "client_logs c1 s1 self1 self'" "cw_status self' = Disconnecting \<longleftrightarrow> v = Orderly" by blast
    then show ?thesis using step r ok cs client_logs_trans [OF logs]
      by (intro exI [of _ self']) (simp add: ev client_ok_def)
  next
    case Orderly
    then have "v = Orderly" "c = to_client e" "s = to_session e" using Cons.prems(2) by (simp_all add: ev)
    then show ?thesis using step logs follows Orderly
      by (intro exI [of _ self1]) (auto simp: ev follows_verdict_def split: sum.splits failure.splits)
  next
    case Lost
    then have "v = Lost" "c = to_client e" "s = to_session e" using Cons.prems(2) by (simp_all add: ev)
    then show ?thesis using step logs follows Lost
      by (intro exI [of _ self1]) (auto simp: ev follows_verdict_def)
  qed
qed


text \<open>The whole task, from the new worker.\<close>

lemma client_started:
  assumes "delay_queue_works env view"
  shows "\<exists>self. snd (act_bind (load_settings g) (\<lambda>_. set_keepalive_timer env now) (client_worker_new env client tx ctx w)) = self \<and>
    client_ok view now self \<and> client_logs [] [] (client_worker_new env client tx ctx w) self"
proof (cases "cl_keep_alive client = 0")
  case True
  then show ?thesis
    by (simp add: load_settings_def set_keepalive_timer_def client_worker_new_def act_bind_app client_ok_def client_limit_def
        client_logs_def delay_queueD(1) [OF assms])
next
  case False
  then have "0 < unat (cl_keep_alive client)" by (simp add: unat_gt_0)
  let ?limit = "keep_alive_limit (cl_keep_alive client)"
  obtain k q where "dq_insert env now KeepAlive ?limit (dq_new env) = (k, q)" by fastforce
  moreover from delay_queueD(2) [OF assms this] have "view q = [k \<mapsto> (KeepAlive, now + ?limit)]"
    by (simp add: delay_queueD(1) [OF assms])
  ultimately show ?thesis using False \<open>0 < unat (cl_keep_alive client)\<close>
    by (simp add: load_settings_def set_keepalive_timer_def add_timer_def client_worker_new_def act_bind_app client_ok_def client_limit_def
        client_logs_def keep_alive_code hm_insert_def)
qed

lemma send_will_works:
  assumes "client_channels_work env"
  shows "client_logs [] (will_publish (cw_client self)) self (snd (send_will env self))"
proof (cases "cl_will (cw_client self)")
  case (Some will)
  obtain self' where "send_message_session env (Publish (publish_new\<lparr>pub_topic := wm_topic will, pub_message := wm_message will,
      pub_retain := wm_retain will, pub_qos := wm_qos will\<rparr>)) self = (Inr (), self')"
    "client_logs [] [Publish (publish_new\<lparr>pub_topic := wm_topic will, pub_message := wm_message will,
      pub_retain := wm_retain will, pub_qos := wm_qos will\<rparr>)] self self'"
    using session_send_works [OF assms] by blast
  then show ?thesis by (simp add: send_will_def Some act_bind_app act_try_def will_publish_def publish_new_def Let_def)
qed (simp add: send_will_def act_bind_app will_publish_def client_logs_refl Let_def)

lemma client_run_follows:
  assumes "delay_queue_works env view" and "client_channels_work env"
    and "client_spec (keep_alive_limit (cl_keep_alive client)) now events = (v, c, s)"
  shows "\<exists>self. client_run_loop env g now events (client_worker_new env client tx ctx w) = (if v = Goes_On then Waiting else Stopped, self) \<and>
    client_logs c (s @ (if v = Lost then will_publish client else [])) (client_worker_new env client tx ctx w) self"
proof -
  let ?new = "client_worker_new env client tx ctx w"
  obtain self1 where start: "snd (act_bind (load_settings g) (\<lambda>_. set_keepalive_timer env now) ?new) = self1"
    and ok: "client_ok view now self1" and logs1: "client_logs [] [] ?new self1"
    using client_started [OF assms(1), of g now client tx ctx w] by blast
  have "client_limit self1 = keep_alive_limit (cl_keep_alive client)"
    using client_logs_limit [OF logs1] by (simp add: client_limit_def client_worker_new_def)
  then obtain self2 where loop: "client_loop env events self1 = (if v = Goes_On then Waiting else Stopped, self2)"
    and logs2: "client_logs c s self1 self2" and status: "cw_status self2 = Disconnecting \<longleftrightarrow> v = Orderly"
    using client_loop_follows [OF assms(1,2) ok, of events v c s] assms(3) by auto
  have logs: "client_logs c s ?new self2" using client_logs_trans [OF logs1 logs2] by simp
  then have will: "cl_will (cw_client self2) = cl_will client" by (simp add: client_logs_def client_worker_new_def)
  show ?thesis
  proof (cases "v = Lost \<and> has_will client")
    case True
    have "client_logs [] (will_publish client) self2 (snd (send_will env self2))"
      using send_will_works [OF assms(2), of self2] by (simp add: will_publish_def will)
    from client_logs_trans [OF logs this] show ?thesis using True loop status start
      by (simp add: client_run_loop_def has_will_def will)
  next
    case False
    then have "v = Lost \<Longrightarrow> will_publish client = []" by (auto simp: has_will_def will_publish_def)
    then show ?thesis using False loop status start logs
      by (cases v) (auto simp: client_run_loop_def has_will_def will)
  qed
qed

section \<open>Properties\<close>

text \<open>C10: With working channels and a timer queue that works the worker does what the abstract connection
  does: what it sends to the client and to the session is, event by event, what the events call for, it ends
  where a verdict ends it, it publishes the will exactly when the connection is lost, and it never panics.\<close>

theorem client_worker_refines:
  assumes "delay_queue_works env view" and "client_channels_work env"
    and "client_spec (keep_alive_limit (cl_keep_alive client)) now events = (v, c, s)"
  shows "\<exists>self. client_run_loop env g now events (client_worker_new env client tx ctx w) = (if v = Goes_On then Waiting else Stopped, self) \<and>
    fr_sent (cl_stream (cw_client self)) = fr_sent (cl_stream client) @ c \<and>
    cw_session_log self = map (\<lambda>m. (tx, Client_Message m)) (s @ (if v = Lost then will_publish client else []))"
proof -
  obtain self where "client_run_loop env g now events (client_worker_new env client tx ctx w) = (if v = Goes_On then Waiting else Stopped, self)"
    and "client_logs c (s @ (if v = Lost then will_publish client else [])) (client_worker_new env client tx ctx w) self"
    using client_run_follows [OF assms] by blast
  then show ?thesis by (intro exI [of _ self]) (simp add: client_logs_def client_worker_new_def)
qed

text \<open>A timer queue: the values by their keys.\<close>

definition sample_queue_next :: "nat \<Rightarrow> (timer_key \<times> client_timers \<times> nat) list \<Rightarrow>
    client_timers option option \<times> (timer_key \<times> client_timers \<times> nat) list" where
  "sample_queue_next now q =
     (if q = [] then (Some None, q)
      else case List.find (\<lambda>k. case map_of q k of Some (v, d) \<Rightarrow> d \<le> now | None \<Rightarrow> False) (map fst q) of
             Some k \<Rightarrow> (Some (map_option fst (map_of q k)), hm_remove k q)
           | None \<Rightarrow> (None, q))"

definition sample_client_env :: "((timer_key \<times> client_timers \<times> nat) list, unit) client_env" where
  "sample_client_env = \<lparr>dq_new = [],
     dq_insert = (\<lambda>now v ms q. let k = Suc (sum_list (map fst q)) in (k, hm_insert k (v, now + ms) q)),
     dq_reset = (\<lambda>now k ms q. map_option (\<lambda>(v, d). hm_insert k (v, now + ms) q) (map_of q k)),
     dq_remove = (\<lambda>k q. map_option (\<lambda>_. hm_remove k q) (map_of q k)),
     dq_is_empty = (\<lambda>q. q = []), dq_next = sample_queue_next,
     ce_stream_send = (\<lambda>_ w. (None, w)), ce_session_send = (\<lambda>_ _ w. (None, w))\<rparr>"

lemma sample_queue_next_works:
  assumes "map_of q \<noteq> Map.empty"
  shows "if \<exists>k v d. map_of q k = Some (v, d) \<and> d \<le> now
    then \<exists>k v d q'. map_of q k = Some (v, d) \<and> d \<le> now \<and> sample_queue_next now q = (Some (Some v), q') \<and> map_of q' = (map_of q)(k := None)
    else \<exists>q'. sample_queue_next now q = (None, q') \<and> map_of q' = map_of q"
proof -
  let ?due = "\<lambda>k. case map_of q k of Some (v, d) \<Rightarrow> d \<le> now | None \<Rightarrow> False"
  have ne: "q \<noteq> []" using assms by auto
  have due: "?due k \<longleftrightarrow> (\<exists>v d. map_of q k = Some (v, d) \<and> d \<le> now)" for k by (auto split: option.split)
  show ?thesis
  proof (cases "List.find ?due (map fst q)")
    case None
    then have "\<not> ?due k" for k
      unfolding find_None_iff by (metis (mono_tags, lifting) image_set map_of_eq_None_iff option.case_eq_if)
    then have "\<not> (\<exists>k v d. map_of q k = Some (v, d) \<and> d \<le> now)" by (simp add: due)
    then show ?thesis using None ne by (simp add: sample_queue_next_def)
  next
    case (Some k)
    then have "?due k" by (auto simp: find_Some_iff)
    then obtain v d where kd: "map_of q k = Some (v, d)" "d \<le> now" unfolding due by blast
    then have "\<exists>k v d. map_of q k = Some (v, d) \<and> d \<le> now" by blast
    moreover have "sample_queue_next now q = (Some (Some v), hm_remove k q)" using Some ne by (simp add: sample_queue_next_def kd)
    ultimately show ?thesis using kd by auto
  qed
qed

lemma sample_queue_works: "delay_queue_works sample_client_env map_of"
proof -
  have "map_of q (Suc (sum_list (map fst q))) = None" for q :: "(timer_key \<times> client_timers \<times> nat) list"
    using member_le_sum_list [of _ "map fst q"] by (force simp: map_of_eq_None_iff)
  moreover have "\<forall>now q. map_of q \<noteq> Map.empty \<longrightarrow>
      (if \<exists>k v d. map_of q k = Some (v, d) \<and> d \<le> now
       then \<exists>k v d q'. map_of q k = Some (v, d) \<and> d \<le> now \<and> dq_next sample_client_env now q = (Some (Some v), q') \<and> map_of q' = (map_of q)(k := None)
       else \<exists>q'. dq_next sample_client_env now q = (None, q') \<and> map_of q' = map_of q)"
    using sample_queue_next_works unfolding sample_client_env_def delay_queue.simps by blast
  ultimately show ?thesis
    unfolding delay_queue_works_def
    by (intro conjI; (assumption | (simp add: sample_client_env_def Let_def map_of_eq_empty_iff)))
qed

lemma sample_client_channels: "client_channels_work sample_client_env"
  by (simp add: client_channels_work_def sample_client_env_def)


definition sample_client :: client where
  "sample_client = client_new (framed_new (codec_new 100)) [] \<lparr>bi_tenant_id = None, bi_broker_id = ascii ''default''\<rparr> (ascii ''c'') 8
     (Some (will_message_new (ascii ''w'') [1] 1 False))"

definition sample_events :: "(nat \<times> client_event) list" where
  "sample_events = [(5, Client_Rx (Some (ConnAck connack_new))), (9000, Stream_Next (Some (Inr PingReq))), (18000, Timers_Next),
     (18500, Stream_Next (Some (Inr (Publish publish_new)))), (28500, Timers_Next)]"

lemma client_worker_refines_witness:
  "\<exists>self. client_run_loop sample_client_env (global_new [] []) 0 sample_events (client_worker_new sample_client_env sample_client 3 7 ()) = (Stopped, self) \<and>
    fr_sent (cl_stream (cw_client self)) = [ConnAck connack_new, PingResp] \<and>
    cw_session_log self = [(3, Client_Message (Publish publish_new)),
      (3, Client_Message (Publish (publish_new\<lparr>pub_topic := ascii ''w'', pub_message := [1], pub_qos := 1\<rparr>)))]"
proof -
  have "client_spec (keep_alive_limit (cl_keep_alive sample_client)) 0 sample_events = (Lost, [ConnAck connack_new, PingResp], [Publish publish_new])"
    by (simp add: sample_events_def sample_client_def client_new_def keep_alive_limit_def connack_new_def)
  from client_worker_refines [OF sample_queue_works sample_client_channels this, of "global_new [] []" 3 7 "()"]
  show ?thesis by (simp add: sample_client_def client_new_def framed_new_def will_publish_def will_message_new_def publish_new_def)
qed






lemmas sample_client_simps = sample_client_env_def sample_client_def client_new_def framed_new_def client_worker_new_def
  client_run_loop_def load_settings_def set_keepalive_timer_def add_timer_def client_select_def client_rx_recv_event_def
  client_recv_event_def forward_to_session_def ping_request_message_def reset_keepalive_def reset_timer_def
  client_stream_send_def send_message_session_def send_will_def sample_queue_next_def act_bind_app Let_def


text \<open>The time of the last packet that counts for the keep-alive time.\<close>

fun last_active :: "nat \<Rightarrow> (nat \<times> client_event) list \<Rightarrow> nat" where
  "last_active since [] = since"
| "last_active since ((now, e) # es) = last_active (if client_active e then now else since) es"

lemma client_spec_timer:
  "fst (client_spec limit since es) = Goes_On \<Longrightarrow>
   fst (client_spec limit since (es @ [(t, Timers_Next)])) = (if 0 < limit \<and> last_active since es + limit \<le> t then Lost else Goes_On)"
proof (induction limit since es rule: client_spec.induct)
  case (2 limit since now e es)
  let ?since = "if client_active e then now else since"
  from "2.prems" have v: "event_verdict limit since now e = Goes_On" by (auto split: verdict.splits)
  then have "fst (client_spec limit ?since es) = Goes_On" using "2.prems" by (simp add: case_prod_beta)
  from "2.IH" [OF v this] show ?case using v by (simp add: case_prod_beta del: if_split)
qed simp

text \<open>C16: The keep-alive time: a connection that goes on is ended by its timers exactly when keep-alive is
  on and a time and a quarter of it has passed since the last packet of the client, or since the start.\<close>

theorem keep_alive_enforced:
  assumes "delay_queue_works env view" and "client_channels_work env"
    and "fst (client_run_loop env g start es (client_worker_new env client tx ctx w)) = Waiting"
  shows "fst (client_run_loop env g start (es @ [(t, Timers_Next)]) (client_worker_new env client tx ctx w)) =
    (if 0 < cl_keep_alive client \<and>
        last_active start es + (unat (cl_keep_alive client) + unat (cl_keep_alive client) div 4) * 1000 \<le> t
     then Stopped else Waiting)"
proof -
  let ?limit = "keep_alive_limit (cl_keep_alive client)"
  obtain v c s where spec: "client_spec ?limit start es = (v, c, s)" by (metis prod_cases3)
  obtain v' c' s' where spec': "client_spec ?limit start (es @ [(t, Timers_Next)]) = (v', c', s')" by (metis prod_cases3)
  from client_run_follows [OF assms(1,2) spec, of g tx ctx w] assms(3) have "v = Goes_On" by (auto split: if_splits)
  with client_spec_timer [of ?limit start es t] spec spec'
  have "v' = (if 0 < ?limit \<and> last_active start es + ?limit \<le> t then Lost else Goes_On)" by simp
  with client_run_follows [OF assms(1,2) spec', of g tx ctx w] show ?thesis by (fold keep_alive_limit_def) auto
qed

lemma keep_alive_enforced_witness:
  "fst (client_run_loop sample_client_env (global_new [] []) 0 (take 4 sample_events @ [(28499, Timers_Next)]) (client_worker_new sample_client_env sample_client 3 7 ())) = Waiting \<and>
   fst (client_run_loop sample_client_env (global_new [] []) 0 (take 4 sample_events @ [(28500, Timers_Next)]) (client_worker_new sample_client_env sample_client 3 7 ())) = Stopped"
proof -
  have "fst (client_run_loop sample_client_env (global_new [] []) 0 (take 4 sample_events) (client_worker_new sample_client_env sample_client 3 7 ())) = Waiting"
    by (simp add: sample_events_def sample_client_simps connack_new_def drop_bit_eq_div hm_insert_def)
  note run = keep_alive_enforced [OF sample_queue_works sample_client_channels this]
  have "last_active 0 (take 4 sample_events) = 18500" by (simp add: sample_events_def)
  then show ?thesis by (simp add: run) (simp add: sample_client_def client_new_def)
qed

end
