(* ===== verification/Server_Auth.thy ===== *)
theory Server_Auth
  imports Server_Config Sess_Registry
begin

text \<open>
  \<open>src/auth\<close>: the three providers that check a password, and the service that answers the
  requests of the connections. SHA-1 with base 64 and the file system are parameters.
\<close>

section \<open>Providers\<close>

record auth_response =
  ar_return_code :: return_code
  ar_tenant :: "rstring option"

record auth_request =
  aq_response_channel :: oneshot
  aq_username :: rstring
  aq_password :: rstring

definition auth_request_new :: "rstring \<Rightarrow> rstring \<Rightarrow> oneshot \<Rightarrow> auth_request" where
  "auth_request_new username password response_channel =
     \<lparr>aq_response_channel = response_channel, aq_username = username, aq_password = password\<rparr>"

text \<open>The providers with their users.\<close>

datatype auth_provider =
    Password_Auth "(rstring, rstring) hmap"
  | Password_List_Auth "(rstring, rstring) hmap"
  | Test_Auth

definition password_auth_new :: auth_provider where
  "password_auth_new = Password_Auth []"

definition password_list_auth_new :: auth_provider where
  "password_list_auth_new = Password_List_Auth []"

text \<open>\<open>lines()\<close>: line feeds end lines, with a carriage return before them; what follows the last
  one is a line unless it is empty.\<close>

definition strip_cr :: "rstring \<Rightarrow> rstring" where
  "strip_cr l = (if l \<noteq> [] \<and> last l = 0x0D then butlast l else l)"

definition str_lines :: "rstring \<Rightarrow> rstring list" where
  "str_lines s =
     (let ps = split_at 0x0A s in map strip_cr (butlast ps) @ (if last ps = [] then [] else [last ps]))"

definition load_password_line :: "rstring \<Rightarrow> (rstring, rstring) hmap \<Rightarrow> (rstring, rstring) hmap" where
  "load_password_line user users =
     (let t = split_at 0x3A user in
      if length t \<noteq> 2 then users else hm_insert (t ! 0) (t ! 1) users)"

text \<open>\<open>read\<close> is \<open>fs::read_to_string\<close>; a file that cannot be read is only reported.\<close>

definition load_password_file :: "(rstring \<Rightarrow> rstring option) \<Rightarrow> rstring \<Rightarrow> (rstring, rstring) hmap \<Rightarrow> (rstring, rstring) hmap" where
  "load_password_file read filename users =
     (case read filename of
        Some content \<Rightarrow> fold load_password_line (str_lines content) users
      | None \<Rightarrow> users)"

definition load_passwords :: "global_state \<Rightarrow> (rstring, rstring) hmap \<Rightarrow> (rstring, rstring) hmap" where
  "load_passwords g users = fold (\<lambda>user. hm_insert (uc_username user) (uc_password user)) (get_users g) users"

text \<open>\<open>sha\<close> is the base 64 text of the SHA-1 digest.\<close>

definition check_sha_password :: "(rstring \<Rightarrow> rstring) \<Rightarrow> rstring \<Rightarrow> rstring \<Rightarrow> bool" where
  "check_sha_password sha password hash \<longleftrightarrow> sha password = hash"

definition password_auth_check :: "(rstring \<Rightarrow> rstring) \<Rightarrow> (rstring, rstring) hmap \<Rightarrow> rstring \<Rightarrow> rstring \<Rightarrow> return_code" where
  "password_auth_check sha users user password =
     (case map_of users user of
        Some hash \<Rightarrow>
          (case strip_prefix (ascii ''{SHA}'') hash of
             Some h \<Rightarrow> if check_sha_password sha password h then Accepted else BadUsernameOrPassword
           | None \<Rightarrow> BadUsernameOrPassword)
      | None \<Rightarrow> BadUsernameOrPassword)"

definition password_list_check :: "(rstring, rstring) hmap \<Rightarrow> rstring \<Rightarrow> rstring \<Rightarrow> return_code" where
  "password_list_check users user password =
     (case map_of users user of
        Some pwd \<Rightarrow> if password = pwd then Accepted else BadUsernameOrPassword
      | None \<Rightarrow> BadUsernameOrPassword)"

text \<open>\<open>initialize\<close>: no provider fails, the password file panics without its key in the configuration.\<close>

definition pwd_file_initialize :: "(rstring \<Rightarrow> rstring option) \<Rightarrow> global_state \<Rightarrow> (rstring, rstring) hmap \<Rightarrow> unit failure + (rstring, rstring) hmap" where
  "pwd_file_initialize read g users =
     (case get_string ''password_file'' g of
        Some filename \<Rightarrow> Inr (load_password_file read filename users)
      | None \<Rightarrow> Inl Panicked)"

definition pwd_list_initialize :: "global_state \<Rightarrow> (rstring, rstring) hmap \<Rightarrow> unit failure + (rstring, rstring) hmap" where
  "pwd_list_initialize g users = Inr (load_passwords g users)"

definition auth_initialize :: "(rstring \<Rightarrow> rstring option) \<Rightarrow> global_state \<Rightarrow> auth_provider \<Rightarrow> unit failure + auth_provider" where
  "auth_initialize read g self =
     (case self of
        Password_Auth users \<Rightarrow> map_sum id Password_Auth (pwd_file_initialize read g users)
      | Password_List_Auth users \<Rightarrow> map_sum id Password_List_Auth (pwd_list_initialize g users)
      | Test_Auth \<Rightarrow> Inr Test_Auth)"

definition pwd_file_check_password :: "(rstring \<Rightarrow> rstring) \<Rightarrow> (rstring, rstring) hmap \<Rightarrow> rstring \<Rightarrow> rstring \<Rightarrow> auth_response" where
  "pwd_file_check_password sha users user password =
     \<lparr>ar_return_code = password_auth_check sha users user password, ar_tenant = None\<rparr>"

definition pwd_list_check_password :: "(rstring, rstring) hmap \<Rightarrow> rstring \<Rightarrow> rstring \<Rightarrow> auth_response" where
  "pwd_list_check_password users user password =
     \<lparr>ar_return_code = password_list_check users user password, ar_tenant = None\<rparr>"

text \<open>\<open>BrokerId::test_broker\<close> names the tenant of a user without a name.\<close>

definition test_broker :: broker_id where
  "test_broker = \<lparr>bi_tenant_id = Some (ascii ''test_tenant''), bi_broker_id = ascii ''test_broker''\<rparr>"

definition test_check_password :: "rstring \<Rightarrow> auth_response" where
  "test_check_password user =
     (if user \<noteq> [] then \<lparr>ar_return_code = Accepted, ar_tenant = Some user\<rparr>
      else \<lparr>ar_return_code = Accepted, ar_tenant = bi_tenant_id test_broker\<rparr>)"

definition check_password :: "(rstring \<Rightarrow> rstring) \<Rightarrow> auth_provider \<Rightarrow> rstring \<Rightarrow> rstring \<Rightarrow> auth_response" where
  "check_password sha self user password =
     (case self of
        Password_Auth users \<Rightarrow> pwd_file_check_password sha users user password
      | Password_List_Auth users \<Rightarrow> pwd_list_check_password users user password
      | Test_Auth \<Rightarrow> test_check_password user)"

lemmas provider_defs = auth_initialize_def pwd_file_initialize_def pwd_list_initialize_def check_password_def
  pwd_file_check_password_def pwd_list_check_password_def test_check_password_def test_broker_def

section \<open>The service\<close>

text \<open>The provider of the configured method, ready to answer.\<close>

definition auth_process :: "(rstring \<Rightarrow> rstring option) \<Rightarrow> global_state \<Rightarrow> string failure + auth_provider" where
  "auth_process read g =
     (case get_string ''auth_method'' g of
        None \<Rightarrow> Inl (Failed ''Auth method not configured'')
      | Some auth_method \<Rightarrow>
          let auth_provider =
            (if auth_method = ascii ''pwdfile'' then password_auth_new
             else if auth_method = ascii ''pwdlist'' then password_list_auth_new
             else if auth_method = ascii ''test'' then Test_Auth
             else password_list_auth_new)
          in case auth_initialize read g auth_provider of
               Inl (Failed _) \<Rightarrow> Inl (Failed ''Error initializing auth provider'')
             | Inl Panicked \<Rightarrow> Inl Panicked
             | Inr auth_provider \<Rightarrow> Inr auth_provider)"

text \<open>The task: it answers each request over its channel and panics when the last sender is gone.\<close>

record 'w auth_task =
  at_response_log :: "(oneshot \<times> auth_response) list"
  at_world :: 'w

definition auth_answer :: "(oneshot \<Rightarrow> auth_response \<Rightarrow> 'w \<Rightarrow> bool \<times> 'w) \<Rightarrow> (rstring \<Rightarrow> rstring) \<Rightarrow> auth_provider \<Rightarrow>
    auth_request option \<Rightarrow> ('w auth_task, unit, unit) act" where
  "auth_answer send sha auth_provider msg =
     (case msg of
        Some msg \<Rightarrow>
          let auth_response = check_password sha auth_provider (aq_username msg) (aq_password msg) in
          (\<lambda>self. case send (aq_response_channel msg) auth_response (at_world self) of
             (True, w) \<Rightarrow> (Inr (), self\<lparr>at_response_log := at_response_log self @ [(aq_response_channel msg, auth_response)], at_world := w\<rparr>)
           | (False, w) \<Rightarrow> (Inr (), self\<lparr>at_world := w\<rparr>))
      | None \<Rightarrow> act_fail Panicked)"

definition auth_loop :: "(oneshot \<Rightarrow> auth_response \<Rightarrow> 'w \<Rightarrow> bool \<times> 'w) \<Rightarrow> (rstring \<Rightarrow> rstring) \<Rightarrow> auth_provider \<Rightarrow>
    auth_request option list \<Rightarrow> ('w auth_task, unit, unit) act" where
  "auth_loop send sha auth_provider requests = act_for requests (auth_answer send sha auth_provider)"

section \<open>What is accepted\<close>

text \<open>The entries of a password file, the later ones first.\<close>

definition password_entries :: "rstring \<Rightarrow> (rstring \<times> rstring) list" where
  "password_entries content =
     rev (concat (map (\<lambda>l. case split_at 0x3A l of [n, h] \<Rightarrow> [(n, h)] | _ \<Rightarrow> []) (str_lines content)))"

lemma map_of_fold_insert:
  "map_of (fold (\<lambda>x. hm_insert (f x) (g x)) xs m) = map_of (rev (map (\<lambda>x. (f x, g x)) xs) @ m)"
  by (induction xs arbitrary: m) (auto simp: map_add_def fun_eq_iff split: option.splits)

lemma map_of_password_lines:
  "map_of (fold load_password_line ls m) =
     map_of (rev (concat (map (\<lambda>l. case split_at 0x3A l of [n, h] \<Rightarrow> [(n, h)] | _ \<Rightarrow> []) ls)) @ m)"
proof (induction ls arbitrary: m)
  case (Cons l ls)
  show ?case
  proof (cases "length (split_at 0x3A l) = 2")
    case True
    then obtain n h where nh: "split_at 0x3A l = [n, h]" by (auto simp: numeral_2_eq_2 length_Suc_conv)
    then have "load_password_line l m = hm_insert n h m" by (simp add: load_password_line_def)
    with Cons.IH [of "hm_insert n h m"] show ?thesis by (simp add: nh fun_eq_iff map_add_def split: option.split)
  next
    case False
    then have "(case split_at 0x3A l of [n, h] \<Rightarrow> [(n, h)] | _ \<Rightarrow> []) = []" by (auto split: list.split)
    moreover have "load_password_line l m = m" using False by (simp add: load_password_line_def)
    ultimately show ?thesis using Cons.IH [of m] by simp
  qed
qed simp

lemma strip_prefix_Some: "strip_prefix p s = Some t \<longleftrightarrow> s = p @ t"
  by (auto simp: strip_prefix_def) (metis append_take_drop_id)

lemma password_auth_check_iff:
  "password_auth_check sha users user password =
     (if map_of users user = Some (ascii ''{SHA}'' @ sha password) then Accepted else BadUsernameOrPassword)"
proof (cases "map_of users user")
  case (Some hash)
  show ?thesis
    using strip_prefix_Some [of "ascii ''{SHA}''" hash]
    by (cases "strip_prefix (ascii ''{SHA}'') hash") (auto simp: password_auth_check_def Some check_sha_password_def)
qed (simp add: password_auth_check_def)

lemma password_list_check_iff:
  "password_list_check users user password = (if map_of users user = Some password then Accepted else BadUsernameOrPassword)"
  by (auto simp: password_list_check_def split: option.split)

text \<open>Who is let in, by the configuration: the users of the password file with their hashes, the
  users of the configuration with their passwords, or everybody.\<close>

definition known_user :: "(rstring \<Rightarrow> rstring option) \<Rightarrow> (rstring \<Rightarrow> rstring) \<Rightarrow> system_config \<Rightarrow> rstring \<Rightarrow> rstring \<Rightarrow> bool" where
  "known_user read sha c user password \<longleftrightarrow>
     (if sc_auth_method c = ascii ''pwdfile'' then
        (case read (sc_password_file c) of
           None \<Rightarrow> False
         | Some content \<Rightarrow> map_of (password_entries content) user = Some (ascii ''{SHA}'' @ sha password))
      else map_of (rev (map (\<lambda>u. (uc_username u, uc_password u)) (sc_users c))) user = Some password)"

definition granted :: "(rstring \<Rightarrow> rstring option) \<Rightarrow> (rstring \<Rightarrow> rstring) \<Rightarrow> system_config \<Rightarrow> rstring \<Rightarrow> rstring \<Rightarrow> auth_response" where
  "granted read sha c user password =
     (if sc_auth_method c = ascii ''test'' then
        \<lparr>ar_return_code = Accepted, ar_tenant = Some (if user = [] then ascii ''test_tenant'' else user)\<rparr>
      else \<lparr>ar_return_code = (if known_user read sha c user password then Accepted else BadUsernameOrPassword), ar_tenant = None\<rparr>)"

lemma ascii_methods [simp]:
  "ascii ''pwdfile'' \<noteq> ascii ''test''" "ascii ''pwdlist'' \<noteq> ascii ''test''"
  "ascii ''test'' \<noteq> ascii ''pwdfile''" "ascii ''test'' \<noteq> ascii ''pwdlist''"
  by (simp_all add: ascii_def)

lemma auth_process_grants:
  obtains auth_provider where "auth_process read g = Inr auth_provider"
    and "\<And>user password. check_password sha auth_provider user password = granted read sha (gc_config g) user password"
proof -
  consider (File) "sc_auth_method (gc_config g) = ascii ''pwdfile''" | (Test) "sc_auth_method (gc_config g) = ascii ''test''"
    | (List) "sc_auth_method (gc_config g) \<noteq> ascii ''pwdfile''" "sc_auth_method (gc_config g) \<noteq> ascii ''test''" by blast
  then show ?thesis
  proof cases
    case File
    let ?users = "load_password_file read (sc_password_file (gc_config g)) []"
    have "map_of ?users user = (case read (sc_password_file (gc_config g)) of None \<Rightarrow> None | Some content \<Rightarrow> map_of (password_entries content) user)" for user
      by (simp add: load_password_file_def map_of_password_lines password_entries_def split: option.split)
    then show ?thesis using File
      by (intro that [of "Password_Auth ?users"])
        (auto simp: auth_process_def get_string_def password_auth_new_def provider_defs granted_def
          known_user_def password_auth_check_iff split: option.split)
  next
    case Test
    then show ?thesis
      by (intro that [of Test_Auth])
        (auto simp: auth_process_def get_string_def provider_defs granted_def)
  next
    case List
    let ?users = "load_passwords g []"
    have "map_of ?users = map_of (rev (map (\<lambda>u. (uc_username u, uc_password u)) (sc_users (gc_config g))))"
      by (simp add: load_passwords_def get_users_def map_of_fold_insert)
    then show ?thesis using List
      by (intro that [of "Password_List_Auth ?users"])
        (auto simp: auth_process_def get_string_def password_list_auth_new_def provider_defs granted_def
          known_user_def password_list_check_iff)
  qed
qed

lemma auth_loop_answers:
  assumes "\<And>c r w. fst (send c r w)"
  shows "\<exists>w. auth_loop send sha auth_provider (map Some requests) self = (Inr (),
    self\<lparr>at_response_log := at_response_log self @ map (\<lambda>q. (aq_response_channel q,
      check_password sha auth_provider (aq_username q) (aq_password q))) requests, at_world := w\<rparr>)"
proof (induction requests arbitrary: self)
  case Nil
  show ?case by (intro exI [of _ "at_world self"]) (simp add: auth_loop_def)
next
  case (Cons q requests)
  let ?r = "check_password sha auth_provider (aq_username q) (aq_password q)"
  obtain w where w: "send (aq_response_channel q) ?r (at_world self) = (True, w)"
    using assms [of "aq_response_channel q" ?r "at_world self"] by (cases "send (aq_response_channel q) ?r (at_world self)") auto
  let ?self = "self\<lparr>at_response_log := at_response_log self @ [(aq_response_channel q, ?r)], at_world := w\<rparr>"
  have "auth_answer send sha auth_provider (Some q) self = (Inr (), ?self)" by (simp add: auth_answer_def Let_def w)
  moreover obtain w' where "auth_loop send sha auth_provider (map Some requests) ?self = (Inr (),
    ?self\<lparr>at_response_log := at_response_log ?self @ map (\<lambda>q. (aq_response_channel q,
      check_password sha auth_provider (aq_username q) (aq_password q))) requests, at_world := w'\<rparr>)"
    using Cons.IH [of ?self] by blast
  ultimately show ?case by (intro exI [of _ w']) (simp add: auth_loop_def act_bind_app)
qed

text \<open>C18: The authentication service starts with any configuration and answers every request, in order and over the
  request's own channel: accepted are the users of the password file with the hash of their password, or those of the
  configuration with their password (the last entry of a name counts), or everybody, by the configured method.\<close>

theorem auth_service_answers:
  assumes "\<And>c r w. fst (send c r w)"
  shows "\<exists>auth_provider w. auth_process read g = Inr auth_provider \<and>
    auth_loop send sha auth_provider (map Some requests) \<lparr>at_response_log = [], at_world = w0\<rparr> = (Inr (),
      \<lparr>at_response_log = map (\<lambda>q. (aq_response_channel q, granted read sha (gc_config g) (aq_username q) (aq_password q))) requests,
       at_world = w\<rparr>)"
proof -
  obtain auth_provider where p: "auth_process read g = Inr auth_provider"
    "\<And>user password. check_password sha auth_provider user password = granted read sha (gc_config g) user password"
    using auth_process_grants [of read g sha] by metis
  with auth_loop_answers [of send sha auth_provider requests "\<lparr>at_response_log = [], at_world = w0\<rparr>", OF assms]
  show ?thesis by auto
qed

definition sample_users :: global_state where
  "sample_users = (global_new [] [])\<lparr>gc_config := system_config_default\<lparr>sc_auth_method := ascii ''pwdlist'',
     sc_users := [\<lparr>uc_username = ascii ''user1'', uc_password = ascii ''a'', uc_tenant = None\<rparr>,
       \<lparr>uc_username = ascii ''user1'', uc_password = ascii ''b'', uc_tenant = Some (ascii ''t'')\<rparr>]\<rparr>\<rparr>"

lemma auth_service_answers_witness:
  "\<exists>auth_provider w. auth_process (\<lambda>_. None) sample_users = Inr auth_provider \<and>
    auth_loop (\<lambda>_ _ w. (True, w)) rev auth_provider [Some \<lparr>aq_response_channel = 7, aq_username = ascii ''user1'', aq_password = ascii ''b''\<rparr>,
      Some \<lparr>aq_response_channel = 8, aq_username = ascii ''user1'', aq_password = ascii ''a''\<rparr>]
      \<lparr>at_response_log = [], at_world = ()\<rparr> = (Inr (),
      \<lparr>at_response_log = [(7, \<lparr>ar_return_code = Accepted, ar_tenant = None\<rparr>),
         (8, \<lparr>ar_return_code = BadUsernameOrPassword, ar_tenant = None\<rparr>)], at_world = w\<rparr>)"
proof -
  let ?q = "\<lambda>c p. \<lparr>aq_response_channel = c, aq_username = ascii ''user1'', aq_password = ascii p\<rparr>"
  have "granted (\<lambda>_. None) rev (gc_config sample_users) (ascii ''user1'') (ascii ''b'') = \<lparr>ar_return_code = Accepted, ar_tenant = None\<rparr>"
    "granted (\<lambda>_. None) rev (gc_config sample_users) (ascii ''user1'') (ascii ''a'') = \<lparr>ar_return_code = BadUsernameOrPassword, ar_tenant = None\<rparr>"
    by code_simp+
  with auth_service_answers [of "\<lambda>_ _ w. (True, w)" "\<lambda>_. None" sample_users rev "[?q 7 ''b'', ?q 8 ''a'']" "()"]
  show ?thesis by simp
qed

end
