(* ===== verification/Server_Connect.thy ===== *)
theory Server_Connect
  imports Client_Worker Server_Auth Broker_Router
begin

text \<open>
  \<open>src/server/mod.rs\<close>: the listeners, the handshake of a connection, the brokers by tenant and the
  way of a connection to its session. Sockets, TLS, web sockets, the framed stream and the channels
  are an environment; what is sent is logged in the state of the connection.
\<close>

section \<open>Brokers\<close>

type_synonym broker_tx = nat

text \<open>The map the connections share, the next channel, and the broker tasks that were started.\<close>

record broker_map =
  bm_brokers :: "(broker_id, broker_tx) hmap"
  bm_next_tx :: broker_tx
  bm_started :: "(broker_tx \<times> broker_id) list"

definition broker_map_new :: broker_map where
  "broker_map_new = \<lparr>bm_brokers = [], bm_next_tx = 0, bm_started = []\<rparr>"

definition get_broker :: "broker_id \<Rightarrow> broker_map \<Rightarrow> (string + broker_tx) \<times> broker_map" where
  "get_broker bid self =
     (case map_of (bm_brokers self) bid of
        None \<Rightarrow>
          let broker_tx = bm_next_tx self in
          (Inr broker_tx, self\<lparr>bm_brokers := hm_insert bid broker_tx (bm_brokers self), bm_next_tx := broker_tx + 1,
             bm_started := bm_started self @ [(broker_tx, bid)]\<rparr>)
      | Some broker_tx \<Rightarrow> (Inr broker_tx, self))"

section \<open>State and environment of a connection\<close>

text \<open>What \<open>timeout(.., stream.next())\<close> gives: the time is over, or the stream's next frame, an error,
  or its end.\<close>

datatype first_frame = Elapsed | Next_Frame "(io_error + mqtt_message) option"

record 'w server_env =
  sv_next :: "nat \<Rightarrow> mqtt_codec \<Rightarrow> 'w \<Rightarrow> first_frame \<times> 'w"
  sv_stream_send :: "mqtt_message \<Rightarrow> 'w \<Rightarrow> bool \<times> 'w"
  sv_oneshot_channel :: "'w \<Rightarrow> oneshot \<times> 'w"
  sv_auth_send :: "auth_request \<Rightarrow> 'w \<Rightarrow> bool \<times> 'w"
  sv_auth_recv :: "oneshot \<Rightarrow> 'w \<Rightarrow> auth_response option \<times> 'w"
  sv_broker_send :: "broker_tx \<Rightarrow> broker_message \<Rightarrow> 'w \<Rightarrow> bool \<times> 'w"
  sv_session_recv :: "oneshot \<Rightarrow> 'w \<Rightarrow> session_tx option option \<times> 'w"
  sv_client_channel :: "'w \<Rightarrow> client_tx \<times> 'w"
  sv_session_send :: "session_tx \<Rightarrow> session_message \<Rightarrow> 'w \<Rightarrow> bool \<times> 'w"

record 'w connection =
  co_stream :: framed
  co_brokers :: broker_map
  co_auth_log :: "auth_request list"
  co_broker_log :: "(broker_tx \<times> broker_message) list"
  co_session_log :: "(session_tx \<times> session_message) list"
  co_world :: 'w

definition connection_new :: "broker_map \<Rightarrow> 'w \<Rightarrow> 'w connection" where
  "connection_new brokers w =
     \<lparr>co_stream = framed_new (codec_new 0), co_brokers = brokers, co_auth_log = [], co_broker_log = [], co_session_log = [], co_world = w\<rparr>"

type_synonym ('w, 'a) conn_act = "('w connection, unit, 'a) act"

definition connection_world :: "('w \<Rightarrow> 'a \<times> 'w) \<Rightarrow> ('w, 'a) conn_act" where
  "connection_world f self = (case f (co_world self) of (a, w) \<Rightarrow> (Inr a, self\<lparr>co_world := w\<rparr>))"

section \<open>The handshake\<close>

text \<open>A CONNACK with a return code; a failure to send it is only logged.\<close>

definition send_connack :: "'w server_env \<Rightarrow> return_code \<Rightarrow> ('w, unit) conn_act" where
  "send_connack env return_code =
     (let connack = connack_new\<lparr>cack_return_code := return_code\<rparr> in
      act_bind (connection_world (sv_stream_send env (ConnAck connack))) (\<lambda>sent.
      if sent then act_modify (\<lambda>self. self\<lparr>co_stream := (co_stream self)\<lparr>fr_sent := fr_sent (co_stream self) @ [ConnAck connack]\<rparr>\<rparr>)
      else act_return ()))"

definition server_connect_message :: "'w server_env \<Rightarrow> rstring \<Rightarrow> connect \<Rightarrow> ('w, (connect \<times> client) option) conn_act" where
  "server_connect_message env src_address msg =
     (if con_version msg \<noteq> MQTT311_VERSION then
        act_bind (send_connack env UnacceptableVersion) (\<lambda>_. act_return None)
      else if con_client msg = [] then
        act_bind (send_connack env IdentifierRejected) (\<lambda>_. act_return None)
      else
        let will = (if con_will msg then
            Some (will_message_new (con_willtopic msg) (con_willmsg msg) (con_willqos msg) (con_willretain msg)) else None) in
        act_bind (connection_world (sv_oneshot_channel env)) (\<lambda>conn_auth.
        let auth = auth_request_new (con_username msg) (con_password msg) conn_auth in
        act_bind (connection_world (sv_auth_send env auth)) (\<lambda>sent.
        if sent then
          act_bind (act_modify (\<lambda>self. self\<lparr>co_auth_log := co_auth_log self @ [auth]\<rparr>)) (\<lambda>_.
          act_bind (connection_world (sv_auth_recv env conn_auth)) (\<lambda>response.
          case response of
            Some auth_response \<Rightarrow>
              if ar_return_code auth_response = Accepted then
                let broker = \<lparr>bi_tenant_id = ar_tenant auth_response, bi_broker_id = ascii ''default''\<rparr> in
                act_bind (act_get co_stream) (\<lambda>stream.
                let client = client_new stream src_address broker (con_client msg) (con_keepalive msg) will
                in act_return (Some (msg, client)))
              else act_bind (send_connack env (ar_return_code auth_response)) (\<lambda>_. act_return None)
          | None \<Rightarrow> act_return None))
        else act_bind (send_connack env ServerUnavailable) (\<lambda>_. act_return None))))"

definition server_connect :: "'w server_env \<Rightarrow> global_state \<Rightarrow> rstring \<Rightarrow> ('w, (connect \<times> client) option) conn_act" where
  "server_connect env g src_address =
     act_bind (act_get (\<lambda>self. fr_codec (co_stream self))) (\<lambda>codec.
     act_bind (connection_world (sv_next env (get_connect_timeout g) codec)) (\<lambda>next_frame.
     case next_frame of
       Elapsed \<Rightarrow> act_return None
     | Next_Frame result \<Rightarrow>
         (case result of
            Some (Inr message) \<Rightarrow>
              (case message of
                 Connect msg \<Rightarrow> server_connect_message env src_address msg
               | _ \<Rightarrow> act_return None)
          | Some (Inl _) \<Rightarrow> act_return None
          | None \<Rightarrow> act_return None)))"

definition connection_broker :: "broker_id \<Rightarrow> ('w, string + broker_tx) conn_act" where
  "connection_broker bid self =
     (case get_broker bid (co_brokers self) of (r, brokers) \<Rightarrow> (Inr r, self\<lparr>co_brokers := brokers\<rparr>))"

text \<open>The session of a client that is let in: the broker is asked for its channel, the session is
  told of the client, and the client's worker runs, from a time and with the events it meets.\<close>

definition run_client_worker :: "('q, 'w) client_env \<Rightarrow> global_state \<Rightarrow> nat \<Rightarrow> (nat \<times> client_event) list \<Rightarrow>
    client \<Rightarrow> session_tx \<Rightarrow> client_tx \<Rightarrow> ('w, task_end \<times> ('q, 'w) client_worker) conn_act" where
  "run_client_worker cenv g now events client session_tx client_tx self =
     (case client_run_loop cenv g now events (client_worker_new cenv client session_tx client_tx (co_world self)) of
        (e, client_worker) \<Rightarrow> (Inr (e, client_worker), self\<lparr>co_world := cw_world client_worker\<rparr>))"

definition connect_session :: "'w server_env \<Rightarrow> ('q, 'w) client_env \<Rightarrow> global_state \<Rightarrow> nat \<Rightarrow> (nat \<times> client_event) list \<Rightarrow>
    connect \<Rightarrow> client \<Rightarrow> ('w, (task_end \<times> ('q, 'w) client_worker) option) conn_act" where
  "connect_session env cenv g now events connect_msg client =
     act_bind (connection_broker (cl_broker_id client)) (\<lambda>broker.
     case broker of
       Inl _ \<Rightarrow> act_return None
     | Inr broker_tx \<Rightarrow>
         act_bind (connection_world (sv_oneshot_channel env)) (\<lambda>session_auth.
         let session_request = \<lparr>sr_response_channel = session_auth, sr_session = cl_id client\<rparr> in
         act_bind (connection_world (sv_broker_send env broker_tx (GetSessionTx session_request))) (\<lambda>sent.
         if \<not> sent then act_return None
         else
           act_bind (act_modify (\<lambda>self. self\<lparr>co_broker_log := co_broker_log self @ [(broker_tx, GetSessionTx session_request)]\<rparr>)) (\<lambda>_.
           act_bind (connection_world (sv_session_recv env session_auth)) (\<lambda>session_response.
           case session_response of
             Some (Some session_tx) \<Rightarrow>
               act_bind (connection_world (sv_client_channel env)) (\<lambda>client_tx.
               let new_client = \<lparr>nc_msg = connect_msg, nc_client = client_tx\<rparr> in
               act_bind (connection_world (sv_session_send env session_tx (New_Client new_client))) (\<lambda>sent.
               if sent then
                 act_bind (act_modify (\<lambda>self. self\<lparr>co_session_log := co_session_log self @ [(session_tx, New_Client new_client)]\<rparr>)) (\<lambda>_.
                 act_bind (run_client_worker cenv g now events client session_tx client_tx) (\<lambda>r. act_return (Some r)))
               else act_return None))
           | Some None \<Rightarrow> act_return None
           | None \<Rightarrow> act_return None)))))"

definition connect_stream :: "'w server_env \<Rightarrow> ('q, 'w) client_env \<Rightarrow> global_state \<Rightarrow> rstring \<Rightarrow> nat \<Rightarrow> (nat \<times> client_event) list \<Rightarrow>
    ('w, (task_end \<times> ('q, 'w) client_worker) option) conn_act" where
  "connect_stream env cenv g src_address now events =
     (let pre_auth_limit = get_max_packet_size_unauthenticated g;
          post_auth_limit = get_max_packet_size g in
      act_bind (act_modify (\<lambda>self. self\<lparr>co_stream := framed_new (codec_new pre_auth_limit)\<rparr>)) (\<lambda>_.
      act_bind (server_connect env g src_address) (\<lambda>client_connect.
      case client_connect of
        Some (connect_msg, client) \<Rightarrow>
          let stream = cl_stream client;
              client = client\<lparr>cl_stream := stream\<lparr>fr_codec := set_max_packet_size post_auth_limit (fr_codec stream)\<rparr>\<rparr>
          in connect_session env cenv g now events connect_msg client
      | None \<Rightarrow> act_return None)))"

section \<open>Listeners\<close>

text \<open>The sockets with what is put around them.\<close>

datatype 's transport = Plain 's | Tls "'s transport" | Web_Socket "'s transport"

text \<open>The certificate files, the port (binding it may fail), and the two accepts, which fail or
  give the stream they make.\<close>

record ('s, 'k, 'c, 'f, 'w) listener_env =
  le_certificates :: "rstring \<Rightarrow> string + (string + 'c) list"
  le_private_key :: "rstring \<Rightarrow> string + 'k"
  le_single_cert :: "'c list \<Rightarrow> 'k \<Rightarrow> string + 'f"
  le_bind :: "u16 \<Rightarrow> 'w \<Rightarrow> bool \<times> 'w"
  le_tls_accept :: "'f \<Rightarrow> 's transport \<Rightarrow> 'w \<Rightarrow> bool \<times> 'w"
  le_ws_accept :: "'s transport \<Rightarrow> 'w \<Rightarrow> bool \<times> 'w"

fun collect_results :: "(string + 'c) list \<Rightarrow> string + 'c list" where
  "collect_results [] = Inr []"
| "collect_results (r # rs) = ebind r (\<lambda>c. ebind (collect_results rs) (\<lambda>cs. Inr (c # cs)))"

definition map_err :: "string \<Rightarrow> string + 'a \<Rightarrow> string + 'a" where
  "map_err context r = (case r of Inl f \<Rightarrow> Inl (context @ f) | Inr a \<Rightarrow> Inr a)"

definition ok_or :: "'a option \<Rightarrow> string \<Rightarrow> string + 'a" where
  "ok_or v e = (case v of Some a \<Rightarrow> Inr a | None \<Rightarrow> Inl e)"

definition create_tls_config :: "('s, 'k, 'c, 'f, 'w) listener_env \<Rightarrow> rstring option \<Rightarrow> rstring option \<Rightarrow> string + 'f" where
  "create_tls_config env tlscrt tlskey =
     ebind (ok_or tlscrt ''TLS certificate path is missing'') (\<lambda>certificate_path.
     ebind (ok_or tlskey ''TLS private key path is missing'') (\<lambda>key_path.
     ebind (map_err ''Error reading TLS certificate: '' (le_certificates env certificate_path)) (\<lambda>certificates.
     ebind (map_err ''Error parsing TLS certificate: '' (collect_results certificates)) (\<lambda>certificates.
     ebind (map_err ''Error reading TLS private key: '' (le_private_key env key_path)) (\<lambda>private_key.
     map_err ''Error configuring TLS: '' (le_single_cert env certificates private_key))))))"

text \<open>What the task of an accepted socket hands to \<open>connect_stream\<close>, if anything.\<close>

type_synonym ('s, 'w, 'a) listener_act = "('s transport list \<times> 'w, unit, 'a) act"

definition listener_world :: "('w \<Rightarrow> 'a \<times> 'w) \<Rightarrow> ('s, 'w, 'a) listener_act" where
  "listener_world f = (\<lambda>(served, w). case f w of (a, w) \<Rightarrow> (Inr a, served, w))"

definition serve_stream :: "'s transport \<Rightarrow> ('s, 'w, unit) listener_act" where
  "serve_stream stream = act_modify (\<lambda>(served, w). (served @ [stream], w))"

definition accept_socket :: "('s, 'k, 'c, 'f, 'w) listener_env \<Rightarrow> 'f option \<Rightarrow> bool \<Rightarrow> bool \<Rightarrow> 's \<Rightarrow> ('s, 'w, unit) listener_act" where
  "accept_socket env tls_acceptor tls ws sock =
     (if tls then
        act_bind (act_unwrap tls_acceptor) (\<lambda>acceptor.
        act_bind (listener_world (le_tls_accept env acceptor (Plain sock))) (\<lambda>ok.
        if ok then
          let tls_stream = Tls (Plain sock) in
          if ws then
            act_bind (listener_world (le_ws_accept env tls_stream)) (\<lambda>ok.
            if ok then serve_stream (Web_Socket tls_stream) else act_return ())
          else serve_stream tls_stream
        else act_return ()))
      else if ws then
        act_bind (listener_world (le_ws_accept env (Plain sock))) (\<lambda>ok.
        if ok then serve_stream (Web_Socket (Plain sock)) else act_return ())
      else serve_stream (Plain sock))"

text \<open>The listener with the results of its accepts; the task of a socket runs by itself, so that
  its panic ends that task only. A socket without a peer address is dropped.\<close>

fun listener_accept :: "('s, 'k, 'c, 'f, 'w) listener_env \<Rightarrow> 'f option \<Rightarrow> bool \<Rightarrow> bool \<Rightarrow> (string + 's \<times> bool) list \<Rightarrow> ('s, 'w, unit) listener_act" where
  "listener_accept env tls_acceptor tls ws [] = act_return ()"
| "listener_accept env tls_acceptor tls ws (Inl e # incoming) = listener_accept env tls_acceptor tls ws incoming"
| "listener_accept env tls_acceptor tls ws (Inr (sock, peer) # incoming) =
     act_bind (if peer then act_match (accept_socket env tls_acceptor tls ws sock) act_return (\<lambda>_. act_return ()) else act_return ()) (\<lambda>_.
     listener_accept env tls_acceptor tls ws incoming)"

definition create_listener :: "('s, 'k, 'c, 'f, 'w) listener_env \<Rightarrow> listener_config \<Rightarrow> (string + 's \<times> bool) list \<Rightarrow> ('s, 'w, unit) listener_act" where
  "create_listener env listener_config incoming =
     (let tls = (lc_tlskey listener_config \<noteq> None \<and> lc_tlscrt listener_config \<noteq> None);
          ws = lc_websocket listener_config;
          listen = (\<lambda>tls_acceptor.
            act_bind (listener_world (le_bind env (lc_port listener_config))) (\<lambda>bound.
            if bound then listener_accept env tls_acceptor tls ws incoming else act_fail Panicked))
      in if tls then
           (case create_tls_config env (lc_tlscrt listener_config) (lc_tlskey listener_config) of
              Inr config \<Rightarrow> listen (Some config)
            | Inl err \<Rightarrow> act_return ())
         else listen None)"

text \<open>\<open>MqttServer::listen\<close>: the provider of the authentication service, the listeners that are
  started, and the process that is ready.\<close>

definition server_listen :: "(rstring \<Rightarrow> rstring option) \<Rightarrow> (global_state, unit, auth_provider \<times> listener_config list) act" where
  "server_listen read g =
     (let listeners = get_listeners g in
      case auth_process read g of
        Inl _ \<Rightarrow> (Inl Panicked, g)
      | Inr auth_provider \<Rightarrow> (Inr (auth_provider, listeners), set_readyz g))"

end
