(* ===== verification/Server_Props.thy ===== *)
theory Server_Props
  imports Client_Props Server_Connect
begin

text \<open>
  The properties of the server: who is let in and who is refused how, what a connection reaches
  before its login, the brokers of the tenants, and what a listener with a certificate serves.
\<close>

section \<open>Login\<close>

text \<open>The authentication service answers each request as \<open>f\<close> says.\<close>

definition auth_answers_with :: "'w server_env \<Rightarrow> (rstring \<Rightarrow> rstring \<Rightarrow> auth_response) \<Rightarrow> bool" where
  "auth_answers_with env f \<longleftrightarrow>
     (\<forall>q w. fst (sv_auth_send env q w) \<and>
        fst (sv_auth_recv env (aq_response_channel q) (snd (sv_auth_send env q w))) = Some (f (aq_username q) (aq_password q)))"

definition connect_code :: "(rstring \<Rightarrow> rstring \<Rightarrow> auth_response) \<Rightarrow> connect \<Rightarrow> return_code" where
  "connect_code f m =
     (if con_version m \<noteq> 4 then UnacceptableVersion
      else if con_client m = [] then IdentifierRejected
      else ar_return_code (f (con_username m) (con_password m)))"

definition connected_client :: "(rstring \<Rightarrow> rstring \<Rightarrow> auth_response) \<Rightarrow> rstring \<Rightarrow> framed \<Rightarrow> connect \<Rightarrow> client" where
  "connected_client f src_address stream m =
     \<lparr>cl_broker_id = \<lparr>bi_tenant_id = ar_tenant (f (con_username m) (con_password m)), bi_broker_id = ascii ''default''\<rparr>,
      cl_id = con_client m, cl_src_address = src_address, cl_stream = stream, cl_keep_alive = con_keepalive m,
      cl_will = (if con_will m then Some \<lparr>wm_topic = con_willtopic m, wm_qos = con_willqos m, wm_retain = con_willretain m,
        wm_message = con_willmsg m\<rparr> else None)\<rparr>"

lemma connection_world_app: "connection_world f self = (Inr (fst (f (co_world self))), self\<lparr>co_world := snd (f (co_world self))\<rparr>)"
  by (simp add: connection_world_def split: prod.split)

text \<open>What the handshake leaves alone.\<close>

definition same_reach :: "'w connection \<Rightarrow> 'w connection \<Rightarrow> bool" where
  "same_reach s s' \<longleftrightarrow> co_brokers s' = co_brokers s \<and> co_broker_log s' = co_broker_log s \<and> co_session_log s' = co_session_log s \<and>
     fr_codec (co_stream s') = fr_codec (co_stream s)"

lemma send_connack_reach: "\<exists>s'. send_connack env c s = (Inr (), s') \<and> same_reach s s'"
  by (auto simp: send_connack_def act_bind_app connection_world_app same_reach_def Let_def)

lemma send_connack_sent:
  assumes "\<forall>m w. fst (sv_stream_send env m w)"
  shows "\<exists>s'. send_connack env c s = (Inr (), s') \<and>
    fr_sent (co_stream s') = fr_sent (co_stream s) @ [ConnAck (connack_new\<lparr>cack_return_code := c\<rparr>)]"
  using assms by (auto simp: send_connack_def act_bind_app connection_world_app Let_def)

lemma server_connect_message_outcome:
  assumes "auth_answers_with env f"
  shows "\<exists>s'. server_connect_message env src m s =
      (Inr (if connect_code f m = Accepted then Some (m, connected_client f src (co_stream s) m) else None), s') \<and> same_reach s s' \<and>
    (connect_code f m = Accepted \<longrightarrow> co_stream s' = co_stream s) \<and>
    ((\<forall>m w. fst (sv_stream_send env m w)) \<longrightarrow> fr_sent (co_stream s') = fr_sent (co_stream s) @
      (if connect_code f m = Accepted then [] else [ConnAck (connack_new\<lparr>cack_return_code := connect_code f m\<rparr>)]))"
proof -
  have refuse: "\<exists>s'. act_bind (send_connack env c) (\<lambda>_. act_return None) t = (Inr None, s') \<and> same_reach t s' \<and>
    ((\<forall>m w. fst (sv_stream_send env m w)) \<longrightarrow> fr_sent (co_stream s') = fr_sent (co_stream t) @ [ConnAck (connack_new\<lparr>cack_return_code := c\<rparr>)])" for c t
  proof -
    obtain s' where "send_connack env c t = (Inr (), s')" "same_reach t s'" using send_connack_reach by blast
    then show ?thesis using send_connack_sent [of env c t] by auto
  qed
  consider (version) "con_version m \<noteq> 4" | (noid) "con_version m = 4" "con_client m = []" | (login) "con_version m = 4" "con_client m \<noteq> []" by blast
  then show ?thesis
  proof cases
    case version
    then show ?thesis using refuse [of UnacceptableVersion s] by (auto simp: server_connect_message_def connect_code_def MQTT311_VERSION_def)
  next
    case noid
    then show ?thesis using refuse [of IdentifierRejected s] by (auto simp: server_connect_message_def connect_code_def MQTT311_VERSION_def)
  next
    case login
    let ?a = "f (con_username m) (con_password m)"
    obtain conn w1 where w1: "sv_oneshot_channel env (co_world s) = (conn, w1)" by fastforce
    let ?q = "auth_request_new (con_username m) (con_password m) conn"
    obtain w2 w3 where w: "sv_auth_send env ?q w1 = (True, w2)" "sv_auth_recv env conn w2 = (Some ?a, w3)"
      using assms unfolding auth_answers_with_def auth_request_new_def
      by (metis (mono_tags, lifting) auth_request.select_convs prod.collapse)
    let ?t = "s\<lparr>co_auth_log := co_auth_log s @ [?q], co_world := w3\<rparr>"
    have step: "server_connect_message env src m s =
      (if ar_return_code ?a = Accepted then (Inr (Some (m, connected_client f src (co_stream s) m)), ?t)
       else act_bind (send_connack env (ar_return_code ?a)) (\<lambda>_. act_return None) ?t)"
      using login w1 w by (simp add: server_connect_message_def MQTT311_VERSION_def act_bind_app connection_world_app
          connected_client_def client_new_def will_message_new_def Let_def)
    have code: "connect_code f m = ar_return_code ?a" using login by (simp add: connect_code_def)
    show ?thesis
    proof (cases "ar_return_code ?a = Accepted")
      case True
      then show ?thesis by (simp add: step code same_reach_def)
    next
      case False
      then show ?thesis using refuse [of "ar_return_code ?a" ?t] by (auto simp: step code same_reach_def)
    qed
  qed
qed

text \<open>C17: The first packet decides: a CONNECT of version 3.1.1 with a client identifier whose user and password
  the authentication service accepts is let in, to the broker of the tenant the service names and with the
  will and the keep-alive time of the packet; any other CONNECT is answered with one CONNACK that says why,
  and any other first frame, an error or the end of the time with nothing.\<close>

theorem connect_outcome:
  assumes "auth_answers_with env f" and "\<forall>m w. fst (sv_stream_send env m w)"
    and "sv_next env (get_connect_timeout g) (fr_codec (co_stream s)) (co_world s) = (first, w)"
  shows "\<exists>s'. server_connect env g src s = (Inr (case first of
        Next_Frame (Some (Inr (Connect m))) \<Rightarrow> if connect_code f m = Accepted then Some (m, connected_client f src (co_stream s) m) else None
      | _ \<Rightarrow> None), s') \<and>
    fr_sent (co_stream s') = fr_sent (co_stream s) @ (case first of
        Next_Frame (Some (Inr (Connect m))) \<Rightarrow> if connect_code f m = Accepted then [] else [ConnAck (connack_new\<lparr>cack_return_code := connect_code f m\<rparr>)]
      | _ \<Rightarrow> [])"
proof (cases "\<exists>m. first = Next_Frame (Some (Inr (Connect m)))")
  case True
  then obtain m where m: "first = Next_Frame (Some (Inr (Connect m)))" ..
  with assms(3) have "server_connect env g src s = server_connect_message env src m (s\<lparr>co_world := w\<rparr>)"
    by (simp add: server_connect_def act_bind_app connection_world_app)
  with server_connect_message_outcome [OF assms(1), of src m "s\<lparr>co_world := w\<rparr>"] m assms(2) show ?thesis by auto
next
  case False
  then have "server_connect env g src s = (Inr None, s\<lparr>co_world := w\<rparr>)"
    using assms(3) by (simp add: server_connect_def act_bind_app connection_world_app split: first_frame.split option.split sum.split mqtt_message.split)
  with False show ?thesis by (auto split: first_frame.split option.split sum.split mqtt_message.split)
qed


text \<open>A service that keeps the last request until its answer is fetched.\<close>

definition sample_server_env :: "first_frame \<Rightarrow> auth_request option server_env" where
  "sample_server_env first = \<lparr>sv_next = (\<lambda>_ _ w. (first, w)), sv_stream_send = (\<lambda>_ w. (True, w)), sv_oneshot_channel = (\<lambda>w. (4, w)),
     sv_auth_send = (\<lambda>q _. (True, Some q)),
     sv_auth_recv = (\<lambda>_ w. (map_option (\<lambda>q. granted (\<lambda>_. None) rev (gc_config sample_users) (aq_username q) (aq_password q)) w, w)),
     sv_broker_send = (\<lambda>_ _ w. (True, w)), sv_session_recv = (\<lambda>_ w. (Some (Some 2), w)), sv_client_channel = (\<lambda>w. (9, w)),
     sv_session_send = (\<lambda>_ _ w. (True, w))\<rparr>"

definition sample_granted :: "rstring \<Rightarrow> rstring \<Rightarrow> auth_response" where
  "sample_granted = granted (\<lambda>_. None) rev (gc_config sample_users)"

lemma sample_answers: "auth_answers_with (sample_server_env first) sample_granted"
  by (simp add: auth_answers_with_def sample_server_env_def sample_granted_def)

definition sample_login :: "string \<Rightarrow> connect" where
  "sample_login p = connect_new\<lparr>con_client := ascii ''c'', con_username := ascii ''user1'', con_password := ascii p, con_version := 4\<rparr>"

lemma sample_codes:
  "connect_code sample_granted (sample_login ''b'') = Accepted"
  "connect_code sample_granted (sample_login ''a'') = BadUsernameOrPassword"
  by code_simp+

lemma connect_outcome_witness:
  "\<exists>s'. server_connect (sample_server_env (Next_Frame (Some (Inr (Connect (sample_login ''a'')))))) sample_users [] (connection_new broker_map_new None) = (Inr None, s') \<and>
    fr_sent (co_stream s') = [ConnAck (connack_new\<lparr>cack_return_code := BadUsernameOrPassword\<rparr>)]"
proof -
  let ?first = "Next_Frame (Some (Inr (Connect (sample_login ''a''))))"
  have send: "\<forall>m w. fst (sv_stream_send (sample_server_env ?first) m w)" by (simp add: sample_server_env_def)
  have recv: "sv_next (sample_server_env ?first) (get_connect_timeout sample_users) (fr_codec (co_stream (connection_new broker_map_new None)))
      (co_world (connection_new broker_map_new None)) = (?first, None)"
    by (simp add: sample_server_env_def connection_new_def)
  show ?thesis using connect_outcome [OF sample_answers send recv, of "[]"]
    by (simp add: sample_codes) (simp add: connection_new_def framed_new_def)
qed

section \<open>What is reached\<close>

lemma get_broker_lookup: "get_broker bid m = (r, m') \<Longrightarrow> \<exists>tx. r = Inr tx \<and> map_of (bm_brokers m') bid = Some tx"
  by (auto simp: get_broker_def Let_def split: option.splits)

text \<open>The codec of a client's stream stays as it is.\<close>

definition keeps_codec :: "('q, 'w, 'a) client_act \<Rightarrow> bool" where
  "keeps_codec m \<longleftrightarrow> (\<forall>s. fr_codec (cl_stream (cw_client (snd (m s)))) = fr_codec (cl_stream (cw_client s)))"

lemma keeps_codec_bind: "keeps_codec m \<Longrightarrow> (\<And>a. keeps_codec (f a)) \<Longrightarrow> keeps_codec (act_bind m f)"
  by (auto simp: keeps_codec_def act_bind_def split: prod.split sum.split) (metis snd_conv)+

lemma keeps_codec_basic:
  "keeps_codec (act_return a)" "keeps_codec (act_fail e)" "keeps_codec (act_get g)" "keeps_codec (act_unwrap v)"
  "(\<And>s. fr_codec (cl_stream (cw_client (h s))) = fr_codec (cl_stream (cw_client s))) \<Longrightarrow> keeps_codec (act_modify h)"
  "keeps_codec m \<Longrightarrow> keeps_codec (act_try m)"
  "keeps_codec (client_stream_send env msg)" "keeps_codec (send_message_session env msg)"
  by (auto simp: keeps_codec_def act_try_def act_unwrap_def client_stream_send_def send_message_session_def Let_def
      split: option.split prod.split sum.split failure.split) (metis snd_conv)+


lemma keeps_codec_timers: "keeps_codec (reset_keepalive env now)" "keeps_codec (set_keepalive_timer env now)" "keeps_codec (disconnect_message env)"
    "keeps_codec (timer_event v)"
  unfolding reset_keepalive_def reset_timer_def set_keepalive_timer_def add_timer_def disconnect_message_def remove_timer_def timer_event_def Let_def
  by (auto intro!: keeps_codec_bind keeps_codec_basic split: option.split sum.split prod.split client_result.split)

lemma keeps_codec_load: "keeps_codec (load_settings g)"
  unfolding load_settings_def by (intro keeps_codec_bind keeps_codec_basic) auto

lemma keeps_codec_will: "keeps_codec (send_will env)"
  unfolding send_will_def Let_def by (auto intro!: keeps_codec_bind keeps_codec_basic split: option.split)

lemma keeps_codec_select: "keeps_codec (client_select env now e)"
proof -
  have "keeps_codec (client_rx_recv_event env m)" for m
    unfolding client_rx_recv_event_def by (cases m) (auto intro!: keeps_codec_bind keeps_codec_basic)
  moreover have "keeps_codec (client_recv_event env now m)" for m
    unfolding client_recv_event_def forward_to_session_def ping_request_message_def
    by (cases m) (auto intro!: keeps_codec_bind keeps_codec_basic keeps_codec_timers)
  ultimately show ?thesis
    unfolding client_select_def
    by (auto intro!: keeps_codec_bind keeps_codec_basic keeps_codec_timers split: client_event.split option.split sum.split prod.split)
qed

lemma client_loop_codec: "fr_codec (cl_stream (cw_client (snd (client_loop env es self)))) = fr_codec (cl_stream (cw_client self))"
proof (induction env es self rule: client_loop.induct)
  case (2 env now event events self)
  have "fr_codec (cl_stream (cw_client (snd (client_select env now event self)))) = fr_codec (cl_stream (cw_client self))"
    using keeps_codec_select [of env now event] by (simp add: keeps_codec_def)
  with "2.IH" show ?case by (cases "client_select env now event self") (auto split: sum.split failure.split)
qed simp

lemma client_run_loop_codec: "fr_codec (cl_stream (cw_client (snd (client_run_loop env g now es self)))) = fr_codec (cl_stream (cw_client self))"
proof -
  let ?start = "act_bind (load_settings g) (\<lambda>_. set_keepalive_timer env now)"
  have "keeps_codec ?start" by (intro keeps_codec_bind keeps_codec_load keeps_codec_timers)
  then have "fr_codec (cl_stream (cw_client (snd (client_loop env es (snd (?start self)))))) = fr_codec (cl_stream (cw_client self))"
    by (simp add: client_loop_codec keeps_codec_def)
  moreover have "fr_codec (cl_stream (cw_client (snd (send_will env t)))) = fr_codec (cl_stream (cw_client t))" for t
    using keeps_codec_will [of env] by (simp add: keeps_codec_def)
  ultimately show ?thesis
    by (simp add: client_run_loop_def case_prod_beta Let_def split: task_end.split)
qed

lemma client_worker_codec:
  "client_run_loop env g now es (client_worker_new env client tx ctx w) = (e, wk) \<Longrightarrow>
   fr_codec (cl_stream (cw_client wk)) = fr_codec (cl_stream client)"
  using client_run_loop_codec [of env g now es "client_worker_new env client tx ctx w"] by (simp add: client_worker_new_def)

text \<open>What the way to the session sends, and to whom.\<close>

lemma connect_session_reach:
  assumes "connect_session env cenv g now events m client s = (r, s')"
  shows "\<exists>tx conn. map_of (bm_brokers (co_brokers s')) (cl_broker_id client) = Some tx \<and>
      co_broker_log s' \<in> {co_broker_log s, co_broker_log s @ [(tx, GetSessionTx \<lparr>sr_response_channel = conn, sr_session = cl_id client\<rparr>)]}"
    and "\<exists>stx ctx. co_session_log s' \<in> {co_session_log s, co_session_log s @ [(stx, New_Client \<lparr>nc_msg = m, nc_client = ctx\<rparr>)]}"
    and "r = Inr (Some (e, wk)) \<Longrightarrow> fr_codec (cl_stream (cw_client wk)) = fr_codec (cl_stream client)"
proof -
  obtain b bm where b: "get_broker (cl_broker_id client) (co_brokers s) = (b, bm)" by fastforce
  then obtain tx where tx: "b = Inr tx" "map_of (bm_brokers bm) (cl_broker_id client) = Some tx" using get_broker_lookup by blast
  note run = assms [unfolded connect_session_def act_bind_app connection_broker_def connection_world_app run_client_worker_def b tx(1), simplified]
  show "\<exists>tx conn. map_of (bm_brokers (co_brokers s')) (cl_broker_id client) = Some tx \<and>
      co_broker_log s' \<in> {co_broker_log s, co_broker_log s @ [(tx, GetSessionTx \<lparr>sr_response_channel = conn, sr_session = cl_id client\<rparr>)]}"
    using run tx(2) by (auto simp: act_bind_app connection_world_app run_client_worker_def Let_def split: if_splits option.splits prod.splits)
  show "\<exists>stx ctx. co_session_log s' \<in> {co_session_log s, co_session_log s @ [(stx, New_Client \<lparr>nc_msg = m, nc_client = ctx\<rparr>)]}"
    using run by (auto simp: act_bind_app connection_world_app run_client_worker_def Let_def split: if_splits option.splits prod.splits)
  show "r = Inr (Some (e, wk)) \<Longrightarrow> fr_codec (cl_stream (cw_client wk)) = fr_codec (cl_stream client)"
    using run by (auto simp: act_bind_app connection_world_app run_client_worker_def Let_def
        split: if_splits option.splits prod.splits dest!: client_worker_codec)
qed


text \<open>C9: A connection reaches nothing before its login: if it asks a broker, starts one or reaches a session,
  then its first frame, which the decoder took with the limit for clients that are not logged in, was a CONNECT that
  the authentication service accepted; what it asks for then is the session of its client identifier, of the
  broker of the tenant the service named, and only then the limit of its decoder is the one for clients.\<close>

theorem no_session_without_login:
  assumes "auth_answers_with env f" and "connect_stream env cenv g src now events s = (r, s')"
    and "co_brokers s' \<noteq> co_brokers s \<or> co_broker_log s' \<noteq> co_broker_log s \<or> co_session_log s' \<noteq> co_session_log s \<or> r = Inr (Some (e, wk))"
  shows "\<exists>m w tx conn stx ctx.
    sv_next env (get_connect_timeout g) (codec_new (get_max_packet_size_unauthenticated g)) (co_world s) = (Next_Frame (Some (Inr (Connect m))), w) \<and>
    con_version m = 4 \<and> con_client m \<noteq> [] \<and> ar_return_code (f (con_username m) (con_password m)) = Accepted \<and>
    map_of (bm_brokers (co_brokers s')) \<lparr>bi_tenant_id = ar_tenant (f (con_username m) (con_password m)), bi_broker_id = ascii ''default''\<rparr> = Some tx \<and>
    co_broker_log s' \<in> {co_broker_log s, co_broker_log s @ [(tx, GetSessionTx \<lparr>sr_response_channel = conn, sr_session = con_client m\<rparr>)]} \<and>
    co_session_log s' \<in> {co_session_log s, co_session_log s @ [(stx, New_Client \<lparr>nc_msg = m, nc_client = ctx\<rparr>)]} \<and>
    (r = Inr (Some (e, wk)) \<longrightarrow> fr_codec (cl_stream (cw_client wk)) = codec_new (get_max_packet_size g))"
proof -
  let ?pre = "codec_new (get_max_packet_size_unauthenticated g)"
  let ?s = "s\<lparr>co_stream := framed_new ?pre\<rparr>"
  obtain first w where first: "sv_next env (get_connect_timeout g) ?pre (co_world s) = (first, w)" by fastforce
  let ?t = "?s\<lparr>co_world := w\<rparr>"
  have connect: "server_connect env g src ?s = (case first of Next_Frame (Some (Inr (Connect m))) \<Rightarrow> server_connect_message env src m ?t | _ \<Rightarrow> (Inr None, ?t))"
    using first by (simp add: server_connect_def act_bind_app connection_world_app framed_new_def
        split: first_frame.split option.split sum.split mqtt_message.split)
  obtain m where m: "first = Next_Frame (Some (Inr (Connect m)))"
  proof (rule ccontr)
    assume "\<not> thesis"
    with that have "server_connect env g src ?s = (Inr None, ?t)"
      unfolding connect by (auto split: first_frame.split option.split sum.split mqtt_message.split)
    with assms(2,3) show False by (auto simp: connect_stream_def act_bind_app Let_def)
  qed
  have stream: "co_stream ?t = framed_new ?pre" by simp
  obtain s1 where s1: "server_connect env g src ?s =
      (Inr (if connect_code f m = Accepted then Some (m, connected_client f src (framed_new ?pre) m) else None), s1)" "same_reach ?t s1"
    using server_connect_message_outcome [OF assms(1), of src m ?t, unfolded stream] unfolding connect m by auto
  have code: "connect_code f m = Accepted"
  proof (rule ccontr)
    assume "connect_code f m \<noteq> Accepted"
    with s1 assms(2,3) show False by (auto simp: connect_stream_def act_bind_app Let_def same_reach_def)
  qed
  let ?client = "(connected_client f src (framed_new ?pre) m)\<lparr>cl_stream := framed_new (codec_new (get_max_packet_size g))\<rparr>"
  have run: "connect_session env cenv g now events m ?client s1 = (r, s')"
    using assms(2) s1(1) code
    by (simp add: connect_stream_def act_bind_app Let_def connected_client_def set_max_packet_size_def codec_new_def framed_new_def)
  have client: "cl_id ?client = con_client m" "cl_stream ?client = framed_new (codec_new (get_max_packet_size g))"
    "cl_broker_id ?client = \<lparr>bi_tenant_id = ar_tenant (f (con_username m) (con_password m)), bi_broker_id = ascii ''default''\<rparr>"
    by (simp_all add: connected_client_def)
  from code have accepted: "con_version m = 4" "con_client m \<noteq> []" "ar_return_code (f (con_username m) (con_password m)) = Accepted"
    by (auto simp: connect_code_def split: if_splits)
  from connect_session_reach(1,2) [OF run] connect_session_reach(3) [OF run] s1(2) accepted show ?thesis
    unfolding client first m by (fastforce simp: same_reach_def framed_new_def)
qed


lemma no_session_without_login_witness:
  "\<exists>m w. sv_next (sample_server_env (Next_Frame (Some (Inr (Connect (sample_login ''b'')))))) (get_connect_timeout sample_users)
      (codec_new (get_max_packet_size_unauthenticated sample_users)) None = (Next_Frame (Some (Inr (Connect m))), w) \<and>
    con_version m = 4 \<and> con_client m \<noteq> [] \<and> ar_return_code (sample_granted (con_username m) (con_password m)) = Accepted"
proof -
  let ?env = "sample_server_env (Next_Frame (Some (Inr (Connect (sample_login ''b'')))))"
  let ?cenv = "\<lparr>dq_new = (), dq_insert = (\<lambda>_ _ _ q. (0, q)), dq_reset = (\<lambda>_ _ _ q. Some q), dq_remove = (\<lambda>_ q. Some q),
     dq_is_empty = (\<lambda>_. True), dq_next = (\<lambda>_ q. (None, q)), ce_stream_send = (\<lambda>_ w. (None, w)), ce_session_send = (\<lambda>_ _ w. (None, w))\<rparr> ::
     (unit, auth_request option) client_env"
  let ?s = "connection_new broker_map_new None"
  let ?run = "connect_stream ?env ?cenv sample_users [] 0 [] ?s"
  have brokers: "bm_started (co_brokers (snd ?run)) = [(0, \<lparr>bi_tenant_id = None, bi_broker_id = ascii ''default''\<rparr>)]" by code_simp
  then have ne: "co_brokers (snd ?run) \<noteq> co_brokers ?s" by (auto simp: connection_new_def broker_map_new_def)
  have world: "co_world ?s = None" by (simp add: connection_new_def)
  from no_session_without_login [OF sample_answers prod.collapse [symmetric, of ?run] disjI1 [OF ne],
      where e = Waiting and wk = "client_worker_new ?cenv sample_client 0 0 None"]
  show ?thesis unfolding world by blast
qed

section \<open>Brokers\<close>

inductive broker_reach :: "broker_map \<Rightarrow> bool" where
  init: "broker_reach broker_map_new"
| get: "broker_reach m \<Longrightarrow> get_broker bid m = (r, m') \<Longrightarrow> broker_reach m'"

definition brokers_ok :: "broker_map \<Rightarrow> bool" where
  "brokers_ok m \<longleftrightarrow> (\<forall>bid tx. map_of (bm_brokers m) bid = Some tx \<longleftrightarrow> (tx, bid) \<in> set (bm_started m)) \<and>
     distinct (map fst (bm_started m)) \<and> distinct (map snd (bm_started m)) \<and> (\<forall>tx\<in>fst ` set (bm_started m). tx < bm_next_tx m)"

lemma get_broker_started:
  assumes "brokers_ok m" and "get_broker bid m = (r, m')"
  shows "brokers_ok m' \<and> bm_started m' = bm_started m @ (if bid \<in> snd ` set (bm_started m) then [] else [(bm_next_tx m, bid)])"
proof (cases "map_of (bm_brokers m) bid")
  case None
  have "\<And>tx. (tx, bid) \<notin> set (bm_started m)" using assms(1) None unfolding brokers_ok_def by (metis option.simps(3))
  then have new: "bid \<notin> snd ` set (bm_started m)" by auto
  have fresh: "bm_next_tx m \<notin> fst ` set (bm_started m)" using assms(1) unfolding brokers_ok_def by (metis less_irrefl)
  have m': "m' = m\<lparr>bm_brokers := hm_insert bid (bm_next_tx m) (bm_brokers m), bm_next_tx := bm_next_tx m + 1,
      bm_started := bm_started m @ [(bm_next_tx m, bid)]\<rparr>"
    using assms(2) None by (simp add: get_broker_def Let_def)
  have "map_of (bm_brokers m') b = Some tx \<longleftrightarrow> (tx, b) \<in> set (bm_started m')" for b tx
    using assms(1) new unfolding brokers_ok_def m' by (cases "b = bid") (auto simp: image_iff)
  then show ?thesis using assms(1) new fresh unfolding brokers_ok_def m' by (auto simp: less_Suc_eq)
next
  case (Some tx)
  then have "bid \<in> snd ` set (bm_started m)" using assms(1) unfolding brokers_ok_def by (metis image_eqI snd_conv)
  then show ?thesis using assms Some by (simp add: get_broker_def)
qed

text \<open>C19: Every tenant has one broker: over all the connections of the process a broker task is started at most once
  for an id, and every connection of the id gets the channel of that task.\<close>

theorem one_broker_per_tenant:
  assumes "broker_reach m" and "get_broker bid m = (r, m')"
  shows "distinct (map snd (bm_started m')) \<and> distinct (map fst (bm_started m')) \<and>
    (\<exists>tx. r = Inr tx \<and> (tx, bid) \<in> set (bm_started m')) \<and>
    bm_started m' = bm_started m @ (if bid \<in> snd ` set (bm_started m) then [] else [(bm_next_tx m, bid)])"
proof -
  have "brokers_ok broker_map_new" by (simp add: broker_map_new_def brokers_ok_def)
  with assms(1) have m: "brokers_ok m" by induction (blast dest: get_broker_started)+
  from get_broker_started [OF this assms(2)] have m': "brokers_ok m'" and started: "bm_started m' = bm_started m @
      (if bid \<in> snd ` set (bm_started m) then [] else [(bm_next_tx m, bid)])" by blast+
  obtain tx where "r = Inr tx" "(tx, bid) \<in> set (bm_started m')"
    using get_broker_lookup [OF assms(2)] m' by (auto simp: brokers_ok_def)
  then show ?thesis using m' started by (simp add: brokers_ok_def)
qed

lemma one_broker_per_tenant_witness:
  "bm_started (snd (get_broker \<lparr>bi_tenant_id = None, bi_broker_id = []\<rparr> (snd (get_broker \<lparr>bi_tenant_id = None, bi_broker_id = []\<rparr> broker_map_new)))) =
    [(0, \<lparr>bi_tenant_id = None, bi_broker_id = []\<rparr>)]"
proof -
  let ?b = "\<lparr>bi_tenant_id = None, bi_broker_id = []\<rparr>"
  let ?m = "snd (get_broker ?b broker_map_new)"
  have "broker_reach ?m" by (rule broker_reach.get [OF broker_reach.init prod.collapse [symmetric]])
  from one_broker_per_tenant [OF this prod.collapse [symmetric]] show ?thesis
    by (simp add: get_broker_def broker_map_new_def)
qed

text \<open>A broker whose task has ended stays in the map: the connections of its tenant are dropped.\<close>

lemma dead_broker_kept:
  assumes "map_of (bm_brokers (co_brokers s)) (cl_broker_id client) = Some tx" and "\<forall>q w. \<not> fst (sv_broker_send env tx q w)"
  shows "\<exists>s'. connect_session env cenv g now events m client s = (Inr None, s') \<and> co_brokers s' = co_brokers s \<and>
    fr_sent (co_stream s') = fr_sent (co_stream s)"
  using assms by (simp add: connect_session_def act_bind_app connection_broker_def get_broker_def connection_world_app Let_def)

section \<open>Listeners\<close>

definition under_tls :: "'s transport \<Rightarrow> bool" where
  "under_tls t \<longleftrightarrow> (\<exists>sock. t = Tls (Plain sock) \<or> t = Web_Socket (Tls (Plain sock)))"

definition served_tls :: "'s transport list \<times> 'w \<Rightarrow> bool" where
  "served_tls s \<longleftrightarrow> (\<forall>t\<in>set (fst s). under_tls t)"

lemma served_tls_rules:
  "act_hoare served_tls (listener_world f) (\<lambda>_. served_tls) E"
  "under_tls t \<Longrightarrow> act_hoare served_tls (serve_stream t) (\<lambda>_. served_tls) E"
  "act_hoare served_tls (act_unwrap a) (\<lambda>_. served_tls) (\<lambda>_. served_tls)"
  by (cases a; auto simp: act_hoare_def listener_world_def serve_stream_def served_tls_def split: prod.split)+

lemma accept_socket_tls: "act_hoare served_tls (accept_socket env a True ws sock) (\<lambda>_. served_tls) (\<lambda>_. served_tls)"
  unfolding accept_socket_def Let_def if_True
  by (rule served_tls_rules act_hoare_if act_hoare_return act_hoare_bind | simp add: under_tls_def)+

lemma listener_accept_tls: "act_hoare served_tls (listener_accept env a True ws incoming) (\<lambda>_. served_tls) (\<lambda>_. served_tls)"
proof (induction env a True ws incoming rule: listener_accept.induct)
  case (3 env a ws sock peer incoming)
  have "act_hoare served_tls (if peer then act_match (accept_socket env a True ws sock) act_return (\<lambda>_. act_return ()) else act_return ())
      (\<lambda>_. served_tls) (\<lambda>_. served_tls)"
    by (intro act_hoare_if act_hoare_match [OF accept_socket_tls] act_hoare_return)
  then show ?case unfolding listener_accept.simps by (rule act_hoare_bind) (rule 3)
qed (simp_all add: act_hoare_return)

text \<open>C20: A listener that is configured with a key and a certificate serves no connection outside TLS, and if its
  certificate or its key cannot be loaded it serves none and does not listen.\<close>

theorem tls_listener_only_tls:
  assumes "lc_tlskey cfg \<noteq> None" and "lc_tlscrt cfg \<noteq> None"
    and "create_listener env cfg incoming ([], w) = (r, served, w')"
  shows "(\<forall>t\<in>set served. \<exists>sock. t = Tls (Plain sock) \<or> t = Web_Socket (Tls (Plain sock))) \<and>
    ((\<exists>err. create_tls_config env (lc_tlscrt cfg) (lc_tlskey cfg) = Inl err) \<longrightarrow> served = [] \<and> w' = w)"
proof (cases "create_tls_config env (lc_tlscrt cfg) (lc_tlskey cfg)")
  case (Inl err)
  then show ?thesis using assms by (simp add: create_listener_def)
next
  case (Inr config)
  let ?listen = "act_bind (listener_world (le_bind env (lc_port cfg))) (\<lambda>bound.
    if bound then listener_accept env (Some config) True (lc_websocket cfg) incoming else act_fail Panicked)"
  have "act_hoare served_tls ?listen (\<lambda>_. served_tls) (\<lambda>_. served_tls)"
    by (rule served_tls_rules act_hoare_if listener_accept_tls act_hoare_fail act_hoare_bind | simp)+
  moreover have "?listen ([], w) = (r, served, w')" using assms Inr by (simp add: create_listener_def)
  ultimately have "served_tls (served, w')"
    using act_hoareD [of served_tls ?listen "\<lambda>_. served_tls" "\<lambda>_. served_tls" "([], w)"] by (cases r) (auto simp: served_tls_def)
  then show ?thesis by (simp add: Inr served_tls_def under_tls_def)
qed

definition sample_listener_env :: "(nat, unit, unit, unit, unit) listener_env" where
  "sample_listener_env = \<lparr>le_certificates = (\<lambda>_. Inr [Inr ()]), le_private_key = (\<lambda>_. Inr ()), le_single_cert = (\<lambda>_ _. Inr ()),
     le_bind = (\<lambda>_ w. (True, w)), le_tls_accept = (\<lambda>_ s w. (s \<noteq> Plain 2, w)), le_ws_accept = (\<lambda>_ w. (True, w))\<rparr>"

definition sample_listener :: "rstring option \<Rightarrow> rstring option \<Rightarrow> listener_config" where
  "sample_listener key crt = \<lparr>lc_port = 8883, lc_websocket = True, lc_tlscrt = crt, lc_tlskey = key\<rparr>"

definition sample_served :: "listener_config \<Rightarrow> nat transport list" where
  "sample_served cfg = fst (snd (create_listener sample_listener_env cfg [Inr (1, True), Inr (2, True), Inl ''error'', Inr (3, True)] ([], ())))"

lemma tls_listener_only_tls_witness:
  "sample_served (sample_listener (Some []) (Some [])) = [Web_Socket (Tls (Plain 1)), Web_Socket (Tls (Plain 3))] \<and>
   list_all (\<lambda>t. \<exists>sock. t = Tls (Plain sock) \<or> t = Web_Socket (Tls (Plain sock))) (sample_served (sample_listener (Some []) (Some [])))"
proof (intro conjI)
  let ?l = "sample_listener (Some []) (Some [])"
  let ?run = "create_listener sample_listener_env ?l [Inr (1, True), Inr (2, True), Inl ''error'', Inr (3, True)] ([], ())"
  have key: "lc_tlskey ?l \<noteq> None" and crt: "lc_tlscrt ?l \<noteq> None" by (simp_all add: sample_listener_def)
  have run: "?run = (fst ?run, fst (snd ?run), snd (snd ?run))" by (simp only: prod.collapse)
  show "list_all (\<lambda>t. \<exists>sock. t = Tls (Plain sock) \<or> t = Web_Socket (Tls (Plain sock))) (sample_served ?l)"
    unfolding sample_served_def list_all_iff by (rule conjunct1 [OF tls_listener_only_tls [OF key crt run]])
qed code_simp

text \<open>With one of the two only, the connections are served as they come.\<close>

lemma half_tls_serves_plaintext:
  assumes "(lc_tlskey cfg = None) \<noteq> (lc_tlscrt cfg = None)" and "\<not> lc_websocket cfg" and "fst (le_bind env (lc_port cfg) w)"
  shows "fst (snd (create_listener env cfg [Inr (sock, True)] ([], w))) = [Plain sock]"
  using assms by (auto simp: create_listener_def act_bind_app listener_world_def act_match_def accept_socket_def serve_stream_def
      split: prod.split)

end
