(* ===== verification/Spec2Isabelle.thy ===== *)
theory Spec2Isabelle
  imports Sql_Tenant Server_Props
begin

text \<open>
  A model of \<open>squillion-mqtt\<close>, an MQTT 3.1.1 broker in Rust (\<open>src/src\<close>), and the theorems that make
  its parts correct.

  \<^bold>\<open>The program.\<close> A listener (\<open>server/mod.rs\<close>) accepts connections, puts TLS and web sockets around
  them, and reads the first packet through the codec (\<open>messages/codec.rs\<close>). A CONNECT goes to the
  authentication service (\<open>auth\<close>), whose answer names a tenant. Each tenant has one broker task
  (\<open>broker/mod.rs\<close>), which starts the tenant's message router (\<open>broker/router.rs\<close>) and hands out the
  channels of its sessions (\<open>sessions/mod.rs\<close>). The router owns the topic tree (\<open>broker/topics.rs\<close>); a
  session worker (\<open>sessions/sessionworker.rs\<close>) owns one session, with its queue of unacknowledged
  messages; a client worker (\<open>client/clientworker.rs\<close>) owns one connection. The workers talk over
  unbounded channels. Tree and sessions are kept in a SQLite database (\<open>broker/persistsql.rs\<close>,
  \<open>sessions/persistsql.rs\<close>), or nowhere (the two \<open>persisttest.rs\<close>).

  \<^bold>\<open>How it is modelled.\<close>
  \<^item> A method with \<open>&mut self\<close> is an \<open>act\<close> of \<open>Mqtt_Prelude\<close>: a function from the state to a result and
    the state after it. The result is a value, an error of the method's own type, or a panic; an error
    does not roll the state back. Triples \<open>act_hoare\<close> carry the proofs about invariants.
  \<^item> A struct is a record, an enum a datatype, \<open>u8\<close> and \<open>u16\<close> are words, \<open>usize\<close> is \<open>nat\<close>, the \<open>i32\<close> and
    \<open>i64\<close> of the database are \<open>int\<close>, a \<open>String\<close> is its UTF-8 bytes and a \<open>HashMap\<close> an association list
    with distinct keys, iterated in list order.
  \<^item> What a task sends is logged in its record; a channel, a one-shot channel and the like are numbers.
    Whether a channel takes a message, what comes back over it, the sockets, TLS, the framed stream, the
    timer queue, the pool and the clock are environments: records of functions that are arguments of the
    definitions, over a state of the world they thread through. A hypothesis of a theorem on one of them
    has a name (\<open>client_channels_work\<close>, \<open>delay_queue_works\<close>, \<open>sql_works\<close>, \<open>auth_answers_with\<close>,
    \<open>reports_failures\<close>, \<open>storage_works\<close>) and a witness with a concrete environment.
  \<^item> A task's loop is a function on the list of what it receives and says how it ended: \<open>Waiting\<close> for more,
    \<open>Stopped\<close>, or \<open>Crashed\<close> by a panic. A handler runs to its end before the next one of the same task, as
    in the code; the tasks of a tenant interleave handler by handler, since its registry is only used under
    its lock and everything else is sent. So no fuel is needed: every function here is total.

  \<^bold>\<open>Packets.\<close> \<open>Rust_Utf8\<close> is \<open>String::from_utf8\<close>, \<open>Msg_Length\<close> \<open>messages/length.rs\<close>, \<open>Msg_Reader\<close>
  \<open>reader.rs\<close>, \<open>Msg_Validation\<close> \<open>validation.rs\<close>, \<open>Msg_Types\<close> and \<open>Msg_Parse\<close> the messages of
  \<open>messages/mod.rs\<close> with their \<open>to_bytes\<close> and \<open>from_bytes\<close>, \<open>Msg_Codec\<close> \<open>codec.rs\<close>. The length field is the
  protocol's base 128 number; each parser accepts exactly the frames that \<open>Msg_Roundtrip\<close> describes; what the encoder
  writes is decoded again, however the bytes are cut, within the packet limit and in at most one call for
  two bytes; what is decoded is well formed. On non-ASCII strings the validation is wrong, with examples.

  \<^bold>\<open>Topics and router.\<close> \<open>Broker_Persist\<close> is the storage trait, \<open>Broker_Topics\<close> the tree, with every call to
  the storage in its place, \<open>Router_Msgs\<close> and \<open>Broker_Router\<close> the router and the broker task. \<open>Topics_Laws\<close> shows the
  tree as two maps, from filters to subscribers and from topics to retained messages, and every operation as an
  update of them; \<open>Topics_Match\<close> shows that \<open>get_subscribed\<close> finds exactly the matching filters, and what
  subscribing, unsubscribing, retaining and loading do; \<open>Router_Props\<close> shows how a message reaches its subscribers,
  that requests are answered, and that a reachable router does not panic and can be started again. The locale
  \<open>topic_storage\<close> of \<open>Topic_Storage\<close> says what the tree relies on in its storage and proves once that every operation
  keeps tree and storage in step; \<open>Topic_Reload\<close> that the tree loaded from it is then the one that was there.

  \<^bold>\<open>Sessions.\<close> \<open>Sess_Persist\<close> is the storage trait, \<open>Sess_Worker\<close> the worker with all its handlers, \<open>Sess_Registry\<close>
  the registry. \<open>Sess_Queue\<close> says when the queue of a session is in order and what each operation does to it.
  The locale \<open>session_contract\<close> of \<open>Sess_Contract\<close> says what an invariant of the worker has to survive and proves once
  that every handler and the loop keep it; \<open>Sess_Inv\<close> gives it the order of the queue, exactly-once receipt of QoS 2
  messages, the presence of a message until its acknowledgement, and the errors that are left. \<open>Sess_Redelivery\<close> is the start
  and the reconnection of a client. \<open>Sess_Props\<close> has the properties.

  \<^bold>\<open>SQL storage.\<close> \<open>Sql_Db\<close> has the tables and the pool's client with its errors, \<open>Broker_Sql\<close> and \<open>Sess_Sql\<close> the methods
  of the two providers, statement by statement; a statement is the function on the rows that its text
  describes. \<open>Sql_Laws\<close> is the case that nothing fails, \<open>Sql_Schema\<close> the invariant of the tables. The locale
  \<open>session_storage\<close> of \<open>Sess_Storage\<close> says what the worker relies on and proves once that a session that
  is started again goes on where it was; \<open>Sql_Session\<close> shows that the provider over SQL keeps that
  promise, \<open>Sql_Topics\<close> and \<open>Sql_Retained\<close> that the other provider keeps those of \<open>topic_storage\<close>, and
  \<open>Sql_Props\<close> draws the conclusions for one session and for one tree.

  \<^bold>\<open>A tenant.\<close> Router and sessions share one database. \<open>Sql_Frames\<close> shows which rows a call of a session can change,
  \<open>Sql_Shared\<close> that both providers still keep their promises when these also say that the rows of everybody else
  stay. \<open>Sql_Tenant\<close> has the creation of the schema and the life of a tenant: the broker task starts the
  router, sessions are opened and handle messages, the router handles what they send, and both are started
  again, handler by handler in any order. Throughout, tree, workers and tables are in step, so that at any
  time a new broker goes on where the old one was. This is for a database that works (\<open>sql_works\<close>); a call
  can still fail, when an id does not fit its type, and the life that is described ends there.

  \<^bold>\<open>Connections.\<close> \<open>Server_Config\<close> is \<open>config/mod.rs\<close>, the choice of the storage and the responses of \<open>metrics/mod.rs\<close>,
  \<open>Server_Auth\<close> the providers and the service of \<open>auth\<close>, \<open>Client_Worker\<close> the worker of a connection,
  \<open>Server_Connect\<close> the handshake, the brokers by tenant and the listeners. \<open>Client_Props\<close> shows that the client worker
  does what a machine without timers does, and from it when the will is published and when the
  keep-alive time ends a connection; \<open>Server_Props\<close> who is let in, that nothing is reached
  before that, one broker for a tenant, and that a listener with a certificate serves TLS only.

  \<^bold>\<open>Not modelled.\<close> Logging, the metrics' counters, the HTTP server, signals and the start of the process do
  I/O only. The tests are not modelled. SQLite is read as its statements say: the order of rows is that of
  \<open>ORDER BY\<close> where there is one and of the row ids elsewhere, and times are seconds. The load of the authentication
  service, the order in which channels of different senders are read, and the memory that unbounded
  channels take are outside the model.
\<close>

end
